(* ===== verification/Prelude.thy ===== *)
theory Prelude
  imports Complex_Main "HOL-Library.List_Lexorder" "HOL-Library.Char_ord"
    "HOL-Library.Product_Lexorder"
begin

text \<open>
  What every component shares: the error model of \<open>packages/core/src/errors.ts\<close> and
  \<open>result.ts\<close>, the JavaScript string and date operations the source uses, and a few
  generic lemmas on lists and association lists.

  Strings are lists of code units; the operations are exact for code units below 256
  (Latin-1), which covers every literal of the source, except that \<open>toUpperCase\<close> maps the code units
  181, 223 and 255 out of that range, which \<open>js_upper\<close> leaves as they are.  Numbers that the source uses as
  integers (timestamps, counters, quantities, sizes) are \<^typ>\<open>int\<close> or \<^typ>\<open>nat\<close>.
\<close>

named_theorems comp_defs \<open>definitions of operations unfolded together\<close>
named_theorems frame_simps \<open>state fields an operation does not write\<close>

section \<open>Errors and results\<close>

datatype error_code =
    Unauthorized | Forbidden | Capability_denied | Not_found
  | Validation | Conflict | Rate_limited | Internal

datatype press_error = PressError (code: error_code) (message: string)

type_synonym 'a result = "press_error + 'a"

definition is_ok :: "'a result \<Rightarrow> bool" where
  "is_ok r = (case r of Inl _ \<Rightarrow> False | Inr _ \<Rightarrow> True)"

lemma is_ok_simps [simp]: "is_ok (Inr x)" "\<not> is_ok (Inl e)"
  by (simp_all add: is_ok_def)

text \<open>An operation on a state \<open>'s\<close> that may throw: the effects made before the throw stay.\<close>

type_synonym ('s, 'a) action = "'s \<Rightarrow> 'a result \<times> 's"

text \<open>A plain \<open>throw new Error(m)\<close>, which every caller turns into an internal error.\<close>

definition js_error :: "string \<Rightarrow> press_error" where
  "js_error m = PressError Internal m"

text \<open>
  \<open>xs.sort(cmp)\<close>: the sort is stable, so for a consistent comparison its result is that of inserting
  the elements one after the other behind those they do not precede.
\<close>

fun js_insert :: "('a \<Rightarrow> 'a \<Rightarrow> int) \<Rightarrow> 'a \<Rightarrow> 'a list \<Rightarrow> 'a list" where
  "js_insert cmp x [] = [x]"
| "js_insert cmp x (y # ys) = (if cmp x y < 0 then x # y # ys else y # js_insert cmp x ys)"

definition js_sort :: "('a \<Rightarrow> 'a \<Rightarrow> int) \<Rightarrow> 'a list \<Rightarrow> 'a list" where
  "js_sort cmp xs = foldl (\<lambda>acc x. js_insert cmp x acc) [] xs"

lemma set_js_insert [simp]: "set (js_insert cmp x ys) = insert x (set ys)"
  by (induction ys) auto

lemma length_js_insert [simp]: "length (js_insert cmp x ys) = Suc (length ys)"
  by (induction ys) auto

lemma set_js_sort [simp]: "set (js_sort cmp xs) = set xs"
proof -
  have "set (foldl (\<lambda>acc x. js_insert cmp x acc) acc xs) = set acc \<union> set xs" for acc
    by (induction xs arbitrary: acc) auto
  then show ?thesis by (simp add: js_sort_def)
qed

lemma length_js_sort [simp]: "length (js_sort cmp xs) = length xs"
proof -
  have "length (foldl (\<lambda>acc x. js_insert cmp x acc) acc xs) = length acc + length xs" for acc
    by (induction xs arbitrary: acc) auto
  then show ?thesis by (simp add: js_sort_def)
qed

section \<open>JavaScript strings\<close>

definition is_js_space :: "char \<Rightarrow> bool" where
  "is_js_space c = (let n = (of_char c :: nat) in (9 \<le> n \<and> n \<le> 13) \<or> n = 32 \<or> n = 160)"

definition js_trim :: "string \<Rightarrow> string" where
  "js_trim s = rev (dropWhile is_js_space (rev (dropWhile is_js_space s)))"

definition char_lower :: "char \<Rightarrow> char" where
  "char_lower c =
     (let n = (of_char c :: nat) in
      if (65 \<le> n \<and> n \<le> 90) \<or> (192 \<le> n \<and> n \<le> 222 \<and> n \<noteq> 215) then char_of (n + 32) else c)"

definition js_lower :: "string \<Rightarrow> string" where
  "js_lower s = map char_lower s"

definition char_upper :: "char \<Rightarrow> char" where
  "char_upper c =
     (let n = (of_char c :: nat) in
      if (97 \<le> n \<and> n \<le> 122) \<or> (224 \<le> n \<and> n \<le> 254 \<and> n \<noteq> 247) then char_of (n - 32) else c)"

definition js_upper :: "string \<Rightarrow> string" where
  "js_upper s = map char_upper s"

fun js_prefix :: "string \<Rightarrow> string \<Rightarrow> bool" where
  "js_prefix [] s = True"
| "js_prefix (p # ps) [] = False"
| "js_prefix (p # ps) (c # cs) = (p = c \<and> js_prefix ps cs)"

fun js_includes :: "string \<Rightarrow> string \<Rightarrow> bool" where
  "js_includes [] p = (p = [])"
| "js_includes (c # cs) p = (js_prefix p (c # cs) \<or> js_includes cs p)"

definition js_suffix :: "string \<Rightarrow> string \<Rightarrow> bool" where
  "js_suffix p s = js_prefix (rev p) (rev s)"

text \<open>\<open>s.split(c)\<close> for a separator of one character.\<close>

fun js_split :: "char \<Rightarrow> string \<Rightarrow> string list" where
  "js_split d [] = [[]]"
| "js_split d (c # cs) =
     (if c = d then [] # js_split d cs
      else case js_split d cs of [] \<Rightarrow> [[c]] | w # ws \<Rightarrow> (c # w) # ws)"

fun js_join :: "string \<Rightarrow> string list \<Rightarrow> string" where
  "js_join sep [] = []"
| "js_join sep [w] = w"
| "js_join sep (w # ws) = w @ sep @ js_join sep ws"

definition is_digit :: "char \<Rightarrow> bool" where
  "is_digit c = (let n = (of_char c :: nat) in 48 \<le> n \<and> n \<le> 57)"

definition is_alpha :: "char \<Rightarrow> bool" where
  "is_alpha c = (let n = (of_char c :: nat) in (65 \<le> n \<and> n \<le> 90) \<or> (97 \<le> n \<and> n \<le> 122))"

definition is_alnum :: "char \<Rightarrow> bool" where
  "is_alnum c = (is_digit c \<or> is_alpha c)"

fun nat_digits :: "nat \<Rightarrow> string" where
  "nat_digits n = (if n < 10 then [char_of (48 + n)] else nat_digits (n div 10) @ [char_of (48 + n mod 10)])"

declare nat_digits.simps [simp del]

definition int_string :: "int \<Rightarrow> string" where
  "int_string i = (if i < 0 then CHR ''-'' # nat_digits (nat (- i)) else nat_digits (nat i))"

definition pad_start :: "nat \<Rightarrow> char \<Rightarrow> string \<Rightarrow> string" where
  "pad_start w c s = replicate (w - length s) c @ s"

text \<open>\<open>Buffer.byteLength\<close>: UTF-8 takes two bytes for a code unit from 128 to 255.\<close>

definition byteLength :: "string \<Rightarrow> nat" where
  "byteLength s = (\<Sum>c \<leftarrow> s. if (of_char c :: nat) < 128 then 1 else 2)"

section \<open>Dates\<close>

text \<open>
  \<open>new Date(t).toISOString()\<close> for a time value \<open>t\<close> in milliseconds whose year has four
  digits: the proleptic Gregorian date of the day count, then the time of day.
\<close>

definition civil_from_days :: "int \<Rightarrow> int \<times> int \<times> int" where
  "civil_from_days z0 =
     (let z = z0 + 719468; era = z div 146097; doe = z - era * 146097;
          yoe = (doe - doe div 1460 + doe div 36524 - doe div 146096) div 365;
          doy = doe - (365 * yoe + yoe div 4 - yoe div 100);
          mp = (5 * doy + 2) div 153; d = doy - (153 * mp + 2) div 5 + 1;
          m = (if mp < 10 then mp + 3 else mp - 9);
          y = yoe + era * 400 + (if m \<le> 2 then 1 else 0)
      in (y, m, d))"

definition pad_int :: "nat \<Rightarrow> int \<Rightarrow> string" where
  "pad_int w i = pad_start w (CHR ''0'') (int_string i)"

definition iso_string :: "int \<Rightarrow> string" where
  "iso_string t =
     (let days = t div 86400000; ms = t mod 86400000; (y, m, d) = civil_from_days days in
      pad_int 4 y @ ''-'' @ pad_int 2 m @ ''-'' @ pad_int 2 d @ ''T'' @
      pad_int 2 (ms div 3600000) @ '':'' @ pad_int 2 (ms div 60000 mod 60) @ '':'' @
      pad_int 2 (ms div 1000 mod 60) @ ''.'' @ pad_int 3 (ms mod 1000) @ ''Z'')"

section \<open>Generic lemmas\<close>

lemma dropWhile_idem [simp]: "dropWhile P (dropWhile P xs) = dropWhile P xs"
  by (induction xs) auto

lemma hd_dropWhile_not: "dropWhile P xs = y # ys \<Longrightarrow> \<not> P y"
  by (induction xs) (auto split: if_splits)

lemma dropWhile_fixed: "xs = [] \<or> \<not> P (hd xs) \<Longrightarrow> dropWhile P xs = xs"
  by (cases xs) auto

lemma js_trim_ends:
  assumes "js_trim s \<noteq> []"
  shows "\<not> is_js_space (hd (js_trim s))" "\<not> is_js_space (last (js_trim s))"
proof -
  let ?d = "dropWhile is_js_space s"
  have ne: "dropWhile is_js_space (rev ?d) \<noteq> []" using assms by (auto simp: js_trim_def)
  then have "\<not> is_js_space (hd (dropWhile is_js_space (rev ?d)))" by (rule hd_dropWhile)
  then show "\<not> is_js_space (last (js_trim s))"
    using ne by (simp add: js_trim_def last_rev)
  obtain u where u: "rev ?d = u @ dropWhile is_js_space (rev ?d)"
    by (metis takeWhile_dropWhile_id)
  then have "?d = js_trim s @ rev u" by (metis js_trim_def rev_append rev_rev_ident)
  moreover have "?d \<noteq> []" using calculation assms by simp
  then have "\<not> is_js_space (hd ?d)" by (rule hd_dropWhile)
  ultimately show "\<not> is_js_space (hd (js_trim s))" using assms by (cases "js_trim s") auto
qed

lemma js_trim_idem [simp]: "js_trim (js_trim s) = js_trim s"
proof (cases "js_trim s = []")
  case True
  then have "js_trim (js_trim s) = js_trim []" by simp
  also have "\<dots> = []" by (simp add: js_trim_def)
  finally show ?thesis using True by simp
next
  case False
  note e = js_trim_ends [OF False]
  have "dropWhile is_js_space (js_trim s) = js_trim s"
    using e(1) False by (intro dropWhile_fixed) simp
  moreover have "dropWhile is_js_space (rev (js_trim s)) = rev (js_trim s)"
    using e(2) False by (intro dropWhile_fixed) (simp add: hd_rev)
  ultimately show ?thesis by (subst js_trim_def) simp
qed

lemma char_lower_space [simp]: "is_js_space (char_lower c) = is_js_space c"
  by (auto simp: is_js_space_def char_lower_def Let_def)

lemma char_lower_idem [simp]: "char_lower (char_lower c) = char_lower c"
  by (auto simp: char_lower_def Let_def)

lemma js_lower_idem [simp]: "js_lower (js_lower s) = js_lower s"
  by (simp add: js_lower_def)

lemma js_trim_lower: "js_trim (js_lower s) = js_lower (js_trim s)"
  by (simp add: js_trim_def js_lower_def dropWhile_map rev_map comp_def)

lemma js_split_not_Nil [simp]: "js_split d s \<noteq> []"
  by (induction s) (auto split: list.splits)

lemma js_join_split: "js_join [d] (js_split d s) = s"
proof (induction s)
  case Nil
  then show ?case by simp
next
  case (Cons c cs)
  obtain w ws where w: "js_split d cs = w # ws" by (cases "js_split d cs") auto
  with Cons show ?case by (cases ws) auto
qed

lemma js_split_no_sep: "w \<in> set (js_split d s) \<Longrightarrow> d \<notin> set w"
  by (induction s arbitrary: w) (auto split: list.splits if_splits)

lemma js_split_append:
  "d \<notin> set w \<Longrightarrow> js_split d (w @ d # s) = w # js_split d s"
  by (induction w) auto

lemma js_split_single: "d \<notin> set w \<Longrightarrow> js_split d w = [w]"
  by (induction w) auto

lemma js_split_join: "xs \<noteq> [] \<Longrightarrow> (\<And>w. w \<in> set xs \<Longrightarrow> d \<notin> set w) \<Longrightarrow> js_split d (js_join [d] xs) = xs"
  by (induction xs rule: induct_list012) (auto simp: js_split_single js_split_append)

lemma js_prefix_iff: "js_prefix p s \<longleftrightarrow> (\<exists>r. s = p @ r)"
  by (induction p s rule: js_prefix.induct) auto

lemma js_includes_iff: "js_includes s p \<longleftrightarrow> (\<exists>a b. s = a @ p @ b)"
proof (induction s)
  case Nil
  then show ?case by auto
next
  case (Cons c cs)
  show ?case
  proof
    assume "js_includes (c # cs) p"
    then consider "js_prefix p (c # cs)" | "js_includes cs p" by auto
    then show "\<exists>a b. c # cs = a @ p @ b"
    proof cases
      case 1
      then show ?thesis by (metis append_Nil js_prefix_iff)
    next
      case 2
      then show ?thesis using Cons.IH by (metis append_Cons)
    qed
  next
    assume "\<exists>a b. c # cs = a @ p @ b"
    then obtain a b where ab: "c # cs = a @ p @ b" by blast
    show "js_includes (c # cs) p"
    proof (cases a)
      case Nil
      then have "js_prefix p (c # cs)" using ab by (auto simp: js_prefix_iff)
      then show ?thesis by simp
    next
      case (Cons x xs)
      then show ?thesis using ab Cons.IH by auto
    qed
  qed
qed

lemma nat_digits_digit: "c \<in> set (nat_digits n) \<Longrightarrow> is_digit c"
proof (induction n rule: nat_digits.induct)
  case (1 n)
  have d: "is_digit (char_of (48 + k))" if "k < 10" for k :: nat
    using that by (simp add: is_digit_def Let_def)
  from "1.prems" show ?case
    by (subst (asm) nat_digits.simps) (auto split: if_splits simp: d dest: "1.IH")
qed

lemma nat_digits_not_Nil [simp]: "nat_digits n \<noteq> []"
  by (subst nat_digits.simps) simp

section \<open>Objects as ordered entry lists\<close>

text \<open>\<open>obj[k] = v\<close>: an existing key keeps its place.\<close>

fun obj_set :: "string \<Rightarrow> 'v \<Rightarrow> (string \<times> 'v) list \<Rightarrow> (string \<times> 'v) list" where
  "obj_set k v [] = [(k, v)]"
| "obj_set k v ((k', v') # kvs) = (if k = k' then (k, v) # kvs else (k', v') # obj_set k v kvs)"

definition obj_assign :: "(string \<times> 'v) list \<Rightarrow> (string \<times> 'v) list \<Rightarrow> (string \<times> 'v) list" where
  "obj_assign a b = foldl (\<lambda>acc (k, v). obj_set k v acc) a b"

lemma map_of_obj_set: "map_of (obj_set k v kvs) = (map_of kvs)(k \<mapsto> v)"
  by (induction kvs) (auto simp: fun_eq_iff)

lemma keys_obj_set: "fst ` set (obj_set k v kvs) = insert k (fst ` set kvs)"
  by (induction k v kvs rule: obj_set.induct) (simp_all add: insert_commute)

lemma distinct_obj_set: "distinct (map fst kvs) \<Longrightarrow> distinct (map fst (obj_set k v kvs))"
proof (induction kvs)
  case (Cons x kvs)
  obtain k' v' where x: "x = (k', v')" by force
  have "k' \<notin> fst ` set (obj_set k v kvs)" if "k \<noteq> k'" using Cons.prems x that by (auto simp: keys_obj_set)
  then show ?case using Cons x by auto
qed simp

lemma obj_set_new: "k \<notin> fst ` set kvs \<Longrightarrow> obj_set k v kvs = kvs @ [(k, v)]"
  by (induction kvs) auto

lemma obj_assign_distinct:
  "distinct (map fst b) \<Longrightarrow> fst ` set a \<inter> fst ` set b = {} \<Longrightarrow> obj_assign a b = a @ b"
  unfolding obj_assign_def
proof (induction b arbitrary: a)
  case (Cons x b)
  obtain k v where x: "x = (k, v)" by force
  have "obj_set k v a = a @ [(k, v)]" using Cons.prems x by (intro obj_set_new) auto
  then show ?case using Cons.IH [of "a @ [(k, v)]"] Cons.prems x by auto
qed simp

lemma map_of_rev_distinct: "distinct (map fst kvs) \<Longrightarrow> map_of (rev kvs) = map_of kvs"
  by (intro map_of_eqI) (auto simp: rev_map [symmetric] map_of_eq_Some_iff distinct_map)

lemma map_of_obj_assign: "map_of (obj_assign a b) = map_of a ++ map_of (rev b)"
  unfolding obj_assign_def
proof (induction b arbitrary: a)
  case (Cons x b)
  obtain k v where x: "x = (k, v)" by force
  show ?case by (simp add: x Cons.IH map_of_obj_set map_add_upd_left flip: map_add_upd)
     (simp add: fun_eq_iff map_add_def split: option.splits)
qed simp

end
