(* ===== verification/Access.thy ===== *)
theory Access
  imports Prelude
begin

text \<open>
  Who may do what: capability strings and the default-deny gate
  (\<open>packages/core/src/capabilities.ts\<close>), the roles (\<open>auth/roles.ts\<close>), the fixed-window rate
  limiter (\<open>auth/rate-limit.ts\<close>), the hook bus (\<open>hooks.ts\<close>) and the configuration
  (\<open>config.ts\<close>).
\<close>

section \<open>Capabilities\<close>

record capability =
  cap_path :: "string list"
  cap_scope :: "string option"

definition parseCapability :: "string \<Rightarrow> capability" where
  "parseCapability cap =
     (let pathPart = takeWhile (\<lambda>c. c \<noteq> CHR '':'') cap;
          rest = dropWhile (\<lambda>c. c \<noteq> CHR '':'') cap
      in \<lparr>cap_path = filter (\<lambda>segment. segment \<noteq> []) (js_split (CHR ''.'') pathPart),
          cap_scope = (case rest of [] \<Rightarrow> None | _ # scope \<Rightarrow> Some scope)\<rparr>)"

fun pathMatches :: "string list \<Rightarrow> string list \<Rightarrow> bool" where
  "pathMatches [] required = (required = [])"
| "pathMatches (g # gs) required =
     (if g = ''**'' then True
      else case required of [] \<Rightarrow> False
        | r # rs \<Rightarrow> if g = ''*'' then pathMatches gs rs
                   else if g \<noteq> r then False else pathMatches gs rs)"

definition scopeMatches :: "string option \<Rightarrow> string option \<Rightarrow> bool" where
  "scopeMatches granted required = (if granted = Some ''*'' then True else granted = required)"

definition capabilityMatches :: "string \<Rightarrow> string \<Rightarrow> bool" where
  "capabilityMatches granted required =
     (if granted = ''*'' then True
      else let g = parseCapability granted; r = parseCapability required in
        if \<not> pathMatches (cap_path g) (cap_path r) then False
        else scopeMatches (cap_scope g) (cap_scope r))"

definition gate_check :: "string list \<Rightarrow> string \<Rightarrow> bool" where
  "gate_check granted required = list_ex (\<lambda>g. capabilityMatches g required) granted"

definition gate_assert :: "string list \<Rightarrow> string \<Rightarrow> unit result" where
  "gate_assert granted required =
     (if \<not> gate_check granted required
      then Inl (PressError Capability_denied (''Capability denied: '' @ required)) else Inr ())"

text \<open>
  The language of a path pattern: up to the first \<open>**\<close> the segments match one to one (with \<open>*\<close>
  for any segment); a \<open>**\<close> takes whatever follows, nothing included.
\<close>

definition segment_matches :: "string \<Rightarrow> string \<Rightarrow> bool" where
  "segment_matches g r \<longleftrightarrow> g = ''*'' \<or> g = r"

definition path_language :: "string list \<Rightarrow> string list set" where
  "path_language g =
     (let p = takeWhile (\<lambda>s. s \<noteq> ''**'') g in
      {r. list_all2 segment_matches p (take (length p) r) \<and> (''**'' \<notin> set g \<longrightarrow> length r = length p)})"

lemma pathMatches_language: "pathMatches g r \<longleftrightarrow> r \<in> path_language g"
proof (induction g r rule: pathMatches.induct)
  case (1 required)
  then show ?case by (simp add: path_language_def)
next
  case (2 g gs required)
  then show ?case
    by (cases required) (auto simp: path_language_def segment_matches_def Let_def)
qed

lemma path_literal:
  "list_all (\<lambda>s. s \<noteq> ''*'' \<and> s \<noteq> ''**'') g \<Longrightarrow> pathMatches g r \<longleftrightarrow> r = g"
proof (induction g arbitrary: r)
  case Nil
  then show ?case by simp
next
  case (Cons a g)
  then show ?case by (cases r) auto
qed

lemma gate_check_mono: "set g \<subseteq> set g' \<Longrightarrow> gate_check g req \<Longrightarrow> gate_check g' req"
  by (auto simp: gate_check_def list_ex_iff)

section \<open>Roles\<close>

definition ROLE_NAMES :: "string list" where
  "ROLE_NAMES = [''owner'', ''admin'', ''editor'', ''author'', ''viewer'']"

definition ROLE_CAPABILITIES :: "string \<Rightarrow> string list option" where
  "ROLE_CAPABILITIES role =
     map_of
       [(''owner'', [''*'']),
        (''admin'',
          [''users.manage'', ''plugins.manage'', ''themes.manage'', ''settings.manage'', ''types.manage'',
           ''content.*'', ''media.*'', ''menus.manage'', ''forms.manage'', ''gdpr.manage'',
           ''members.manage'', ''audit.read'', ''db.manage'', ''backups.manage'', ''redirects.manage'']),
        (''editor'',
          [''content.create'', ''content.read'', ''content.reveal'', ''content.update'',
           ''content.submit'', ''content.publish'', ''media.write'', ''media.read'',
           ''menus.manage'', ''forms.manage'']),
        (''author'',
          [''content.create'', ''content.read'', ''content.update'', ''content.submit'',
           ''media.write'', ''media.read'']),
        (''viewer'', [''content.read'', ''media.read''])] role"

definition isRoleName :: "string \<Rightarrow> bool" where
  "isRoleName v = List.member ROLE_NAMES v"

text \<open>A JavaScript set iterates in the order of first insertion.\<close>

definition js_unique :: "'a list \<Rightarrow> 'a list" where
  "js_unique xs = rev (remdups (rev xs))"

text \<open>\<^const>\<open>None\<close> is the TypeError of iterating \<open>undefined\<close>, for a name that is no role.\<close>

fun role_caps :: "string list \<Rightarrow> string list option" where
  "role_caps [] = Some []"
| "role_caps (r # rs) =
     (case ROLE_CAPABILITIES r of None \<Rightarrow> None
      | Some cs \<Rightarrow> (case role_caps rs of None \<Rightarrow> None | Some ds \<Rightarrow> Some (cs @ ds)))"

definition capabilitiesForRoles :: "string list \<Rightarrow> string list option" where
  "capabilitiesForRoles roles = map_option js_unique (role_caps roles)"

lemma set_js_unique [simp]: "set (js_unique xs) = set xs"
  by (simp add: js_unique_def)

lemma distinct_js_unique [simp]: "distinct (js_unique xs)"
  by (simp add: js_unique_def)

lemma isRoleName_iff: "isRoleName r \<longleftrightarrow> ROLE_CAPABILITIES r \<noteq> None"
  by (auto simp: isRoleName_def ROLE_NAMES_def ROLE_CAPABILITIES_def)

lemma role_caps_Some:
  "list_all isRoleName rs \<Longrightarrow> \<exists>cs. role_caps rs = Some cs \<and>
     set cs = (\<Union>r \<in> set rs. set (the (ROLE_CAPABILITIES r)))"
  by (induction rs) (auto simp: isRoleName_iff)

lemma capabilitiesForRoles_Some:
  "list_all isRoleName rs \<Longrightarrow> \<exists>cs. capabilitiesForRoles rs = Some cs \<and> distinct cs \<and>
     set cs = (\<Union>r \<in> set rs. set (the (ROLE_CAPABILITIES r)))"
  using role_caps_Some [of rs] by (auto simp: capabilitiesForRoles_def)

text \<open>The roles form a chain: every requirement a role satisfies, the next one satisfies too.\<close>

fun role_rank :: "string \<Rightarrow> nat" where
  "role_rank r =
     (if r = ''owner'' then 4 else if r = ''admin'' then 3 else if r = ''editor'' then 2
      else if r = ''author'' then 1 else 0)"

definition role_allows :: "string \<Rightarrow> string \<Rightarrow> bool" where
  "role_allows role req =
     (case ROLE_CAPABILITIES role of None \<Rightarrow> False | Some caps \<Rightarrow> gate_check caps req)"

lemma cap_refl_literal:
  assumes "capabilityMatches c req" "c \<noteq> ''*''" "cap_scope (parseCapability c) = None"
    "list_all (\<lambda>s. s \<noteq> ''*'' \<and> s \<noteq> ''**'') (cap_path (parseCapability c))"
  shows "cap_path (parseCapability req) = cap_path (parseCapability c) \<and>
    cap_scope (parseCapability req) = None"
  using assms by (auto simp: capabilityMatches_def Let_def path_literal scopeMatches_def split: if_splits)

lemma editor_below_admin:
  assumes "role_allows ''editor'' req" shows "role_allows ''admin'' req"
proof -
  let ?p = "cap_path (parseCapability req)" and ?s = "cap_scope (parseCapability req)"
  obtain c where c: "c \<in> set (the (ROLE_CAPABILITIES ''editor''))" "capabilityMatches c req"
    using assms by (auto simp: role_allows_def gate_check_def list_ex_iff split: option.splits)
  have "c \<noteq> ''*''" "cap_scope (parseCapability c) = None"
    "list_all (\<lambda>s. s \<noteq> ''*'' \<and> s \<noteq> ''**'') (cap_path (parseCapability c))"
    using c(1) by (auto simp: ROLE_CAPABILITIES_def parseCapability_def Let_def)
  from cap_refl_literal [OF c(2) this]
  have "?p = cap_path (parseCapability c)" "?s = None" by auto
  moreover have "\<exists>d \<in> set (the (ROLE_CAPABILITIES ''admin'')).
      pathMatches (cap_path (parseCapability d)) (cap_path (parseCapability c)) \<and>
      cap_scope (parseCapability d) = None"
    using c(1) by (auto simp: ROLE_CAPABILITIES_def parseCapability_def Let_def)
  ultimately show ?thesis
    by (auto simp: role_allows_def gate_check_def list_ex_iff capabilityMatches_def Let_def
        scopeMatches_def isRoleName_iff [symmetric] isRoleName_def ROLE_NAMES_def
        split: option.splits)
      (metis isRoleName_def isRoleName_iff List.member_iff ROLE_NAMES_def list.set_intros not_None_eq)+
qed

lemma viewer_below_author: "role_allows ''viewer'' req \<Longrightarrow> role_allows ''author'' req"
  by (auto simp: role_allows_def ROLE_CAPABILITIES_def gate_check_def)

lemma author_below_editor: "role_allows ''author'' req \<Longrightarrow> role_allows ''editor'' req"
  by (auto simp: role_allows_def ROLE_CAPABILITIES_def gate_check_def)

lemma owner_allows_all: "role_allows ''owner'' req"
  by (simp add: role_allows_def ROLE_CAPABILITIES_def gate_check_def capabilityMatches_def)

section \<open>Rate limiter\<close>

record rate_opts =
  rl_limit :: int
  rl_window :: int

type_synonym rate_state = "string \<rightharpoonup> int \<times> int"

text \<open>\<open>check\<close>: the entry of a key holds its count and the time its window ends.\<close>

definition rate_check :: "rate_opts \<Rightarrow> int \<Rightarrow> string \<Rightarrow> rate_state \<Rightarrow> bool \<times> rate_state" where
  "rate_check opts t key hits =
     (case hits key of
        None \<Rightarrow> (True, hits(key \<mapsto> (1, t + rl_window opts)))
      | Some (count, resetAt) \<Rightarrow>
          if resetAt \<le> t then (True, hits(key \<mapsto> (1, t + rl_window opts)))
          else if count \<ge> rl_limit opts then (False, hits)
          else (True, hits(key \<mapsto> (count + 1, resetAt))))"

definition rate_reset :: "string \<Rightarrow> rate_state \<Rightarrow> rate_state" where
  "rate_reset key hits = hits(key := None)"

fun rate_run :: "rate_opts \<Rightarrow> (int \<times> string) list \<Rightarrow> rate_state \<Rightarrow> bool list \<times> rate_state" where
  "rate_run opts [] hits = ([], hits)"
| "rate_run opts ((t, k) # rest) hits =
     (let (b, hits1) = rate_check opts t k hits; (bs, hits2) = rate_run opts rest hits1
      in (b # bs, hits2))"

text \<open>The requests of one key that a run lets through.\<close>

fun allowed :: "string \<Rightarrow> (int \<times> string) list \<Rightarrow> bool list \<Rightarrow> nat" where
  "allowed k ((t, k') # reqs) (b # bs) = (if k' = k \<and> b then 1 else 0) + allowed k reqs bs"
| "allowed k _ _ = 0"

lemma rate_run_window:
  assumes "hits k = Some (n, r)" "\<forall>(t, k') \<in> set reqs. t < r"
  shows "int (allowed k reqs (fst (rate_run opts reqs hits))) \<le> max 0 (rl_limit opts - n)"
  using assms
proof (induction reqs arbitrary: hits n)
  case Nil
  then show ?case by simp
next
  case (Cons a reqs)
  obtain t k' where a: "a = (t, k')" by force
  obtain b hits1 where c: "rate_check opts t k' hits = (b, hits1)" by force
  show ?case
  proof (cases "k' = k")
    case False
    then have "hits1 k = Some (n, r)"
      using c Cons.prems(1) by (auto simp: rate_check_def split: option.splits if_splits)
    from Cons.IH [of hits1 n, OF this] Cons.prems(2)
    have "int (allowed k reqs (fst (rate_run opts reqs hits1))) \<le> max 0 (rl_limit opts - n)" by simp
    then show ?thesis using a c False by (auto split: prod.splits)
  next
    case True
    have b: "b \<longleftrightarrow> n < rl_limit opts" "hits1 k = Some (if b then n + 1 else n, r)"
      using c Cons.prems a True by (auto simp: rate_check_def split: if_splits)
    have "int (allowed k reqs (fst (rate_run opts reqs hits1))) \<le>
        max 0 (rl_limit opts - (if b then n + 1 else n))"
      using Cons.IH [of hits1 "if b then n + 1 else n", OF b(2)] Cons.prems(2) by simp
    then show ?thesis using a c True b(1) by (auto split: prod.splits if_splits)
  qed
qed

section \<open>Hook bus\<close>

record 'h registration =
  reg_fn :: 'h
  priority :: int
  reg_seq :: nat

record 'h hook_bus =
  hooks :: "string \<rightharpoonup> 'h registration list"
  next_seq :: nat

definition hook_key :: "'h registration \<Rightarrow> int \<times> nat" where
  "hook_key r = (priority r, reg_seq r)"

text \<open>\<open>on\<close> returns the registration, which its unsubscribe function removes.\<close>

definition hook_on :: "string \<Rightarrow> 'h \<Rightarrow> int option \<Rightarrow> 'h hook_bus \<Rightarrow> 'h registration \<times> 'h hook_bus" where
  "hook_on name fn prio bus =
     (let lst = (case hooks bus name of None \<Rightarrow> [] | Some l \<Rightarrow> l);
          reg = \<lparr>reg_fn = fn, priority = (case prio of None \<Rightarrow> 0 | Some p \<Rightarrow> p), reg_seq = next_seq bus\<rparr>
      in (reg, bus\<lparr>hooks := (hooks bus)(name \<mapsto> sort_key hook_key (lst @ [reg])),
                   next_seq := next_seq bus + 1\<rparr>))"

definition hook_off :: "string \<Rightarrow> 'h registration \<Rightarrow> 'h hook_bus \<Rightarrow> 'h hook_bus" where
  "hook_off name reg bus =
     (case hooks bus name of None \<Rightarrow> bus
      | Some current \<Rightarrow> bus\<lparr>hooks := (hooks bus)(name \<mapsto> remove1 reg current)\<rparr>)"

text \<open>The handlers \<open>emit\<close> awaits, in order.\<close>

definition hook_emit :: "string \<Rightarrow> 'h hook_bus \<Rightarrow> 'h list" where
  "hook_emit name bus = (case hooks bus name of None \<Rightarrow> [] | Some l \<Rightarrow> map reg_fn l)"

definition hook_inv :: "'h hook_bus \<Rightarrow> bool" where
  "hook_inv bus \<longleftrightarrow> (\<forall>name l. hooks bus name = Some l \<longrightarrow>
     sorted (map hook_key l) \<and> distinct (map reg_seq l) \<and> (\<forall>r \<in> set l. reg_seq r < next_seq bus))"

lemma hook_on_inv: "hook_inv bus \<Longrightarrow> hook_inv (snd (hook_on name fn prio bus))"
  by (fastforce simp: hook_inv_def hook_on_def Let_def distinct_map inj_on_def less_Suc_eq
      split: option.splits if_splits)

lemma hook_off_inv: "hook_inv bus \<Longrightarrow> hook_inv (hook_off name reg bus)"
  by (auto simp: hook_inv_def hook_off_def sorted_remove1 distinct_map intro: inj_on_subset
      split: option.splits dest: set_remove1_subset [THEN subsetD])
     (metis sorted_map_remove1 set_remove1_subset inj_on_subset)+

section \<open>Configuration\<close>

datatype app_env = Development | Production | Test

record pressh_config =
  cfg_env :: app_env
  allowUnsignedPlugins :: bool

definition loadConfig ::
  "(string \<rightharpoonup> string) \<Rightarrow> app_env option \<Rightarrow> bool option \<Rightarrow> pressh_config" where
  "loadConfig source o_env o_allow =
     (let rawEnv = source ''NODE_ENV'';
          env = (if rawEnv = Some ''production'' then Production
                 else if rawEnv = Some ''test'' then Test else Development);
          allow = (case o_allow of Some b \<Rightarrow> b
                   | None \<Rightarrow> env \<noteq> Production \<or> source ''PRESSH_ALLOW_UNSIGNED'' = Some ''1'')
      in \<lparr>cfg_env = (case o_env of Some e \<Rightarrow> e | None \<Rightarrow> env), allowUnsignedPlugins = allow\<rparr>)"

end
