(* ===== verification/Totp.thy ===== *)
theory Totp
  imports Prelude "HOL-Library.Word"
begin

unbundle bit_operations_syntax

text \<open>
  RFC 6238 one-time passwords as \<open>packages/core/src/auth/totp.ts\<close> computes them: base32 over a
  32-bit accumulator, HOTP with dynamic truncation, and verification over a window of steps.
  HMAC-SHA1 is a parameter, a function from key and message bytes to digest bytes.
\<close>

type_synonym byte = "8 word"

section \<open>Base32\<close>

definition BASE32_ALPHABET :: string where
  "BASE32_ALPHABET = ''ABCDEFGHIJKLMNOPQRSTUVWXYZ234567''"

text \<open>
  \<open>value\<close> is a JavaScript number used through the 32-bit operators: \<open><<\<close> drops the high bits
  and \<open>>>>\<close> reads the 32-bit pattern, so the accumulator is a 32-bit word.
\<close>

fun enc_emit :: "nat \<Rightarrow> 32 word \<Rightarrow> string \<Rightarrow> nat \<times> string" where
  "enc_emit bits v out =
     (if bits \<ge> 5
      then enc_emit (bits - 5) v
             (out @ [BASE32_ALPHABET ! unat (drop_bit (bits - 5) v AND 31)])
      else (bits, out))"

declare enc_emit.simps [simp del]

fun enc_loop :: "byte list \<Rightarrow> nat \<Rightarrow> 32 word \<Rightarrow> string \<Rightarrow> nat \<times> 32 word \<times> string" where
  "enc_loop [] bits v out = (bits, v, out)"
| "enc_loop (b # bs) bits v out =
     (let v' = push_bit 8 v OR ucast b; (bits', out') = enc_emit (bits + 8) v' out
      in enc_loop bs bits' v' out')"

definition base32Encode :: "byte list \<Rightarrow> string" where
  "base32Encode buf =
     (case enc_loop buf 0 0 [] of (bits, v, out) \<Rightarrow>
        if bits > 0 then out @ [BASE32_ALPHABET ! unat (push_bit (5 - bits) v AND 31)] else out)"

fun index_of :: "char \<Rightarrow> string \<Rightarrow> nat option" where
  "index_of c [] = None"
| "index_of c (d # ds) = (if c = d then Some 0 else map_option Suc (index_of c ds))"

fun dec_loop :: "string \<Rightarrow> nat \<Rightarrow> 32 word \<Rightarrow> byte list \<Rightarrow> byte list result" where
  "dec_loop [] bits v out = Inr out"
| "dec_loop (c # cs) bits v out =
     (case index_of c BASE32_ALPHABET of
        None \<Rightarrow> Inl (PressError Validation ''Invalid base32 character in secret'')
      | Some idx \<Rightarrow>
          (let v' = push_bit 5 v OR of_nat idx; bits' = bits + 5 in
           if bits' \<ge> 8
           then dec_loop cs (bits' - 8) v' (out @ [ucast (drop_bit (bits' - 8) v' AND 0xff)])
           else dec_loop cs bits' v' out))"

definition base32Clean :: "string \<Rightarrow> string" where
  "base32Clean inp =
     js_upper (filter (\<lambda>c. \<not> is_js_space c) (rev (dropWhile (\<lambda>c. c = CHR ''='') (rev inp))))"

definition base32Decode :: "string \<Rightarrow> byte list result" where
  "base32Decode inp = dec_loop (base32Clean inp) 0 0 []"

section \<open>The bit strings behind the accumulators\<close>

text \<open>The low \<open>k\<close> bits of a word, most significant first.\<close>

definition bl :: "nat \<Rightarrow> 'a::len word \<Rightarrow> bool list" where
  "bl k v = map (bit v) (rev [0..<k])"

lemma length_bl [simp]: "length (bl k v) = k"
  by (simp add: bl_def)

lemma nth_bl: "i < k \<Longrightarrow> bl k v ! i = bit v (k - 1 - i)"
  by (simp add: bl_def rev_nth)

lemma bl_0 [simp]: "bl 0 v = []"
  by (simp add: bl_def)

lemma bl_add: "bl (m + n) v = bl m (drop_bit n v) @ bl n v"
  by (rule nth_equalityI) (auto simp: nth_append nth_bl bit_drop_bit_eq intro!: arg_cong [where f = "bit v"])

lemma bl_drop: "n \<le> k \<Longrightarrow> bl k v = bl (k - n) (drop_bit n v) @ bl n v"
  using bl_add [of "k - n" n v] by simp

lemma bl_push_or:
  fixes v b :: "32 word"
  assumes "k + n \<le> 32" "\<And>j. n \<le> j \<Longrightarrow> \<not> bit b j"
  shows "bl (k + n) (push_bit n v OR b) = bl k v @ bl n b"
proof (rule nth_equalityI)
  fix i assume "i < length (bl (k + n) (push_bit n v OR b))"
  then have i: "i < k + n" by simp
  show "bl (k + n) (push_bit n v OR b) ! i = (bl k v @ bl n b) ! i"
  proof (cases "i < k")
    case True
    then have "\<not> bit b (k + n - Suc i)" using assms(2) [of "k + n - Suc i"] by simp
    moreover have "k + n - Suc i - n = k - Suc i" "n \<le> k + n - Suc i" "k + n - Suc i < 32"
      using True i assms(1) by auto
    ultimately show ?thesis using True i assms(1)
      by (simp add: nth_append nth_bl bit_or_iff bit_push_bit_iff)
  next
    case False
    then have "k + n - Suc i = n - Suc (i - k)" "k + n - Suc i < n" using i by auto
    then show ?thesis using False i
      by (simp add: nth_append nth_bl bit_or_iff bit_push_bit_iff)
  qed
qed simp

lemma bl_cong: "(\<And>j. j < k \<Longrightarrow> bit v j = bit w j) \<Longrightarrow> bl k v = bl k w"
  by (simp add: bl_def)

text \<open>Masks, as the simplifier shows them: bits of integer numerals.\<close>

lemma bit_31: "bit (31 :: int) j \<longleftrightarrow> j < 5"
proof -
  have "(31 :: int) = mask 5" by (simp add: mask_eq_exp_minus_1)
  then show ?thesis by (simp only: bit_mask_iff) auto
qed

lemma bit_255: "bit (255 :: int) j \<longleftrightarrow> j < 8"
proof -
  have "(255 :: int) = mask 8" by (simp add: mask_eq_exp_minus_1)
  then show ?thesis by (simp only: bit_mask_iff) auto
qed

lemma bl_8_inj: "bl 8 (a :: byte) = bl 8 b \<Longrightarrow> a = b"
  by (rule bit_eqI) (auto simp: bl_def dest: bit_imp_le_length)

definition byte_bits :: "byte list \<Rightarrow> bool list" where
  "byte_bits bs = concat (map (bl 8) bs)"

definition char_val :: "char \<Rightarrow> 32 word" where
  "char_val c = of_nat (the (index_of c BASE32_ALPHABET))"

definition char_bits :: "string \<Rightarrow> bool list" where
  "char_bits s = concat (map (\<lambda>c. bl 5 (char_val c)) s)"

lemma char_bits_append [simp]: "char_bits (s @ t) = char_bits s @ char_bits t"
  by (simp add: char_bits_def)

lemma byte_bits_append [simp]: "byte_bits (s @ t) = byte_bits s @ byte_bits t"
  by (simp add: byte_bits_def)

lemma length_byte_bits [simp]: "length (byte_bits bs) = 8 * length bs"
  by (induction bs) (simp_all add: byte_bits_def)

definition in_alphabet :: "char \<Rightarrow> bool" where
  "in_alphabet c \<longleftrightarrow> c \<in> set BASE32_ALPHABET"

lemma alphabet_index_all:
  "list_all (\<lambda>i. index_of (BASE32_ALPHABET ! i) BASE32_ALPHABET = Some i) [0..<32]"
  by code_simp

lemma alphabet_index: "i < 32 \<Longrightarrow> index_of (BASE32_ALPHABET ! i) BASE32_ALPHABET = Some i"
  using alphabet_index_all by (auto simp: list_all_iff)

lemma length_alphabet [simp]: "length BASE32_ALPHABET = 32"
  by (simp add: BASE32_ALPHABET_def)

lemma in_alphabet_nth: "i < 32 \<Longrightarrow> in_alphabet (BASE32_ALPHABET ! i)"
  by (simp add: in_alphabet_def)

lemma in_alphabet_index: "in_alphabet c \<Longrightarrow> \<exists>i < 32. c = BASE32_ALPHABET ! i"
  by (simp add: in_alphabet_def in_set_conv_nth) metis

lemma unat_and_31: "unat (w AND 31 :: 32 word) < 32"
proof -
  have "w AND 31 \<le> 31" by (rule word_and_le1)
  then show ?thesis by (simp add: word_le_nat_alt)
qed

lemma char_bits_emit:
  "char_bits [BASE32_ALPHABET ! unat (w AND 31)] = bl 5 (w :: 32 word)"
  by (auto simp: char_bits_def char_val_def alphabet_index unat_and_31 bit_and_iff bit_31 intro!: bl_cong)

lemma enc_emit_bits:
  "bits \<le> 12 \<Longrightarrow> enc_emit bits v out = (bits', out') \<Longrightarrow> list_all in_alphabet out \<Longrightarrow>
    bits' < 5 \<and> list_all in_alphabet out' \<and>
    char_bits out' @ bl bits' v = char_bits out @ bl bits v"
proof (induction bits v out rule: enc_emit.induct)
  case (1 bits v out)
  show ?case
  proof (cases "5 \<le> bits")
    case False
    then show ?thesis using "1.prems" by (auto simp: enc_emit.simps [of bits])
  next
    case True
    let ?c = "BASE32_ALPHABET ! unat (drop_bit (bits - 5) v AND 31)"
    have "enc_emit (bits - 5) v (out @ [?c]) = (bits', out')"
      using "1.prems"(2) True by (simp add: enc_emit.simps [of bits])
    moreover have "list_all in_alphabet (out @ [?c])"
      using "1.prems"(3) in_alphabet_nth [OF unat_and_31] by simp
    ultimately have "bits' < 5 \<and> list_all in_alphabet out' \<and>
        char_bits out' @ bl bits' v = char_bits (out @ [?c]) @ bl (bits - 5) v"
      using "1.IH" [OF True] "1.prems"(1) by simp
    moreover have "bl bits v = bl 5 (drop_bit (bits - 5) v) @ bl (bits - 5) v"
      using bl_drop [of "bits - 5" bits v] True by simp
    ultimately show ?thesis by (simp add: char_bits_emit)
  qed
qed

lemma ucast_high: "8 \<le> j \<Longrightarrow> \<not> bit (ucast (b :: byte) :: 32 word) j"
  by (auto simp: bit_ucast_iff dest: bit_imp_le_length)

lemma bl_ucast: "bl 8 (ucast (b :: byte) :: 32 word) = bl 8 b"
  by (simp add: bl_def bit_ucast_iff)

lemma enc_loop_bits:
  "bits < 5 \<Longrightarrow> list_all in_alphabet out \<Longrightarrow> enc_loop bs bits v out = (bits', v', out') \<Longrightarrow>
    bits' < 5 \<and> list_all in_alphabet out' \<and>
    char_bits out' @ bl bits' v' = char_bits out @ bl bits v @ byte_bits bs"
proof (induction bs arbitrary: bits v out)
  case Nil
  then show ?case by (simp add: byte_bits_def)
next
  case (Cons b bs)
  let ?v = "push_bit 8 v OR ucast b"
  obtain k o' where e: "enc_emit (bits + 8) ?v out = (k, o')" by force
  have "bl (bits + 8) ?v = bl bits v @ bl 8 b"
    using bl_push_or [of bits 8 "ucast b" v] Cons.prems(1) ucast_high by (simp add: bl_ucast)
  with enc_emit_bits [OF _ e Cons.prems(2)] Cons.prems(1)
  have k: "k < 5" "list_all in_alphabet o'"
      "char_bits o' @ bl k ?v = char_bits out @ bl bits v @ bl 8 b" by auto
  have "enc_loop bs k ?v o' = (bits', v', out')"
    using Cons.prems(3) e by (simp add: Let_def)
  from Cons.IH [OF k(1,2) this] k(3) show ?case
    by (auto simp: byte_bits_def)
qed

lemma base32Encode_bits:
  "\<exists>pad. char_bits (base32Encode buf) = byte_bits buf @ pad \<and> length pad < 5 \<and>
    list_all in_alphabet (base32Encode buf)"
proof -
  obtain bits v out where l: "enc_loop buf 0 0 [] = (bits, v, out)" by (metis prod_cases3)
  have e: "bits < 5" "list_all in_alphabet out" "char_bits out @ bl bits v = byte_bits buf"
    using enc_loop_bits [OF _ _ l] by (auto simp: char_bits_def)
  show ?thesis
  proof (cases "bits = 0")
    case True
    then show ?thesis using e by (simp add: base32Encode_def l)
  next
    case False
    let ?w = "push_bit (5 - bits) v"
    have "bl 5 ?w = bl bits (drop_bit (5 - bits) ?w) @ bl (5 - bits) ?w"
      using bl_drop [of "5 - bits" 5 ?w] e(1) by simp
    moreover have "bl bits (drop_bit (5 - bits) ?w) = bl bits v"
      using e(1) by (intro bl_cong) (auto simp: bit_drop_bit_eq bit_push_bit_iff)
    ultimately have "char_bits (base32Encode buf) = byte_bits buf @ bl (5 - bits) ?w"
      using False e(3) by (simp add: base32Encode_def l char_bits_emit flip: e(3))
    then show ?thesis using False e(2) in_alphabet_nth [OF unat_and_31]
      by (auto simp: base32Encode_def l)
  qed
qed

lemma of_nat_high: "i < 32 \<Longrightarrow> 5 \<le> j \<Longrightarrow> \<not> bit (of_nat i :: 32 word) j"
proof
  assume "i < 32" "5 \<le> j" "bit (of_nat i :: 32 word) j"
  then have "bit i j" by (simp only: bit_of_nat_iff)
  then have "odd (i div 2 ^ j)" by (simp add: bit_iff_odd)
  moreover have "(2::nat) ^ 5 \<le> 2 ^ j" using \<open>5 \<le> j\<close> by (intro power_increasing) auto
  ultimately show False using \<open>i < 32\<close> by simp
qed

lemma dec_loop_bits:
  "bits < 8 \<Longrightarrow> list_all in_alphabet s \<Longrightarrow>
    \<exists>out' rest. dec_loop s bits v out = Inr out' \<and> length rest < 8 \<and>
      byte_bits out' @ rest = byte_bits out @ bl bits v @ char_bits s"
proof (induction s arbitrary: bits v out)
  case Nil
  then show ?case by (intro exI [of _ out] exI [of _ "bl bits v"]) (simp add: char_bits_def)
next
  case (Cons c s)
  obtain i where i: "i < 32" "c = BASE32_ALPHABET ! i"
    using Cons.prems(2) in_alphabet_index by auto
  then have ix: "index_of c BASE32_ALPHABET = Some i" by (simp add: alphabet_index)
  let ?v = "push_bit 5 v OR of_nat i"
  have cv: "char_bits (c # s) = bl 5 (of_nat i :: 32 word) @ char_bits s"
    by (simp add: char_bits_def char_val_def ix)
  have v: "bl (bits + 5) ?v = bl bits v @ bl 5 (of_nat i :: 32 word)"
    using bl_push_or [of bits 5 "of_nat i" v] of_nat_high [OF i(1)] Cons.prems(1) by simp
  show ?case
  proof (cases "8 \<le> bits + 5")
    case False
    then show ?thesis using Cons.IH [of "bits + 5" ?v out] Cons.prems cv v by (simp add: ix Let_def)
  next
    case True
    let ?b = "ucast (drop_bit (bits + 5 - 8) ?v AND 0xff) :: byte"
    have "bl 8 ?b = bl 8 (drop_bit (bits + 5 - 8) ?v)"
      by (intro bl_cong) (simp add: bl_def bit_ucast_iff bit_and_iff bit_255)
    then have "bl (bits + 5) ?v = byte_bits [?b] @ bl (bits + 5 - 8) ?v"
      using bl_drop [of "bits + 5 - 8" "bits + 5" ?v] True by (simp add: byte_bits_def)
    moreover have "bits + 5 - 8 < 8" "list_all in_alphabet s" using Cons.prems by auto
    note ih = Cons.IH [OF this, of ?v "out @ [?b]"]
    moreover obtain out' rest where o: "dec_loop s (bits + 5 - 8) ?v (out @ [?b]) = Inr out'"
        "length rest < 8"
        "byte_bits out' @ rest = byte_bits (out @ [?b]) @ bl (bits + 5 - 8) ?v @ char_bits s"
      using ih by blast
    ultimately have "byte_bits out' @ rest = byte_bits out @ bl bits v @ char_bits (c # s)"
      using v cv by simp
    moreover have "dec_loop (c # s) bits v out = Inr out'"
      using o(1) True by (simp add: ix Let_def)
    ultimately show ?thesis using o(2) by blast
  qed
qed

lemma in_alphabet_clean:
  "in_alphabet c \<Longrightarrow> \<not> is_js_space c \<and> c \<noteq> CHR ''='' \<and> char_upper c = c"
proof -
  have "list_all (\<lambda>c. \<not> is_js_space c \<and> c \<noteq> CHR ''='' \<and> char_upper c = c) BASE32_ALPHABET"
    by code_simp
  then show "in_alphabet c \<Longrightarrow> \<not> is_js_space c \<and> c \<noteq> CHR ''='' \<and> char_upper c = c"
    by (simp add: in_alphabet_def list_all_iff)
qed

lemma base32Clean_alphabet:
  assumes "list_all in_alphabet s" shows "base32Clean s = s"
proof -
  have "dropWhile (\<lambda>c. c = CHR ''='') (rev s) = rev s"
    using assms in_alphabet_clean by (intro dropWhile_fixed) (cases s rule: rev_cases; simp)
  moreover have "filter (\<lambda>c. \<not> is_js_space c) s = s"
    using assms in_alphabet_clean by (auto simp: list_all_iff intro!: filter_True)
  moreover have "js_upper s = s"
    using assms in_alphabet_clean by (auto simp: js_upper_def list_all_iff intro!: map_idI)
  ultimately show ?thesis by (simp add: base32Clean_def)
qed

lemma byte_bits_inj: "byte_bits a = byte_bits b \<Longrightarrow> length a = length b \<Longrightarrow> a = b"
  by (induction a b rule: list_induct2') (auto simp: byte_bits_def dest: bl_8_inj)

lemma base32_roundtrip: "base32Decode (base32Encode buf) = Inr buf"
proof -
  obtain pad where e: "char_bits (base32Encode buf) = byte_bits buf @ pad" "length pad < 5"
      "list_all in_alphabet (base32Encode buf)"
    using base32Encode_bits by blast
  obtain out rest where d: "dec_loop (base32Encode buf) 0 0 [] = Inr out" "length rest < 8"
      "byte_bits out @ rest = byte_bits buf @ pad"
    using dec_loop_bits [of 0 "base32Encode buf" 0 "[]"] e by (auto simp: byte_bits_def)
  have "8 * length out + length rest = 8 * length buf + length pad"
    using d(3) by (metis length_append length_byte_bits)
  then have len: "length out = length buf" using d(2) e(2) by linarith
  then have "byte_bits out = byte_bits buf" using d(3) by (simp add: append_eq_append_conv)
  then have "out = buf" using byte_bits_inj len by blast
  then show ?thesis using d(1) by (simp add: base32Decode_def base32Clean_alphabet e(3))
qed

section \<open>HOTP and TOTP\<close>

definition u64_bytes_be :: "nat \<Rightarrow> byte list" where
  "u64_bytes_be n = map (\<lambda>i. of_nat (n div 256 ^ (7 - i))) [0..<8]"

definition u32_be :: "byte list \<Rightarrow> nat" where
  "u32_be bs = foldl (\<lambda>acc b. acc * 256 + unat b) 0 bs"

text \<open>
  \<open>writeBigUInt64BE\<close> throws on a negative counter or one of more than 64 bits, and the two reads
  throw outside of the digest: \<^const>\<open>Internal\<close> stands for the RangeError.
\<close>

definition hotp ::
  "(byte list \<Rightarrow> byte list \<Rightarrow> byte list) \<Rightarrow> byte list \<Rightarrow> int \<Rightarrow> nat \<Rightarrow> string result" where
  "hotp hmac_sha1 secret counter digits =
     (if counter < 0 \<or> counter \<ge> 2 ^ 64 then Inl (PressError Internal ''RangeError'')
      else
        let digest = hmac_sha1 secret (u64_bytes_be (nat counter)) in
        if digest = [] then Inl (PressError Internal ''RangeError'')
        else
          let offset = unat (last digest AND 0x0f) in
          if length digest < offset + 4 then Inl (PressError Internal ''RangeError'')
          else
            let bin = u32_be (take 4 (drop offset digest)) mod 2 ^ 31
            in Inr (pad_start digits (CHR ''0'') (nat_digits (bin mod 10 ^ digits))))"

definition DEFAULT_STEP_SECONDS :: int where "DEFAULT_STEP_SECONDS = 30"
definition DEFAULT_DIGITS :: nat where "DEFAULT_DIGITS = 6"
definition DEFAULT_WINDOW :: int where "DEFAULT_WINDOW = 1"

text \<open>\<open>Math.floor(time / 1000 / step)\<close> for a time in milliseconds.\<close>

definition totp_counter :: "int \<Rightarrow> int" where
  "totp_counter t = t div (1000 * DEFAULT_STEP_SECONDS)"

definition totp ::
  "(byte list \<Rightarrow> byte list \<Rightarrow> byte list) \<Rightarrow> string \<Rightarrow> int \<Rightarrow> string result" where
  "totp hmac_sha1 secretBase32 t =
     (case base32Decode secretBase32 of Inl e \<Rightarrow> Inl e
      | Inr secret \<Rightarrow> hotp hmac_sha1 secret (totp_counter t) DEFAULT_DIGITS)"

text \<open>The scan over the steps \<open>counter - window .. counter + window\<close>, stopping at the first hit.\<close>

fun totp_scan ::
  "(byte list \<Rightarrow> byte list \<Rightarrow> byte list) \<Rightarrow> byte list \<Rightarrow> string \<Rightarrow> int list \<Rightarrow> bool result" where
  "totp_scan hmac secret normalized [] = Inr False"
| "totp_scan hmac secret normalized (c # cs) =
     (case hotp hmac secret c DEFAULT_DIGITS of Inl e \<Rightarrow> Inl e
      | Inr candidate \<Rightarrow>
          if candidate = normalized then Inr True else totp_scan hmac secret normalized cs)"

definition verifyTotp ::
  "(byte list \<Rightarrow> byte list \<Rightarrow> byte list) \<Rightarrow> string \<Rightarrow> string \<Rightarrow> int \<Rightarrow> bool result" where
  "verifyTotp hmac_sha1 secretBase32 inp t =
     (let normalized = filter (\<lambda>c. \<not> is_js_space c) inp in
      if \<not> (length normalized = DEFAULT_DIGITS \<and> list_all is_digit normalized) then Inr False
      else
        case base32Decode secretBase32 of Inl e \<Rightarrow> Inl e
        | Inr secret \<Rightarrow>
            let counter = totp_counter t
            in totp_scan hmac_sha1 secret normalized
                 [counter - DEFAULT_WINDOW .. counter + DEFAULT_WINDOW])"

definition generateTotpSecret :: "byte list \<Rightarrow> string" where
  "generateTotpSecret random = base32Encode random"

text \<open>HMAC-SHA1 has a digest of 20 bytes, so that the truncation offset is always in range.\<close>

lemma offset_bound: "unat (b AND 0x0f :: byte) \<le> 15"
proof -
  have "b AND 0x0f \<le> 0x0f" by (rule word_and_le1)
  then show ?thesis by (simp add: word_le_nat_alt)
qed

lemma hotp_Inr:
  assumes "length (hmac secret (u64_bytes_be (nat c))) = 20" "0 \<le> c" "c < 2 ^ 64"
  shows "\<exists>b < 2 ^ 31. hotp hmac secret c digits =
    Inr (pad_start digits (CHR ''0'') (nat_digits (b mod 10 ^ digits)))"
proof -
  let ?d = "hmac secret (u64_bytes_be (nat c))"
  have "?d \<noteq> []" "unat (last ?d AND 0x0f) + 4 \<le> length ?d"
    using assms(1) offset_bound [of "last ?d"] by auto
  then show ?thesis using assms(2,3)
    by (intro exI [of _ "u32_be (take 4 (drop (unat (last ?d AND 0x0f)) ?d)) mod 2 ^ 31"])
       (simp add: hotp_def Let_def)
qed

lemma nat_digits_length: "n < 10 ^ Suc k \<Longrightarrow> length (nat_digits n) \<le> Suc k"
proof (induction k arbitrary: n)
  case 0
  then show ?case by (subst nat_digits.simps) simp
next
  case (Suc k)
  then have "n div 10 < 10 ^ Suc k" by (simp add: less_mult_imp_div_less mult.commute)
  then show ?case using Suc.IH [of "n div 10"] by (subst nat_digits.simps) auto
qed

lemma hotp_format:
  assumes "hotp hmac secret c DEFAULT_DIGITS = Inr s"
  shows "length s = 6 \<and> list_all is_digit s \<and> filter (\<lambda>c. \<not> is_js_space c) s = s"
proof -
  obtain b where s: "s = pad_start 6 (CHR ''0'') (nat_digits (b mod 10 ^ 6))"
    using assms by (auto simp: hotp_def DEFAULT_DIGITS_def Let_def split: if_splits)
  have "length (nat_digits (b mod 10 ^ 6)) \<le> Suc 5" by (rule nat_digits_length) simp
  moreover have d: "list_all is_digit s"
    using nat_digits_digit by (auto simp: s pad_start_def list_all_iff is_digit_def Let_def)
  moreover have "filter (\<lambda>c. \<not> is_js_space c) s = s"
    using d by (intro filter_True) (auto simp: list_all_iff is_digit_def is_js_space_def Let_def)
  ultimately show ?thesis by (simp add: s pad_start_def)
qed

lemma totp_scan_True:
  "\<forall>c \<in> set cs. is_ok (hotp hmac secret c DEFAULT_DIGITS) \<Longrightarrow>
    totp_scan hmac secret n cs = Inr (\<exists>c \<in> set cs. hotp hmac secret c DEFAULT_DIGITS = Inr n)"
  by (induction cs) (auto simp: is_ok_def split: sum.splits)

end
