(* ===== verification/Storage.thy ===== *)
theory Storage
  imports Prelude
begin

text \<open>
  The storage layer of \<open>packages/core/src/storage/\<close>: the table behind every adapter
  (\<open>docs(collection, id, doc)\<close> ordered by its key), the filesystem adapter with its canonical
  files and its derived index (\<open>fs-adapter.ts\<close>), paging by an id cursor, and the journaled
  transaction (\<open>transaction.ts\<close>).  The services of the other theories keep one typed
  collection per collection name; its operations are the ones of a single collection here.
\<close>

section \<open>Ordered tables\<close>

text \<open>A table is the list of its rows in ascending key order, as \<open>ORDER BY id ASC\<close> reads it.\<close>

type_synonym ('k, 'v) table = "('k \<times> 'v) list"

fun tab_put :: "'k::linorder \<Rightarrow> 'v \<Rightarrow> ('k, 'v) table \<Rightarrow> ('k, 'v) table" where
  "tab_put k v [] = [(k, v)]"
| "tab_put k v ((k', v') # t) =
     (if k < k' then (k, v) # (k', v') # t
      else if k = k' then (k, v) # t
      else (k', v') # tab_put k v t)"

definition tab_del :: "'k \<Rightarrow> ('k, 'v) table \<Rightarrow> ('k, 'v) table" where
  "tab_del k t = filter (\<lambda>(k', _). k' \<noteq> k) t"

definition tab_ok :: "('k::linorder, 'v) table \<Rightarrow> bool" where
  "tab_ok t = sorted_wrt (<) (map fst t)"

lemma tab_ok_Nil [simp]: "tab_ok []"
  by (simp add: tab_ok_def)

lemma tab_ok_Cons: "tab_ok ((k, v) # t) \<longleftrightarrow> (\<forall>k' \<in> fst ` set t. k < k') \<and> tab_ok t"
  by (simp add: tab_ok_def)

lemma keys_tab_put: "fst ` set (tab_put k v t) = insert k (fst ` set t)"
  by (induction k v t rule: tab_put.induct) auto

lemma map_of_tab_put [simp]: "map_of (tab_put k v t) = (map_of t)(k \<mapsto> v)"
  by (induction k v t rule: tab_put.induct) (auto simp: fun_eq_iff)

lemma map_of_tab_del [simp]: "map_of (tab_del k t) = (map_of t)(k := None)"
  by (induction t) (auto simp: tab_del_def fun_eq_iff)

lemma tab_ok_put [simp, intro]: "tab_ok t \<Longrightarrow> tab_ok (tab_put k v t)"
proof (induction k v t rule: tab_put.induct)
  case (2 k v k' v' t)
  then show ?case by (auto simp: tab_ok_Cons keys_tab_put dest: order.strict_trans)
qed (simp add: tab_ok_def)

lemma tab_ok_del [simp, intro]: "tab_ok t \<Longrightarrow> tab_ok (tab_del k t)"
  by (simp add: tab_ok_def tab_del_def sorted_wrt_map sorted_wrt_filter)

lemma tab_ok_distinct: "tab_ok t \<Longrightarrow> distinct (map fst t)"
  by (simp add: tab_ok_def strict_sorted_iff)

lemma tab_ok_keys: "tab_ok t \<Longrightarrow> map fst t = sorted_list_of_set (dom (map_of t))"
  by (rule sorted_list_of_set_unique [THEN iffD1, symmetric])
     (auto simp: tab_ok_def dom_map_of_conv_image_fst finite_dom_map_of strict_sorted_iff
        card_image distinct_map distinct_card [symmetric] simp flip: length_map)

lemma tab_as_map: "tab_ok t \<Longrightarrow> t = map (\<lambda>k. (k, the (map_of t k))) (map fst t)"
  by (auto simp: comp_def intro!: map_idI [symmetric] dest: tab_ok_distinct)

text \<open>A table is determined by the map it represents.\<close>

lemma tab_eqI:
  assumes "tab_ok t" "tab_ok u" "map_of t = map_of u"
  shows "t = u"
  using tab_as_map [OF assms(1)] tab_as_map [OF assms(2)] tab_ok_keys [OF assms(1)]
    tab_ok_keys [OF assms(2)] assms(3) by metis

lemma tab_del_absent: "map_of t k = None \<Longrightarrow> tab_del k t = t"
  by (force simp: tab_del_def map_of_eq_None_iff intro!: filter_True)

lemma map_of_in_set: "tab_ok t \<Longrightarrow> (k, v) \<in> set t \<longleftrightarrow> map_of t k = Some v"
  by (simp add: tab_ok_distinct)

lemma tab_ok_filter [simp, intro]: "tab_ok t \<Longrightarrow> tab_ok (filter P t)"
  by (simp add: tab_ok_def sorted_wrt_map sorted_wrt_filter)

section \<open>Pages\<close>

definition DEFAULT_LIMIT :: nat where "DEFAULT_LIMIT = 50"
definition MAX_LIMIT :: nat where "MAX_LIMIT = 500"

text \<open>\<open>Math.min(Math.max(page.limit ?? DEFAULT_LIMIT, 1), MAX_LIMIT)\<close>\<close>

definition page_limit :: "int option \<Rightarrow> nat" where
  "page_limit l = nat (min (max (case l of None \<Rightarrow> int DEFAULT_LIMIT | Some n \<Rightarrow> n) 1) (int MAX_LIMIT))"

lemma page_limit_bounds: "1 \<le> page_limit l \<and> page_limit l \<le> MAX_LIMIT"
  by (auto simp: page_limit_def MAX_LIMIT_def DEFAULT_LIMIT_def split: option.splits)

definition matching ::
  "('v \<Rightarrow> bool) \<Rightarrow> 'k::linorder option \<Rightarrow> ('k, 'v) table \<Rightarrow> ('k, 'v) table" where
  "matching P after t =
     filter (\<lambda>(k, v). P v \<and> (case after of None \<Rightarrow> True | Some a \<Rightarrow> a < k)) t"

text \<open>
  One page: \<open>limit + 1\<close> rows are fetched, the last is dropped if there were that many, and the
  cursor is the id of the last row kept.
\<close>

definition tab_query ::
  "('v \<Rightarrow> bool) \<Rightarrow> 'k::linorder option \<Rightarrow> int option \<Rightarrow> ('k, 'v) table \<Rightarrow> 'v list \<times> 'k option" where
  "tab_query P after lm t =
     (let limit = page_limit lm;
          rows = take (limit + 1) (matching P after t);
          hasMore = limit < length rows;
          pageRows = (if hasMore then take limit rows else rows)
      in (map snd pageRows,
          if hasMore \<and> pageRows \<noteq> [] then Some (fst (last pageRows)) else None))"

lemma matching_None: "matching P None t = filter (\<lambda>(k, v). P v) t"
  by (simp add: matching_def)

lemma tab_query_items:
  "fst (tab_query P after lm t) = map snd (take (page_limit lm) (matching P after t))"
  by (auto simp: tab_query_def Let_def min_def)

lemma tab_query_done:
  "snd (tab_query P after lm t) = None \<longleftrightarrow> length (matching P after t) \<le> page_limit lm"
proof -
  have "take (page_limit lm) (take (page_limit lm + 1) xs) \<noteq> []" if "page_limit lm < length xs" for xs :: "('b \<times> 'a) list"
    using that page_limit_bounds [of lm] by auto
  then show ?thesis
    using page_limit_bounds [of lm] by (auto simp: tab_query_def Let_def)
qed

lemma tab_query_cursor:
  assumes "snd (tab_query P after lm t) = Some a"
  shows "a = fst (matching P after t ! (page_limit lm - 1))" "page_limit lm < length (matching P after t)"
proof -
  let ?m = "matching P after t" and ?n = "page_limit lm"
  have n: "1 \<le> ?n" using page_limit_bounds by blast
  show l: "?n < length ?m"
    using assms tab_query_done [of P after lm t] by (auto simp: not_le [symmetric])
  have "last (take ?n ?m) = ?m ! (?n - 1)" using n l by (subst last_conv_nth) auto
  then show "a = fst (?m ! (?n - 1))"
    using assms l n by (auto simp: tab_query_def Let_def min_def split: if_splits)
qed

text \<open>The rows after the cursor of a page are exactly the ones the page did not hold.\<close>

lemma sorted_drop_filter:
  fixes xs :: "('k::linorder \<times> 'v) list"
  assumes "sorted_wrt (<) (map fst xs)" "n < length xs"
  shows "filter (\<lambda>(k, v). fst (xs ! n) < k) xs = drop (Suc n) xs"
  using assms
proof (induction xs arbitrary: n)
  case Nil
  then show ?case by simp
next
  case (Cons x xs)
  obtain k v where x: "x = (k, v)" by force
  show ?case
  proof (cases n)
    case 0
    have "filter (\<lambda>(k', v'). k < k') xs = xs"
      using Cons.prems(1) x by (intro filter_True) auto
    then show ?thesis using x 0 by simp
  next
    case (Suc m)
    then have "xs ! m \<in> set xs" using Cons.prems by simp
    then have "k < fst (xs ! m)" using Cons.prems(1) x by auto
    then have "\<not> fst (xs ! m) < k" by (rule less_not_sym)
    moreover have "filter (\<lambda>(k, v). fst (xs ! m) < k) xs = drop (Suc m) xs"
      using Cons.IH [of m] Cons.prems Suc by simp
    ultimately show ?thesis using Suc x by simp
  qed
qed

lemma matching_ok: "tab_ok t \<Longrightarrow> sorted_wrt (<) (map fst (matching P after t))"
  by (simp add: matching_def tab_ok_def sorted_wrt_map sorted_wrt_filter)

lemma matching_after_cursor:
  assumes ok: "tab_ok t" and c: "snd (tab_query P after lm t) = Some a"
  shows "matching P (Some a) t = drop (page_limit lm) (matching P after t)"
proof -
  let ?m = "matching P after t" and ?n = "page_limit lm"
  note q = tab_query_cursor [OF c]
  have n: "Suc (?n - 1) = ?n" "?n - 1 < length ?m" using page_limit_bounds [of lm] q(2) by auto
  have am: "a \<in> fst ` set ?m" using q(1) n(2) by (metis image_eqI nth_mem)
  then have lt: "after = Some b \<Longrightarrow> b < a" for b by (auto simp: matching_def)
  have "matching P (Some a) t = filter (\<lambda>(k, v). a < k) ?m"
    using lt by (auto simp: matching_def intro!: filter_cong split: option.splits)
  also have "\<dots> = drop ?n ?m"
    using sorted_drop_filter [OF matching_ok [OF ok] n(2)] q(1) n(1) by simp
  finally show ?thesis .
qed

text \<open>
  The paging loop of \<open>migrateStorage\<close> and of every reader that follows \<open>nextCursor\<close>:
  \<open>do { page = query(..., after: cursor); cursor = page.nextCursor } while (cursor !== null)\<close>.
  It is a partial function, so that stopping is something to prove.
\<close>

partial_function (option) read_pages ::
  "('v \<Rightarrow> bool) \<Rightarrow> int option \<Rightarrow> ('k::linorder, 'v) table \<Rightarrow> 'k option \<Rightarrow> 'v list \<Rightarrow> 'v list option" where
  "read_pages P lm t after acc =
     (case tab_query P after lm t of (items, next) \<Rightarrow>
        (case next of None \<Rightarrow> Some (acc @ items)
         | Some a \<Rightarrow> read_pages P lm t (Some a) (acc @ items)))"

lemma read_pages_all:
  assumes "tab_ok t"
  shows "read_pages P lm t after acc = Some (acc @ map snd (matching P after t))"
proof (induction "length (matching P after t)" arbitrary: after acc rule: less_induct)
  case less
  obtain items nxt where q: "tab_query P after lm t = (items, nxt)" by force
  let ?m = "matching P after t" and ?n = "page_limit lm"
  have it: "items = map snd (take ?n ?m)" using tab_query_items [of P after lm t] q by simp
  show ?case
  proof (cases nxt)
    case None
    then have "length ?m \<le> ?n" using tab_query_done [of P after lm t] q by simp
    then show ?thesis by (subst read_pages.simps) (simp add: q None it)
  next
    case (Some a)
    then have a: "snd (tab_query P after lm t) = Some a" using q by simp
    note d = matching_after_cursor [OF assms a]
    have "length (matching P (Some a) t) < length ?m"
      using d tab_query_cursor(2) [OF a] page_limit_bounds [of lm] by (simp, linarith)
    from less [OF this] have "read_pages P lm t (Some a) (acc @ items) =
        Some (acc @ items @ map snd (drop ?n ?m))" by (simp add: d)
    also have "items @ map snd (drop ?n ?m) = map snd ?m"
      by (simp add: it flip: map_append)
    finally show ?thesis by (subst read_pages.simps) (simp add: q Some)
  qed
qed

section \<open>The filesystem adapter\<close>

definition is_word_char :: "char \<Rightarrow> bool" where
  "is_word_char c = (is_alnum c \<or> c = CHR ''_'')"

definition SAFE_SEGMENT :: "string \<Rightarrow> bool" where
  "SAFE_SEGMENT s = (s \<noteq> [] \<and> list_all (\<lambda>c. is_word_char c \<or> c = CHR ''.'' \<or> c = CHR ''-'') s)"

definition SAFE_FIELD :: "string \<Rightarrow> bool" where
  "SAFE_FIELD s = (s \<noteq> [] \<and> list_all is_word_char s)"

definition assertSegment :: "string \<Rightarrow> string \<Rightarrow> unit result" where
  "assertSegment v kind =
     (if length v = 0 \<or> v = ''.'' \<or> v = ''..'' \<or> js_includes v ''..'' \<or> \<not> SAFE_SEGMENT v
      then Inl (PressError Validation (''Invalid '' @ kind @ '': '' @ v))
      else Inr ())"

text \<open>A stored document: its id and the rest of its fields.\<close>

record 'd doc =
  doc_id :: string
  doc_body :: 'd

text \<open>What \<open>JSON.parse\<close> makes of a file: a document, a value without a string id, or a throw.\<close>

datatype 'd content = Doc "'d doc" | NoStringId | NotJson string

record 'd fs_state =
  fs_files :: "(string \<times> string, 'd content) table"
  fs_docs :: "(string \<times> string, 'd doc) table"

definition checkKey :: "string \<Rightarrow> string \<Rightarrow> unit result" where
  "checkKey c i =
     (case assertSegment c ''collection'' of Inl e \<Rightarrow> Inl e | Inr _ \<Rightarrow> assertSegment i ''id'')"

definition fs_file :: "string \<Rightarrow> string \<Rightarrow> string \<times> string" where
  "fs_file c i = (c, i @ ''.json'')"

definition fs_get :: "string \<Rightarrow> string \<Rightarrow> 'd fs_state \<Rightarrow> 'd doc option result" where
  "fs_get c i st =
     (case checkKey c i of Inl e \<Rightarrow> Inl e | Inr _ \<Rightarrow> Inr (map_of (fs_docs st) (c, i)))"

definition fs_put :: "string \<Rightarrow> 'd doc \<Rightarrow> ('d fs_state, unit) action" where
  "fs_put c d st =
     (case checkKey c (doc_id d) of Inl e \<Rightarrow> (Inl e, st)
      | Inr _ \<Rightarrow>
          (Inr (), st\<lparr>fs_files := tab_put (fs_file c (doc_id d)) (Doc d) (fs_files st),
                    fs_docs := tab_put (c, doc_id d) d (fs_docs st)\<rparr>))"

definition fs_delete :: "string \<Rightarrow> string \<Rightarrow> ('d fs_state, unit) action" where
  "fs_delete c i st =
     (case checkKey c i of Inl e \<Rightarrow> (Inl e, st)
      | Inr _ \<Rightarrow>
          (Inr (), st\<lparr>fs_files := tab_del (fs_file c i) (fs_files st),
                    fs_docs := tab_del (c, i) (fs_docs st)\<rparr>))"

text \<open>The rows of one collection, keyed by id alone.\<close>

definition coll_of :: "string \<Rightarrow> (string \<times> string, 'd) table \<Rightarrow> (string, 'd) table" where
  "coll_of c t = map (\<lambda>((_, i), d). (i, d)) (filter (\<lambda>((c', _), _). c' = c) t)"

text \<open>
  \<open>ext d f\<close> is SQLite's \<open>json_extract(doc, '$.f')\<close>, with \<^const>\<open>None\<close> for SQL NULL, which equals
  nothing.
\<close>

definition fs_query ::
  "('d doc \<Rightarrow> string \<Rightarrow> 'q option) \<Rightarrow> string \<Rightarrow> (string \<times> 'q) list \<Rightarrow> string option \<Rightarrow> int option \<Rightarrow>
   'd fs_state \<Rightarrow> ('d doc list \<times> string option) result" where
  "fs_query ext c wh after lm st =
     (case assertSegment c ''collection'' of Inl e \<Rightarrow> Inl e
      | Inr _ \<Rightarrow>
          (case find (\<lambda>(f, _). \<not> SAFE_FIELD f) wh of
             Some (f, _) \<Rightarrow> Inl (PressError Validation (''Invalid filter field: '' @ f))
           | None \<Rightarrow>
               Inr (tab_query (\<lambda>d. list_all (\<lambda>(f, q). ext d f = Some q) wh) after lm
                      (coll_of c (fs_docs st)))))"

definition fs_listCollections :: "'d fs_state \<Rightarrow> string list" where
  "fs_listCollections st = sort (remdups (map (\<lambda>((c, _), _). c) (fs_docs st)))"

fun collect_docs ::
  "(string \<times> string, 'd content) table \<Rightarrow> ((string \<times> string) \<times> 'd doc) list result" where
  "collect_docs [] = Inr []"
| "collect_docs (((dir, f), x) # rest) =
     (if SAFE_SEGMENT dir \<and> js_suffix ''.json'' f
      then (case x of
              NotJson m \<Rightarrow> Inl (PressError Internal m)
            | NoStringId \<Rightarrow> collect_docs rest
            | Doc d \<Rightarrow>
                (case collect_docs rest of Inl e \<Rightarrow> Inl e
                 | Inr ds \<Rightarrow> Inr (((dir, doc_id d), d) # ds)))
      else collect_docs rest)"

definition put_all :: "(('k::linorder) \<times> 'v) list \<Rightarrow> ('k, 'v) table \<Rightarrow> ('k, 'v) table" where
  "put_all ds t = foldl (\<lambda>t (k, d). tab_put k d t) t ds"

definition fs_rebuildIndex :: "('d fs_state, unit) action" where
  "fs_rebuildIndex st =
     (case collect_docs (fs_files st) of Inl e \<Rightarrow> (Inl e, st)
      | Inr ds \<Rightarrow> (Inr (), st\<lparr>fs_docs := put_all ds []\<rparr>))"

section \<open>Facts about the adapter\<close>

lemma assertSegment_ok:
  "assertSegment v k = Inr u \<longleftrightarrow> SAFE_SEGMENT v \<and> v \<noteq> ''.'' \<and> \<not> js_includes v ''..''"
  by (auto simp: assertSegment_def SAFE_SEGMENT_def)

definition key_ok :: "string \<Rightarrow> string \<Rightarrow> bool" where
  "key_ok c i = (is_ok (assertSegment c ''collection'') \<and> is_ok (assertSegment i ''id''))"

lemma is_ok_iff: "is_ok r \<longleftrightarrow> (\<exists>x. r = Inr x)"
  by (cases r) auto

lemma checkKey_ok: "key_ok c i \<Longrightarrow> checkKey c i = Inr ()"
  by (auto simp: key_ok_def checkKey_def is_ok_iff)

lemma checkKey_bad: "\<not> key_ok c i \<Longrightarrow> \<exists>e. checkKey c i = Inl e"
  by (cases "assertSegment c ''collection''"; cases "assertSegment i ''id''")
     (auto simp: key_ok_def checkKey_def)

text \<open>An accepted segment has neither a path separator nor a space, and is not a dot path.\<close>

lemma SAFE_SEGMENT_chars:
  "SAFE_SEGMENT s \<Longrightarrow> CHR ''/'' \<notin> set s \<and> CHR '' '' \<notin> set s \<and> CHR 0x5C \<notin> set s"
  by (auto simp: SAFE_SEGMENT_def list_all_iff is_word_char_def is_alnum_def is_digit_def is_alpha_def Let_def)

lemma key_ok_chars:
  "key_ok c i \<Longrightarrow> CHR '' '' \<notin> set c \<and> CHR '' '' \<notin> set i \<and> SAFE_SEGMENT c \<and> SAFE_SEGMENT i"
  by (auto simp: key_ok_def is_ok_iff assertSegment_ok dest: SAFE_SEGMENT_chars)

lemma map_of_put_all: "map_of (put_all ds t) = map_of t ++ map_of (rev ds)"
  unfolding put_all_def
  by (induction ds arbitrary: t) (auto simp: fun_eq_iff map_add_def split: option.splits)

lemma tab_ok_put_all: "tab_ok t \<Longrightarrow> tab_ok (put_all ds t)"
  unfolding put_all_def by (induction ds arbitrary: t) auto

lemma map_of_coll_of: "map_of (coll_of c t) i = map_of t (c, i)"
  by (induction t) (auto simp: coll_of_def)

lemma tab_ok_coll_of: "tab_ok t \<Longrightarrow> tab_ok (coll_of c t)"
  by (induction t) (fastforce simp: coll_of_def tab_ok_Cons less_prod_def')+

text \<open>
  The derived index agrees with the canonical files: every file is the document its name says,
  and the index holds exactly these documents.
\<close>

definition fs_inv :: "'d fs_state \<Rightarrow> bool" where
  "fs_inv st \<longleftrightarrow>
     tab_ok (fs_files st) \<and> tab_ok (fs_docs st) \<and>
     (\<forall>((c, f), x) \<in> set (fs_files st). \<exists>d. x = Doc d \<and> f = doc_id d @ ''.json'' \<and> key_ok c (doc_id d)) \<and>
     (\<forall>c i d. map_of (fs_docs st) (c, i) = Some d \<longleftrightarrow>
        map_of (fs_files st) (c, i @ ''.json'') = Some (Doc d))"

definition fs_empty :: "'d fs_state" where
  "fs_empty = \<lparr>fs_files = [], fs_docs = []\<rparr>"

lemma fs_inv_empty: "fs_inv fs_empty"
  by (simp add: fs_inv_def fs_empty_def)

lemma fs_inv_doc_id:
  assumes "fs_inv st" "map_of (fs_docs st) (c, i) = Some d"
  shows "doc_id d = i \<and> key_ok c i"
proof -
  have "((c, i @ ''.json''), Doc d) \<in> set (fs_files st)"
    using assms by (auto simp: fs_inv_def dest: map_of_SomeD)
  then show ?thesis using assms(1) by (fastforce simp: fs_inv_def)
qed

lemma set_tab_put: "tab_ok t \<Longrightarrow> set (tab_put k v t) = insert (k, v) {(k', v') \<in> set t. k' \<noteq> k}"
  using map_of_in_set [of "tab_put k v t"] map_of_in_set [of t]
  by (auto split: if_splits)

lemma set_tab_del: "set (tab_del k t) = {(k', v') \<in> set t. k' \<noteq> k}"
  by (auto simp: tab_del_def)

lemma fs_put_inv: "fs_inv st \<Longrightarrow> fs_inv (snd (fs_put c d st))"
proof (cases "key_ok c (doc_id d)")
  case True
  then show "fs_inv st \<Longrightarrow> fs_inv (snd (fs_put c d st))"
    by (auto simp: fs_put_def checkKey_ok fs_inv_def fs_file_def set_tab_put)
next
  case False
  then show "fs_inv st \<Longrightarrow> fs_inv (snd (fs_put c d st))"
    using checkKey_bad by (fastforce simp: fs_put_def)
qed

lemma fs_delete_inv: "fs_inv st \<Longrightarrow> fs_inv (snd (fs_delete c i st))"
proof (cases "key_ok c i")
  case True
  then show "fs_inv st \<Longrightarrow> fs_inv (snd (fs_delete c i st))"
    by (auto simp: fs_delete_def checkKey_ok fs_inv_def fs_file_def set_tab_del)
next
  case False
  then show "fs_inv st \<Longrightarrow> fs_inv (snd (fs_delete c i st))"
    using checkKey_bad by (fastforce simp: fs_delete_def)
qed

lemma collect_docs_inv:
  assumes "\<forall>((c, f), x) \<in> set fs. \<exists>d. x = Doc d \<and> f = doc_id d @ ''.json'' \<and> key_ok c (doc_id d)"
  shows "\<exists>ds. collect_docs fs = Inr ds \<and>
    (\<forall>c i d. ((c, i), d) \<in> set ds \<longleftrightarrow> ((c, i @ ''.json''), Doc d) \<in> set fs \<and> doc_id d = i)"
  using assms
proof (induction fs)
  case Nil
  then show ?case by simp
next
  case (Cons a fs)
  obtain c f x where a: "a = ((c, f), x)" by (metis surj_pair)
  then obtain d where x: "x = Doc d" "f = doc_id d @ ''.json''" "key_ok c (doc_id d)"
    using Cons.prems by auto
  moreover have "js_suffix ''.json'' f" by (simp add: x js_suffix_def js_prefix_iff)
  moreover obtain ds where "collect_docs fs = Inr ds"
    "\<forall>c i d. ((c, i), d) \<in> set ds \<longleftrightarrow> ((c, i @ ''.json''), Doc d) \<in> set fs \<and> doc_id d = i"
    using Cons by auto
  ultimately show ?case by (auto simp: a dest: key_ok_chars)
qed

lemma fs_rebuild_id:
  assumes inv: "fs_inv st"
  shows "fs_rebuildIndex st = (Inr (), st)"
proof -
  have files: "\<forall>((c, f), x) \<in> set (fs_files st). \<exists>d. x = Doc d \<and> f = doc_id d @ ''.json'' \<and> key_ok c (doc_id d)"
    and ok: "tab_ok (fs_files st)" "tab_ok (fs_docs st)"
    and agree: "\<And>c i d. map_of (fs_docs st) (c, i) = Some d \<longleftrightarrow>
        map_of (fs_files st) (c, i @ ''.json'') = Some (Doc d)"
    using inv by (auto simp: fs_inv_def)
  obtain ds where ds: "collect_docs (fs_files st) = Inr ds"
    and mem: "\<And>c i d. ((c, i), d) \<in> set ds \<longleftrightarrow> ((c, i @ ''.json''), Doc d) \<in> set (fs_files st) \<and> doc_id d = i"
    using collect_docs_inv [OF files] by blast
  have mem': "(k, d) \<in> set ds \<longleftrightarrow> map_of (fs_docs st) k = Some d" for k d
    using mem [of "fst k" "snd k" d] agree [of "fst k" "snd k" d] fs_inv_doc_id [OF inv, of "fst k" "snd k" d]
      map_of_in_set [OF ok(1)] by auto
  have "map_of (rev ds) k = map_of (fs_docs st) k" for k
  proof (cases "map_of (rev ds) k")
    case None
    then have "k \<notin> fst ` set ds" by (simp add: map_of_eq_None_iff)
    then have "map_of (fs_docs st) k \<noteq> Some d" for d using mem' [of k d] by force
    then show ?thesis using None by (cases "map_of (fs_docs st) k") auto
  next
    case (Some d)
    then have "(k, d) \<in> set ds" by (auto dest: map_of_SomeD)
    then show ?thesis using Some mem' by simp
  qed
  then have "put_all ds [] = fs_docs st"
    by (intro tab_eqI tab_ok_put_all ok) (auto simp: map_of_put_all fun_eq_iff)
  then show ?thesis by (simp add: fs_rebuildIndex_def ds)
qed

end
