(* ===== verification/Transaction.thy ===== *)
theory Transaction
  imports Storage
begin

text \<open>
  The storage contract (\<open>StorageAdapter\<close> of \<open>types.ts\<close>) as a record of operations and as a
  locale with its laws, the journaled transaction built on it (\<open>transaction.ts\<close>, and
  \<open>transaction\<close> of \<open>fs-adapter.ts\<close>, which is the same code), and the copy loop of
  \<open>migrate.ts\<close>.
\<close>

section \<open>The interface\<close>

record ('s, 'd, 'q) storage_adapter =
  ad_get :: "string \<Rightarrow> string \<Rightarrow> 's \<Rightarrow> 'd doc option result"
  ad_put :: "string \<Rightarrow> 'd doc \<Rightarrow> ('s, unit) action"
  ad_delete :: "string \<Rightarrow> string \<Rightarrow> ('s, unit) action"
  ad_query :: "string \<Rightarrow> (string \<times> 'q) list \<Rightarrow> string option \<Rightarrow> int option \<Rightarrow> 's \<Rightarrow>
    ('d doc list \<times> string option) result"
  ad_listCollections :: "'s \<Rightarrow> string list result"
  ad_rebuildIndex :: "('s, unit) action"

section \<open>Transactions\<close>

text \<open>
  The callback of a transaction is a program over the \<open>tx\<close> handle: each call continues with its
  result, and the program ends by returning or by throwing.  A nested \<open>tx.transaction(f)\<close> runs
  \<open>f\<close> over the same handle, so it is \<open>f\<close>'s program in its place.
\<close>

datatype ('d, 'q, 'a) tx_prog =
    TxReturn 'a
  | TxThrow press_error
  | TxGet string string "'d doc option result \<Rightarrow> ('d, 'q, 'a) tx_prog"
  | TxQuery string "(string \<times> 'q) list" "string option" "int option"
      "('d doc list \<times> string option) result \<Rightarrow> ('d, 'q, 'a) tx_prog"
  | TxListCollections "string list result \<Rightarrow> ('d, 'q, 'a) tx_prog"
  | TxRebuildIndex "unit result \<Rightarrow> ('d, 'q, 'a) tx_prog"
  | TxPut string "'d doc" "unit result \<Rightarrow> ('d, 'q, 'a) tx_prog"
  | TxDelete string string "unit result \<Rightarrow> ('d, 'q, 'a) tx_prog"

type_synonym 'd journal = "(string \<times> 'd doc option) list"

definition journal_key :: "string \<Rightarrow> string \<Rightarrow> string" where
  "journal_key c i = c @ '' '' @ i"

text \<open>\<open>k.slice(0, sep)\<close> and \<open>k.slice(sep + 1)\<close> at the first space.\<close>

definition split_key :: "string \<Rightarrow> string \<times> string" where
  "split_key k = (takeWhile (\<lambda>c. c \<noteq> CHR '' '') k, drop 1 (dropWhile (\<lambda>c. c \<noteq> CHR '' '') k))"

definition capture ::
  "('s, 'd, 'q) storage_adapter \<Rightarrow> string \<Rightarrow> string \<Rightarrow> 's \<Rightarrow> 'd journal \<Rightarrow> 'd journal" where
  "capture A c i s j =
     (let k = journal_key c i in
      if k \<in> fst ` set j then j
      else j @ [(k, case ad_get A c i s of Inl _ \<Rightarrow> None | Inr prior \<Rightarrow> prior)])"

primrec tx_run ::
  "('s, 'd, 'q) storage_adapter \<Rightarrow> ('d, 'q, 'a) tx_prog \<Rightarrow> 'd journal \<Rightarrow> 's \<Rightarrow>
   'a result \<times> 'd journal \<times> 's" where
  "tx_run A (TxReturn a) j s = (Inr a, j, s)"
| "tx_run A (TxThrow e) j s = (Inl e, j, s)"
| "tx_run A (TxGet c i k) j s = tx_run A (k (ad_get A c i s)) j s"
| "tx_run A (TxQuery c wh after lm k) j s = tx_run A (k (ad_query A c wh after lm s)) j s"
| "tx_run A (TxListCollections k) j s = tx_run A (k (ad_listCollections A s)) j s"
| "tx_run A (TxRebuildIndex k) j s =
     tx_run A (k (fst (ad_rebuildIndex A s))) j (snd (ad_rebuildIndex A s))"
| "tx_run A (TxPut c d k) j s =
     tx_run A (k (fst (ad_put A c d s))) (capture A c (doc_id d) s j) (snd (ad_put A c d s))"
| "tx_run A (TxDelete c i k) j s =
     tx_run A (k (fst (ad_delete A c i s))) (capture A c i s j) (snd (ad_delete A c i s))"

primrec rollback :: "('s, 'd, 'q) storage_adapter \<Rightarrow> 'd journal \<Rightarrow> 's \<Rightarrow> 's" where
  "rollback A [] s = s"
| "rollback A (e # j) s =
     (let (c, i) = split_key (fst e) in
      rollback A j (case snd e of None \<Rightarrow> snd (ad_delete A c i s)
                    | Some prior \<Rightarrow> snd (ad_put A c prior s)))"

definition journaledTransaction ::
  "('s, 'd, 'q) storage_adapter \<Rightarrow> ('d, 'q, 'a) tx_prog \<Rightarrow> ('s, 'a) action" where
  "journaledTransaction A fn s =
     (case tx_run A fn [] s of
        (Inr a, _, s') \<Rightarrow> (Inr a, s')
      | (Inl e, j, s') \<Rightarrow> (Inl e, rollback A j s'))"

section \<open>The contract and what follows from it\<close>

locale document_store =
  fixes A :: "('s, 'd, 'q) storage_adapter"
    and inv :: "'s \<Rightarrow> bool"
    and view :: "'s \<Rightarrow> string \<times> string \<Rightarrow> 'd doc option"
    and ok :: "string \<Rightarrow> string \<Rightarrow> bool"
  assumes get_ok: "inv s \<Longrightarrow> ok c i \<Longrightarrow> ad_get A c i s = Inr (view s (c, i))"
    and get_bad: "\<not> ok c i \<Longrightarrow> \<exists>e. ad_get A c i s = Inl e"
    and put_ok: "inv s \<Longrightarrow> ok c (doc_id d) \<Longrightarrow>
      \<exists>s'. ad_put A c d s = (Inr (), s') \<and> inv s' \<and> view s' = (view s)((c, doc_id d) \<mapsto> d)"
    and put_bad: "\<not> ok c (doc_id d) \<Longrightarrow> \<exists>e. ad_put A c d s = (Inl e, s)"
    and delete_ok: "inv s \<Longrightarrow> ok c i \<Longrightarrow>
      \<exists>s'. ad_delete A c i s = (Inr (), s') \<and> inv s' \<and> view s' = (view s)((c, i) := None)"
    and delete_bad: "\<not> ok c i \<Longrightarrow> \<exists>e. ad_delete A c i s = (Inl e, s)"
    and rebuild_ok: "inv s \<Longrightarrow>
      \<exists>r s'. ad_rebuildIndex A s = (r, s') \<and> inv s' \<and> view s' = view s"
    and view_id: "inv s \<Longrightarrow> view s (c, i) = Some d \<Longrightarrow> doc_id d = i \<and> ok c i"
    and ok_no_space: "ok c i \<Longrightarrow> CHR '' '' \<notin> set c \<and> CHR '' '' \<notin> set i"
begin

lemma put_inv: "inv s \<Longrightarrow> inv (snd (ad_put A c d s))"
  using put_ok [of s c d] put_bad [of c d s] by (cases "ok c (doc_id d)") auto

lemma delete_inv: "inv s \<Longrightarrow> inv (snd (ad_delete A c i s))"
  using delete_ok [of s c i] delete_bad [of c i s] by (cases "ok c i") auto

lemma put_view:
  "inv s \<Longrightarrow> view (snd (ad_put A c d s)) =
     (if ok c (doc_id d) then (view s)((c, doc_id d) \<mapsto> d) else view s)"
  using put_ok [of s c d] put_bad [of c d s] by auto

lemma delete_view:
  "inv s \<Longrightarrow> view (snd (ad_delete A c i s)) = (if ok c i then (view s)((c, i) := None) else view s)"
  using delete_ok [of s c i] delete_bad [of c i s] by auto

lemma get_after_put:
  "inv s \<Longrightarrow> ok c (doc_id d) \<Longrightarrow> ad_get A c (doc_id d) (snd (ad_put A c d s)) = Inr (Some d)"
  by (simp add: get_ok put_inv put_view)

lemma get_after_delete:
  "inv s \<Longrightarrow> ok c i \<Longrightarrow> ad_get A c i (snd (ad_delete A c i s)) = Inr None"
  by (simp add: get_ok delete_inv delete_view)

lemma get_other_after_put:
  "inv s \<Longrightarrow> (c', i') \<noteq> (c, doc_id d) \<Longrightarrow> ok c' i' \<Longrightarrow>
    ad_get A c' i' (snd (ad_put A c d s)) = ad_get A c' i' s"
  by (auto simp: get_ok put_inv put_view)

lemma split_journal_key: "CHR '' '' \<notin> set c \<Longrightarrow> split_key (journal_key c i) = (c, i)"
  by (induction c) (auto simp: split_key_def journal_key_def)

lemma split_key_bad:
  assumes "\<not> ok c i" "split_key (journal_key c i) = (c', i')"
  shows "\<not> ok c' i'"
proof (cases "CHR '' '' \<in> set c")
  case False
  then show ?thesis using assms split_journal_key by simp
next
  case True
  then obtain a b where c: "c = a @ CHR '' '' # b" "CHR '' '' \<notin> set a"
    using split_list_first by metis
  then have "split_key (journal_key c i) = (a, b @ CHR '' '' # i)"
    using split_journal_key [of a "b @ '' '' @ i"] by (simp add: journal_key_def)
  then show ?thesis using assms(2) ok_no_space by force
qed

text \<open>
  What the journal knows of the view \<open>v0\<close> at the start of the transaction: the prior value of
  every key it holds, and that nothing else has changed.
\<close>

definition entry_ok :: "(string \<times> string \<Rightarrow> 'd doc option) \<Rightarrow> string \<times> 'd doc option \<Rightarrow> bool" where
  "entry_ok v0 e = (let (c, i) = split_key (fst e) in
     if ok c i then fst e = journal_key c i \<and> snd e = v0 (c, i) else snd e = None)"

definition journal_ok ::
  "(string \<times> string \<Rightarrow> 'd doc option) \<Rightarrow> 'd journal \<Rightarrow> 's \<Rightarrow> bool" where
  "journal_ok v0 j s \<longleftrightarrow> inv s \<and> (\<forall>e \<in> set j. entry_ok v0 e) \<and>
     (\<forall>c i. ok c i \<longrightarrow> journal_key c i \<notin> fst ` set j \<longrightarrow> view s (c, i) = v0 (c, i))"

lemma journal_key_inj:
  "ok c i \<Longrightarrow> ok c' i' \<Longrightarrow> journal_key c i = journal_key c' i' \<Longrightarrow> c = c' \<and> i = i'"
  using split_journal_key ok_no_space by (metis prod.inject)

lemma capture_keys: "fst ` set (capture A c i s j) = insert (journal_key c i) (fst ` set j)"
  by (auto simp: capture_def Let_def)

lemma capture_ok:
  assumes "journal_ok v0 j s"
  shows "\<forall>e \<in> set (capture A c i s j). entry_ok v0 e"
proof (cases "journal_key c i \<in> fst ` set j")
  case True
  then show ?thesis using assms by (simp add: capture_def journal_ok_def)
next
  case new: False
  show ?thesis
  proof (cases "ok c i")
    case True
    then have "ad_get A c i s = Inr (v0 (c, i))"
      using assms new get_ok by (simp add: journal_ok_def)
    then have "entry_ok v0 (journal_key c i, case ad_get A c i s of Inl _ \<Rightarrow> None | Inr p \<Rightarrow> p)"
      using True ok_no_space [OF True] by (simp add: entry_ok_def split_journal_key)
    then show ?thesis using new assms by (auto simp: capture_def journal_ok_def Let_def)
  next
    case False
    then obtain e where "ad_get A c i s = Inl e" using get_bad by blast
    moreover have "entry_ok v0 (journal_key c i, None)"
      using split_key_bad [OF False] by (auto simp: entry_ok_def)
    ultimately show ?thesis using new assms by (auto simp: capture_def journal_ok_def Let_def)
  qed
qed

lemma put_journal_ok:
  assumes "journal_ok v0 j s"
  shows "journal_ok v0 (capture A c (doc_id d) s j) (snd (ad_put A c d s))"
  using assms capture_ok [OF assms]
  by (auto simp: journal_ok_def put_inv put_view capture_keys)

lemma delete_journal_ok:
  assumes "journal_ok v0 j s"
  shows "journal_ok v0 (capture A c i s j) (snd (ad_delete A c i s))"
  using assms capture_ok [OF assms]
  by (auto simp: journal_ok_def delete_inv delete_view capture_keys)

lemma tx_run_journal_ok:
  "journal_ok v0 j s \<Longrightarrow> tx_run A fn j s = (r, j', s') \<Longrightarrow> journal_ok v0 j' s'"
proof (induction fn arbitrary: j s)
  case (TxPut c d k)
  then show ?case using put_journal_ok by fastforce
next
  case (TxDelete c i k)
  then show ?case using delete_journal_ok by fastforce
next
  case (TxRebuildIndex k)
  then have "journal_ok v0 j (snd (ad_rebuildIndex A s))"
    using rebuild_ok [of s] by (auto simp: journal_ok_def)
  then show ?case using TxRebuildIndex by fastforce
qed fastforce+

lemma rollback_view:
  assumes "inv s" "\<forall>e \<in> set j. entry_ok v0 e" "\<And>c i d. v0 (c, i) = Some d \<Longrightarrow> doc_id d = i"
  shows "inv (rollback A j s) \<and> (\<forall>c i. ok c i \<longrightarrow> view (rollback A j s) (c, i) =
    (if journal_key c i \<in> fst ` set j then v0 (c, i) else view s (c, i)))"
  using assms(1,2)
proof (induction j arbitrary: s)
  case Nil
  then show ?case by simp
next
  case (Cons e j)
  obtain c i where ci: "split_key (fst e) = (c, i)" by force
  let ?s = "case snd e of None \<Rightarrow> snd (ad_delete A c i s) | Some p \<Rightarrow> snd (ad_put A c p s)"
  have e: "entry_ok v0 e" using Cons.prems by simp
  have inv': "inv ?s" using Cons.prems by (auto simp: put_inv delete_inv split: option.split)
  have view': "view ?s = (if ok c i then (view s)((c, i) := v0 (c, i)) else view s)"
    using e Cons.prems(1) ci assms(3) [of c i]
    by (auto simp: entry_ok_def put_view delete_view split: option.split if_splits)
  have key: "ok c' i' \<Longrightarrow> journal_key c' i' = fst e \<longleftrightarrow> ok c i \<and> c' = c \<and> i' = i" for c' i'
    using e ci ok_no_space by (auto simp: entry_ok_def split_journal_key dest: split_key_bad split: if_splits)
      (metis ok_no_space prod.inject split_journal_key)+
  have roll: "rollback A (e # j) s = rollback A j ?s" by (simp add: ci)
  have IH: "inv (rollback A j ?s) \<and> (\<forall>c i. ok c i \<longrightarrow> view (rollback A j ?s) (c, i) =
    (if journal_key c i \<in> fst ` set j then v0 (c, i) else view ?s (c, i)))"
    using Cons.IH [OF inv'] Cons.prems(2) by simp
  show ?case
  proof (unfold roll, intro conjI allI impI)
    show "inv (rollback A j ?s)" using IH by blast
    fix c' i' assume ok': "ok c' i'"
    then show "view (rollback A j ?s) (c', i') =
      (if journal_key c' i' \<in> fst ` set (e # j) then v0 (c', i') else view s (c', i'))"
      using IH key [OF ok'] by (auto simp: view')
  qed
qed

theorem transaction_rollback:
  assumes "inv s" "journaledTransaction A fn s = (Inl e, s')"
  shows "inv s' \<and> view s' = view s"
proof -
  obtain j t where run: "tx_run A fn [] s = (Inl e, j, t)" and s': "s' = rollback A j t"
    using assms(2) by (auto simp: journaledTransaction_def split: prod.splits sum.splits)
  have "journal_ok (view s) [] s" using assms(1) by (simp add: journal_ok_def)
  then have j: "journal_ok (view s) j t" using run tx_run_journal_ok by blast
  have r: "inv s' \<and> (\<forall>c i. ok c i \<longrightarrow> view s' (c, i) =
    (if journal_key c i \<in> fst ` set j then view s (c, i) else view t (c, i)))"
    unfolding s' using j assms(1) by (intro rollback_view) (auto simp: journal_ok_def view_id)
  have "view s' (c, i) = view s (c, i)" for c i
  proof (cases "ok c i")
    case True
    then show ?thesis using r j by (simp add: journal_ok_def)
  next
    case False
    then show ?thesis using r assms(1) view_id by (metis not_None_eq)
  qed
  then show ?thesis using r by auto
qed

lemma transaction_commit:
  assumes "journaledTransaction A fn s = (Inr a, s')"
  shows "\<exists>j. tx_run A fn [] s = (Inr a, j, s')"
  using assms by (auto simp: journaledTransaction_def split: prod.splits sum.splits)

end

section \<open>The filesystem adapter meets the contract\<close>

definition fs_adapter :: "('d doc \<Rightarrow> string \<Rightarrow> 'q option) \<Rightarrow> ('d fs_state, 'd, 'q) storage_adapter" where
  "fs_adapter ext = \<lparr>ad_get = fs_get, ad_put = fs_put, ad_delete = fs_delete,
     ad_query = fs_query ext, ad_listCollections = (\<lambda>s. Inr (fs_listCollections s)),
     ad_rebuildIndex = fs_rebuildIndex\<rparr>"

definition fs_view :: "'d fs_state \<Rightarrow> string \<times> string \<Rightarrow> 'd doc option" where
  "fs_view st = map_of (fs_docs st)"

interpretation fs: document_store "fs_adapter ext" fs_inv fs_view key_ok
proof
  fix s :: "'a fs_state" and c i :: string and d :: "'a doc"
  show "fs_inv s \<Longrightarrow> key_ok c i \<Longrightarrow> ad_get (fs_adapter ext) c i s = Inr (fs_view s (c, i))"
    by (simp add: fs_adapter_def fs_get_def checkKey_ok fs_view_def)
  show "\<not> key_ok c i \<Longrightarrow> \<exists>e. ad_get (fs_adapter ext) c i s = Inl e"
    using checkKey_bad by (fastforce simp: fs_adapter_def fs_get_def)
  show "fs_inv s \<Longrightarrow> key_ok c (doc_id d) \<Longrightarrow>
      \<exists>s'. ad_put (fs_adapter ext) c d s = (Inr (), s') \<and> fs_inv s' \<and>
        fs_view s' = (fs_view s)((c, doc_id d) \<mapsto> d)"
    using fs_put_inv [of s c d] by (auto simp: fs_adapter_def fs_put_def checkKey_ok fs_view_def)
  show "\<not> key_ok c (doc_id d) \<Longrightarrow> \<exists>e. ad_put (fs_adapter ext) c d s = (Inl e, s)"
    using checkKey_bad by (fastforce simp: fs_adapter_def fs_put_def)
  show "fs_inv s \<Longrightarrow> key_ok c i \<Longrightarrow>
      \<exists>s'. ad_delete (fs_adapter ext) c i s = (Inr (), s') \<and> fs_inv s' \<and>
        fs_view s' = (fs_view s)((c, i) := None)"
    using fs_delete_inv [of s c i] by (auto simp: fs_adapter_def fs_delete_def checkKey_ok fs_view_def)
  show "\<not> key_ok c i \<Longrightarrow> \<exists>e. ad_delete (fs_adapter ext) c i s = (Inl e, s)"
    using checkKey_bad by (fastforce simp: fs_adapter_def fs_delete_def)
  show "fs_inv s \<Longrightarrow>
      \<exists>r s'. ad_rebuildIndex (fs_adapter ext) s = (r, s') \<and> fs_inv s' \<and> fs_view s' = fs_view s"
    by (simp add: fs_adapter_def fs_rebuild_id)
  show "fs_inv s \<Longrightarrow> fs_view s (c, i) = Some d \<Longrightarrow> doc_id d = i \<and> key_ok c i"
    by (simp add: fs_view_def fs_inv_doc_id)
  show "key_ok c i \<Longrightarrow> CHR '' '' \<notin> set c \<and> CHR '' '' \<notin> set i"
    using key_ok_chars by blast
qed

end
