(* ===== verification/Services.thy ===== *)
theory Services
  imports Transaction
begin

text \<open>
  What the services on top of the storage share: a typed collection (one collection of the
  adapter, read through its pages), the events they append to the audit log, and the sort by
  creation time they use in lists.  Ids that a service puts are random UUIDs or SHA-256 digests
  in hex, which \<^const>\<open>assertSegment\<close> accepts, so a put does not fail; ids that a caller
  supplies are checked on \<open>get\<close>, as the adapter does.
\<close>

section \<open>Typed collections\<close>

type_synonym 'v coll = "(string, 'v) table"

definition c_get :: "string \<Rightarrow> 'v coll \<Rightarrow> 'v option result" where
  "c_get i t = (case assertSegment i ''id'' of Inl e \<Rightarrow> Inl e | Inr _ \<Rightarrow> Inr (map_of t i))"

definition c_put :: "string \<Rightarrow> 'v \<Rightarrow> 'v coll \<Rightarrow> 'v coll result" where
  "c_put i v t = (case assertSegment i ''id'' of Inl e \<Rightarrow> Inl e | Inr _ \<Rightarrow> Inr (tab_put i v t))"

definition c_delete :: "string \<Rightarrow> 'v coll \<Rightarrow> 'v coll result" where
  "c_delete i t = (case assertSegment i ''id'' of Inl e \<Rightarrow> Inl e | Inr _ \<Rightarrow> Inr (tab_del i t))"

text \<open>The items of the first page, with the adapter's default limit or the given one.\<close>

definition c_query :: "('v \<Rightarrow> bool) \<Rightarrow> int option \<Rightarrow> 'v coll \<Rightarrow> 'v list" where
  "c_query P lm t = fst (tab_query P None lm t)"

lemma c_query_take: "c_query P lm t = take (page_limit lm) (map snd (filter (\<lambda>(k, v). P v) t))"
  by (simp add: c_query_def tab_query_items matching_None take_map)

text \<open>The records of a collection.\<close>

definition vals :: "('k, 'v) table \<Rightarrow> 'v set" where
  "vals t = snd ` set t"

lemma vals_Nil [simp]: "vals [] = {}"
  by (simp add: vals_def)

lemma in_values: "v \<in> vals t \<longleftrightarrow> (\<exists>k. (k, v) \<in> set t)"
  by (force simp: vals_def)

lemma c_query_sub: "set (c_query P lm t) \<subseteq> {v \<in> vals t. P v}"
  by (force simp: c_query_take vals_def dest!: in_set_takeD)

lemma c_query_all:
  assumes "length (filter (\<lambda>(k, v). P v) t) \<le> page_limit lm"
  shows "set (c_query P lm t) = {v \<in> vals t. P v}"
proof -
  have "set (c_query P lm t) = snd ` {kv \<in> set t. P (snd kv)}"
    using assms by (auto simp: c_query_take case_prod_unfold)
  then show ?thesis by (auto simp: vals_def)
qed

lemma page_limit_None [simp]: "page_limit None = 50"
  by (simp add: page_limit_def DEFAULT_LIMIT_def MAX_LIMIT_def)

text \<open>\<open>page.items[0] ?? null\<close>: a page is empty exactly when nothing matches.\<close>

definition first_item :: "'v list \<Rightarrow> 'v option" where
  "first_item xs = (case xs of [] \<Rightarrow> None | x # _ \<Rightarrow> Some x)"

lemma first_query_None: "first_item (c_query P lm t) = None \<longleftrightarrow> (\<forall>v \<in> vals t. \<not> P v)"
proof -
  have "first_item (c_query P lm t) = None \<longleftrightarrow> filter (\<lambda>(k, v). P v) t = []"
    using page_limit_bounds [of lm] by (auto simp: first_item_def c_query_take split: list.splits)
  also have "\<dots> \<longleftrightarrow> (\<forall>v \<in> vals t. \<not> P v)" by (auto simp: filter_empty_conv vals_def)
  finally show ?thesis .
qed

lemma first_query_Some: "first_item (c_query P lm t) = Some v \<Longrightarrow> v \<in> vals t \<and> P v"
  using c_query_sub [of P lm t] by (auto simp: first_item_def split: list.splits)

text \<open>A collection whose rows are keyed by the id their record holds.\<close>

definition keyed :: "('v \<Rightarrow> string) \<Rightarrow> 'v coll \<Rightarrow> bool" where
  "keyed idf t \<longleftrightarrow> tab_ok t \<and> (\<forall>(k, v) \<in> set t. idf v = k)"

lemma keyed_Nil [simp]: "keyed idf []"
  by (simp add: keyed_def)

lemma keyed_put [intro]: "keyed idf t \<Longrightarrow> idf v = k \<Longrightarrow> keyed idf (tab_put k v t)"
  by (auto simp: keyed_def set_tab_put)

lemma keyed_del [intro]: "keyed idf t \<Longrightarrow> keyed idf (tab_del k t)"
  by (auto simp: keyed_def set_tab_del)

lemma keyed_ok: "keyed idf t \<Longrightarrow> tab_ok t"
  by (simp add: keyed_def)

lemma keyed_value:
  assumes "keyed idf t" shows "v \<in> vals t \<longleftrightarrow> map_of t (idf v) = Some v"
proof -
  have "v \<in> vals t \<longleftrightarrow> (idf v, v) \<in> set t"
    unfolding in_values using assms by (auto simp: keyed_def)
  then show ?thesis using assms by (simp add: keyed_def map_of_in_set)
qed

lemma keyed_id: "keyed idf t \<Longrightarrow> map_of t k = Some v \<Longrightarrow> idf v = k"
  by (auto simp: keyed_def dest: map_of_SomeD)

lemma values_put:
  "keyed idf t \<Longrightarrow> vals (tab_put k v t) = insert v {w \<in> vals t. idf w \<noteq> k}"
  by (auto simp: keyed_def set_tab_put set_eq_iff in_values)

lemma values_del: "keyed idf t \<Longrightarrow> vals (tab_del k t) = {w \<in> vals t. idf w \<noteq> k}"
  by (auto simp: keyed_def set_tab_del set_eq_iff in_values)

text \<open>Deleting the ids of a list of rows, as the loops over a page do.\<close>

definition del_all :: "string list \<Rightarrow> 'v coll \<Rightarrow> 'v coll" where
  "del_all ids t = foldl (\<lambda>t i. tab_del i t) t ids"

lemma map_of_del_all: "map_of (del_all ids t) i = (if i \<in> set ids then None else map_of t i)"
  unfolding del_all_def by (induction ids arbitrary: t) auto

lemma keyed_del_all [intro]: "keyed idf t \<Longrightarrow> keyed idf (del_all ids t)"
  unfolding del_all_def by (induction ids arbitrary: t) auto

lemma values_del_all:
  "keyed idf t \<Longrightarrow> vals (del_all ids t) = {w \<in> vals t. idf w \<notin> set ids}"
  unfolding del_all_def
proof (induction ids arbitrary: t)
  case (Cons i ids)
  then show ?case by (auto simp: keyed_del values_del [OF Cons.prems])
qed simp

text \<open>Deleting the rows of the first page drops just that page from the matching rows.\<close>

lemma del_all_filter: "del_all ids t = filter (\<lambda>(k, v). k \<notin> set ids) t"
  unfolding del_all_def
  by (induction ids arbitrary: t) (auto simp: tab_del_def case_prod_unfold conj_commute intro: filter_cong)

lemma filter_page:
  "distinct (map fst t) \<Longrightarrow>
    filter Q (filter (\<lambda>kv. fst kv \<notin> fst ` set (take n (filter Q t))) t) = drop n (filter Q t)"
proof (induction t arbitrary: n)
  case (Cons a t)
  have a: "fst a \<notin> fst ` set t" using Cons.prems by simp
  have sub: "set (take m (filter Q t)) \<subseteq> set t" for m by (auto dest: in_set_takeD)
  show ?case
  proof (cases "Q a \<and> n \<noteq> 0")
    case True
    then obtain m where n: "n = Suc m" by (cases n) auto
    have "filter (\<lambda>kv. fst kv \<notin> insert (fst a) (fst ` set (take m (filter Q t)))) t =
        filter (\<lambda>kv. fst kv \<notin> fst ` set (take m (filter Q t))) t"
      using a by (intro filter_cong refl) (metis insert_iff image_eqI)
    then show ?thesis using True n Cons.IH [of m] Cons.prems by simp
  next
    case False
    have "fst a \<notin> fst ` set (take n (filter Q t))" using a sub [of n] by (meson image_mono subsetD)
    then show ?thesis using False Cons.IH [of n] Cons.prems by (cases "Q a") auto
  qed
qed simp

lemma delete_first_page:
  assumes "keyed idf t"
  shows "filter P (map snd (del_all (map idf (c_query P lm t)) t)) =
    drop (page_limit lm) (filter P (map snd t))"
proof -
  let ?Q = "\<lambda>kv. P (snd kv)"
  let ?p = "take (page_limit lm) (filter ?Q t)"
  have "set ?p \<subseteq> set t" by (auto dest!: in_set_takeD)
  then have "idf (snd kv) = fst kv" if "kv \<in> set ?p" for kv using that assms by (force simp: keyed_def)
  then have "map idf (map snd ?p) = map fst ?p" by simp
  moreover have "c_query P lm t = map snd ?p" by (simp add: c_query_take take_map case_prod_unfold)
  ultimately have "del_all (map idf (c_query P lm t)) t = filter (\<lambda>kv. fst kv \<notin> set (map fst ?p)) t"
    by (simp only: del_all_filter case_prod_unfold)
  also have "\<dots> = filter (\<lambda>kv. fst kv \<notin> fst ` set ?p) t" by simp
  finally have "del_all (map idf (c_query P lm t)) t = filter (\<lambda>kv. fst kv \<notin> fst ` set ?p) t" .
  then have "filter ?Q (del_all (map idf (c_query P lm t)) t) = drop (page_limit lm) (filter ?Q t)"
    using filter_page [OF tab_ok_distinct [OF keyed_ok [OF assms]]] by simp
  then show ?thesis by (simp add: filter_map o_def drop_map [symmetric])
qed

section \<open>Audit events\<close>

datatype dval = DStr string | DNum int | DNull | DList "string list" | DBool bool

record audit_event =
  ev_action :: string
  ev_actor :: "string option"
  ev_detail :: "(string \<times> dval) list"

definition event :: "string \<Rightarrow> string option \<Rightarrow> (string \<times> dval) list \<Rightarrow> audit_event" where
  "event a who d = \<lparr>ev_action = a, ev_actor = who, ev_detail = d\<rparr>"

section \<open>Newest first\<close>

text \<open>
  \<open>sort((a, b) => (a.createdAt < b.createdAt ? 1 : -1))\<close>: an element goes before the first one
  that is not newer, so equal times come out in reverse.
\<close>

fun insert_newest :: "('v \<Rightarrow> string) \<Rightarrow> 'v \<Rightarrow> 'v list \<Rightarrow> 'v list" where
  "insert_newest f x [] = [x]"
| "insert_newest f x (y # ys) = (if f x < f y then y # insert_newest f x ys else x # y # ys)"

definition newest_first :: "('v \<Rightarrow> string) \<Rightarrow> 'v list \<Rightarrow> 'v list" where
  "newest_first f xs = foldl (\<lambda>acc x. insert_newest f x acc) [] xs"

lemma set_insert_newest: "set (insert_newest f x ys) = insert x (set ys)"
  by (induction ys) auto

lemma sorted_insert_newest:
  "sorted_wrt (\<lambda>a b. f b \<le> f a) ys \<Longrightarrow> sorted_wrt (\<lambda>a b. f b \<le> f a) (insert_newest f x ys)"
  by (induction ys) (auto simp: set_insert_newest not_less intro: order_trans)

lemma newest_first_sorted: "sorted_wrt (\<lambda>a b. f b \<le> f a) (newest_first f xs)"
proof -
  have "sorted_wrt (\<lambda>a b. f b \<le> f a) acc \<Longrightarrow>
      sorted_wrt (\<lambda>a b. f b \<le> f a) (foldl (\<lambda>acc x. insert_newest f x acc) acc xs)" for acc
    by (induction xs arbitrary: acc) (auto intro: sorted_insert_newest)
  then show ?thesis by (simp add: newest_first_def)
qed

lemma set_newest_first: "set (newest_first f xs) = set xs"
proof -
  have "set (foldl (\<lambda>acc x. insert_newest f x acc) acc xs) = set acc \<union> set xs" for acc
    by (induction xs arbitrary: acc) (auto simp: set_insert_newest)
  then show ?thesis by (simp add: newest_first_def)
qed

end
