(* ===== verification/Core_Props.thy ===== *)
theory Core_Props
  imports Access Totp Services
begin

text \<open>
  The properties of the building blocks: storage and its transactions, capabilities and roles, the
  rate limiter, the hook bus, and one-time passwords.
\<close>

section \<open>Storage\<close>

text \<open>C6: A transaction over the filesystem adapter is all or nothing: if its callback throws, at
  whatever point and after whatever reads, writes and deletes, every document of every collection is
  back to its value before the transaction and the index still agrees with the files.\<close>

theorem fs_transaction_atomic:
  assumes "fs_inv st" "journaledTransaction (fs_adapter ext) fn st = (Inl e, st')"
  shows "fs_inv st' \<and> (\<forall>c i. fs_get c i st' = fs_get c i st)"
  using fs.transaction_rollback [OF assms] by (auto simp: fs_view_def fs_get_def split: sum.splits)

definition two_docs :: "nat fs_state" where
  "two_docs = snd (fs_put ''posts'' \<lparr>doc_id = ''a'', doc_body = 1\<rparr> fs_empty)"

definition failing_tx :: "(nat, nat, unit) tx_prog" where
  "failing_tx = TxPut ''posts'' \<lparr>doc_id = ''a'', doc_body = 2\<rparr> (\<lambda>_.
     TxPut ''posts'' \<lparr>doc_id = ''b'', doc_body = 3\<rparr> (\<lambda>_. TxThrow (PressError Conflict ''no'')))"

theorem fs_transaction_atomic_witness:
  "fst (journaledTransaction (fs_adapter (\<lambda>_ _. None)) failing_tx two_docs) =
     Inl (PressError Conflict ''no'') \<and>
   fs_get ''posts'' ''a'' (snd (journaledTransaction (fs_adapter (\<lambda>_ _. None)) failing_tx two_docs)) =
     fs_get ''posts'' ''a'' two_docs"
proof -
  let ?r = "journaledTransaction (fs_adapter (\<lambda>_ _. None)) failing_tx two_docs"
  have f: "fst ?r = Inl (PressError Conflict ''no'')" by code_simp
  then have "?r = (Inl (PressError Conflict ''no''), snd ?r)" by (metis prod.collapse)
  from fs_transaction_atomic [OF _ this] f show ?thesis
    by (simp add: two_docs_def fs_put_inv fs_inv_empty)
qed

text \<open>Any sequence of writes and deletes, started on an empty store.\<close>

datatype 'd fs_op = FsPut string "'d doc" | FsDelete string string

fun fs_run :: "'d fs_op list \<Rightarrow> 'd fs_state \<Rightarrow> 'd fs_state" where
  "fs_run [] st = st"
| "fs_run (FsPut c d # ops) st = fs_run ops (snd (fs_put c d st))"
| "fs_run (FsDelete c i # ops) st = fs_run ops (snd (fs_delete c i st))"

lemma fs_run_inv: "fs_inv st \<Longrightarrow> fs_inv (fs_run ops st)"
  by (induction ops st rule: fs_run.induct) (simp_all add: fs_put_inv fs_delete_inv)

text \<open>The index is derived: after any sequence of writes and deletes, rebuilding it from the
  canonical files succeeds and gives exactly the index that was kept incrementally.\<close>

theorem fs_rebuild_derived:
  "fs_rebuildIndex (fs_run ops fs_empty) = (Inr (), fs_run ops fs_empty)"
  by (intro fs_rebuild_id fs_run_inv fs_inv_empty)

text \<open>C37: A reader that follows the cursors of a collection to the end stops, and has then read every
  document that matches the filter exactly once, in the order of the ids, whatever the page size.\<close>

theorem fs_paging_complete:
  fixes st :: "'d fs_state"
  shows "read_pages P lm (coll_of c (fs_docs (fs_run ops fs_empty))) None [] =
    Some (map snd (filter (\<lambda>(i, d). P d) (coll_of c (fs_docs (fs_run ops fs_empty :: 'd fs_state)))))"
proof -
  have "fs_inv (fs_run ops fs_empty :: 'd fs_state)" by (intro fs_run_inv fs_inv_empty)
  then have "tab_ok (coll_of c (fs_docs (fs_run ops fs_empty :: 'd fs_state)))"
    by (intro tab_ok_coll_of) (simp add: fs_inv_def)
  then show ?thesis by (simp add: read_pages_all matching_None)
qed

lemma includes_dots: "js_includes s ''..'' \<longleftrightarrow> (\<exists>a b. s = a @ ''..'' @ b)"
  by (rule js_includes_iff)

text \<open>No request reaches a file outside its collection's directory: a read, write or delete that
  the adapter accepts has a collection and an id without path separators, without \<open>..\<close> and different
  from the current directory, and a rejected one changes nothing.\<close>

theorem fs_paths_confined:
  "(is_ok (fst (fs_put c d st)) \<longrightarrow>
      (\<forall>s \<in> {c, doc_id d}. s \<noteq> [] \<and> s \<noteq> ''.'' \<and> CHR ''/'' \<notin> set s \<and> CHR 0x5C \<notin> set s \<and>
         \<not> (\<exists>a b. s = a @ ''..'' @ b))) \<and>
   (\<not> is_ok (fst (fs_put c d st)) \<longrightarrow> snd (fs_put c d st) = st) \<and>
   (is_ok (fst (fs_put c d st)) \<longleftrightarrow> is_ok (fst (fs_delete c (doc_id d) st))) \<and>
   (is_ok (fst (fs_put c d st)) \<longleftrightarrow> is_ok (fs_get c (doc_id d) st))"
proof (cases "key_ok c (doc_id d)")
  case True
  then have "SAFE_SEGMENT s \<and> s \<noteq> ''.'' \<and> \<not> js_includes s ''..''" if "s \<in> {c, doc_id d}" for s
    using that by (auto simp: key_ok_def is_ok_iff assertSegment_ok)
  then show ?thesis using True SAFE_SEGMENT_chars
    by (auto simp: fs_put_def fs_delete_def fs_get_def checkKey_ok includes_dots SAFE_SEGMENT_def)
next
  case False
  then show ?thesis using checkKey_bad [OF False] by (auto simp: fs_put_def fs_delete_def fs_get_def)
qed

theorem fs_paths_confined_witness:
  "fst (fs_put ''..'' \<lparr>doc_id = ''x'', doc_body = (1::nat)\<rparr> fs_empty) \<noteq> Inr () \<and>
   CHR ''/'' \<notin> set ''posts''"
proof -
  have "is_ok (fst (fs_put ''posts'' \<lparr>doc_id = ''x'', doc_body = (1::nat)\<rparr> fs_empty))" by code_simp
  then have "CHR ''/'' \<notin> set ''posts''"
    using fs_paths_confined [of "''posts''" "\<lparr>doc_id = ''x'', doc_body = (1::nat)\<rparr>" fs_empty] by blast
  moreover have "\<not> is_ok (fst (fs_put ''..'' \<lparr>doc_id = ''x'', doc_body = (1::nat)\<rparr> fs_empty))"
    by code_simp
  ultimately show ?thesis by (auto simp: is_ok_iff)
qed

section \<open>Capabilities and roles\<close>

text \<open>The gate decides by the language of the granted patterns: a requirement passes iff some
  grant is the wildcard, or its path pattern accepts the required path and its scope is the wildcard
  or the required scope.  It is default-deny and monotone in the grants.\<close>

theorem gate_decision:
  "(gate_check granted required \<longleftrightarrow> (\<exists>g \<in> set granted. g = ''*'' \<or>
      cap_path (parseCapability required) \<in> path_language (cap_path (parseCapability g)) \<and>
      (cap_scope (parseCapability g) = Some ''*'' \<or>
        cap_scope (parseCapability g) = cap_scope (parseCapability required)))) \<and>
   \<not> gate_check [] required \<and>
   (gate_check granted required \<longrightarrow> gate_check (granted @ extra) required)"
  by (auto simp: gate_check_def list_ex_iff capabilityMatches_def Let_def pathMatches_language
      scopeMatches_def)

theorem gate_decision_witness:
  "gate_check [''content.*:own'', ''audit.read''] ''content.update:own''"
proof -
  have "gate_check [''content.*:own''] ''content.update:own''" by code_simp
  then show ?thesis
    using gate_decision [of "[''content.*:own'']" "''content.update:own''" "[''audit.read'']"] by simp
qed

text \<open>The built-in roles form a chain: what a role may do, every role above it may do too, for any
  required capability whatsoever, and the owner may do everything.\<close>

theorem role_chain:
  "(role_allows ''viewer'' req \<longrightarrow> role_allows ''author'' req) \<and>
   (role_allows ''author'' req \<longrightarrow> role_allows ''editor'' req) \<and>
   (role_allows ''editor'' req \<longrightarrow> role_allows ''admin'' req) \<and>
   role_allows ''owner'' req"
  using viewer_below_author author_below_editor editor_below_admin owner_allows_all by blast

theorem role_chain_witness:
  "role_allows ''admin'' ''content.publish'' \<and> \<not> role_allows ''author'' ''content.publish''"
proof -
  have "role_allows ''editor'' ''content.publish''" "\<not> role_allows ''author'' ''content.publish''"
    by code_simp+
  then show ?thesis using role_chain [of "''content.publish''"] by blast
qed

section \<open>Rate limiter\<close>

text \<open>From the request that opens the window of a key on, and until that window ends, at most
  \<open>limit\<close> requests of that key pass (the opening one always does), however the requests of other keys
  are interleaved.\<close>

theorem rate_limit_window:
  assumes "case hits k of None \<Rightarrow> True | Some (n, r) \<Rightarrow> r \<le> t0"
    and "\<forall>(t, k') \<in> set reqs. t < t0 + rl_window opts"
  shows "int (allowed k ((t0, k) # reqs) (fst (rate_run opts ((t0, k) # reqs) hits))) \<le>
    max 1 (rl_limit opts)"
proof -
  have c: "rate_check opts t0 k hits = (True, hits(k \<mapsto> (1, t0 + rl_window opts)))"
    using assms(1) by (auto simp: rate_check_def split: option.splits)
  have "int (allowed k reqs (fst (rate_run opts reqs (hits(k \<mapsto> (1, t0 + rl_window opts)))))) \<le>
      max 0 (rl_limit opts - 1)"
    using assms(2) by (intro rate_run_window) auto
  then show ?thesis by (auto simp: c split: prod.splits)
qed

theorem rate_limit_window_witness:
  "allowed ''ip'' [(0, ''ip''), (1, ''ip''), (2, ''x''), (3, ''ip''), (4, ''ip'')]
     (fst (rate_run \<lparr>rl_limit = 2, rl_window = 60\<rparr>
        [(0, ''ip''), (1, ''ip''), (2, ''x''), (3, ''ip''), (4, ''ip'')] Map.empty)) \<le> 2"
  using rate_limit_window [where hits = Map.empty and k = "''ip''" and ?t0.0 = 0
      and reqs = "[(1, ''ip''), (2, ''x''), (3, ''ip''), (4, ''ip'')]"
      and opts = "\<lparr>rl_limit = 2, rl_window = 60\<rparr>"] by simp

section \<open>Hook bus\<close>

datatype 'h hook_op = HookOn string 'h "int option" | HookOff string "'h registration"

fun hook_run :: "'h hook_op list \<Rightarrow> 'h hook_bus \<Rightarrow> 'h hook_bus" where
  "hook_run [] bus = bus"
| "hook_run (HookOn n f p # ops) bus = hook_run ops (snd (hook_on n f p bus))"
| "hook_run (HookOff n r # ops) bus = hook_run ops (hook_off n r bus)"

definition hook_empty :: "'h hook_bus" where
  "hook_empty = \<lparr>hooks = Map.empty, next_seq = 0\<rparr>"

lemma hook_run_inv: "hook_inv bus \<Longrightarrow> hook_inv (hook_run ops bus)"
  by (induction ops bus rule: hook_run.induct) (simp_all add: hook_on_inv hook_off_inv)

text \<open>After any sequence of registrations and removals, an event runs its handlers by rising
  priority and, within one priority, in the order of registration; no registration runs twice.\<close>

theorem hook_order:
  "\<exists>regs. hook_emit name (hook_run ops hook_empty) = map reg_fn regs \<and>
    sorted (map hook_key regs) \<and> distinct (map reg_seq regs)"
proof -
  have "hook_inv (hook_run ops hook_empty)"
    by (rule hook_run_inv) (simp add: hook_inv_def hook_empty_def)
  then show ?thesis
    by (cases "hooks (hook_run ops hook_empty) name") (auto simp: hook_emit_def hook_inv_def)
qed

section \<open>One-time passwords\<close>

text \<open>A generated secret is its random bytes in base32, and decoding gives them back, for seeds
  of any length.\<close>

theorem totp_secret_roundtrip:
  "base32Decode (generateTotpSecret seed) = Inr seed"
  by (simp add: generateTotpSecret_def base32_roundtrip)

text \<open>A code is accepted exactly if, its spaces removed, it is the code of the current time step
  or of one of its two neighbours; in particular the code the app shows now is accepted.\<close>

theorem totp_verification:
  assumes "\<And>k m. length (hmac k m) = 20" "30000 \<le> t" "t < 30000 * (2 ^ 64 - 1)"
  shows "verifyTotp hmac (generateTotpSecret seed) inp t =
      Inr (\<exists>c \<in> {totp_counter t - 1, totp_counter t, totp_counter t + 1}.
        hotp hmac seed c DEFAULT_DIGITS = Inr (filter (\<lambda>c. \<not> is_js_space c) inp)) \<and>
    (\<exists>code. totp hmac (generateTotpSecret seed) t = Inr code \<and>
      verifyTotp hmac (generateTotpSecret seed) code t = Inr True)"
proof -
  let ?n = "totp_counter t"
  let ?win = "[?n - DEFAULT_WINDOW .. ?n + DEFAULT_WINDOW]"
  have n: "1 \<le> ?n" "?n + 1 < 2 ^ 64"
    using assms(2,3) by (simp_all add: totp_counter_def DEFAULT_STEP_SECONDS_def)
  have win: "set ?win = {?n - 1, ?n, ?n + 1}" by (auto simp: DEFAULT_WINDOW_def)
  have ok: "\<forall>c \<in> set ?win. is_ok (hotp hmac seed c DEFAULT_DIGITS)"
  proof
    fix c assume "c \<in> set ?win"
    then have "0 \<le> c" "c < 2 ^ 64" using n unfolding win by auto
    from hotp_Inr [of hmac seed, OF assms(1) this] show "is_ok (hotp hmac seed c DEFAULT_DIGITS)"
      by (auto simp: is_ok_iff)
  qed
  have v: "verifyTotp hmac (generateTotpSecret seed) x t =
      Inr (\<exists>c \<in> {?n - 1, ?n, ?n + 1}. hotp hmac seed c DEFAULT_DIGITS = Inr (filter (\<lambda>c. \<not> is_js_space c) x))"
    for x
  proof (cases "length (filter (\<lambda>c. \<not> is_js_space c) x) = DEFAULT_DIGITS \<and>
      list_all is_digit (filter (\<lambda>c. \<not> is_js_space c) x)")
    case True
    then show ?thesis
      using totp_scan_True [OF ok] unfolding win
      by (simp add: verifyTotp_def Let_def generateTotpSecret_def base32_roundtrip)
  next
    case False
    then have "hotp hmac seed c DEFAULT_DIGITS \<noteq> Inr (filter (\<lambda>c. \<not> is_js_space c) x)" for c
      using hotp_format [of hmac seed c] by (force simp: DEFAULT_DIGITS_def)
    then show ?thesis using False by (auto simp: verifyTotp_def Let_def)
  qed
  obtain code where c: "hotp hmac seed ?n DEFAULT_DIGITS = Inr code"
    using ok unfolding win by (auto simp: is_ok_iff)
  have "filter (\<lambda>c. \<not> is_js_space c) code = code" using hotp_format [OF c] by blast
  then have "verifyTotp hmac (generateTotpSecret seed) code t = Inr True" using c by (auto simp: v)
  moreover have "totp hmac (generateTotpSecret seed) t = Inr code"
    using c by (simp add: totp_def generateTotpSecret_def base32_roundtrip)
  ultimately show ?thesis using v by blast
qed

theorem totp_verification_witness:
  "\<exists>code. totp (\<lambda>_ _. replicate 20 7) (generateTotpSecret [1, 2, 3]) 1700000000000 = Inr code \<and>
    verifyTotp (\<lambda>_ _. replicate 20 7) (generateTotpSecret [1, 2, 3]) code 1700000000000 = Inr True"
  by (rule totp_verification [THEN conjunct2]) simp_all

end
