(* ===== verification/Auth.thy ===== *)
theory Auth
  imports Services Access Totp
begin

text \<open>
  The authentication service of \<open>packages/core/src/auth/service.ts\<close>: users, sessions,
  invitations, password login with lockout, the TOTP second factor with recovery codes, and user
  administration.  The state is the three collections, the vault and the audit trail.  Cryptography
  (SHA-256, argon2, HMAC) and the configured limits are the environment; random values and the
  clock readings of a call are arguments.
\<close>

section \<open>Records and environment\<close>

datatype user_status = Active | Disabled

record user_record =
  u_id :: string
  u_email :: string
  passwordHash :: string
  u_roles :: "string list"
  mfaEnabled :: bool
  mfaRecoveryHashes :: "string list option"
  u_status :: user_status
  mustChangePassword :: bool
  failedAttempts :: int
  lockedUntil :: "int option"
  u_createdAt :: string

record session_record =
  s_id :: string
  s_userId :: string
  s_createdAt :: string
  s_expiresAt :: int
  revoked :: bool
  mfaPending :: bool
  mfaAttempts :: int

record invite_record =
  i_id :: string
  i_email :: string
  i_roles :: "string list"
  tokenHash :: string
  invitedBy :: "string option"
  i_expiresAt :: int
  consumedAt :: "string option"
  i_createdAt :: string

text \<open>The public shapes carry neither hashes nor lockout counters.\<close>

record user =
  pu_id :: string
  pu_email :: string
  pu_roles :: "string list"
  pu_mfaEnabled :: bool
  pu_status :: user_status
  pu_mustChangePassword :: bool
  pu_createdAt :: string

record invite =
  pi_id :: string
  pi_email :: string
  pi_roles :: "string list"
  pi_invitedBy :: "string option"
  pi_expiresAt :: int
  pi_consumedAt :: "string option"
  pi_createdAt :: string

datatype login_result = LoginResult (lr_token: string) (lr_user: user) | MfaChallenge (challenge: string)

record auth_env =
  sha256 :: "string \<Rightarrow> string"
  argon_hash :: "string \<Rightarrow> string \<Rightarrow> string"
  argon_verify :: "string \<Rightarrow> string \<Rightarrow> bool"
  hmac_sha1 :: "byte list \<Rightarrow> byte list \<Rightarrow> byte list"
  dummyHash :: string
  maxAttempts :: nat
  lockoutMs :: int
  sessionTtlMs :: int

record auth_state =
  users :: "user_record coll"
  sessions :: "session_record coll"
  invites :: "invite_record coll"
  vault :: "(string \<rightharpoonup> string) option"
  audit :: "audit_event list"

definition DEFAULT_MAX_ATTEMPTS :: nat where "DEFAULT_MAX_ATTEMPTS = 5"
definition DEFAULT_LOCKOUT_MS :: int where "DEFAULT_LOCKOUT_MS = 15 * 60 * 1000"
definition MAX_LOCKOUT_MS :: int where "MAX_LOCKOUT_MS = 24 * 60 * 60 * 1000"
definition DEFAULT_SESSION_TTL_MS :: int where "DEFAULT_SESSION_TTL_MS = 7 * 24 * 60 * 60 * 1000"
definition DEFAULT_INVITE_TTL_MS :: int where "DEFAULT_INVITE_TTL_MS = 7 * 24 * 60 * 60 * 1000"
definition MIN_PASSWORD_LENGTH :: nat where "MIN_PASSWORD_LENGTH = 8"
definition MFA_CHALLENGE_TTL_MS :: int where "MFA_CHALLENGE_TTL_MS = 5 * 60 * 1000"
definition MAX_MFA_ATTEMPTS :: int where "MAX_MFA_ATTEMPTS = 5"

definition mfaSecretName :: "string \<Rightarrow> string" where
  "mfaSecretName userId = ''mfa:'' @ userId"

definition normalizeEmail :: "string \<Rightarrow> string" where
  "normalizeEmail email = js_lower (js_trim email)"

text \<open>\<open>mfaPending\<close> and \<open>mfaAttempts\<close> are optional in the source; absent is read as \<open>false\<close> and 0.\<close>

definition tokenId :: "auth_env \<Rightarrow> string \<Rightarrow> string" where
  "tokenId env token = sha256 env token"

definition toPublic :: "user_record \<Rightarrow> user" where
  "toPublic r = \<lparr>pu_id = u_id r, pu_email = u_email r, pu_roles = u_roles r,
     pu_mfaEnabled = mfaEnabled r, pu_status = u_status r,
     pu_mustChangePassword = mustChangePassword r, pu_createdAt = u_createdAt r\<rparr>"

definition toPublicInvite :: "invite_record \<Rightarrow> invite" where
  "toPublicInvite r = \<lparr>pi_id = i_id r, pi_email = i_email r, pi_roles = i_roles r,
     pi_invitedBy = invitedBy r, pi_expiresAt = i_expiresAt r, pi_consumedAt = consumedAt r,
     pi_createdAt = i_createdAt r\<rparr>"

definition normalizeRecoveryCode :: "string \<Rightarrow> string" where
  "normalizeRecoveryCode c = js_upper (filter (\<lambda>c. \<not> (is_js_space c \<or> c = CHR ''-'')) c)"

definition hashRecoveryCode :: "auth_env \<Rightarrow> string \<Rightarrow> string" where
  "hashRecoveryCode env c = sha256 env (normalizeRecoveryCode c)"

text \<open>\<open>raws\<close> are the base64url strings of the random bytes, one per code.\<close>

definition recoveryCode :: "string \<Rightarrow> string" where
  "recoveryCode raw =
     (let r = take 10 (js_upper (filter is_alnum raw)); p = r @ replicate (10 - length r) (CHR ''0'')
      in take 5 p @ ''-'' @ drop 5 p)"

definition generateRecoveryCodes :: "string list \<Rightarrow> string list" where
  "generateRecoveryCodes raws = map recoveryCode raws"

definition log_event :: "audit_event \<Rightarrow> auth_state \<Rightarrow> auth_state" where
  "log_event e st = st\<lparr>audit := audit st @ [e]\<rparr>"

definition put_user :: "user_record \<Rightarrow> auth_state \<Rightarrow> auth_state" where
  "put_user r st = st\<lparr>users := tab_put (u_id r) r (users st)\<rparr>"

definition put_session :: "session_record \<Rightarrow> auth_state \<Rightarrow> auth_state" where
  "put_session s st = st\<lparr>sessions := tab_put (s_id s) s (sessions st)\<rparr>"

definition del_session :: "string \<Rightarrow> auth_state \<Rightarrow> auth_state" where
  "del_session i st = st\<lparr>sessions := tab_del i (sessions st)\<rparr>"

definition put_invite :: "invite_record \<Rightarrow> auth_state \<Rightarrow> auth_state" where
  "put_invite i st = st\<lparr>invites := tab_put (i_id i) i (invites st)\<rparr>"

section \<open>Sessions\<close>

definition issueSession ::
  "auth_env \<Rightarrow> user_record \<Rightarrow> string \<Rightarrow> string \<Rightarrow> int \<Rightarrow> auth_state \<Rightarrow> login_result \<times> auth_state" where
  "issueSession env r email token t st =
     (let session = \<lparr>s_id = tokenId env token, s_userId = u_id r, s_createdAt = iso_string t,
            s_expiresAt = t + sessionTtlMs env, revoked = False, mfaPending = False, mfaAttempts = 0\<rparr>;
          st = put_session session st;
          st = log_event (event ''user.login'' (Some (u_id r)) [(''email'', DStr email)]) st
      in (LoginResult token (toPublic r), st))"

definition findRecordByEmail :: "string \<Rightarrow> auth_state \<Rightarrow> user_record option" where
  "findRecordByEmail email st =
     first_item (c_query (\<lambda>r. u_email r = normalizeEmail email) None (users st))"

definition pruneUserSessions :: "string \<Rightarrow> int \<Rightarrow> auth_state \<Rightarrow> auth_state" where
  "pruneUserSessions userId now st =
     (let page = c_query (\<lambda>s. s_userId s = userId) None (sessions st)
      in st\<lparr>sessions :=
           del_all (map s_id (filter (\<lambda>s. revoked s \<or> s_expiresAt s \<le> now) page)) (sessions st)\<rparr>)"

definition revokeUserSessions :: "string \<Rightarrow> auth_state \<Rightarrow> auth_state" where
  "revokeUserSessions userId st =
     (let page = c_query (\<lambda>s. s_userId s = userId) None (sessions st)
      in st\<lparr>sessions := del_all (map s_id page) (sessions st)\<rparr>)"

definition validateSession :: "auth_env \<Rightarrow> string \<Rightarrow> int \<Rightarrow> auth_state \<Rightarrow> user option result" where
  "validateSession env token now st =
     (case c_get (tokenId env token) (sessions st) of Inl e \<Rightarrow> Inl e
      | Inr None \<Rightarrow> Inr None
      | Inr (Some s) \<Rightarrow>
          if revoked s \<or> mfaPending s \<or> s_expiresAt s \<le> now then Inr None
          else case c_get (s_userId s) (users st) of Inl e \<Rightarrow> Inl e
            | Inr None \<Rightarrow> Inr None
            | Inr (Some u) \<Rightarrow> if u_status u = Disabled then Inr None else Inr (Some (toPublic u)))"

definition logout :: "auth_env \<Rightarrow> string \<Rightarrow> (auth_state, unit) action" where
  "logout env token st =
     (case c_get (tokenId env token) (sessions st) of Inl e \<Rightarrow> (Inl e, st)
      | Inr None \<Rightarrow> (Inr (), st)
      | Inr (Some s) \<Rightarrow>
          (Inr (), log_event (event ''user.logout'' (Some (s_userId s)) [])
                     (put_session (s\<lparr>revoked := True\<rparr>) st)))"

section \<open>Creating users\<close>

definition check_roles :: "string list \<Rightarrow> unit result" where
  "check_roles roles =
     (if roles = [] then Inl (PressError Validation ''At least one role is required'')
      else case find (\<lambda>r. \<not> isRoleName r) roles of
             Some r \<Rightarrow> Inl (PressError Validation (''Unknown role: '' @ r))
           | None \<Rightarrow> Inr ())"

definition password_error :: press_error where
  "password_error = PressError Validation
     (''Password must be at least '' @ nat_digits MIN_PASSWORD_LENGTH @ '' characters'')"

definition insertUser ::
  "auth_env \<Rightarrow> string \<Rightarrow> string \<Rightarrow> string list \<Rightarrow> bool \<Rightarrow> string option \<Rightarrow>
   string \<Rightarrow> string \<Rightarrow> int \<Rightarrow> (auth_state, user_record) action" where
  "insertUser env inp_email password roles mustChange actorId uuid salt now st =
     (let email = normalizeEmail inp_email in
      if \<not> js_includes email ''@'' then (Inl (PressError Validation ''A valid email is required''), st)
      else if length password < MIN_PASSWORD_LENGTH then (Inl password_error, st)
      else case check_roles roles of Inl e \<Rightarrow> (Inl e, st)
      | Inr _ \<Rightarrow>
        (case findRecordByEmail email st of
           Some _ \<Rightarrow> (Inl (PressError Conflict ''A user with this email already exists''), st)
         | None \<Rightarrow>
           (let r = \<lparr>u_id = uuid, u_email = email, passwordHash = argon_hash env salt password,
                  u_roles = roles, mfaEnabled = False, mfaRecoveryHashes = None, u_status = Active,
                  mustChangePassword = mustChange, failedAttempts = 0, lockedUntil = None,
                  u_createdAt = iso_string now\<rparr>;
                st = put_user r st;
                st = log_event (event ''user.create'' actorId
                       [(''userId'', DStr uuid), (''email'', DStr email)]) st
            in (Inr r, st))))"

definition createUser ::
  "auth_env \<Rightarrow> string \<Rightarrow> string \<Rightarrow> string list \<Rightarrow> string \<Rightarrow> string \<Rightarrow> int \<Rightarrow> (auth_state, user) action" where
  "createUser env email password roles uuid salt now st =
     (case insertUser env email password roles False None uuid salt now st of
        (Inl e, st') \<Rightarrow> (Inl e, st') | (Inr r, st') \<Rightarrow> (Inr (toPublic r), st'))"

text \<open>\<open>temp\<close> is the generated temporary password.\<close>

definition adminCreateUser ::
  "auth_env \<Rightarrow> string \<Rightarrow> string list \<Rightarrow> string option \<Rightarrow> string \<Rightarrow> string \<Rightarrow> string \<Rightarrow> int \<Rightarrow>
   (auth_state, user \<times> string) action" where
  "adminCreateUser env email roles actorId temp uuid salt now st =
     (case insertUser env email temp roles True actorId uuid salt now st of
        (Inl e, st') \<Rightarrow> (Inl e, st') | (Inr r, st') \<Rightarrow> (Inr (toPublic r, temp), st'))"

section \<open>Password login\<close>

definition bad_credentials :: press_error where
  "bad_credentials = PressError Unauthorized ''Invalid credentials''"

text \<open>
  \<open>Math.min(lockoutMs * 2 ** (tier - 1), MAX_LOCKOUT_MS)\<close> with
  \<open>tier = Math.floor(failedAttempts / maxAttempts)\<close>, for a positive number of allowed attempts.
\<close>

definition lockout_backoff :: "auth_env \<Rightarrow> int \<Rightarrow> int" where
  "lockout_backoff env attempts =
     (let tier = attempts div int (maxAttempts env)
      in min (lockoutMs env * 2 ^ nat (tier - 1)) MAX_LOCKOUT_MS)"

definition record_failure :: "auth_env \<Rightarrow> string \<Rightarrow> int \<Rightarrow> user_record \<Rightarrow> auth_state \<Rightarrow> auth_state" where
  "record_failure env email t r st =
     (let n = failedAttempts r + 1; r = r\<lparr>failedAttempts := n\<rparr> in
      if n \<ge> int (maxAttempts env)
      then let backoff = lockout_backoff env n; r = r\<lparr>lockedUntil := Some (t + backoff)\<rparr>
           in log_event (event ''user.account.locked'' (Some (u_id r))
                [(''email'', DStr email), (''attempts'', DNum n), (''lockedForMs'', DNum backoff)])
                (put_user r st)
      else log_event (event ''user.login.failed'' (Some (u_id r))
             [(''email'', DStr email), (''attempts'', DNum n)]) (put_user r st))"

definition is_locked :: "user_record option \<Rightarrow> int \<Rightarrow> bool" where
  "is_locked rec t = (case rec of None \<Rightarrow> False
     | Some r \<Rightarrow> (case lockedUntil r of None \<Rightarrow> False | Some u \<Rightarrow> u > t))"

text \<open>\<open>t\<close> is the clock at the check, \<open>t'\<close> when the session is issued.\<close>

definition authenticate ::
  "auth_env \<Rightarrow> string \<Rightarrow> string \<Rightarrow> string \<Rightarrow> int \<Rightarrow> int \<Rightarrow> (auth_state, login_result) action" where
  "authenticate env inp_email password token t t' st =
     (let email = normalizeEmail inp_email;
          rec = findRecordByEmail email st;
          locked = is_locked rec t;
          passwordOk = (case rec of Some r \<Rightarrow> argon_verify env (passwordHash r) password
                        | None \<Rightarrow> argon_verify env (dummyHash env) password)
      in case rec of
           None \<Rightarrow> (Inl bad_credentials, st)
         | Some r \<Rightarrow>
             if locked
             then (Inl bad_credentials,
                   log_event (event ''user.login.locked'' (Some (u_id r)) [(''email'', DStr email)]) st)
             else if \<not> passwordOk \<or> u_status r = Disabled
             then (Inl bad_credentials,
                   if u_status r \<noteq> Disabled then record_failure env email t r st else st)
             else
               let r = r\<lparr>failedAttempts := 0, lockedUntil := None\<rparr>;
                   st = pruneUserSessions (u_id r) t (put_user r st)
               in if mfaEnabled r
                  then let pending = \<lparr>s_id = tokenId env token, s_userId = u_id r,
                             s_createdAt = iso_string t, s_expiresAt = t + MFA_CHALLENGE_TTL_MS,
                             revoked = False, mfaPending = True, mfaAttempts = 0\<rparr>;
                           st = log_event (event ''user.mfa.challenge'' (Some (u_id r))
                                  [(''email'', DStr email)]) (put_session pending st)
                       in (Inr (MfaChallenge token), st)
                  else let (res, st) = issueSession env r email token t' st in (Inr res, st))"

section \<open>Second factor\<close>

definition bad_challenge :: press_error where
  "bad_challenge = PressError Unauthorized ''Invalid or expired login challenge''"

definition bad_code :: press_error where
  "bad_code = PressError Unauthorized ''Invalid authentication code''"

definition user_not_found :: press_error where
  "user_not_found = PressError Not_found ''User not found''"

text \<open>
  Removes one matching unused recovery code.  (The dash of the message of too many attempts is an
  em dash in the source.)
\<close>

definition consumeRecoveryCode ::
  "auth_env \<Rightarrow> user_record \<Rightarrow> string \<Rightarrow> bool \<times> user_record" where
  "consumeRecoveryCode env r inp =
     (let hashes = (case mfaRecoveryHashes r of None \<Rightarrow> [] | Some hs \<Rightarrow> hs);
          candidate = hashRecoveryCode env inp
      in if candidate \<notin> set hashes then (False, r)
         else (True, r\<lparr>mfaRecoveryHashes := Some (remove1 candidate hashes)\<rparr>))"

text \<open>\<open>await this.#secrets?.getSecret(...).catch(() => null)\<close>\<close>

definition mfa_secret :: "string \<Rightarrow> auth_state \<Rightarrow> string option" where
  "mfa_secret userId st = (case vault st of None \<Rightarrow> None | Some v \<Rightarrow> v (mfaSecretName userId))"

definition check_totp :: "auth_env \<Rightarrow> string option \<Rightarrow> string \<Rightarrow> int \<Rightarrow> bool result" where
  "check_totp env secret inp t =
     (case secret of None \<Rightarrow> Inr False | Some s \<Rightarrow> verifyTotp (hmac_sha1 env) s inp t)"

definition verifyMfaLogin ::
  "auth_env \<Rightarrow> string \<Rightarrow> string \<Rightarrow> int \<Rightarrow> (auth_state, login_result) action" where
  "verifyMfaLogin env chal inp t st =
     (case c_get (tokenId env chal) (sessions st) of Inl e \<Rightarrow> (Inl e, st)
      | Inr None \<Rightarrow> (Inl bad_challenge, st)
      | Inr (Some s) \<Rightarrow>
        if \<not> mfaPending s \<or> revoked s \<or> s_expiresAt s \<le> t then (Inl bad_challenge, st)
        else (case c_get (s_userId s) (users st) of Inl e \<Rightarrow> (Inl e, st)
        | Inr None \<Rightarrow> (Inl bad_challenge, del_session (s_id s) st)
        | Inr (Some r) \<Rightarrow>
          if u_status r = Disabled then (Inl bad_challenge, del_session (s_id s) st)
          else if mfaAttempts s \<ge> MAX_MFA_ATTEMPTS
          then (Inl (PressError Unauthorized ''Too many attempts - start over''), del_session (s_id s) st)
          else (case check_totp env (mfa_secret (u_id r) st) inp t of Inl e \<Rightarrow> (Inl e, st)
          | Inr totpOk \<Rightarrow>
            let (recoveryOk, r') = (if totpOk then (False, r) else consumeRecoveryCode env r inp) in
            if \<not> totpOk \<and> \<not> recoveryOk
            then (let s = s\<lparr>mfaAttempts := mfaAttempts s + 1\<rparr>
                  in (Inl bad_code,
                      log_event (event ''user.mfa.failed'' (Some (u_id r))
                        [(''attempts'', DNum (mfaAttempts s))]) (put_session s st)))
            else
              let st = (if recoveryOk then put_user r' st else st);
                  s = s\<lparr>mfaPending := False, mfaAttempts := 0, s_expiresAt := t + sessionTtlMs env\<rparr>;
                  st = put_session s st;
                  st = log_event (event ''user.mfa.verify'' (Some (u_id r))
                         [(''method'', DStr (if totpOk then ''totp'' else ''recovery''))]) st;
                  st = log_event (event ''user.login'' (Some (u_id r)) [(''email'', DStr (u_email r))]) st
              in (Inr (LoginResult chal (toPublic r')), st))))"

definition require_vault :: "auth_state \<Rightarrow> (string \<rightharpoonup> string) result" where
  "require_vault st = (case vault st of
     None \<Rightarrow> Inl (PressError Validation
       ''Two-factor auth requires the secrets vault. Set PRESSH_MASTER_KEY to enable it.'')
   | Some v \<Rightarrow> Inr v)"

text \<open>\<open>random\<close> are the 20 random bytes of the new secret; the result is the secret.\<close>

definition beginMfaEnrollment :: "string \<Rightarrow> byte list \<Rightarrow> (auth_state, string) action" where
  "beginMfaEnrollment userId random st =
     (case require_vault st of Inl e \<Rightarrow> (Inl e, st)
      | Inr v \<Rightarrow>
        (case c_get userId (users st) of Inl e \<Rightarrow> (Inl e, st)
         | Inr None \<Rightarrow> (Inl user_not_found, st)
         | Inr (Some r) \<Rightarrow>
             let secret = generateTotpSecret random;
                 st = st\<lparr>vault := Some (v(mfaSecretName userId \<mapsto> secret))\<rparr>;
                 st = log_event (event ''user.mfa.enroll.begin'' (Some userId) []) st
             in (Inr secret, st)))"

definition confirmMfaEnrollment ::
  "auth_env \<Rightarrow> string \<Rightarrow> string \<Rightarrow> string list \<Rightarrow> int \<Rightarrow> (auth_state, string list) action" where
  "confirmMfaEnrollment env userId inp raws now st =
     (case require_vault st of Inl e \<Rightarrow> (Inl e, st)
      | Inr v \<Rightarrow>
        (case c_get userId (users st) of Inl e \<Rightarrow> (Inl e, st)
         | Inr None \<Rightarrow> (Inl user_not_found, st)
         | Inr (Some r) \<Rightarrow>
           (case v (mfaSecretName userId) of
              None \<Rightarrow> (Inl (PressError Validation ''Start enrollment before confirming''), st)
            | Some secret \<Rightarrow>
              if secret = [] then (Inl (PressError Validation ''Start enrollment before confirming''), st)
              else (case verifyTotp (hmac_sha1 env) secret inp now of Inl e \<Rightarrow> (Inl e, st)
              | Inr False \<Rightarrow> (Inl bad_code, st)
              | Inr True \<Rightarrow>
                 let codes = generateRecoveryCodes raws;
                     r = r\<lparr>mfaEnabled := True, mfaRecoveryHashes := Some (map (hashRecoveryCode env) codes)\<rparr>;
                     st = log_event (event ''user.mfa.enable'' (Some userId) []) (put_user r st)
                 in (Inr codes, st)))))"

definition disableMfa :: "auth_env \<Rightarrow> string \<Rightarrow> string \<Rightarrow> int \<Rightarrow> (auth_state, unit) action" where
  "disableMfa env userId inp now st =
     (case c_get userId (users st) of Inl e \<Rightarrow> (Inl e, st)
      | Inr None \<Rightarrow> (Inl user_not_found, st)
      | Inr (Some r) \<Rightarrow>
        if \<not> mfaEnabled r then (Inr (), st)
        else (case check_totp env (mfa_secret userId st) inp now of Inl e \<Rightarrow> (Inl e, st)
        | Inr totpOk \<Rightarrow>
          let (ok, r) = (if totpOk then (True, r) else consumeRecoveryCode env r inp) in
          if \<not> ok then (Inl bad_code, st)
          else let r = r\<lparr>mfaEnabled := False, mfaRecoveryHashes := Some []\<rparr>;
                   st = put_user r st;
                   st = st\<lparr>vault := map_option (\<lambda>v. v(mfaSecretName userId := None)) (vault st)\<rparr>;
                   st = log_event (event ''user.mfa.disable'' (Some userId) []) st
               in (Inr (), st)))"

section \<open>Administration\<close>

definition allUserRecords :: "auth_state \<Rightarrow> user_record list" where
  "allUserRecords st = c_query (\<lambda>_. True) None (users st)"

definition hasAnyUser :: "auth_state \<Rightarrow> bool" where
  "hasAnyUser st = (c_query (\<lambda>_. True) (Some 1) (users st) \<noteq> [])"

definition active_owner :: "user_record \<Rightarrow> bool" where
  "active_owner r = (u_status r = Active \<and> ''owner'' \<in> set (u_roles r))"

definition isLastActiveOwner :: "user_record list \<Rightarrow> user_record \<Rightarrow> bool" where
  "isLastActiveOwner records target =
     (active_owner target \<and> length (filter active_owner records) \<le> 1)"

definition listUsers :: "auth_state \<Rightarrow> user list" where
  "listUsers st = map toPublic (newest_first u_createdAt (allUserRecords st))"

definition getUser :: "string \<Rightarrow> auth_state \<Rightarrow> user option result" where
  "getUser i st = (case c_get i (users st) of Inl e \<Rightarrow> Inl e | Inr r \<Rightarrow> Inr (map_option toPublic r))"

definition getUserByEmail :: "string \<Rightarrow> auth_state \<Rightarrow> user option" where
  "getUserByEmail email st = map_option toPublic (findRecordByEmail email st)"

definition capabilitiesFor :: "user \<Rightarrow> string list option" where
  "capabilitiesFor u = capabilitiesForRoles (pu_roles u)"

definition status_string :: "user_status \<Rightarrow> string" where
  "status_string s = (case s of Active \<Rightarrow> ''active'' | Disabled \<Rightarrow> ''disabled'')"

definition updateUser ::
  "string \<Rightarrow> string list option \<Rightarrow> user_status option \<Rightarrow> string option \<Rightarrow> (auth_state, user) action" where
  "updateUser userId roles status actorId st =
     (let records = allUserRecords st in
      case find (\<lambda>r. u_id r = userId) records of
        None \<Rightarrow> (Inl user_not_found, st)
      | Some r \<Rightarrow>
        (let nextRoles = (case roles of Some rs \<Rightarrow> rs | None \<Rightarrow> u_roles r);
             nextStatus = (case status of Some s \<Rightarrow> s | None \<Rightarrow> u_status r)
         in case (case roles of None \<Rightarrow> Inr () | Some _ \<Rightarrow> check_roles nextRoles) of
              Inl e \<Rightarrow> (Inl e, st)
            | Inr _ \<Rightarrow>
              let losesOwnerStanding = (\<not> (nextStatus = Active \<and> ''owner'' \<in> set nextRoles)) in
              if losesOwnerStanding \<and> isLastActiveOwner records r
              then (Inl (PressError Conflict ''Cannot remove or disable the last active owner''), st)
              else
                let rolesChanged = (roles \<noteq> None \<and> js_join '','' nextRoles \<noteq> js_join '','' (u_roles r));
                    statusChanged = (nextStatus \<noteq> u_status r);
                    r = r\<lparr>u_roles := nextRoles, u_status := nextStatus\<rparr>;
                    st = put_user r st;
                    st = (if rolesChanged \<or> statusChanged then revokeUserSessions (u_id r) st else st);
                    st = log_event (event ''user.update'' actorId
                           [(''userId'', DStr (u_id r)), (''roles'', DList (u_roles r)),
                            (''status'', DStr (status_string (u_status r)))]) st
                in (Inr (toPublic r), st)))"

definition changePassword ::
  "auth_env \<Rightarrow> string \<Rightarrow> string \<Rightarrow> string \<Rightarrow> string \<Rightarrow> (auth_state, unit) action" where
  "changePassword env userId currentPassword newPassword salt st =
     (if length newPassword < MIN_PASSWORD_LENGTH then (Inl password_error, st)
      else case c_get userId (users st) of Inl e \<Rightarrow> (Inl e, st)
      | Inr None \<Rightarrow> (Inl user_not_found, st)
      | Inr (Some r) \<Rightarrow>
        if \<not> argon_verify env (passwordHash r) currentPassword
        then (Inl (PressError Unauthorized ''Current password is incorrect''), st)
        else
          let r = r\<lparr>passwordHash := argon_hash env salt newPassword, mustChangePassword := False\<rparr>;
              st = log_event (event ''user.password.change'' (Some userId) [(''userId'', DStr userId)])
                     (put_user r st)
          in (Inr (), st))"

section \<open>Invitations\<close>

definition createInvite ::
  "auth_env \<Rightarrow> string \<Rightarrow> string list \<Rightarrow> string option \<Rightarrow> int option \<Rightarrow> string \<Rightarrow> string \<Rightarrow> int \<Rightarrow>
   (auth_state, invite \<times> string) action" where
  "createInvite env inp_email roles actorId ttlMs token uuid now st =
     (let email = normalizeEmail inp_email in
      if \<not> js_includes email ''@'' then (Inl (PressError Validation ''A valid email is required''), st)
      else case check_roles roles of Inl e \<Rightarrow> (Inl e, st)
      | Inr _ \<Rightarrow>
        (case findRecordByEmail email st of
           Some _ \<Rightarrow> (Inl (PressError Conflict ''A user with this email already exists''), st)
         | None \<Rightarrow>
           (let r = \<lparr>i_id = uuid, i_email = email, i_roles = roles, tokenHash = tokenId env token,
                  invitedBy = actorId,
                  i_expiresAt = now + (case ttlMs of Some ms \<Rightarrow> ms | None \<Rightarrow> DEFAULT_INVITE_TTL_MS),
                  consumedAt = None, i_createdAt = iso_string now\<rparr>;
                st = log_event (event ''user.invite.create'' actorId
                       [(''inviteId'', DStr uuid), (''email'', DStr email)]) (put_invite r st)
            in (Inr (toPublicInvite r, token), st))))"

definition listInvites :: "auth_state \<Rightarrow> invite list" where
  "listInvites st =
     map toPublicInvite
       (newest_first i_createdAt
          (filter (\<lambda>i. consumedAt i = None) (c_query (\<lambda>_. True) None (invites st))))"

definition revokeInvite :: "string \<Rightarrow> (auth_state, unit) action" where
  "revokeInvite i st =
     (case c_get i (invites st) of Inl e \<Rightarrow> (Inl e, st)
      | Inr None \<Rightarrow> (Inr (), st)
      | Inr (Some r) \<Rightarrow>
          (Inr (), log_event (event ''user.invite.revoke'' None [(''inviteId'', DStr i)])
                     (st\<lparr>invites := tab_del i (invites st)\<rparr>)))"

text \<open>
  \<open>t1\<close>, \<open>t2\<close>, \<open>t3\<close>, \<open>t4\<close> are the clock readings at the expiry check, the insertion, the
  consumption and the session.
\<close>

definition acceptInvite ::
  "auth_env \<Rightarrow> string \<Rightarrow> string \<Rightarrow> string \<Rightarrow> string \<Rightarrow> string \<Rightarrow> int \<Rightarrow> int \<Rightarrow> int \<Rightarrow> int \<Rightarrow>
   (auth_state, login_result) action" where
  "acceptInvite env token password uuid salt newToken t1 t2 t3 t4 st =
     (case first_item (c_query (\<lambda>i. tokenHash i = tokenId env token) None (invites st)) of
        None \<Rightarrow> (Inl (PressError Unauthorized ''Invalid or already-used invitation''), st)
      | Some iv \<Rightarrow>
        if consumedAt iv \<noteq> None
        then (Inl (PressError Unauthorized ''Invalid or already-used invitation''), st)
        else if i_expiresAt iv \<le> t1
        then (Inl (PressError Unauthorized ''This invitation has expired''), st)
        else
          case insertUser env (i_email iv) password (i_roles iv) False (invitedBy iv) uuid salt t2 st of
            (Inl e, st) \<Rightarrow> (Inl e, st)
          | (Inr r, st) \<Rightarrow>
            let iv = iv\<lparr>consumedAt := Some (iso_string t3)\<rparr>;
                st = put_invite iv st;
                st = log_event (event ''user.invite.accept'' (Some (u_id r))
                       [(''inviteId'', DStr (i_id iv)), (''userId'', DStr (u_id r))]) st;
                (res, st) = issueSession env r (u_email r) newToken t4 st
            in (Inr res, st))"

end
