(* ===== verification/Auth_Facts.thy ===== *)
theory Auth_Facts
  imports Auth
begin

text \<open>
  Facts about the authentication service: the invariant of its state and that every operation
  keeps it, the step relation over all operations, the login decision, lockout, sessions, the
  second factor, recovery codes, the last-owner guard and invitations.
\<close>

section \<open>Normalised addresses\<close>

lemma normalizeEmail_idem [simp]: "normalizeEmail (normalizeEmail e) = normalizeEmail e"
  by (simp add: normalizeEmail_def js_trim_lower)

section \<open>The invariant\<close>

definition user_ok :: "user_record \<Rightarrow> bool" where
  "user_ok r \<longleftrightarrow> normalizeEmail (u_email r) = u_email r \<and> u_roles r \<noteq> [] \<and>
     list_all isRoleName (u_roles r) \<and> 0 \<le> failedAttempts r"

definition auth_inv :: "auth_state \<Rightarrow> bool" where
  "auth_inv st \<longleftrightarrow> keyed u_id (users st) \<and> keyed s_id (sessions st) \<and> keyed i_id (invites st) \<and>
     (\<forall>r \<in> vals (users st). user_ok r) \<and>
     (\<forall>r \<in> vals (users st). \<forall>r' \<in> vals (users st). u_email r = u_email r' \<longrightarrow> r = r') \<and>
     (\<forall>i \<in> vals (invites st). i_roles i \<noteq> [] \<and> list_all isRoleName (i_roles i))"

definition auth_init :: "(string \<rightharpoonup> string) option \<Rightarrow> auth_state" where
  "auth_init v = \<lparr>users = [], sessions = [], invites = [], vault = v, audit = []\<rparr>"

lemma auth_inv_init: "auth_inv (auth_init v)"
  by (simp add: auth_inv_def auth_init_def)

lemma log_event_frame [simp]:
  "users (log_event e st) = users st" "sessions (log_event e st) = sessions st"
  "invites (log_event e st) = invites st" "vault (log_event e st) = vault st"
  by (simp_all add: log_event_def)

lemma put_user_frame [simp]:
  "sessions (put_user r st) = sessions st" "invites (put_user r st) = invites st"
  "vault (put_user r st) = vault st" "users (put_user r st) = tab_put (u_id r) r (users st)"
  by (simp_all add: put_user_def)

lemma put_session_frame [simp]:
  "users (put_session s st) = users st" "invites (put_session s st) = invites st"
  "vault (put_session s st) = vault st" "sessions (put_session s st) = tab_put (s_id s) s (sessions st)"
  by (simp_all add: put_session_def)

lemma del_session_frame [simp]:
  "users (del_session i st) = users st" "invites (del_session i st) = invites st"
  "vault (del_session i st) = vault st" "sessions (del_session i st) = tab_del i (sessions st)"
  by (simp_all add: del_session_def)

lemma put_invite_frame [simp]:
  "users (put_invite i st) = users st" "sessions (put_invite i st) = sessions st"
  "vault (put_invite i st) = vault st" "invites (put_invite i st) = tab_put (i_id i) i (invites st)"
  by (simp_all add: put_invite_def)

lemma prune_frame [simp]:
  "users (pruneUserSessions u t st) = users st" "invites (pruneUserSessions u t st) = invites st"
  "vault (pruneUserSessions u t st) = vault st"
  by (simp_all add: pruneUserSessions_def Let_def)

lemma revoke_frame [simp]:
  "users (revokeUserSessions u st) = users st" "invites (revokeUserSessions u st) = invites st"
  "vault (revokeUserSessions u st) = vault st"
  by (simp_all add: revokeUserSessions_def Let_def)

lemma log_event_inv [simp]: "auth_inv (log_event e st) = auth_inv st"
  by (simp add: auth_inv_def)

lemma put_session_inv [intro]: "auth_inv st \<Longrightarrow> auth_inv (put_session s st)"
  by (auto simp: auth_inv_def)

lemma del_session_inv [intro]: "auth_inv st \<Longrightarrow> auth_inv (del_session i st)"
  by (auto simp: auth_inv_def)

lemma prune_inv [intro]: "auth_inv st \<Longrightarrow> auth_inv (pruneUserSessions u t st)"
  by (auto simp: auth_inv_def pruneUserSessions_def Let_def)

lemma revoke_inv [intro]: "auth_inv st \<Longrightarrow> auth_inv (revokeUserSessions u st)"
  by (auto simp: auth_inv_def revokeUserSessions_def Let_def)

lemma revoke_if_inv:
  "auth_inv s \<Longrightarrow> auth_inv ((if b then revokeUserSessions u else (\<lambda>s. s)) s)"
  by auto

lemma vault_inv [simp]: "auth_inv (st\<lparr>vault := v\<rparr>) = auth_inv st"
  by (simp add: auth_inv_def)

lemma put_invite_inv [intro]:
  "auth_inv st \<Longrightarrow> i_roles i \<noteq> [] \<Longrightarrow> list_all isRoleName (i_roles i) \<Longrightarrow> auth_inv (put_invite i st)"
  by (auto simp: auth_inv_def values_put [of i_id] simp del: list_all_iff)

lemma del_invite_inv [intro]: "auth_inv st \<Longrightarrow> auth_inv (st\<lparr>invites := tab_del i (invites st)\<rparr>)"
  by (auto simp: auth_inv_def values_del [of i_id])

lemma put_user_inv:
  assumes "auth_inv st" "user_ok r"
    "\<And>r'. r' \<in> vals (users st) \<Longrightarrow> u_email r' = u_email r \<Longrightarrow> u_id r' = u_id r"
  shows "auth_inv (put_user r st)"
proof -
  have k: "keyed u_id (users st)" using assms(1) by (simp add: auth_inv_def)
  note fresh = assms(3) assms(3) [OF _ sym]
  show ?thesis using assms(1,2)
    by (auto simp: auth_inv_def values_put [OF k] dest: fresh)
qed

lemma stored_user:
  "auth_inv st \<Longrightarrow> map_of (users st) k = Some r \<Longrightarrow> r \<in> vals (users st) \<and> u_id r = k \<and> user_ok r"
  using keyed_id [of u_id "users st" k r] keyed_value [of u_id "users st" r]
  by (auto simp: auth_inv_def)

lemma stored_unique:
  "auth_inv st \<Longrightarrow> r \<in> vals (users st) \<Longrightarrow> r' \<in> vals (users st) \<Longrightarrow>
    u_email r = u_email r' \<Longrightarrow> r = r'"
  by (simp add: auth_inv_def)

text \<open>Writing back a changed record with the same id and address.\<close>

lemma update_user_inv:
  assumes "auth_inv st" "r0 \<in> vals (users st)" "u_id r = u_id r0" "u_email r = u_email r0" "user_ok r"
  shows "auth_inv (put_user r st)"
  using assms(1,5)
proof (rule put_user_inv)
  fix r' assume "r' \<in> vals (users st)" "u_email r' = u_email r"
  then show "u_id r' = u_id r" using stored_unique [OF assms(1), of r' r0] assms by simp
qed

lemma findRecordByEmail_Some:
  "findRecordByEmail e st = Some r \<Longrightarrow> r \<in> vals (users st) \<and> u_email r = normalizeEmail e"
  unfolding findRecordByEmail_def by (drule first_query_Some) simp

lemma findRecordByEmail_None:
  "findRecordByEmail e st = None \<longleftrightarrow> (\<forall>r \<in> vals (users st). u_email r \<noteq> normalizeEmail e)"
  unfolding findRecordByEmail_def by (simp add: first_query_None)

lemma findRecordByEmail_unique:
  assumes "auth_inv st" "r \<in> vals (users st)" "u_email r = normalizeEmail e"
  shows "findRecordByEmail e st = Some r"
proof (cases "findRecordByEmail e st")
  case None
  then show ?thesis using assms by (simp add: findRecordByEmail_None)
next
  case (Some r')
  then show ?thesis using findRecordByEmail_Some [OF Some] assms stored_unique by metis
qed

lemma get_user: "c_get i (users st) = Inr (Some r) \<Longrightarrow> map_of (users st) i = Some r"
  by (auto simp: c_get_def split: sum.splits)

lemma check_roles_ok: "check_roles rs = Inr u \<longleftrightarrow> rs \<noteq> [] \<and> list_all isRoleName rs"
  by (auto simp: check_roles_def list_all_iff find_None_iff find_Some_iff split: option.splits)

section \<open>Every operation keeps the invariant\<close>

lemma insertUser_cases:
  assumes "insertUser env e p roles mc a uuid salt now st = (Inr r, st')"
  shows "check_roles roles = Inr ()" "findRecordByEmail (normalizeEmail e) st = None"
    "u_id r = uuid" "u_email r = normalizeEmail e" "u_roles r = roles" "u_status r = Active"
    "failedAttempts r = 0" "\<not> mfaEnabled r"
    "users st' = tab_put uuid r (users st)" "sessions st' = sessions st" "invites st' = invites st"
    "\<exists>ev. st' = log_event ev (put_user r st)" "MIN_PASSWORD_LENGTH \<le> length p"
  using assms by (auto simp: insertUser_def Let_def split: if_splits sum.splits option.splits)

lemma insertUser_error:
  "insertUser env e p roles mc a uuid salt now st = (Inl x, st') \<Longrightarrow> st' = st"
  by (auto simp: insertUser_def Let_def split: if_splits sum.splits option.splits)

lemma insertUser_inv:
  assumes "auth_inv st" "insertUser env e p roles mc a uuid salt now st = (res, st')"
  shows "auth_inv st'"
proof (cases res)
  case (Inl x)
  then show ?thesis using assms insertUser_error by blast
next
  case (Inr r)
  note c = insertUser_cases [OF assms(2) [unfolded Inr]]
  have "user_ok r" using c by (simp add: user_ok_def check_roles_ok)
  moreover have "u_id r' = u_id r" if "r' \<in> vals (users st)" "u_email r' = u_email r" for r'
    using that c(2,4) by (simp add: findRecordByEmail_None)
  ultimately have "auth_inv (put_user r st)" using assms(1) put_user_inv by blast
  then show ?thesis using c(12) by auto
qed

lemma issueSession_users [simp]:
  "users (snd (issueSession env r e tok t st)) = users st"
  "invites (snd (issueSession env r e tok t st)) = invites st"
  "vault (snd (issueSession env r e tok t st)) = vault st"
  by (simp_all add: issueSession_def Let_def)

lemma issueSession_inv [intro]: "auth_inv st \<Longrightarrow> auth_inv (snd (issueSession env r e tok t st))"
  by (auto simp: issueSession_def Let_def)

lemma user_ok_upd [simp]:
  "user_ok (r\<lparr>lockedUntil := l\<rparr>) = user_ok r"
  "user_ok (r\<lparr>mfaRecoveryHashes := h\<rparr>) = user_ok r"
  "user_ok (r\<lparr>mfaEnabled := b\<rparr>) = user_ok r"
  "user_ok (r\<lparr>passwordHash := p\<rparr>) = user_ok r"
  "user_ok (r\<lparr>mustChangePassword := m\<rparr>) = user_ok r"
  "user_ok (r\<lparr>u_status := s\<rparr>) = user_ok r"
  "user_ok r \<Longrightarrow> 0 \<le> n \<Longrightarrow> user_ok (r\<lparr>failedAttempts := n\<rparr>)"
  "user_ok r \<Longrightarrow> rs \<noteq> [] \<Longrightarrow> list_all isRoleName rs \<Longrightarrow> user_ok (r\<lparr>u_roles := rs\<rparr>)"
  by (auto simp: user_ok_def)

lemma record_failure_inv:
  assumes "auth_inv st" "r \<in> vals (users st)"
  shows "auth_inv (record_failure env e t r st)"
proof -
  have "user_ok r" using assms by (simp add: auth_inv_def)
  then show ?thesis using assms
    by (auto simp: record_failure_def Let_def user_ok_def intro!: update_user_inv [of st r])
qed

lemma authenticate_inv:
  assumes inv: "auth_inv st" and run: "authenticate env e p tok t t' st = (res, st')"
  shows "auth_inv st'"
proof (cases "findRecordByEmail (normalizeEmail e) st")
  case None
  then show ?thesis using assms by (simp add: authenticate_def Let_def)
next
  case (Some r)
  have r: "r \<in> vals (users st)" using findRecordByEmail_Some [OF Some] by blast
  then have "user_ok r" using inv by (simp add: auth_inv_def)
  let ?r = "r\<lparr>failedAttempts := 0, lockedUntil := None\<rparr>"
  have ok: "auth_inv (pruneUserSessions (u_id r) t (put_user ?r st))"
    using inv r \<open>user_ok r\<close> by (intro prune_inv update_user_inv [of st r]) auto
  show ?thesis using run inv ok record_failure_inv [OF inv r, of env "normalizeEmail e" t] Some
    by (auto simp: authenticate_def Let_def split: if_splits prod.splits)
      (metis issueSession_inv snd_conv)
qed

lemma consume_fields:
  "consumeRecoveryCode env r c = (b, r') \<Longrightarrow>
    u_id r' = u_id r \<and> u_email r' = u_email r \<and> user_ok r' = user_ok r \<and>
    u_roles r' = u_roles r \<and> u_status r' = u_status r"
  by (auto simp: consumeRecoveryCode_def Let_def split: if_splits)

lemma logout_inv: "auth_inv st \<Longrightarrow> logout env tok st = (res, st') \<Longrightarrow> auth_inv st'"
  by (auto simp: logout_def split: sum.splits option.splits)

lemma createUser_inv:
  "auth_inv st \<Longrightarrow> createUser env e p roles uuid salt now st = (res, st') \<Longrightarrow> auth_inv st'"
  by (auto simp: createUser_def split: prod.splits sum.splits dest: insertUser_inv)

lemma adminCreateUser_inv:
  "auth_inv st \<Longrightarrow> adminCreateUser env e roles a temp uuid salt now st = (res, st') \<Longrightarrow> auth_inv st'"
  by (auto simp: adminCreateUser_def split: prod.splits sum.splits dest: insertUser_inv)

lemma update_stored_inv:
  assumes "auth_inv st" "c_get k (users st) = Inr (Some r0)" "u_id r = u_id r0" "u_email r = u_email r0"
    "user_ok r0 \<Longrightarrow> user_ok r"
  shows "auth_inv (put_user r st)"
  using assms stored_user [OF assms(1) get_user [OF assms(2)]]
  by (intro update_user_inv [of st r0]) auto

lemma verifyMfaLogin_inv:
  assumes "auth_inv st" "verifyMfaLogin env ch inp t st = (res, st')"
  shows "auth_inv st'"
proof -
  have c: "auth_inv (put_user r' st)"
    if "c_get k (users st) = Inr (Some r)" "consumeRecoveryCode env r inp = (b, r')" for k r b r'
    using update_stored_inv [OF assms(1) that(1), of r'] consume_fields [OF that(2)] by auto
  show ?thesis using assms c
    by (auto simp: verifyMfaLogin_def Let_def split: sum.splits option.splits if_splits prod.splits
        intro!: put_session_inv intro: c)
qed

lemma beginMfaEnrollment_inv:
  "auth_inv st \<Longrightarrow> beginMfaEnrollment u rnd st = (res, st') \<Longrightarrow> auth_inv st'"
  by (auto simp: beginMfaEnrollment_def Let_def split: sum.splits option.splits)

lemma confirmMfaEnrollment_inv:
  "auth_inv st \<Longrightarrow> confirmMfaEnrollment env u inp raws now st = (res, st') \<Longrightarrow> auth_inv st'"
  by (auto simp: confirmMfaEnrollment_def Let_def split: sum.splits option.splits if_splits bool.splits
      elim!: update_stored_inv [rotated 1])

lemma disableMfa_inv:
  assumes "auth_inv st" "disableMfa env u inp now st = (res, st')"
  shows "auth_inv st'"
proof -
  have d: "auth_inv (put_user (r'\<lparr>mfaEnabled := False, mfaRecoveryHashes := Some []\<rparr>) st)"
    if "c_get k (users st) = Inr (Some r)" "r' = r \<or> consumeRecoveryCode env r inp = (True, r')" for k r r'
    using that(2) consume_fields [of env r inp True r']
    by (intro update_stored_inv [OF assms(1) that(1)]) auto
  show ?thesis using assms d
    by (auto simp: disableMfa_def Let_def split: sum.splits option.splits if_splits prod.splits)
qed

lemma changePassword_inv:
  "auth_inv st \<Longrightarrow> changePassword env u c n salt st = (res, st') \<Longrightarrow> auth_inv st'"
  by (auto simp: changePassword_def Let_def split: sum.splits option.splits if_splits
      elim!: update_stored_inv [rotated 1])

lemma find_record:
  "find (\<lambda>r. u_id r = i) (allUserRecords st) = Some r \<Longrightarrow> r \<in> vals (users st) \<and> u_id r = i"
  using c_query_sub [of "\<lambda>_. True" None "users st"]
  by (auto simp: allUserRecords_def find_Some_iff)

text \<open>What a successful \<open>updateUser\<close> did.\<close>

lemma updateUser_Inr:
  assumes "updateUser i roles status actor st = (Inr u, st')"
  obtains r nextRoles nextStatus where
    "find (\<lambda>r. u_id r = i) (allUserRecords st) = Some r"
    "nextRoles = (case roles of Some rs \<Rightarrow> rs | None \<Rightarrow> u_roles r)"
    "nextStatus = (case status of Some s \<Rightarrow> s | None \<Rightarrow> u_status r)"
    "roles \<noteq> None \<Longrightarrow> check_roles nextRoles = Inr ()"
    "nextStatus = Active \<and> ''owner'' \<in> set nextRoles \<or> \<not> isLastActiveOwner (allUserRecords st) r"
    "u = toPublic (r\<lparr>u_roles := nextRoles, u_status := nextStatus\<rparr>)"
    "users st' = tab_put (u_id r) (r\<lparr>u_roles := nextRoles, u_status := nextStatus\<rparr>) (users st)"
    "st' = log_event (event ''user.update'' actor
        [(''userId'', DStr (u_id r)), (''roles'', DList nextRoles),
         (''status'', DStr (status_string nextStatus))])
       ((if roles \<noteq> None \<and> js_join '','' nextRoles \<noteq> js_join '','' (u_roles r) \<or>
        nextStatus \<noteq> u_status r then revokeUserSessions (u_id r) else (\<lambda>s. s))
        (put_user (r\<lparr>u_roles := nextRoles, u_status := nextStatus\<rparr>) st))"
proof -
  obtain r where r: "find (\<lambda>r. u_id r = i) (allUserRecords st) = Some r"
    using assms by (auto simp: updateUser_def Let_def split: option.splits)
  show thesis
    by (rule that [OF r refl refl])
       (use assms r in \<open>auto simp: updateUser_def Let_def split: option.splits sum.splits if_splits\<close>)
qed

lemma updateUser_error: "updateUser i roles status a st = (Inl e, st') \<Longrightarrow> st' = st"
  by (auto simp: updateUser_def Let_def split: option.splits sum.splits if_splits)

lemma updateUser_inv:
  assumes inv: "auth_inv st" and run: "updateUser i roles status a st = (res, st')"
  shows "auth_inv st'"
proof (cases res)
  case (Inl e)
  then show ?thesis using inv run updateUser_error by blast
next
  case (Inr u)
  obtain r nr ns where u: "find (\<lambda>r. u_id r = i) (allUserRecords st) = Some r"
      "nr = (case roles of Some rs \<Rightarrow> rs | None \<Rightarrow> u_roles r)" "roles \<noteq> None \<Longrightarrow> check_roles nr = Inr ()"
      "st' = log_event (event ''user.update'' a [(''userId'', DStr (u_id r)), (''roles'', DList nr),
         (''status'', DStr (status_string ns))]) ((if roles \<noteq> None \<and> js_join '','' nr \<noteq> js_join '','' (u_roles r) \<or>
        ns \<noteq> u_status r then revokeUserSessions (u_id r) else (\<lambda>s. s))
        (put_user (r\<lparr>u_roles := nr, u_status := ns\<rparr>) st))"
    by (rule updateUser_Inr [OF run [unfolded Inr]]) (rule that; assumption)
  have r: "r \<in> vals (users st)" using find_record [OF u(1)] by blast
  then have "user_ok r" using inv by (simp add: auth_inv_def)
  then have "user_ok (r\<lparr>u_roles := nr, u_status := ns\<rparr>)"
    using u(2,3) by (cases roles) (auto simp: user_ok_def check_roles_ok)
  then have "auth_inv (put_user (r\<lparr>u_roles := nr, u_status := ns\<rparr>) st)"
    using inv r by (intro update_user_inv [of st r]) auto
  then show ?thesis unfolding u(4) log_event_inv by (rule revoke_if_inv)
qed

lemma createInvite_inv:
  "auth_inv st \<Longrightarrow> createInvite env e roles a ttl tok uuid now st = (res, st') \<Longrightarrow> auth_inv st'"
  by (auto simp: createInvite_def Let_def split: if_splits sum.splits option.splits
      intro!: put_invite_inv simp: check_roles_ok)

lemma revokeInvite_inv: "auth_inv st \<Longrightarrow> revokeInvite i st = (res, st') \<Longrightarrow> auth_inv st'"
  by (auto simp: revokeInvite_def split: sum.splits option.splits)

text \<open>The steps of accepting an invitation.\<close>

lemma acceptInvite_Inr:
  assumes "acceptInvite env tok pw uuid salt tok' t1 t2 t3 t4 st = (Inr res, st')"
  obtains iv r st1 ev where
    "first_item (c_query (\<lambda>i. tokenHash i = tokenId env tok) None (invites st)) = Some iv"
    "consumedAt iv = None" "t1 < i_expiresAt iv"
    "insertUser env (i_email iv) pw (i_roles iv) False (invitedBy iv) uuid salt t2 st = (Inr r, st1)"
    "res = LoginResult tok' (toPublic r)"
    "st' = snd (issueSession env r (u_email r) tok' t4
       (log_event ev (put_invite (iv\<lparr>consumedAt := Some (iso_string t3)\<rparr>) st1)))"
proof -
  obtain iv where iv: "first_item (c_query (\<lambda>i. tokenHash i = tokenId env tok) None (invites st)) = Some iv"
    using assms by (auto simp: acceptInvite_def split: option.splits)
  have u: "consumedAt iv = None" "t1 < i_expiresAt iv"
    using assms iv by (auto simp: acceptInvite_def Let_def split: if_splits)
  obtain r st1 where ins:
      "insertUser env (i_email iv) pw (i_roles iv) False (invitedBy iv) uuid salt t2 st = (Inr r, st1)"
    using assms iv u by (auto simp: acceptInvite_def Let_def split: prod.splits sum.splits)
  show thesis
    by (rule that [OF iv u ins])
       (use assms iv u ins in \<open>auto simp: acceptInvite_def Let_def issueSession_def\<close>)
qed

lemma acceptInvite_error:
  "acceptInvite env tok pw uuid salt tok' t1 t2 t3 t4 st = (Inl e, st') \<Longrightarrow> st' = st"
  by (auto simp: acceptInvite_def Let_def issueSession_def
      split: option.splits if_splits prod.splits sum.splits dest: insertUser_error)

lemma acceptInvite_inv:
  assumes inv: "auth_inv st" and run: "acceptInvite env tok pw uuid salt tok' t1 t2 t3 t4 st = (res, st')"
  shows "auth_inv st'"
proof (cases res)
  case (Inl e)
  then show ?thesis using inv run acceptInvite_error by blast
next
  case (Inr l)
  obtain iv r st1 ev where a:
      "first_item (c_query (\<lambda>i. tokenHash i = tokenId env tok) None (invites st)) = Some iv"
      "insertUser env (i_email iv) pw (i_roles iv) False (invitedBy iv) uuid salt t2 st = (Inr r, st1)"
      "st' = snd (issueSession env r (u_email r) tok' t4
        (log_event ev (put_invite (iv\<lparr>consumedAt := Some (iso_string t3)\<rparr>) st1)))"
    by (rule acceptInvite_Inr [OF run [unfolded Inr]]) (rule that; assumption)
  have "iv \<in> vals (invites st)" using first_query_Some [OF a(1)] by blast
  then have "i_roles iv \<noteq> [] \<and> list_all isRoleName (i_roles iv)" using inv by (simp add: auth_inv_def)
  then show ?thesis using insertUser_inv [OF inv a(2)] unfolding a(3)
    by (auto intro!: issueSession_inv put_invite_inv)
qed

section \<open>All operations as steps\<close>

text \<open>
  One rule per operation of the service.  A generated user id is fresh, as \<open>randomUUID\<close> makes it.
\<close>

inductive auth_step :: "auth_env \<Rightarrow> auth_state \<Rightarrow> auth_state \<Rightarrow> bool" for env where
  create: "map_of (users st) uuid = None \<Longrightarrow>
    createUser env e p roles uuid salt now st = (res, st') \<Longrightarrow> auth_step env st st'"
| admin_create: "map_of (users st) uuid = None \<Longrightarrow>
    adminCreateUser env e roles a temp uuid salt now st = (res', st') \<Longrightarrow> auth_step env st st'"
| login: "authenticate env e p tok t t' st = (lres, st') \<Longrightarrow> auth_step env st st'"
| mfa_login: "verifyMfaLogin env ch inp t st = (lres, st') \<Longrightarrow> auth_step env st st'"
| mfa_begin: "beginMfaEnrollment u rnd st = (sres, st') \<Longrightarrow> auth_step env st st'"
| mfa_confirm: "confirmMfaEnrollment env u inp raws now st = (cres, st') \<Longrightarrow> auth_step env st st'"
| mfa_disable: "disableMfa env u inp now st = (ures, st') \<Longrightarrow> auth_step env st st'"
| log_out: "logout env tok st = (ures, st') \<Longrightarrow> auth_step env st st'"
| update: "updateUser i oroles ostatus a st = (res, st') \<Longrightarrow> auth_step env st st'"
| change_password: "changePassword env u old new salt st = (ures, st') \<Longrightarrow> auth_step env st st'"
| invite: "createInvite env e roles a ttl tok uuid now st = (ires, st') \<Longrightarrow> auth_step env st st'"
| revoke_invite: "revokeInvite i st = (ures, st') \<Longrightarrow> auth_step env st st'"
| accept: "map_of (users st) uuid = None \<Longrightarrow>
    acceptInvite env tok pw uuid salt tok' t1 t2 t3 t4 st = (lres, st') \<Longrightarrow> auth_step env st st'"

lemmas auth_op_inv = createUser_inv adminCreateUser_inv authenticate_inv verifyMfaLogin_inv
  beginMfaEnrollment_inv confirmMfaEnrollment_inv disableMfa_inv logout_inv updateUser_inv
  changePassword_inv createInvite_inv revokeInvite_inv acceptInvite_inv

lemma auth_step_inv: "auth_step env st st' \<Longrightarrow> auth_inv st \<Longrightarrow> auth_inv st'"
  by (induction rule: auth_step.induct) (blast intro: auth_op_inv)+

inductive auth_reachable :: "auth_env \<Rightarrow> auth_state \<Rightarrow> bool" for env where
  start: "auth_reachable env (auth_init v)"
| step: "auth_reachable env st \<Longrightarrow> auth_step env st st' \<Longrightarrow> auth_reachable env st'"

lemma auth_reachable_inv: "auth_reachable env st \<Longrightarrow> auth_inv st"
  by (induction rule: auth_reachable.induct) (auto intro: auth_inv_init auth_step_inv)

section \<open>The last active owner\<close>

definition has_active_owner :: "auth_state \<Rightarrow> bool" where
  "has_active_owner st \<longleftrightarrow> (\<exists>r \<in> vals (users st). active_owner r)"

lemma owner_log [simp]: "has_active_owner (log_event e st) = has_active_owner st"
  by (simp add: has_active_owner_def)

lemma owner_users: "users st' = users st \<Longrightarrow> has_active_owner st' = has_active_owner st"
  by (simp add: has_active_owner_def)

lemma owner_put:
  assumes "auth_inv st" "has_active_owner st" "users st' = tab_put (u_id r) r (users st)"
    "\<And>r0. r0 \<in> vals (users st) \<Longrightarrow> u_id r0 = u_id r \<Longrightarrow> active_owner r0 \<Longrightarrow> active_owner r"
  shows "has_active_owner st'"
proof -
  have k: "keyed u_id (users st)" using assms(1) by (simp add: auth_inv_def)
  obtain o' where o': "o' \<in> vals (users st)" "active_owner o'"
    using assms(2) by (auto simp: has_active_owner_def)
  show ?thesis
  proof (cases "u_id o' = u_id r")
    case True
    then show ?thesis using assms(3,4) o' by (auto simp: has_active_owner_def values_put [OF k])
  next
    case False
    then show ?thesis using assms(3) o' by (auto simp: has_active_owner_def values_put [OF k])
  qed
qed

lemma owner_put_same:
  assumes "auth_inv st" "has_active_owner st" "r0 \<in> vals (users st)"
    "users st' = tab_put (u_id r) r (users st)" "u_id r = u_id r0" "u_roles r = u_roles r0"
    "u_status r = u_status r0"
  shows "has_active_owner st'"
proof (rule owner_put [OF assms(1,2,4)])
  have k: "keyed u_id (users st)" using assms(1) by (simp add: auth_inv_def)
  fix r1 assume "r1 \<in> vals (users st)" "u_id r1 = u_id r" "active_owner r1"
  moreover then have "r1 = r0" using keyed_value [OF k] assms(3,5) by (metis option.inject)
  ultimately show "active_owner r" using assms by (simp add: active_owner_def)
qed

lemma owner_insert:
  assumes "auth_inv st" "has_active_owner st" "map_of (users st) uuid = None"
    "insertUser env e p roles mc a uuid salt now st = (res, st')"
  shows "has_active_owner st'"
proof (cases res)
  case (Inl x)
  then show ?thesis using assms insertUser_error by blast
next
  case (Inr r)
  note c = insertUser_cases [OF assms(4) [unfolded Inr]]
  have k: "keyed u_id (users st)" using assms(1) by (simp add: auth_inv_def)
  show ?thesis
    by (rule owner_put [OF assms(1,2), where r = r])
       (use c assms(3) keyed_value [OF k] in auto)
qed

lemma owner_authenticate:
  assumes inv: "auth_inv st" and own: "has_active_owner st"
    and run: "authenticate env e p tok t t' st = (res, st')"
  shows "has_active_owner st'"
proof (cases "findRecordByEmail (normalizeEmail e) st")
  case None
  then show ?thesis using run own by (simp add: authenticate_def Let_def)
next
  case (Some r)
  have r: "r \<in> vals (users st)" using findRecordByEmail_Some [OF Some] by blast
  consider "users st' = users st"
    | r' where "users st' = tab_put (u_id r') r' (users st)" "u_id r' = u_id r" "u_roles r' = u_roles r"
        "u_status r' = u_status r"
    using run Some
    by (auto simp: authenticate_def Let_def record_failure_def issueSession_def split: if_splits)
  then show ?thesis
  proof cases
    case 1
    then show ?thesis using own owner_users by blast
  next
    case 2
    then show ?thesis using owner_put_same [OF inv own r] by blast
  qed
qed

text \<open>The other operations that write a user back write a stored one with its roles and status.\<close>

definition writes_back :: "user_record coll \<Rightarrow> user_record coll \<Rightarrow> bool" where
  "writes_back us us' \<longleftrightarrow> us' = us \<or> (\<exists>k r r'. c_get k us = Inr (Some r) \<and>
     us' = tab_put (u_id r) r' us \<and> u_id r' = u_id r \<and> u_roles r' = u_roles r \<and> u_status r' = u_status r)"

lemma writes_back_refl [simp]: "writes_back us us"
  by (simp add: writes_back_def)

lemma writes_backI:
  "c_get k us = Inr (Some r) \<Longrightarrow> i = u_id r \<Longrightarrow> u_id r' = u_id r \<Longrightarrow> u_roles r' = u_roles r \<Longrightarrow>
    u_status r' = u_status r \<Longrightarrow> writes_back us (tab_put i r' us)"
  by (auto simp: writes_back_def)

lemma owner_write_back:
  assumes "auth_inv st" "has_active_owner st" "writes_back (users st) (users st')"
  shows "has_active_owner st'"
  using assms(3) unfolding writes_back_def
proof (elim disjE exE conjE)
  assume "users st' = users st"
  then show ?thesis using assms(2) owner_users by blast
next
  fix k r r' assume "c_get k (users st) = Inr (Some r)" and w: "users st' = tab_put (u_id r) r' (users st)"
    "u_id r' = u_id r" "u_roles r' = u_roles r" "u_status r' = u_status r"
  then have "r \<in> vals (users st)" using stored_user [OF assms(1) get_user] by blast
  then show ?thesis using owner_put_same [OF assms(1,2), of r st' r'] w by simp
qed

lemma verifyMfaLogin_users:
  "verifyMfaLogin env ch inp t st = (res, st') \<Longrightarrow> writes_back (users st) (users st')"
  by (auto simp: verifyMfaLogin_def Let_def split: sum.splits option.splits if_splits prod.splits
      dest!: consume_fields elim!: writes_backI)

lemma confirm_users:
  "confirmMfaEnrollment env u inp raws now st = (res, st') \<Longrightarrow> writes_back (users st) (users st')"
  by (auto simp: confirmMfaEnrollment_def Let_def split: sum.splits option.splits if_splits bool.splits
      elim!: writes_backI)

lemma disable_users:
  "disableMfa env u inp now st = (res, st') \<Longrightarrow> writes_back (users st) (users st')"
  by (auto simp: disableMfa_def Let_def split: sum.splits option.splits if_splits prod.splits
      dest!: consume_fields elim!: writes_backI)

lemma change_users:
  "changePassword env u c n salt st = (res, st') \<Longrightarrow> writes_back (users st) (users st')"
  by (auto simp: changePassword_def Let_def split: sum.splits option.splits if_splits elim!: writes_backI)

text \<open>Two active owners among the records read leave one when the other loses its standing.\<close>

lemma c_query_ids_distinct:
  assumes "keyed idf t" shows "distinct (map idf (c_query P lm t))"
proof -
  have "map idf (map snd (filter (\<lambda>(k, v). P v) t)) = map fst (filter (\<lambda>(k, v). P v) t)"
    using assms by (auto simp: keyed_def)
  moreover have "distinct (map fst (filter (\<lambda>(k, v). P v) t))"
    using assms by (intro distinct_map_filter tab_ok_distinct keyed_ok)
  ultimately show ?thesis by (metis c_query_take distinct_take take_map)
qed

lemma other_active_owner:
  assumes inv: "auth_inv st" and r: "r \<in> set (allUserRecords st)" "active_owner r"
    and n: "\<not> isLastActiveOwner (allUserRecords st) r"
  shows "\<exists>r' \<in> vals (users st). active_owner r' \<and> u_id r' \<noteq> u_id r"
proof -
  let ?os = "filter active_owner (allUserRecords st)"
  have k: "keyed u_id (users st)" using inv by (simp add: auth_inv_def)
  have d: "distinct (map u_id ?os)"
    using c_query_ids_distinct [OF k] by (simp add: allUserRecords_def distinct_map_filter)
  have "1 < length ?os" using n r(2) by (simp add: isLastActiveOwner_def)
  then have "1 < card (u_id ` set ?os)" using distinct_card [OF d] by simp
  then have "\<not> u_id ` set ?os \<subseteq> {u_id r}" using card_mono [of "{u_id r}" "u_id ` set ?os"] by auto
  then obtain r' where "r' \<in> set ?os" "u_id r' \<noteq> u_id r" by blast
  then show ?thesis using c_query_sub [of "\<lambda>_. True" None "users st"]
    by (auto simp: allUserRecords_def)
qed

lemma owner_update:
  assumes inv: "auth_inv st" and own: "has_active_owner st" and run: "updateUser i roles status a st = (res, st')"
  shows "has_active_owner st'"
proof (cases res)
  case (Inl e)
  then show ?thesis using own run updateUser_error by blast
next
  case (Inr u)
  obtain r nr ns where u: "find (\<lambda>r. u_id r = i) (allUserRecords st) = Some r"
      "ns = Active \<and> ''owner'' \<in> set nr \<or> \<not> isLastActiveOwner (allUserRecords st) r"
      "users st' = tab_put (u_id r) (r\<lparr>u_roles := nr, u_status := ns\<rparr>) (users st)"
    by (rule updateUser_Inr [OF run [unfolded Inr]]) (rule that; assumption)
  have r: "r \<in> vals (users st)" "r \<in> set (allUserRecords st)"
    using find_record [OF u(1)] u(1) by (auto simp: find_Some_iff)
  have k: "keyed u_id (users st)" using inv by (simp add: auth_inv_def)
  let ?r = "r\<lparr>u_roles := nr, u_status := ns\<rparr>"
  show ?thesis
  proof (cases "active_owner ?r \<or> \<not> active_owner r")
    case True
    have "r1 = r" if "r1 \<in> vals (users st)" "u_id r1 = u_id r" for r1
      using that r(1) keyed_value [OF k] by (metis option.inject)
    then show ?thesis using True u(3) by (intro owner_put [OF inv own, where r = ?r]) auto
  next
    case False
    then obtain r' where "r' \<in> vals (users st)" "active_owner r'" "u_id r' \<noteq> u_id r"
      using other_active_owner [OF inv r(2)] u(2) by (auto simp: active_owner_def)
    then show ?thesis using u(3) values_put [OF k] by (auto simp: has_active_owner_def)
  qed
qed

lemma owner_accept:
  assumes "auth_inv st" "has_active_owner st" "map_of (users st) uuid = None"
    "acceptInvite env tok pw uuid salt tok' t1 t2 t3 t4 st = (res, st')"
  shows "has_active_owner st'"
proof (cases res)
  case (Inl e)
  then show ?thesis using assms acceptInvite_error by blast
next
  case (Inr l)
  obtain iv r st1 ev where a:
      "insertUser env (i_email iv) pw (i_roles iv) False (invitedBy iv) uuid salt t2 st = (Inr r, st1)"
      "st' = snd (issueSession env r (u_email r) tok' t4
        (log_event ev (put_invite (iv\<lparr>consumedAt := Some (iso_string t3)\<rparr>) st1)))"
    by (rule acceptInvite_Inr [OF assms(4) [unfolded Inr]]) (rule that; assumption)
  then show ?thesis using owner_insert [OF assms(1-3) a(1)] by (simp add: has_active_owner_def)
qed

lemma auth_step_owner:
  assumes "auth_step env st st'" "auth_inv st" "has_active_owner st"
  shows "has_active_owner st'"
  using assms
proof (induction rule: auth_step.induct)
  case create
  then show ?case by (auto simp: createUser_def split: prod.splits sum.splits dest: owner_insert)
next
  case admin_create
  then show ?case by (auto simp: adminCreateUser_def split: prod.splits sum.splits dest: owner_insert)
next
  case login
  then show ?case using owner_authenticate by blast
next
  case mfa_login
  then show ?case using owner_write_back verifyMfaLogin_users by blast
next
  case mfa_begin
  then show ?case
    by (auto simp: beginMfaEnrollment_def Let_def has_active_owner_def split: sum.splits option.splits)
next
  case mfa_confirm
  then show ?case using owner_write_back confirm_users by blast
next
  case mfa_disable
  then show ?case using owner_write_back disable_users by blast
next
  case log_out
  then show ?case by (auto simp: logout_def has_active_owner_def split: sum.splits option.splits)
next
  case update
  then show ?case using owner_update by blast
next
  case change_password
  then show ?case using owner_write_back change_users by blast
next
  case invite
  then show ?case
    by (auto simp: createInvite_def Let_def has_active_owner_def split: if_splits sum.splits option.splits)
next
  case revoke_invite
  then show ?case by (auto simp: revokeInvite_def has_active_owner_def split: sum.splits option.splits)
next
  case accept
  then show ?case using owner_accept by blast
qed

end
