(* ===== verification/Auth_Props.thy ===== *)
theory Auth_Props
  imports Auth_Facts
begin

text \<open>
  The properties of the authentication service, over the facts of \<open>Auth_Facts\<close>: uniqueness of
  accounts, the last owner, the login decision and its lockout, sessions, the second factor,
  recovery codes, revocation on a change of role, invitations.
\<close>

section \<open>Helper lemmas\<close>

lemma c_get_put: "is_ok (assertSegment k ''id'') \<Longrightarrow> c_get k (tab_put k v t) = Inr (Some v)"
  by (auto simp: c_get_def is_ok_iff)

lemma c_get_map: "is_ok (assertSegment k ''id'') \<Longrightarrow> c_get k t = Inr (map_of t k)"
  by (auto simp: c_get_def is_ok_iff)

lemma first_query_find: "first_item (c_query P lm t) = map_option snd (find (\<lambda>(k, v). P v) t)"
proof -
  have "first_item (take (page_limit lm) xs) = first_item xs" for xs :: "'a list"
    using page_limit_bounds [of lm] by (cases xs; cases "page_limit lm") (auto simp: first_item_def)
  then have "first_item (c_query P lm t) = first_item (map snd (filter (\<lambda>(k, v). P v) t))"
    by (simp add: c_query_take)
  also have "\<dots> = map_option snd (find (\<lambda>(k, v). P v) t)"
    by (induction t) (auto simp: first_item_def)
  finally show ?thesis .
qed

text \<open>Rewriting the first match in place keeps it the first match.\<close>

lemma find_put_first:
  "tab_ok t \<Longrightarrow> find (\<lambda>(k, v). P v) t = Some (k, v) \<Longrightarrow> P v' \<Longrightarrow>
    find (\<lambda>(k, v). P v) (tab_put k v' t) = Some (k, v')"
proof (induction t)
  case (Cons a t)
  obtain k1 v1 where a: "a = (k1, v1)" by force
  show ?case
  proof (cases "P v1")
    case True
    then show ?thesis using Cons.prems a by simp
  next
    case False
    then have f: "find (\<lambda>(k, v). P v) t = Some (k, v)" using Cons.prems(2) a by simp
    then obtain i where "i < length t" "t ! i = (k, v)" by (auto simp: find_Some_iff)
    then have "(k, v) \<in> set t" by (metis nth_mem)
    then have "k \<in> fst ` set t" by force
    then have "k1 < k" using Cons.prems(1) a by (auto simp: tab_ok_Cons)
    then show ?thesis using False Cons.IH [OF _ f] Cons.prems a by (auto simp: tab_ok_Cons)
  qed
qed simp

lemma prune_keeps:
  "keyed s_id (sessions st) \<Longrightarrow>
    sessions (pruneUserSessions u t st) = sessions st \<or>
    (\<forall>i. map_of (sessions (pruneUserSessions u t st)) i = None \<or>
       map_of (sessions (pruneUserSessions u t st)) i = map_of (sessions st) i)"
  by (simp add: pruneUserSessions_def Let_def map_of_del_all)

lemma normalized_find:
  "findRecordByEmail (normalizeEmail e) st = findRecordByEmail e st"
  by (simp add: findRecordByEmail_def)

lemma not_disabled: "s \<noteq> Disabled \<longleftrightarrow> s = Active"
  by (cases s) auto

section \<open>A concrete service for the witnesses\<close>

definition sample_env :: auth_env where
  "sample_env = \<lparr>sha256 = (\<lambda>s. ''h'' @ s), argon_hash = (\<lambda>salt p. p), argon_verify = (\<lambda>h p. h = p),
     hmac_sha1 = (\<lambda>_ _. replicate 20 0), dummyHash = ''none'', maxAttempts = DEFAULT_MAX_ATTEMPTS,
     lockoutMs = DEFAULT_LOCKOUT_MS, sessionTtlMs = DEFAULT_SESSION_TTL_MS\<rparr>"

definition sample_user :: user_record where
  "sample_user = \<lparr>u_id = ''u1'', u_email = ''a@b.c'', passwordHash = ''secret12'', u_roles = [''owner''],
     mfaEnabled = False, mfaRecoveryHashes = None, u_status = Active, mustChangePassword = False,
     failedAttempts = 4, lockedUntil = None, u_createdAt = ''2024''\<rparr>"

definition sample_state :: "user_record \<Rightarrow> auth_state" where
  "sample_state r = \<lparr>users = [(u_id r, r)], sessions = [], invites = [], vault = None, audit = []\<rparr>"

lemma sample_email: "normalizeEmail ''a@b.c'' = ''a@b.c''"
  by code_simp

lemma sample_inv:
  assumes "u_email r = ''a@b.c''" "u_roles r = [''owner'']" "0 \<le> failedAttempts r"
  shows "auth_inv (sample_state r)"
  using assms by (simp add: auth_inv_def sample_state_def keyed_def tab_ok_def vals_def user_ok_def
      sample_email isRoleName_def ROLE_NAMES_def)

lemma sample_find: "u_email r = ''a@b.c'' \<Longrightarrow> findRecordByEmail ''a@b.c'' (sample_state r) = Some r"
  by (simp add: findRecordByEmail_def sample_email first_query_find sample_state_def)

lemma sample_segments: "is_ok (assertSegment ''htok'' ''id'')" "is_ok (assertSegment ''u1'' ''id'')"
  by code_simp+

lemma sample_reachable:
  "auth_reachable sample_env
     (snd (createUser sample_env ''a@b.c'' ''secret12'' [''owner''] ''u1'' ''x'' 0 (auth_init None)))"
proof (rule auth_reachable.step [OF auth_reachable.start])
  show "auth_step sample_env (auth_init None)
     (snd (createUser sample_env ''a@b.c'' ''secret12'' [''owner''] ''u1'' ''x'' 0 (auth_init None)))"
    by (rule auth_step.create [of _ "''u1''", OF _ prod.collapse [symmetric]]) (simp add: auth_init_def)
qed

lemma sample_users:
  "map (\<lambda>(k, r). (k, active_owner r)) (users
     (snd (createUser sample_env ''a@b.c'' ''secret12'' [''owner''] ''u1'' ''x'' 0 (auth_init None)))) =
    [(''u1'', True)]"
  by code_simp

section \<open>Accounts\<close>

text \<open>C19: In every state the service reaches, two stored accounts never share a normalised e-mail
  address, every account has at least one known role, and a session, user or invitation is stored
  under its own id.\<close>

theorem accounts_unique:
  assumes "auth_reachable env st"
  shows "(\<forall>r \<in> vals (users st). \<forall>r' \<in> vals (users st).
      normalizeEmail (u_email r) = normalizeEmail (u_email r') \<longrightarrow> r = r') \<and>
    (\<forall>r \<in> vals (users st). u_roles r \<noteq> [] \<and> list_all isRoleName (u_roles r)) \<and>
    keyed u_id (users st) \<and> keyed s_id (sessions st) \<and> keyed i_id (invites st)"
  using auth_reachable_inv [OF assms] by (auto simp: auth_inv_def user_ok_def)

theorem accounts_unique_witness:
  "\<exists>st. auth_reachable sample_env st \<and> users st \<noteq> [] \<and>
    (\<forall>r \<in> vals (users st). u_roles r \<noteq> [] \<and> list_all isRoleName (u_roles r))"
  using accounts_unique [OF sample_reachable] sample_reachable sample_users by fastforce

text \<open>C3: No operation of the service can remove the last active owner: while a state has an
  active owner, so has every state reached from it.\<close>

theorem owner_never_lost:
  assumes "auth_reachable env st" "has_active_owner st" "auth_step env st st'"
  shows "has_active_owner st'"
  using auth_step_owner [OF assms(3) auth_reachable_inv [OF assms(1)] assms(2)] .

theorem owner_never_lost_witness:
  "\<exists>st. has_active_owner st \<and> has_active_owner (snd (logout sample_env ''t'' st))"
proof -
  let ?st = "snd (createUser sample_env ''a@b.c'' ''secret12'' [''owner''] ''u1'' ''x'' 0 (auth_init None))"
  have "\<exists>k r. (k, r) \<in> set (users ?st) \<and> active_owner r" using sample_users by fastforce
  then have h: "has_active_owner ?st" unfolding has_active_owner_def Bex_def in_values by blast
  have "auth_step sample_env ?st (snd (logout sample_env ''t'' ?st))"
    by (rule auth_step.log_out [OF prod.collapse [symmetric]])
  from owner_never_lost [OF sample_reachable h this] h show ?thesis by blast
qed

section \<open>Login\<close>

lemma login_decision_eq:
  "fst (authenticate env e p tok t t' st) =
    (case findRecordByEmail e st of None \<Rightarrow> Inl bad_credentials
     | Some r \<Rightarrow>
         if is_locked (Some r) t \<or> \<not> argon_verify env (passwordHash r) p \<or> u_status r = Disabled
         then Inl bad_credentials
         else Inr (if mfaEnabled r then MfaChallenge tok else LoginResult tok (toPublic r)))"
  by (auto simp: authenticate_def Let_def normalized_find issueSession_def toPublic_def is_locked_def
      split: option.splits)

text \<open>C36: A password login succeeds exactly for a stored, active, unlocked account whose password
  verifies; in every other case (no such account, wrong password, locked, disabled) the caller gets
  one and the same error.\<close>

theorem login_decision:
  assumes "auth_inv st"
  shows "(is_ok (fst (authenticate env e p tok t t' st)) \<longleftrightarrow>
      (\<exists>r \<in> vals (users st). u_email r = normalizeEmail e \<and> u_status r = Active \<and>
         (\<forall>u. lockedUntil r = Some u \<longrightarrow> u \<le> t) \<and> argon_verify env (passwordHash r) p)) \<and>
    (is_ok (fst (authenticate env e p tok t t' st)) \<or>
      fst (authenticate env e p tok t t' st) = Inl bad_credentials)"
proof (cases "findRecordByEmail e st")
  case None
  then have "\<forall>r \<in> vals (users st). u_email r \<noteq> normalizeEmail e" using findRecordByEmail_None by simp
  then show ?thesis by (auto simp: login_decision_eq None)
next
  case (Some r)
  let ?ok = "\<lambda>r. u_status r = Active \<and> (\<forall>u. lockedUntil r = Some u \<longrightarrow> u \<le> t) \<and>
      argon_verify env (passwordHash r) p"
  have uniq: "r' = r" if "r' \<in> vals (users st)" "u_email r' = normalizeEmail e" for r'
    using findRecordByEmail_unique [OF assms that] Some by simp
  have lk: "is_locked (Some r) t \<longleftrightarrow> \<not> (\<forall>u. lockedUntil r = Some u \<longrightarrow> u \<le> t)"
    by (auto simp: is_locked_def not_less split: option.splits)
  have d: "fst (authenticate env e p tok t t' st) = (if ?ok r
      then Inr (if mfaEnabled r then MfaChallenge tok else LoginResult tok (toPublic r))
      else Inl bad_credentials)"
    unfolding login_decision_eq Some by (simp add: lk not_disabled)
  have x: "(\<exists>r \<in> vals (users st). u_email r = normalizeEmail e \<and> ?ok r) \<longleftrightarrow> ?ok r"
    using uniq findRecordByEmail_Some [OF Some] by blast
  show ?thesis unfolding d x by simp
qed

theorem login_decision_witness:
  "is_ok (fst (authenticate sample_env ''a@b.c'' ''secret12'' ''tok'' 0 0 (sample_state sample_user)))"
  using login_decision [OF sample_inv [of sample_user], of sample_env "''a@b.c''" "''secret12''" "''tok''" 0 0]
  by (simp add: sample_user_def sample_env_def sample_state_def vals_def sample_email)

lemma failed_login_record:
  assumes inv: "auth_inv st" and r: "findRecordByEmail e st = Some r" "\<not> is_locked (Some r) t"
    and bad: "\<not> argon_verify env (passwordHash r) p" "u_status r = Active"
    and n: "int (maxAttempts env) \<le> failedAttempts r + 1"
    and run: "authenticate env e p tok t t' st = (res, st1)"
  shows "findRecordByEmail e st1 = Some (r\<lparr>failedAttempts := failedAttempts r + 1,
      lockedUntil := Some (t + lockout_backoff env (failedAttempts r + 1))\<rparr>) \<and>
    sessions st1 = sessions st \<and> res = Inl bad_credentials \<and> auth_inv st1"
proof -
  let ?r = "r\<lparr>failedAttempts := failedAttempts r + 1,
      lockedUntil := Some (t + lockout_backoff env (failedAttempts r + 1))\<rparr>"
  have st1: "users st1 = tab_put (u_id r) ?r (users st)" "sessions st1 = sessions st"
      "res = Inl bad_credentials"
    using run r bad n by (auto simp: authenticate_def Let_def normalized_find record_failure_def)
  have k: "keyed u_id (users st)" using inv by (simp add: auth_inv_def)
  have "auth_inv st1" using authenticate_inv [OF inv run] .
  moreover have "?r \<in> vals (users st1)" using st1(1) values_put [OF k] by simp
  moreover have "u_email ?r = normalizeEmail e" using findRecordByEmail_Some [OF r(1)] by simp
  ultimately have "findRecordByEmail e st1 = Some ?r" by (rule findRecordByEmail_unique)
  then show ?thesis using st1 \<open>auth_inv st1\<close> by simp
qed

text \<open>C30: Once a wrong password brings the failure count to the limit, the account is locked: until
  the backoff has passed, every login for that address is refused, even with the right password, and
  neither opens a session nor changes the account (so the attempt is not counted).\<close>

theorem lockout_blocks:
  assumes inv: "auth_inv st" and r: "findRecordByEmail e st = Some r" "\<not> is_locked (Some r) t"
    and bad: "\<not> argon_verify env (passwordHash r) p" "u_status r = Active"
    and n: "int (maxAttempts env) \<le> failedAttempts r + 1"
    and run: "authenticate env e p tok t t' st = (res, st1)"
    and in_lock: "later < t + lockout_backoff env (failedAttempts r + 1)"
  shows "fst (authenticate env e pw token later later' st1) = Inl bad_credentials \<and>
    users (snd (authenticate env e pw token later later' st1)) = users st1 \<and>
    sessions (snd (authenticate env e pw token later later' st1)) = sessions st"
  using failed_login_record [OF inv r bad n run] in_lock
  by (simp add: authenticate_def Let_def normalized_find is_locked_def)

theorem lockout_blocks_witness:
  "fst (authenticate sample_env ''a@b.c'' ''secret12'' ''tok2'' 1000 1000
     (snd (authenticate sample_env ''a@b.c'' ''wrong'' ''tok'' 0 0 (sample_state sample_user)))) =
   Inl bad_credentials"
proof -
  have r: "u_email sample_user = ''a@b.c''" by (simp add: sample_user_def)
  have b: "lockout_backoff sample_env (failedAttempts sample_user + 1) = 900000"
    by (simp add: lockout_backoff_def sample_env_def sample_user_def DEFAULT_MAX_ATTEMPTS_def
        DEFAULT_LOCKOUT_MS_def MAX_LOCKOUT_MS_def)
  show ?thesis
    using lockout_blocks [OF _ sample_find [OF r], where env = sample_env and p = "''wrong''" and t = 0
        and tok = "''tok''" and t' = 0 and later = 1000, OF _ _ _ _ _ prod.collapse [symmetric]]
      sample_inv [of sample_user] b
    by (simp add: sample_user_def sample_env_def is_locked_def DEFAULT_MAX_ATTEMPTS_def)
qed

text \<open>The lockout only ever grows and is bounded: more failures never shorten it, it never
  exceeds a day, and each further full batch of failures doubles it up to that bound.\<close>

theorem lockout_escalates:
  assumes "0 < maxAttempts env" "0 \<le> lockoutMs env"
  shows "(\<forall>n m. n \<le> m \<longrightarrow> lockout_backoff env n \<le> lockout_backoff env m) \<and>
    (\<forall>n. lockout_backoff env n \<le> MAX_LOCKOUT_MS) \<and>
    (\<forall>n \<ge> int (maxAttempts env). lockout_backoff env (n + int (maxAttempts env)) =
      min (2 * lockout_backoff env n) MAX_LOCKOUT_MS)"
proof (intro conjI)
  let ?a = "int (maxAttempts env)"
  show "\<forall>n m. n \<le> m \<longrightarrow> lockout_backoff env n \<le> lockout_backoff env m"
  proof (intro allI impI)
    fix n m :: int assume "n \<le> m"
    then have "nat (n div ?a - 1) \<le> nat (m div ?a - 1)" using assms(1)
      by (intro nat_mono diff_right_mono zdiv_mono1) auto
    then have "(2::int) ^ nat (n div ?a - 1) \<le> 2 ^ nat (m div ?a - 1)" by (rule power_increasing) simp
    then have "lockoutMs env * 2 ^ nat (n div ?a - 1) \<le> lockoutMs env * 2 ^ nat (m div ?a - 1)"
      using assms(2) by (rule mult_left_mono)
    then show "lockout_backoff env n \<le> lockout_backoff env m"
      by (simp add: lockout_backoff_def Let_def)
  qed
  show "\<forall>n. lockout_backoff env n \<le> MAX_LOCKOUT_MS" by (simp add: lockout_backoff_def Let_def)
  show "\<forall>n \<ge> ?a. lockout_backoff env (n + ?a) = min (2 * lockout_backoff env n) MAX_LOCKOUT_MS"
  proof (intro allI impI)
    fix n assume n: "?a \<le> n"
    then have "?a div ?a \<le> n div ?a" using assms(1) by (intro zdiv_mono1) auto
    then have "nat ((n + ?a) div ?a - 1) = Suc (nat (n div ?a - 1))" using assms(1) by simp
    then show "lockout_backoff env (n + ?a) = min (2 * lockout_backoff env n) MAX_LOCKOUT_MS"
      by (simp add: lockout_backoff_def Let_def MAX_LOCKOUT_MS_def)
  qed
qed

theorem lockout_escalates_witness:
  "lockout_backoff sample_env 5 \<le> lockout_backoff sample_env 10 \<and>
   lockout_backoff sample_env 10 = min (2 * lockout_backoff sample_env 5) MAX_LOCKOUT_MS"
proof -
  have "0 < maxAttempts sample_env" "0 \<le> lockoutMs sample_env"
    by (simp_all add: sample_env_def DEFAULT_MAX_ATTEMPTS_def DEFAULT_LOCKOUT_MS_def)
  note l = lockout_escalates [OF this]
  have "int (maxAttempts sample_env) = 5" by (simp add: sample_env_def DEFAULT_MAX_ATTEMPTS_def)
  then have "lockout_backoff sample_env (5 + 5) = min (2 * lockout_backoff sample_env 5) MAX_LOCKOUT_MS"
    using l by (metis order_refl)
  moreover have "lockout_backoff sample_env 5 \<le> lockout_backoff sample_env 10" using l by simp
  ultimately show ?thesis by simp
qed

section \<open>Sessions\<close>

text \<open>A token validates to a user only if it names a stored session that is neither revoked, nor
  still waiting for its second factor, nor expired, and whose account is stored and active.\<close>

theorem session_sound:
  assumes "validateSession env tok now st = Inr (Some u)"
  shows "\<exists>s r. map_of (sessions st) (tokenId env tok) = Some s \<and> \<not> revoked s \<and> \<not> mfaPending s \<and>
    now < s_expiresAt s \<and> map_of (users st) (s_userId s) = Some r \<and> u_status r = Active \<and> u = toPublic r"
  using assms
  by (auto simp: validateSession_def c_get_def not_disabled split: sum.splits option.splits if_splits)

definition sample_session :: session_record where
  "sample_session = \<lparr>s_id = ''htok'', s_userId = ''u1'', s_createdAt = ''2024'', s_expiresAt = 100,
     revoked = False, mfaPending = False, mfaAttempts = 0\<rparr>"

definition with_session :: "session_record \<Rightarrow> auth_state \<Rightarrow> auth_state" where
  "with_session x st = st\<lparr>sessions := [(s_id x, x)]\<rparr>"

lemma with_session_inv: "auth_inv st \<Longrightarrow> auth_inv (with_session x st)"
  by (simp add: auth_inv_def with_session_def keyed_def tab_ok_def)

theorem session_sound_witness:
  "\<exists>s. map_of (sessions (with_session sample_session (sample_state sample_user))) ''htok'' = Some s \<and>
     \<not> revoked s \<and> 50 < s_expiresAt s"
proof -
  have v: "validateSession sample_env ''tok'' 50 (with_session sample_session (sample_state sample_user)) =
      Inr (Some (toPublic sample_user))"
    by (simp add: validateSession_def tokenId_def sample_env_def with_session_def sample_state_def
        c_get_map sample_segments sample_session_def sample_user_def)
  have t: "tokenId sample_env ''tok'' = ''htok''" by (simp add: tokenId_def sample_env_def)
  from session_sound [OF v, unfolded t] show ?thesis by blast
qed

lemma issue_validates:
  assumes "is_ok (assertSegment (tokenId env tok) ''id'')" "is_ok (assertSegment (u_id r) ''id'')"
    "map_of (users st) (u_id r) = Some r" "u_status r = Active"
  shows "validateSession env tok now (snd (issueSession env r e tok t st)) =
    Inr (if now < t + sessionTtlMs env then Some (toPublic r) else None)"
  using assms by (simp add: issueSession_def Let_def validateSession_def c_get_put c_get_map)

text \<open>After a password login without second factor, the returned token validates to the returned
  user until the session's lifetime is over, and to nobody from then on.\<close>

theorem login_session:
  assumes "auth_inv st" and run: "authenticate env e p tok t t' st = (Inr (LoginResult tok' u), st')"
    and seg: "is_ok (assertSegment (tokenId env tok) ''id'')" "is_ok (assertSegment (pu_id u) ''id'')"
  shows "tok' = tok \<and>
    validateSession env tok now st' = Inr (if now < t' + sessionTtlMs env then Some u else None)"
proof -
  obtain r where r: "findRecordByEmail e st = Some r"
    using run by (auto simp: authenticate_def Let_def normalized_find split: option.splits)
  let ?r = "r\<lparr>failedAttempts := 0, lockedUntil := None\<rparr>"
  let ?st = "pruneUserSessions (u_id r) t (put_user ?r st)"
  have a: "u_status r = Active" "tok' = tok" "u = toPublic ?r"
      "st' = snd (issueSession env ?r (normalizeEmail e) tok t' ?st)"
    using run r user_status.exhaust [of "u_status r"]
    by (auto simp: authenticate_def Let_def normalized_find issueSession_def split: if_splits)
  have "map_of (users ?st) (u_id ?r) = Some ?r" by simp
  then show ?thesis
    using issue_validates [OF seg(1), of ?r ?st now "normalizeEmail e" t'] seg(2) a
    by (simp add: toPublic_def)
qed

lemma sample_login:
  "authenticate sample_env ''a@b.c'' ''secret12'' ''tok'' 0 0 (sample_state sample_user) =
     (Inr (LoginResult ''tok'' (toPublic sample_user)),
      snd (authenticate sample_env ''a@b.c'' ''secret12'' ''tok'' 0 0 (sample_state sample_user)))"
proof -
  have "fst (authenticate sample_env ''a@b.c'' ''secret12'' ''tok'' 0 0 (sample_state sample_user)) =
      Inr (LoginResult ''tok'' (toPublic sample_user))"
    using sample_find [of sample_user]
    by (simp add: login_decision_eq sample_user_def sample_env_def is_locked_def)
  then show ?thesis by (metis prod.collapse)
qed

theorem login_session_witness:
  "validateSession sample_env ''tok'' 1000
     (snd (authenticate sample_env ''a@b.c'' ''secret12'' ''tok'' 0 0 (sample_state sample_user))) =
   Inr (Some (toPublic sample_user))"
  using login_session [OF _ sample_login, where now = 1000] sample_inv [of sample_user] sample_segments
  by (simp add: sample_user_def tokenId_def sample_env_def toPublic_def DEFAULT_SESSION_TTL_MS_def)

text \<open>For an account with a second factor, the password alone opens no session: the challenge
  token validates to nobody, at any time.\<close>

theorem challenge_is_no_session:
  assumes "authenticate env e p tok t t' st = (Inr (MfaChallenge ch), st')"
    and "is_ok (assertSegment (tokenId env tok) ''id'')"
  shows "ch = tok \<and> validateSession env ch now st' = Inr None"
proof -
  have "\<exists>t0 s. sessions st' = tab_put (tokenId env tok) s t0 \<and> mfaPending s \<and> ch = tok"
    using assms(1)
    by (auto simp: authenticate_def Let_def normalized_find issueSession_def split: option.splits if_splits)
      (metis session_record.select_convs(6))
  then show ?thesis using assms(2) by (auto simp: validateSession_def c_get_put)
qed

theorem challenge_is_no_session_witness:
  "validateSession sample_env ''tok'' 1
     (snd (authenticate sample_env ''a@b.c'' ''secret12'' ''tok'' 0 0
        (sample_state (sample_user\<lparr>mfaEnabled := True\<rparr>)))) = Inr None"
proof -
  let ?st = "sample_state (sample_user\<lparr>mfaEnabled := True\<rparr>)"
  have "fst (authenticate sample_env ''a@b.c'' ''secret12'' ''tok'' 0 0 ?st) = Inr (MfaChallenge ''tok'')"
    using sample_find [of "sample_user\<lparr>mfaEnabled := True\<rparr>"]
    by (simp add: login_decision_eq sample_user_def sample_env_def is_locked_def)
  then have "authenticate sample_env ''a@b.c'' ''secret12'' ''tok'' 0 0 ?st = (Inr (MfaChallenge ''tok''),
      snd (authenticate sample_env ''a@b.c'' ''secret12'' ''tok'' 0 0 ?st))" by (metis prod.collapse)
  from challenge_is_no_session [OF this, of 1] show ?thesis
    using sample_segments by (simp add: tokenId_def sample_env_def)
qed

text \<open>After a logout the token validates to nobody.\<close>

theorem logout_ends_session:
  assumes "auth_inv st" "logout env tok st = (Inr (), st')"
  shows "validateSession env tok now st' = Inr None"
proof -
  have id: "s_id s = tokenId env tok" if "map_of (sessions st) (tokenId env tok) = Some s" for s
    using assms(1) that keyed_id by (auto simp: auth_inv_def)
  show ?thesis using assms(2) id
    by (auto simp: logout_def validateSession_def c_get_def split: sum.splits option.splits)
qed

theorem logout_ends_session_witness:
  "validateSession sample_env ''tok'' 50
     (snd (logout sample_env ''tok'' (with_session sample_session (sample_state sample_user)))) = Inr None"
proof -
  let ?st = "with_session sample_session (sample_state sample_user)"
  have "fst (logout sample_env ''tok'' ?st) = Inr ()"
    by (simp add: logout_def tokenId_def sample_env_def c_get_map sample_segments split: option.split)
  then have "logout sample_env ''tok'' ?st = (Inr (), snd (logout sample_env ''tok'' ?st))"
    by (metis prod.collapse)
  from logout_ends_session [OF with_session_inv [OF sample_inv] this] show ?thesis
    by (simp add: sample_user_def)
qed

section \<open>Second factor\<close>

text \<open>The results of presenting codes, one after the other, for one challenge.\<close>

fun mfa_results :: "auth_env \<Rightarrow> string \<Rightarrow> (string \<times> int) list \<Rightarrow> auth_state \<Rightarrow> login_result result list" where
  "mfa_results env ch [] st = []"
| "mfa_results env ch ((inp, t) # rest) st =
     (let (r, st') = verifyMfaLogin env ch inp t st in r # mfa_results env ch rest st')"

definition wrong_codes :: "login_result result list \<Rightarrow> nat" where
  "wrong_codes rs = length (filter (\<lambda>r. r = Inl bad_code) rs)"

text \<open>The attempts a challenge has left; none without a pending session.\<close>

definition attempts_left :: "auth_env \<Rightarrow> string \<Rightarrow> auth_state \<Rightarrow> nat" where
  "attempts_left env ch st = (case map_of (sessions st) (tokenId env ch) of
     Some s \<Rightarrow> if mfaPending s then nat (MAX_MFA_ATTEMPTS - mfaAttempts s) else 0
   | None \<Rightarrow> 0)"

lemma hotp_error: "hotp h s c d = Inl e \<Longrightarrow> code e = Internal"
  by (auto simp: hotp_def Let_def split: if_splits)

lemma scan_error: "totp_scan h s n cs = Inl e \<Longrightarrow> code e = Internal"
  by (induction cs) (auto split: sum.splits if_splits dest: hotp_error)

lemma dec_loop_error: "dec_loop s b v out = Inl e \<Longrightarrow> code e = Validation"
  by (induction s b v out rule: dec_loop.induct) (auto simp: Let_def split: option.splits if_splits)

lemma verifyTotp_error: "verifyTotp h s inp t = Inl e \<Longrightarrow> code e = Internal \<or> code e = Validation"
  by (auto simp: verifyTotp_def Let_def base32Decode_def split: if_splits sum.splits
      dest: scan_error dec_loop_error)

lemma not_bad_code [simp]:
  "code e = Internal \<or> code e = Validation \<Longrightarrow> e \<noteq> bad_code"
  "bad_challenge \<noteq> bad_code" "PressError Unauthorized ''Too many attempts - start over'' \<noteq> bad_code"
  by (auto simp: bad_code_def bad_challenge_def)

lemma check_totp_error: "check_totp env s inp t = Inl e \<Longrightarrow> e \<noteq> bad_code"
  using verifyTotp_error not_bad_code(1) by (auto simp: check_totp_def split: option.splits)

lemma assert_error: "c_get i t = Inl e \<Longrightarrow> e \<noteq> bad_code"
  by (auto simp: c_get_def assertSegment_def bad_code_def split: if_splits)

lemma verify_attempts:
  assumes inv: "auth_inv st" and run: "verifyMfaLogin env ch inp t st = (r, st')"
  shows "attempts_left env ch st' + (if r = Inl bad_code then 1 else 0) \<le> attempts_left env ch st"
proof -
  have id: "s_id s = tokenId env ch" if "map_of (sessions st) (tokenId env ch) = Some s" for s
    using inv that keyed_id by (auto simp: auth_inv_def)
  show ?thesis using run id
    by (auto simp: verifyMfaLogin_def Let_def attempts_left_def c_get_def nat_diff_distrib
        split: sum.splits option.splits if_splits prod.splits
        dest!: check_totp_error) (auto simp: bad_code_def assertSegment_def split: if_splits)
qed

lemma wrong_codes_left:
  "auth_inv st \<Longrightarrow> wrong_codes (mfa_results env ch tries st) \<le> attempts_left env ch st"
proof (induction tries arbitrary: st)
  case Nil
  then show ?case by (simp add: wrong_codes_def)
next
  case (Cons a tries)
  obtain inp t where a: "a = (inp, t)" by force
  obtain r st' where run: "verifyMfaLogin env ch inp t st = (r, st')" by force
  note v = verify_attempts [OF Cons.prems run]
  have "wrong_codes (mfa_results env ch tries st') \<le> attempts_left env ch st'"
    using Cons.IH verifyMfaLogin_inv [OF Cons.prems run] by blast
  then show ?case using v by (auto simp: wrong_codes_def a run split: if_splits)
qed

text \<open>However many codes are presented for one login challenge, and at whatever times, at most
  five of them are checked and found wrong: the challenge is gone after that.\<close>

theorem mfa_attempts_bounded:
  assumes "auth_inv st" "\<And>s. map_of (sessions st) (tokenId env ch) = Some s \<Longrightarrow> 0 \<le> mfaAttempts s"
  shows "wrong_codes (mfa_results env ch tries st) \<le> 5"
proof -
  have "attempts_left env ch st \<le> 5"
    using assms(2) by (force simp: attempts_left_def MAX_MFA_ATTEMPTS_def split: option.splits)
  then show ?thesis using wrong_codes_left [OF assms(1)] le_trans by blast
qed

theorem mfa_attempts_bounded_witness:
  "wrong_codes (mfa_results sample_env ''tok'' (replicate 9 (''abc'', 1))
     (with_session (sample_session\<lparr>mfaPending := True\<rparr>) (sample_state sample_user))) \<le> 5"
  using mfa_attempts_bounded [OF with_session_inv [OF sample_inv], of sample_user
      "sample_session\<lparr>mfaPending := True\<rparr>" sample_env "''tok''" "replicate 9 (''abc'', 1)"]
  by (simp add: sample_user_def with_session_def sample_session_def tokenId_def sample_env_def
      split: if_splits)

text \<open>The shape of a completed second step.\<close>

lemma verify_success:
  assumes inv: "auth_inv st" and run: "verifyMfaLogin env ch inp t st = (Inr res, st')"
  obtains s r r' where
    "map_of (sessions st) (tokenId env ch) = Some s" "mfaPending s" "\<not> revoked s" "t < s_expiresAt s"
    "map_of (users st) (s_userId s) = Some r" "u_status r = Active" "s_id s = tokenId env ch"
    "check_totp env (mfa_secret (u_id r) st) inp t = Inr True \<and> r' = r \<and> users st' = users st \<or>
     check_totp env (mfa_secret (u_id r) st) inp t = Inr False \<and>
       consumeRecoveryCode env r inp = (True, r') \<and> users st' = tab_put (u_id r) r' (users st)"
    "sessions st' = tab_put (tokenId env ch)
       (s\<lparr>mfaPending := False, mfaAttempts := 0, s_expiresAt := t + sessionTtlMs env\<rparr>) (sessions st)"
    "res = LoginResult ch (toPublic r')"
proof -
  obtain s where s: "c_get (tokenId env ch) (sessions st) = Inr (Some s)"
    using run by (auto simp: verifyMfaLogin_def split: sum.splits option.splits)
  then have s': "map_of (sessions st) (tokenId env ch) = Some s"
    by (auto simp: c_get_def split: sum.splits)
  have id: "s_id s = tokenId env ch" using inv s' keyed_id by (auto simp: auth_inv_def)
  have p: "mfaPending s" "\<not> revoked s" "t < s_expiresAt s"
    using run s by (auto simp: verifyMfaLogin_def split: if_splits)
  obtain r where r: "c_get (s_userId s) (users st) = Inr (Some r)"
    using run s p by (auto simp: verifyMfaLogin_def split: sum.splits option.splits)
  have act: "u_status r = Active"
    using run s p r by (auto simp: verifyMfaLogin_def not_disabled split: if_splits)
  obtain b where b: "check_totp env (mfa_secret (u_id r) st) inp t = Inr b"
    using run s p r act by (auto simp: verifyMfaLogin_def Let_def split: sum.splits if_splits)
  show thesis
  proof (cases b)
    case True
    show thesis
      by (rule that [OF s' p get_user [OF r] act id, of r])
         (use run s p r act b True id in \<open>auto simp: verifyMfaLogin_def Let_def split: if_splits\<close>)
  next
    case False
    obtain x r' where c: "consumeRecoveryCode env r inp = (x, r')" by force
    have x: x using run s p r act b False c
      by (auto simp: verifyMfaLogin_def Let_def split: if_splits)
    show thesis
      by (rule that [OF s' p get_user [OF r] act id, of r'])
         (use run s p r act b False c x id consume_fields [OF c] in
            \<open>auto simp: verifyMfaLogin_def Let_def split: if_splits\<close>)
  qed
qed

text \<open>A completed second step turns the challenge into a session of the same account: the
  challenge token then validates to that user for the session's lifetime.\<close>

theorem mfa_promotes:
  assumes inv: "auth_inv st" and run: "verifyMfaLogin env ch inp t st = (Inr res, st')"
    and seg: "is_ok (assertSegment (tokenId env ch) ''id'')"
      "\<And>s. map_of (sessions st) (tokenId env ch) = Some s \<Longrightarrow> is_ok (assertSegment (s_userId s) ''id'')"
  shows "lr_token res = ch \<and> validateSession env ch now st' =
    Inr (if now < t + sessionTtlMs env then Some (lr_user res) else None)"
proof -
  obtain s r r' where v:
      "map_of (sessions st) (tokenId env ch) = Some s" "mfaPending s" "\<not> revoked s" "t < s_expiresAt s"
      "map_of (users st) (s_userId s) = Some r" "u_status r = Active" "s_id s = tokenId env ch"
      "check_totp env (mfa_secret (u_id r) st) inp t = Inr True \<and> r' = r \<and> users st' = users st \<or>
       check_totp env (mfa_secret (u_id r) st) inp t = Inr False \<and>
         consumeRecoveryCode env r inp = (True, r') \<and> users st' = tab_put (u_id r) r' (users st)"
      "sessions st' = tab_put (tokenId env ch)
         (s\<lparr>mfaPending := False, mfaAttempts := 0, s_expiresAt := t + sessionTtlMs env\<rparr>) (sessions st)"
      "res = LoginResult ch (toPublic r')"
    by (rule verify_success [OF inv run])
  have "u_id r = s_userId s" using stored_user [OF inv v(5)] by simp
  then have "map_of (users st') (s_userId s) = Some r'" "u_status r' = Active"
    using v(5,6,8) consume_fields [of env r inp True r'] by auto
  then show ?thesis using v(3,9,10) seg(1) seg(2) [OF v(1)]
    by (simp add: validateSession_def c_get_put c_get_map)
qed

text \<open>A recovery code works once: after it completed a login (the codes stored for the account
  being distinct), it is no longer among the codes of the stored account, and presenting it again
  consumes nothing.\<close>

theorem recovery_code_once:
  assumes inv: "auth_inv st" and run: "verifyMfaLogin env ch inp t st = (Inr res, st')"
    and s: "map_of (sessions st) (tokenId env ch) = Some s" "map_of (users st) (s_userId s) = Some r"
    and rec: "check_totp env (mfa_secret (u_id r) st) inp t = Inr False"
      "mfaRecoveryHashes r = Some hs" "distinct hs"
  shows "\<exists>r'. map_of (users st') (u_id r) = Some r' \<and>
    hashRecoveryCode env inp \<in> set hs \<and>
    mfaRecoveryHashes r' = Some (remove1 (hashRecoveryCode env inp) hs) \<and>
    consumeRecoveryCode env r' inp = (False, r')"
proof -
  obtain s0 r0 r' where v:
      "map_of (sessions st) (tokenId env ch) = Some s0" "map_of (users st) (s_userId s0) = Some r0"
      "check_totp env (mfa_secret (u_id r0) st) inp t = Inr True \<and> r' = r0 \<and> users st' = users st \<or>
       check_totp env (mfa_secret (u_id r0) st) inp t = Inr False \<and>
         consumeRecoveryCode env r0 inp = (True, r') \<and> users st' = tab_put (u_id r0) r' (users st)"
    by (rule verify_success [OF inv run])
  then have c: "consumeRecoveryCode env r inp = (True, r')" "users st' = tab_put (u_id r) r' (users st)"
    using s rec(1) by auto
  then have "hashRecoveryCode env inp \<in> set hs"
      "r' = r\<lparr>mfaRecoveryHashes := Some (remove1 (hashRecoveryCode env inp) hs)\<rparr>"
    using rec(2) by (auto simp: consumeRecoveryCode_def Let_def split: if_splits)
  then show ?thesis using c(2) rec(3) by (simp add: consumeRecoveryCode_def)
qed

end
