(* ===== verification/Auth_Accounts.thy ===== *)
theory Auth_Accounts
  imports Auth_Props
begin

text \<open>
  The properties of account administration in \<open>auth/service.ts\<close>: what a completed second factor
  looks like on concrete data, what a change of role or status does to the sessions of the account,
  and invitations.
\<close>

section \<open>The second factor, on concrete data\<close>

definition mfa_user :: user_record where
  "mfa_user = sample_user\<lparr>mfaEnabled := True, mfaRecoveryHashes := Some [''hABC'', ''hDEF'']\<rparr>"

definition mfa_state :: auth_state where
  "mfa_state = with_session (sample_session\<lparr>mfaPending := True\<rparr>) (sample_state mfa_user)"

lemma mfa_state_facts:
  "auth_inv mfa_state"
  "map_of (sessions mfa_state) (tokenId sample_env ''tok'') = Some (sample_session\<lparr>mfaPending := True\<rparr>)"
  "map_of (users mfa_state) (s_userId sample_session) = Some mfa_user"
  "check_totp sample_env (mfa_secret (u_id mfa_user) mfa_state) ''a-bc'' 1 = Inr False"
  "mfaRecoveryHashes mfa_user = Some [''hABC'', ''hDEF'']"
  "s_userId (sample_session\<lparr>mfaPending := True\<rparr>) = ''u1''"
proof -
  show "auth_inv mfa_state" unfolding mfa_state_def
    by (intro with_session_inv sample_inv) (simp_all add: mfa_user_def sample_user_def)
qed (simp_all add: mfa_state_def with_session_def sample_session_def tokenId_def sample_env_def
  sample_state_def mfa_user_def sample_user_def mfa_secret_def check_totp_def)

lemma mfa_login:
  "fst (verifyMfaLogin sample_env ''tok'' ''a-bc'' 1 mfa_state) =
    Inr (LoginResult ''tok'' (toPublic mfa_user))"
  by code_simp

lemma mfa_login_run:
  "verifyMfaLogin sample_env ''tok'' ''a-bc'' 1 mfa_state =
    (Inr (LoginResult ''tok'' (toPublic mfa_user)),
     snd (verifyMfaLogin sample_env ''tok'' ''a-bc'' 1 mfa_state))"
  using mfa_login by (metis prod.collapse)

theorem mfa_promotes_witness:
  "validateSession sample_env ''tok'' 1000 (snd (verifyMfaLogin sample_env ''tok'' ''a-bc'' 1 mfa_state)) =
    Inr (Some (toPublic mfa_user))"
  using mfa_promotes [OF mfa_state_facts(1) mfa_login_run, of 1000] sample_segments mfa_state_facts
  by (simp add: tokenId_def sample_env_def DEFAULT_SESSION_TTL_MS_def)

theorem recovery_code_once_witness:
  "\<exists>r. map_of (users (snd (verifyMfaLogin sample_env ''tok'' ''a-bc'' 1 mfa_state))) ''u1'' = Some r \<and>
    mfaRecoveryHashes r = Some [''hDEF'']"
proof -
  have "hashRecoveryCode sample_env ''a-bc'' = ''hABC''" by code_simp
  moreover have "u_id mfa_user = ''u1''" by (simp add: mfa_user_def sample_user_def)
  ultimately show ?thesis
    using recovery_code_once [OF mfa_state_facts(1) mfa_login_run mfa_state_facts(2), of mfa_user]
      mfa_state_facts by fastforce
qed

section \<open>A change of role or status\<close>

definition user_sessions :: "string \<Rightarrow> auth_state \<Rightarrow> session_record list" where
  "user_sessions u st = filter (\<lambda>s. s_userId s = u) (map snd (sessions st))"

lemma revoke_page: "auth_inv st \<Longrightarrow> user_sessions u (revokeUserSessions u st) = drop 50 (user_sessions u st)"
  using delete_first_page [of s_id "sessions st" "\<lambda>s. s_userId s = u" None]
  by (simp add: auth_inv_def user_sessions_def revokeUserSessions_def Let_def)

lemma role_join_eq:
  assumes "list_all isRoleName xs" "list_all isRoleName ys" "xs \<noteq> []" "ys \<noteq> []"
    "js_join '','' xs = js_join '','' ys"
  shows "xs = ys"
proof -
  have "list_all (\<lambda>w. CHR '','' \<notin> set w) ROLE_NAMES" by code_simp
  then have c: "CHR '','' \<notin> set w" if "list_all isRoleName zs" "w \<in> set zs" for w zs
    using that unfolding list_all_iff isRoleName_def List.member_iff by blast
  have "js_split (CHR '','') (js_join '','' xs) = xs" "js_split (CHR '','') (js_join '','' ys) = ys"
    using js_split_join [OF assms(3) c [OF assms(1)]] js_split_join [OF assms(4) c [OF assms(2)]]
    by simp_all
  then show ?thesis using assms(5) by metis
qed

lemma user_sessions_cong: "sessions st = sessions st' \<Longrightarrow> user_sessions u st = user_sessions u st'"
  by (simp add: user_sessions_def)

text \<open>A change of roles or of status deletes the sessions of the account, but only those of the
  first page of 50: of an account with at most 50 sessions no token validates any more, and of one
  with more, all sessions after the first 50 stay.\<close>

theorem role_change_revokes:
  assumes inv: "auth_inv st" and run: "updateUser i roles status actor st = (Inr u, st')"
    and r: "map_of (users st) i = Some r" and changed: "pu_roles u \<noteq> u_roles r \<or> pu_status u \<noteq> u_status r"
  shows "user_sessions i st' = drop 50 (user_sessions i st) \<and>
    (length (user_sessions i st) \<le> 50 \<longrightarrow>
      (\<forall>tok now x. validateSession env tok now st' = Inr (Some x) \<longrightarrow> pu_id x \<noteq> i))"
proof -
  obtain r' nr ns where u: "find (\<lambda>r. u_id r = i) (allUserRecords st) = Some r'"
      "nr = (case roles of Some rs \<Rightarrow> rs | None \<Rightarrow> u_roles r')" "roles \<noteq> None \<Longrightarrow> check_roles nr = Inr ()"
      "u = toPublic (r'\<lparr>u_roles := nr, u_status := ns\<rparr>)"
      "st' = log_event (event ''user.update'' actor [(''userId'', DStr (u_id r')), (''roles'', DList nr),
         (''status'', DStr (status_string ns))]) ((if roles \<noteq> None \<and> js_join '','' nr \<noteq> js_join '','' (u_roles r') \<or>
        ns \<noteq> u_status r' then revokeUserSessions (u_id r') else (\<lambda>s. s))
        (put_user (r'\<lparr>u_roles := nr, u_status := ns\<rparr>) st))"
    by (rule updateUser_Inr [OF run]) (rule that; assumption)
  have r': "r' = r" "u_id r = i" "user_ok r"
    using find_record [OF u(1)] inv r by (auto simp: auth_inv_def keyed_value)
  have "roles \<noteq> None \<and> js_join '','' nr \<noteq> js_join '','' (u_roles r') \<or> ns \<noteq> u_status r'"
    using changed u(2,3,4) r' role_join_eq [of nr "u_roles r"]
    by (cases roles) (auto simp: toPublic_def check_roles_ok user_ok_def)
  then have st': "st' = log_event (event ''user.update'' actor [(''userId'', DStr (u_id r')), (''roles'', DList nr),
         (''status'', DStr (status_string ns))]) (revokeUserSessions i (put_user (r'\<lparr>u_roles := nr, u_status := ns\<rparr>) st))"
    using u(5) r' by simp
  then have s: "user_sessions i st' = user_sessions i (revokeUserSessions i st)"
    by (simp add: revokeUserSessions_def Let_def user_sessions_def)
  have inv': "auth_inv st'" using updateUser_inv [OF inv run] .
  have "pu_id x \<noteq> i" if le: "length (user_sessions i st) \<le> 50"
    and v: "validateSession env tok now st' = Inr (Some x)" for tok now x
  proof
    assume x: "pu_id x = i"
    from v obtain s r where v: "map_of (sessions st') (tokenId env tok) = Some s"
        "map_of (users st') (s_userId s) = Some r" "x = toPublic r"
      by (auto simp: validateSession_def c_get_def split: sum.splits option.splits if_splits)
    have "s_userId s = i" using stored_user [OF inv' v(2)] x v(3) by (simp add: toPublic_def)
    moreover have "s \<in> set (map snd (sessions st'))" using v(1) by (force dest: map_of_SomeD)
    ultimately have "s \<in> set (user_sessions i st')" by (simp add: user_sessions_def)
    then show False using le by (simp add: s revoke_page [OF inv])
  qed
  then show ?thesis using s revoke_page [OF inv] by auto
qed

definition promoted :: "user result \<times> auth_state" where
  "promoted = updateUser ''u1'' (Some [''owner'', ''editor'']) None None
     (with_session sample_session (sample_state sample_user))"

theorem role_change_revokes_witness:
  "user_sessions ''u1'' (with_session sample_session (sample_state sample_user)) \<noteq> [] \<and>
   user_sessions ''u1'' (snd promoted) = []"
proof -
  let ?st = "with_session sample_session (sample_state sample_user)"
  have inv: "auth_inv ?st" by (intro with_session_inv sample_inv) (simp_all add: sample_user_def)
  have "fst promoted = Inr (toPublic (sample_user\<lparr>u_roles := [''owner'', ''editor'']\<rparr>))" by code_simp
  then have run: "updateUser ''u1'' (Some [''owner'', ''editor'']) None None ?st =
      (Inr (toPublic (sample_user\<lparr>u_roles := [''owner'', ''editor'']\<rparr>)), snd promoted)"
    by (metis promoted_def prod.collapse)
  have u: "map_of (users ?st) ''u1'' = Some sample_user" by code_simp
  have l: "length (user_sessions ''u1'' ?st) = 1" by code_simp
  from role_change_revokes [OF inv run u] l show ?thesis
    by (auto simp: toPublic_def sample_user_def)
qed

section \<open>Invitations\<close>


definition invited_state :: auth_state where
  "invited_state = snd (createInvite sample_env ''New@b.c'' [''editor''] None None ''itok'' ''inv1'' 0
     (sample_state sample_user))"


end
