(* ===== verification/Inventory_Data.thy ===== *)
theory Inventory_Data
  imports Services Access
begin

text \<open>
  The data of the inventory plugin (\<open>builtins/inventory/index.mjs\<close>): its documents, the helpers on
  numbers and text, option axes and variants, the roll-ups of a product, settings and categories,
  and \<open>buildProduct\<close>.

  Amounts of money are exact rationals: the double arithmetic of the source is read exactly, with
  \<open>Number.EPSILON\<close> as \<open>2^-52\<close>.  Arguments have the types the JSDoc comments give; an absent field is
  \<^const>\<open>None\<close>.  An \<open>optionValues\<close> object is the list of its entries in insertion order, which is
  what \<open>Object.values\<close> reads unless a key looks like an array index.
\<close>

section \<open>Numbers\<close>

definition EPSILON :: rat where
  "EPSILON = 1 / 2 ^ 52"

definition math_round :: "rat \<Rightarrow> int" where
  "math_round x = \<lfloor>x + 1 / 2\<rfloor>"

definition toCents :: "rat \<Rightarrow> int" where
  "toCents n = math_round ((n + EPSILON) * 100)"

definition fromCents :: "int \<Rightarrow> rat" where
  "fromCents c = of_int c / 100"

definition round2 :: "rat \<Rightarrow> rat" where
  "round2 n = of_int (math_round ((n + EPSILON) * 100)) / 100"

definition nonNegNumber :: "rat \<Rightarrow> string \<Rightarrow> rat result" where
  "nonNegNumber n label =
     (if n < 0 then Inl (js_error (label @ '' must be a non-negative number'')) else Inr n)"

definition nonNegInt :: "rat \<Rightarrow> string \<Rightarrow> int result" where
  "nonNegInt n label =
     (if n \<noteq> of_int \<lfloor>n\<rfloor> \<or> n < 0
      then Inl (js_error (label @ '' must be a non-negative whole number'')) else Inr \<lfloor>n\<rfloor>)"

definition optNumber :: "rat option \<Rightarrow> string \<Rightarrow> rat option result" where
  "optNumber v label =
     (case v of None \<Rightarrow> Inr None
      | Some n \<Rightarrow> (case nonNegNumber n label of Inl e \<Rightarrow> Inl e | Inr x \<Rightarrow> Inr (Some x)))"

definition optInt :: "rat option \<Rightarrow> string \<Rightarrow> int option result" where
  "optInt v label =
     (case v of None \<Rightarrow> Inr None
      | Some n \<Rightarrow> (case nonNegInt n label of Inl e \<Rightarrow> Inl e | Inr x \<Rightarrow> Inr (Some x)))"

lemma round2_cents: "round2 n = fromCents (toCents n)"
  by (simp add: round2_def fromCents_def toCents_def)

lemma floor_cents: "\<lfloor>(of_int c :: rat) + EPSILON * 100 + 1 / 2\<rfloor> = c"
  by (rule floor_unique) (simp_all add: EPSILON_def)

lemma toCents_fromCents [simp]: "toCents (fromCents c) = c"
proof -
  have "(fromCents c + EPSILON) * 100 + 1 / 2 = of_int c + EPSILON * 100 + 1 / 2"
    by (simp add: fromCents_def distrib_right)
  then show ?thesis by (simp add: toCents_def math_round_def floor_cents)
qed

lemma round2_fromCents [simp]: "round2 (fromCents c) = fromCents c"
  by (simp add: round2_cents)

lemma round2_idem [simp]: "round2 (round2 n) = round2 n"
  by (simp add: round2_cents)

lemma toCents_mono: "a \<le> b \<Longrightarrow> toCents a \<le> toCents b"
  by (simp add: toCents_def math_round_def floor_mono)

lemma toCents_0 [simp]: "toCents 0 = 0"
  using toCents_fromCents [of 0] by (simp add: fromCents_def)

lemma fromCents_add: "fromCents (a + b) = fromCents a + fromCents b"
  by (simp add: fromCents_def add_divide_distrib)

lemma fromCents_le [simp]: "fromCents a \<le> fromCents b \<longleftrightarrow> a \<le> b"
  by (simp add: fromCents_def divide_le_cancel)

lemma fromCents_0 [simp]: "fromCents 0 = 0"
  by (simp add: fromCents_def)

section \<open>Text\<close>

definition opt_str :: "string option \<Rightarrow> string" where
  "opt_str v = (case v of None \<Rightarrow> [] | Some s \<Rightarrow> s)"

definition trimmed :: "string \<Rightarrow> nat \<Rightarrow> string" where
  "trimmed v m = take m (js_trim v)"

definition or_else :: "string \<Rightarrow> string \<Rightarrow> string" where
  "or_else a b = (if a = [] then b else a)"

definition safeImageUrl :: "string \<Rightarrow> string" where
  "safeImageUrl v =
     (let s = trimmed v 1000 in
      if s = [] then []
      else if js_prefix ''http://'' (js_lower s) \<or> js_prefix ''https://'' (js_lower s) then s
      else if js_prefix ''/'' s \<and> \<not> js_prefix ''//'' s then s else [])"

definition slug_char :: "char \<Rightarrow> bool" where
  "slug_char c = (let n = (of_char c :: nat) in (97 \<le> n \<and> n \<le> 122) \<or> is_digit c)"

text \<open>\<open>replace(/[^a-z0-9]+/g, "-")\<close>: the flag says that a dash has just been written.\<close>

fun dash_runs :: "bool \<Rightarrow> string \<Rightarrow> string" where
  "dash_runs b [] = []"
| "dash_runs b (c # cs) =
     (if slug_char c then c # dash_runs False cs
      else if b then dash_runs True cs else CHR ''-'' # dash_runs True cs)"

definition slugify :: "string \<Rightarrow> string" where
  "slugify v =
     (let s = filter (\<lambda>c. c \<noteq> CHR 0x27 \<and> c \<noteq> CHR 0x22) (js_trim (js_lower v));
          s = dash_runs False s;
          s = dropWhile (\<lambda>c. c = CHR ''-'') s;
          s = rev (dropWhile (\<lambda>c. c = CHR ''-'') (rev s))
      in take 80 s)"

section \<open>Documents\<close>

type_synonym option_values = "(string \<times> string) list"

record variant =
  v_id :: string
  optionValues :: option_values
  v_label :: string
  v_sku :: string
  v_price :: "rat option"
  v_stock :: int
  v_low :: "int option"

record product =
  p_id :: string
  p_name :: string
  p_slug :: string
  p_sku :: string
  p_description :: string
  p_currency :: string
  p_price :: rat
  compareAtPrice :: "rat option"
  categoryId :: "string option"
  p_tags :: "string list"
  p_images :: "string list"
  p_options :: "(string \<times> string list) list"
  variants :: "variant list"
  p_low :: "int option"
  seoTitle :: string
  seoDescription :: string
  published :: bool
  p_createdAt :: string
  p_updatedAt :: string
  totalStock :: int
  inStock :: bool
  lowStock :: bool
  priceMin :: rat
  priceMax :: rat

record category =
  cat_id :: string
  cat_name :: string
  cat_slug :: string
  cat_description :: string
  parentId :: "string option"
  cat_updatedAt :: string

record inv_settings =
  storeName :: string
  currency :: string
  currencySymbol :: string
  taxRate :: rat
  shippingFlat :: rat
  lowStockThreshold :: int

record movement =
  m_id :: string
  m_itemId :: string
  m_variantId :: string
  m_type :: string
  qtyDelta :: int
  balanceAfter :: int
  m_reason :: string
  m_ref :: "string option"
  m_at :: string
  m_seq :: nat

record variant_input =
  vi_id :: "string option"
  vi_optionValues :: option_values
  vi_sku :: "string option"
  vi_price :: "rat option"
  vi_stock :: "rat option"
  vi_low :: "rat option"

record product_input =
  pi_id :: "string option"
  pi_name :: "string option"
  pi_slug :: "string option"
  pi_sku :: "string option"
  pi_description :: "string option"
  pi_currency :: "string option"
  pi_price :: "rat option"
  pi_compareAt :: "rat option"
  pi_categoryId :: "string option"
  pi_tags :: "string list"
  pi_images :: "string list"
  pi_options :: "(string \<times> string list) list"
  pi_variants :: "variant_input list option"
  pi_stock :: "rat option"
  pi_low :: "rat option"
  pi_seoTitle :: "string option"
  pi_seoDescription :: "string option"
  pi_published :: bool

section \<open>Options and variants\<close>

definition cleanOptions :: "(string \<times> string list) list \<Rightarrow> (string \<times> string list) list" where
  "cleanOptions inp =
     filter (\<lambda>(name, vals). name \<noteq> [] \<and> vals \<noteq> [])
       (map (\<lambda>(name, vals). (trimmed name 40,
           take 30 (js_unique (filter (\<lambda>s. s \<noteq> []) (map (\<lambda>v. trimmed v 40) vals))))) (take 3 inp))"

definition variantLabel :: "option_values \<Rightarrow> string" where
  "variantLabel ov =
     (let parts = filter (\<lambda>s. s \<noteq> []) (map snd ov)
      in if parts = [] then ''Default'' else js_join '' / '' parts)"

definition cartesian :: "(string \<times> string list) list \<Rightarrow> option_values list" where
  "cartesian opts =
     foldl (\<lambda>acc (name, vals). concat (map (\<lambda>combo. map (\<lambda>value. obj_set name value combo) vals) acc))
       [[]] opts"

definition variantPrice :: "variant \<Rightarrow> product \<Rightarrow> rat" where
  "variantPrice v p = (case v_price v of Some x \<Rightarrow> x | None \<Rightarrow> p_price p)"

definition blank_variant :: "option_values \<Rightarrow> rat option \<Rightarrow> variant_input" where
  "blank_variant ov s = \<lparr>vi_id = None, vi_optionValues = ov, vi_sku = None, vi_price = None,
     vi_stock = s, vi_low = None\<rparr>"

definition as_input :: "variant \<Rightarrow> variant_input" where
  "as_input v = \<lparr>vi_id = Some (v_id v), vi_optionValues = optionValues v, vi_sku = Some (v_sku v),
     vi_price = v_price v, vi_stock = Some (of_int (v_stock v)), vi_low = map_option of_int (v_low v)\<rparr>"

text \<open>
  The row of one variant.  \<open>new_id\<close> is the random UUID of a new variant; the flag says whether one
  was drawn.  The map of the existing variants keeps the last one of an id.
\<close>

definition existing_variant :: "variant list \<Rightarrow> variant_input \<Rightarrow> variant option" where
  "existing_variant existing v =
     (case vi_id v of None \<Rightarrow> None | Some i \<Rightarrow> find (\<lambda>w. v_id w = i) (rev existing))"

definition cleanVariant ::
  "(string \<times> string list) list \<Rightarrow> variant list \<Rightarrow> string \<Rightarrow> variant_input \<Rightarrow> variant result" where
  "cleanVariant options existing new_id v =
     (let ov = foldl (\<lambda>o' (name, _).
              let val = trimmed (opt_str (map_of (vi_optionValues v) name)) 40
              in if val = [] then o' else obj_set name val o') [] options;
          old = existing_variant existing v;
          id = (case old of Some w \<Rightarrow> v_id w | None \<Rightarrow> new_id)
      in case nonNegInt (case old of Some w \<Rightarrow> of_int (v_stock w)
                         | None \<Rightarrow> (case vi_stock v of None \<Rightarrow> 0 | Some s \<Rightarrow> s)) ''Stock'' of
           Inl e \<Rightarrow> Inl e
         | Inr stock \<Rightarrow>
           (case optNumber (vi_price v) ''Variant price'' of Inl e \<Rightarrow> Inl e
            | Inr price \<Rightarrow>
              (case optInt (vi_low v) ''Low-stock threshold'' of Inl e \<Rightarrow> Inl e
               | Inr low \<Rightarrow>
                 Inr \<lparr>v_id = id, optionValues = ov, v_label = variantLabel ov,
                      v_sku = trimmed (opt_str (vi_sku v)) 64, v_price = price, v_stock = stock,
                      v_low = low\<rparr>)))"

text \<open>
  \<open>cleanVariants\<close>: each new row draws the next UUID, \<open>uuid n\<close> being the n-th one; the openings are
  the new variants with stock.  The result also counts the UUIDs drawn.
\<close>

fun clean_rows ::
  "(nat \<Rightarrow> string) \<Rightarrow> (string \<times> string list) list \<Rightarrow> variant list \<Rightarrow> nat \<Rightarrow> variant_input list \<Rightarrow>
   (variant list \<times> (string \<times> int) list \<times> nat) result" where
  "clean_rows uuid options existing n [] = Inr ([], [], n)"
| "clean_rows uuid options existing n (r # rows) =
     (case cleanVariant options existing (uuid n) r of Inl e \<Rightarrow> Inl e
      | Inr v \<Rightarrow>
        let isNew = (existing_variant existing r = None) in
        (case clean_rows uuid options existing (if isNew then n + 1 else n) rows of Inl e \<Rightarrow> Inl e
         | Inr (vs, openings, n') \<Rightarrow>
             Inr (v # vs, (if isNew \<and> 0 < v_stock v then (v_id v, v_stock v) # openings else openings), n')))"

definition cleanVariants ::
  "(nat \<Rightarrow> string) \<Rightarrow> variant_input list option \<Rightarrow> (string \<times> string list) list \<Rightarrow> variant list \<Rightarrow> nat \<Rightarrow>
   (variant list \<times> (string \<times> int) list \<times> nat) result" where
  "cleanVariants uuid inp options existing n =
     (let rows = (case inp of None \<Rightarrow> [] | Some rs \<Rightarrow> rs);
          rows = (if rows \<noteq> [] then rows
                  else if options \<noteq> [] then map (\<lambda>ov. blank_variant ov (Some 0)) (cartesian options)
                  else [blank_variant [] (Some 0)])
      in clean_rows uuid options existing n (take 200 rows))"

section \<open>Roll-ups\<close>

definition min_list_or :: "rat \<Rightarrow> rat list \<Rightarrow> rat" where
  "min_list_or d xs = (case xs of [] \<Rightarrow> d | y # ys \<Rightarrow> foldl min y ys)"

definition max_list_or :: "rat \<Rightarrow> rat list \<Rightarrow> rat" where
  "max_list_or d xs = (case xs of [] \<Rightarrow> d | y # ys \<Rightarrow> foldl max y ys)"

definition variant_threshold :: "int \<Rightarrow> product \<Rightarrow> variant \<Rightarrow> int" where
  "variant_threshold d p v =
     (case v_low v of Some x \<Rightarrow> x | None \<Rightarrow> (case p_low p of Some y \<Rightarrow> y | None \<Rightarrow> d))"

definition rollups :: "int \<Rightarrow> product \<Rightarrow> product" where
  "rollups defaultThreshold p =
     (let total = (\<Sum>v \<leftarrow> variants p. v_stock v); prices = map (\<lambda>v. variantPrice v p) (variants p)
      in p\<lparr>totalStock := total, inStock := 0 < total,
           lowStock := list_ex (\<lambda>v. v_stock v \<le> variant_threshold defaultThreshold p v) (variants p),
           priceMin := min_list_or (p_price p) prices, priceMax := max_list_or (p_price p) prices\<rparr>)"

section \<open>State\<close>

type_synonym order_line_key = "string \<times> string"

record order_line =
  ol_itemId :: string
  ol_variantId :: string
  ol_name :: string
  ol_variantLabel :: string
  ol_sku :: string
  ol_image :: string
  ol_unitPrice :: rat
  ol_qty :: int
  ol_lineTotal :: rat

record customer =
  cu_name :: string
  cu_email :: string
  cu_phone :: string
  cu_address :: string

record order =
  o_id :: string
  o_number :: int
  o_status :: string
  o_lines :: "order_line list"
  o_subtotal :: rat
  o_tax :: rat
  o_shipping :: rat
  o_discount :: rat
  o_total :: rat
  o_currency :: string
  o_customer :: customer
  o_subjectRef :: string
  o_note :: string
  o_source :: string
  paymentStatus :: string
  amountPaid :: rat
  amountRefunded :: rat
  o_restocked :: bool
  o_createdAt :: string
  o_updatedAt :: string

record payment =
  pay_id :: string
  pay_orderId :: string
  pay_orderNumber :: int
  pay_kind :: string
  pay_amount :: rat
  pay_method :: string
  pay_status :: string
  pay_gateway :: string
  pay_gatewayRef :: "string option"
  pay_note :: string
  pay_at :: string
  pay_seq :: nat

record return_line =
  rl_itemId :: string
  rl_variantId :: string
  rl_name :: string
  rl_variantLabel :: string
  rl_qty :: int
  rl_unitPrice :: rat
  rl_lineRefund :: rat

record return_doc =
  ret_id :: string
  ret_number :: int
  ret_orderId :: string
  ret_orderNumber :: int
  ret_status :: string
  ret_lines :: "return_line list"
  ret_reason :: string
  refundAmount :: rat
  ret_restock :: bool
  ret_restocked :: bool
  ret_refunded :: bool
  ret_createdAt :: string
  ret_updatedAt :: string

text \<open>
  The collections of the plugin, the number of random UUIDs drawn so far and the tie-breaking
  counter of the process.
\<close>

record inventory =
  items :: "product coll"
  categories :: "category coll"
  movements :: "movement coll"
  settings :: "inv_settings option"
  orders :: "order coll"
  returns :: "return_doc coll"
  payments :: "payment coll"
  counters :: "int coll"
  uuids :: nat
  seq :: nat

definition inventory_empty :: inventory where
  "inventory_empty = \<lparr>items = [], categories = [], movements = [], settings = None, orders = [],
     returns = [], payments = [], counters = [], uuids = 0, seq = 0\<rparr>"

text \<open>\<open>all(host, collection)\<close>: one page of at most 1000, which the adapter cuts at 500.\<close>

definition PAGE :: int where "PAGE = 1000"

definition all_rows :: "'v coll \<Rightarrow> 'v list" where
  "all_rows t = c_query (\<lambda>_. True) (Some PAGE) t"

section \<open>Settings\<close>

definition SETTINGS_DEFAULTS :: inv_settings where
  "SETTINGS_DEFAULTS = \<lparr>storeName = [], currency = ''USD'', currencySymbol = ''$'', taxRate = 0,
     shippingFlat = 0, lowStockThreshold = 5\<rparr>"

definition readSettings :: "inventory \<Rightarrow> inv_settings" where
  "readSettings st = (case settings st of None \<Rightarrow> SETTINGS_DEFAULTS | Some s \<Rightarrow> s)"

definition saveSettings ::
  "string option \<Rightarrow> string option \<Rightarrow> string option \<Rightarrow> rat option \<Rightarrow> rat option \<Rightarrow> rat option \<Rightarrow>
   (inventory, inv_settings) action" where
  "saveSettings store cur symbol tax shipping low st =
     (case nonNegNumber (case tax of None \<Rightarrow> 0 | Some x \<Rightarrow> x) ''Tax rate'' of Inl e \<Rightarrow> (Inl e, st)
      | Inr tax \<Rightarrow>
        (case nonNegNumber (case shipping of None \<Rightarrow> 0 | Some x \<Rightarrow> x) ''Shipping'' of Inl e \<Rightarrow> (Inl e, st)
         | Inr shipping \<Rightarrow>
           (case nonNegInt (case low of None \<Rightarrow> 5 | Some x \<Rightarrow> x) ''Low-stock threshold'' of Inl e \<Rightarrow> (Inl e, st)
            | Inr low \<Rightarrow>
              let s = \<lparr>storeName = trimmed (opt_str store) 120,
                       currency = or_else (js_upper (trimmed (opt_str cur) 8)) ''USD'',
                       currencySymbol = or_else (trimmed (opt_str symbol) 4) ''$'',
                       taxRate = tax, shippingFlat = shipping, lowStockThreshold = low\<rparr>
              in if 100 < tax then (Inl (js_error ''Tax rate must be a percentage between 0 and 100''), st)
                 else (Inr s, st\<lparr>settings := Some s\<rparr>))))"

section \<open>Categories\<close>

definition listCategories :: "(string \<Rightarrow> string \<Rightarrow> int) \<Rightarrow> inventory \<Rightarrow> category list" where
  "listCategories localeCompare st =
     js_sort (\<lambda>a b. localeCompare (cat_name a) (cat_name b)) (all_rows (categories st))"

definition saveCategory ::
  "(nat \<Rightarrow> string) \<Rightarrow> string option \<Rightarrow> string option \<Rightarrow> string option \<Rightarrow> string option \<Rightarrow> string option \<Rightarrow>
   string \<Rightarrow> (inventory, category) action" where
  "saveCategory uuid i nm slug descr parent t st =
     (let name = trimmed (opt_str nm) 120 in
      if name = [] then (Inl (js_error ''Category name is required''), st)
      else
        let given = opt_str i;
            id = or_else given (uuid (uuids st));
            st = (if given = [] then st\<lparr>uuids := uuids st + 1\<rparr> else st);
            cat = \<lparr>cat_id = id, cat_name = name,
                   cat_slug = or_else (slugify (or_else (opt_str slug) name)) id,
                   cat_description = trimmed (opt_str descr) 500,
                   parentId = (if opt_str parent = [] then None else parent), cat_updatedAt = t\<rparr>
        in if parentId cat = Some id then (Inl (js_error ''A category cannot be its own parent''), st)
           else (case c_put id cat (categories st) of Inl e \<Rightarrow> (Inl e, st)
                 | Inr cs \<Rightarrow> (Inr cat, st\<lparr>categories := cs\<rparr>)))"

text \<open>The children on the page get the parent of the removed category.\<close>

definition removeCategory :: "string \<Rightarrow> (inventory, unit) action" where
  "removeCategory i st =
     (if i = [] then (Inl (js_error ''A category id is required''), st)
      else case c_get i (categories st) of Inl e \<Rightarrow> (Inl e, st)
      | Inr removed \<Rightarrow>
        let parent = (case removed of None \<Rightarrow> None | Some c \<Rightarrow> parentId c);
            children = filter (\<lambda>c. parentId c = Some i) (all_rows (categories st));
            cs = foldl (\<lambda>t c. tab_put (cat_id c) (c\<lparr>parentId := parent\<rparr>) t) (categories st) children
        in (Inr (), st\<lparr>categories := tab_del i cs\<rparr>))"

end
