(* ===== verification/Inventory_Stock.thy ===== *)
theory Inventory_Stock
  imports Inventory_Data
begin

text \<open>
  Products and the stock ledger of \<open>builtins/inventory/index.mjs\<close>: \<open>buildProduct\<close>, \<open>saveItem\<close>,
  \<open>adjustStock\<close> and the lists over them.  \<open>uuid n\<close> is the \<open>n\<close>-th random UUID the process draws and
  \<open>t\<close> the timestamp a handler writes.  The handlers that move stock run one after the other
  (\<open>withStockLock\<close>), so each is one step on the state.
\<close>

section \<open>Products\<close>

definition uniqueSlug :: "(nat \<Rightarrow> string) \<Rightarrow> string \<Rightarrow> string \<Rightarrow> inventory \<Rightarrow> string \<times> bool" where
  "uniqueSlug uuid base selfId st =
     (let taken = map p_slug (filter (\<lambda>p. p_id p \<noteq> selfId) (all_rows (items st)));
          slug = or_else base ''product''
      in if slug \<notin> set taken then (slug, False)
         else case find (\<lambda>c. c \<notin> set taken) (map (\<lambda>i. slug @ ''-'' @ nat_digits i) [2..<1000]) of
                Some c \<Rightarrow> (c, False)
              | None \<Rightarrow> (slug @ ''-'' @ take 6 (uuid (uuids st)), True))"

text \<open>
  \<open>buildProduct\<close> returns the product, the opening movements and the number of UUIDs drawn by then;
  it writes nothing.
\<close>

definition resolve_variants ::
  "product_input \<Rightarrow> (string \<times> string list) list \<Rightarrow> variant list \<Rightarrow> variant_input list option" where
  "resolve_variants inp options existingVariants =
     (case pi_variants inp of Some vs \<Rightarrow> Some vs
      | None \<Rightarrow>
        if existingVariants \<noteq> [] then Some (map as_input existingVariants)
        else if options \<noteq> [] then None
        else Some [blank_variant [] (Some (case pi_stock inp of None \<Rightarrow> 0 | Some s \<Rightarrow> s))])"

definition buildProduct ::
  "(nat \<Rightarrow> string) \<Rightarrow> product_input \<Rightarrow> string \<Rightarrow> inventory \<Rightarrow>
   (product \<times> (string \<times> int) list \<times> nat) result" where
  "buildProduct uuid inp t st =
     (let sets = readSettings st; name = trimmed (opt_str (pi_name inp)) 200 in
      if name = [] then Inl (js_error ''Name is required'')
      else
      let existingId = opt_str (pi_id inp) in
      case (if existingId = [] then Inr None else c_get existingId (items st)) of Inl e \<Rightarrow> Inl e
      | Inr existing \<Rightarrow>
      let (id, n) = (if existingId = [] then (uuid (uuids st), uuids st + 1) else (existingId, uuids st)) in
      case nonNegNumber (case pi_price inp of None \<Rightarrow> 0 | Some x \<Rightarrow> x) ''Price'' of Inl e \<Rightarrow> Inl e
      | Inr price \<Rightarrow>
      (case optNumber (pi_compareAt inp) ''Compare-at price'' of Inl e \<Rightarrow> Inl e
      | Inr compareAt \<Rightarrow>
      if (case compareAt of None \<Rightarrow> False | Some c \<Rightarrow> c < price)
      then Inl (js_error ''Compare-at price should be higher than the price'')
      else
      let options = cleanOptions (pi_options inp);
          existingVariants = (case existing of None \<Rightarrow> [] | Some p \<Rightarrow> variants p) in
      case cleanVariants uuid (resolve_variants inp options existingVariants) options existingVariants n of
        Inl e \<Rightarrow> Inl e
      | Inr (vs, openings, n') \<Rightarrow>
      let images = take 12 (filter (\<lambda>u. u \<noteq> []) (map safeImageUrl (pi_images inp)));
          tags = take 20 (js_unique (filter (\<lambda>s. s \<noteq> []) (map (\<lambda>s. trimmed s 40) (pi_tags inp))));
          (slug, drawn) = uniqueSlug uuid (slugify (or_else (opt_str (pi_slug inp)) name)) id (st\<lparr>uuids := n'\<rparr>)
      in case optInt (pi_low inp) ''Low-stock threshold'' of Inl e \<Rightarrow> Inl e
         | Inr low \<Rightarrow>
           let p = \<lparr>p_id = id, p_name = name, p_slug = slug, p_sku = trimmed (opt_str (pi_sku inp)) 64,
             p_description = trimmed (opt_str (pi_description inp)) 5000,
             p_currency = or_else (js_upper (trimmed (opt_str (pi_currency inp)) 8)) (currency sets),
             p_price = price, compareAtPrice = compareAt,
             categoryId = (if opt_str (pi_categoryId inp) = [] then None else pi_categoryId inp),
             p_tags = tags, p_images = images, p_options = options, variants = vs,
             p_low = Some (case low of Some x \<Rightarrow> x | None \<Rightarrow> lowStockThreshold sets),
             seoTitle = trimmed (opt_str (pi_seoTitle inp)) 200,
             seoDescription = trimmed (opt_str (pi_seoDescription inp)) 320,
             published = pi_published inp,
             p_createdAt = (case existing of Some x \<Rightarrow> or_else (p_createdAt x) t | None \<Rightarrow> t),
             p_updatedAt = t, totalStock = 0, inStock = False, lowStock = False, priceMin = 0, priceMax = 0\<rparr>
           in Inr (rollups (lowStockThreshold sets) p, openings, if drawn then n' + 1 else n')))"

definition put_movement :: "movement \<Rightarrow> inventory \<Rightarrow> inventory" where
  "put_movement m st = st\<lparr>movements := tab_put (m_id m) m (movements st),
     uuids := uuids st + 1, seq := seq st + 1\<rparr>"

definition open_stock :: "(nat \<Rightarrow> string) \<Rightarrow> string \<Rightarrow> string \<Rightarrow> string \<times> int \<Rightarrow> inventory \<Rightarrow> inventory" where
  "open_stock uuid itemId t opening st =
     put_movement \<lparr>m_id = uuid (uuids st), m_itemId = itemId, m_variantId = fst opening,
       m_type = ''receive'', qtyDelta = snd opening, balanceAfter = snd opening,
       m_reason = ''Opening stock'', m_ref = None, m_at = t, m_seq = seq st + 1\<rparr> st"

definition saveItem :: "(nat \<Rightarrow> string) \<Rightarrow> product_input \<Rightarrow> string \<Rightarrow> (inventory, product) action" where
  "saveItem uuid inp t st =
     (case buildProduct uuid inp t st of Inl e \<Rightarrow> (Inl e, st)
      | Inr (p, openings, n) \<Rightarrow>
          let st = st\<lparr>items := tab_put (p_id p) p (items st), uuids := n\<rparr>
          in (Inr p, foldl (\<lambda>st o'. open_stock uuid (p_id p) t o' st) st openings))"

definition listItems :: "(string \<Rightarrow> string \<Rightarrow> int) \<Rightarrow> inventory \<Rightarrow> product list \<times> int" where
  "listItems localeCompare st =
     (let sets = readSettings st in
      (js_sort (\<lambda>a b. localeCompare (p_name a) (p_name b))
         (map (rollups (lowStockThreshold sets)) (all_rows (items st))),
       lowStockThreshold sets))"

definition getItem :: "string \<Rightarrow> inventory \<Rightarrow> product result" where
  "getItem i st =
     (case c_get i (items st) of Inl e \<Rightarrow> Inl e
      | Inr None \<Rightarrow> Inl (js_error ''Product not found'') | Inr (Some p) \<Rightarrow> Inr p)"

definition removeItem :: "string \<Rightarrow> (inventory, unit) action" where
  "removeItem i st =
     (if i = [] then (Inl (js_error ''A product id is required''), st)
      else case c_delete i (items st) of Inl e \<Rightarrow> (Inl e, st)
      | Inr ps \<Rightarrow> (Inr (), st\<lparr>items := ps\<rparr>))"

section \<open>Stock ledger\<close>

definition MOVEMENT_TYPES :: "string list" where
  "MOVEMENT_TYPES = [''receive'', ''adjust'', ''sell'', ''return'', ''correction'']"

record adjust_args =
  aa_itemId :: string
  aa_variantId :: string
  aa_set :: bool
  aa_amount :: rat
  aa_type :: "string option"
  aa_reason :: string
  aa_ref :: "string option"

text \<open>\<open>variant.stock = balanceAfter\<close> on the variant that \<open>find\<close> returned.\<close>

fun set_stock :: "string \<Rightarrow> int \<Rightarrow> variant list \<Rightarrow> variant list" where
  "set_stock i s [] = []"
| "set_stock i s (v # vs) = (if v_id v = i then v\<lparr>v_stock := s\<rparr> # vs else v # set_stock i s vs)"

definition default_variant :: "string \<Rightarrow> product \<Rightarrow> string" where
  "default_variant given p =
     (if given \<noteq> [] then given else case variants p of [] \<Rightarrow> [] | v # _ \<Rightarrow> v_id v)"

definition find_variant :: "string \<Rightarrow> product \<Rightarrow> variant option" where
  "find_variant i p = find (\<lambda>v. v_id v = i) (variants p)"

definition adjustStock ::
  "(nat \<Rightarrow> string) \<Rightarrow> adjust_args \<Rightarrow> string \<Rightarrow> (inventory, product \<times> movement) action" where
  "adjustStock uuid a t st =
     (let sets = readSettings st in
      case c_get (aa_itemId a) (items st) of Inl e \<Rightarrow> (Inl e, st)
      | Inr None \<Rightarrow> (Inl (js_error ''Product not found''), st)
      | Inr (Some p) \<Rightarrow>
        let variantId = default_variant (aa_variantId a) p in
        (case find_variant variantId p of None \<Rightarrow> (Inl (js_error ''Variant not found''), st)
         | Some v \<Rightarrow>
           if aa_amount a \<noteq> of_int \<lfloor>aa_amount a\<rfloor>
           then (Inl (js_error ''Amount must be a whole number''), st)
           else
             let current = v_stock v; amount = \<lfloor>aa_amount a\<rfloor>;
                 delta = (if aa_set a then amount - current else amount);
                 balance = current + delta
             in if balance < 0 then (Inl (js_error ''Stock cannot go below zero''), st)
                else
                  let type = (case aa_type a of
                        Some ty \<Rightarrow> if ty \<in> set MOVEMENT_TYPES then ty
                                   else if 0 \<le> delta then ''receive'' else ''adjust''
                      | None \<Rightarrow> if 0 \<le> delta then ''receive'' else ''adjust'');
                      p = (rollups (lowStockThreshold sets)
                             (p\<lparr>variants := set_stock variantId balance (variants p)\<rparr>))\<lparr>p_updatedAt := t\<rparr>;
                      m = \<lparr>m_id = uuid (uuids st), m_itemId = p_id p, m_variantId = variantId,
                           m_type = type, qtyDelta = delta, balanceAfter = balance,
                           m_reason = trimmed (aa_reason a) 200,
                           m_ref = (if opt_str (aa_ref a) = [] then None else aa_ref a),
                           m_at = t, m_seq = seq st + 1\<rparr>;
                      st = put_movement m (st\<lparr>items := tab_put (p_id p) p (items st)\<rparr>)
                  in (Inr (p, m), st)))"

text \<open>Newest first, by the timestamp and then by the sequence number.\<close>

definition movement_order :: "(string \<Rightarrow> string \<Rightarrow> int) \<Rightarrow> movement \<Rightarrow> movement \<Rightarrow> int" where
  "movement_order localeCompare a b =
     (let t = localeCompare (m_at b) (m_at a) in
      if t \<noteq> 0 then t else int (m_seq b) - int (m_seq a))"

definition MOVEMENTS_LIMIT :: rat where "MOVEMENTS_LIMIT = 200"

definition listMovements ::
  "(string \<Rightarrow> string \<Rightarrow> int) \<Rightarrow> string \<Rightarrow> rat option \<Rightarrow> inventory \<Rightarrow> movement list" where
  "listMovements localeCompare itemId lm st =
     (let limitRaw = (case lm of None \<Rightarrow> MOVEMENTS_LIMIT | Some x \<Rightarrow> x);
          limit = nat (min (max 1 \<lfloor>limitRaw\<rfloor>) 1000)
      in take limit (js_sort (movement_order localeCompare)
           (filter (\<lambda>m. itemId = [] \<or> m_itemId m = itemId) (all_rows (movements st)))))"

end
