(* ===== verification/Inventory_Ledger.thy ===== *)
theory Inventory_Ledger
  imports Inventory_Stock
begin

text \<open>
  Facts about the stock ledger: every stored stock level is the sum of its movements and is not
  negative, and saving, removing and adjusting products keep it so.
\<close>

section \<open>The ledger\<close>

definition entry :: "string \<Rightarrow> string \<Rightarrow> movement \<Rightarrow> int" where
  "entry i v m = (if m_itemId m = i \<and> m_variantId m = v then qtyDelta m else 0)"

definition ledger :: "inventory \<Rightarrow> string \<Rightarrow> string \<Rightarrow> int" where
  "ledger st i v = (\<Sum>(k, m) \<leftarrow> movements st. entry i v m)"

lemma sum_tab_put_fresh:
  fixes f :: "('k::linorder) \<times> 'v \<Rightarrow> int"
  shows "map_of t k = None \<Longrightarrow> (\<Sum>x \<leftarrow> tab_put k v t. f x) = f (k, v) + (\<Sum>x \<leftarrow> t. f x)"
  by (induction k v t rule: tab_put.induct) (auto split: if_splits)

definition stock_ok :: "(nat \<Rightarrow> string) \<Rightarrow> inventory \<Rightarrow> product \<Rightarrow> bool" where
  "stock_ok uuid st p \<longleftrightarrow> distinct (map v_id (variants p)) \<and>
     (\<forall>v \<in> set (variants p). v_id v \<in> uuid ` {..<uuids st} \<and> 0 \<le> v_stock v \<and>
        v_stock v = ledger st (p_id p) (v_id v))"

definition stock_inv :: "(nat \<Rightarrow> string) \<Rightarrow> inventory \<Rightarrow> bool" where
  "stock_inv uuid st \<longleftrightarrow> keyed p_id (items st) \<and> tab_ok (movements st) \<and>
     (\<forall>(k, m) \<in> set (movements st). k \<in> uuid ` {..<uuids st} \<and> m_variantId m \<in> uuid ` {..<uuids st}) \<and>
     (\<forall>p \<in> vals (items st). stock_ok uuid st p)"

lemma stock_inv_empty: "stock_inv uuid inventory_empty"
  by (simp add: stock_inv_def inventory_empty_def tab_ok_def)

lemma fresh_uuid:
  "inj uuid \<Longrightarrow> n \<le> m \<Longrightarrow> uuid m \<notin> uuid ` {..<n}" for n m :: nat
  by (auto dest: injD)

lemma uuid_mono: "x \<in> uuid ` {..<n} \<Longrightarrow> n \<le> m \<Longrightarrow> x \<in> uuid ` {..<m}" for n m :: nat
  by auto

text \<open>The invariant looks at products and movements only, and more UUIDs drawn do no harm.\<close>

lemma ledger_cong: "movements st' = movements st \<Longrightarrow> ledger st' i v = ledger st i v"
  by (simp add: ledger_def)

lemma stock_ok_cong:
  "stock_ok uuid st p \<Longrightarrow> movements st' = movements st \<Longrightarrow> uuids st \<le> uuids st' \<Longrightarrow>
    stock_ok uuid st' p"
  by (auto simp: stock_ok_def ledger_def dest: uuid_mono)

lemma stock_inv_cong:
  assumes "stock_inv uuid st" "items st' = items st" "movements st' = movements st"
    "uuids st \<le> uuids st'"
  shows "stock_inv uuid st'"
proof -
  have "\<forall>p \<in> vals (items st'). stock_ok uuid st' p"
    using assms stock_ok_cong [OF _ assms(3,4)] by (simp add: stock_inv_def)
  moreover have "\<forall>(k, m) \<in> set (movements st). k \<in> uuid ` {..<uuids st'} \<and> m_variantId m \<in> uuid ` {..<uuids st'}"
    using assms(1,4) unfolding stock_inv_def by (auto dest!: bspec dest: uuid_mono)
  ultimately show ?thesis using assms(1,2,3) by (simp add: stock_inv_def)
qed

lemma put_movement_simps [simp]:
  "items (put_movement m st) = items st" "settings (put_movement m st) = settings st"
  "orders (put_movement m st) = orders st" "counters (put_movement m st) = counters st"
  "returns (put_movement m st) = returns st" "payments (put_movement m st) = payments st"
  "categories (put_movement m st) = categories st"
  "uuids (put_movement m st) = uuids st + 1"
  "movements (put_movement m st) = tab_put (m_id m) m (movements st)"
  by (simp_all add: put_movement_def)

lemma ledger_put:
  "map_of (movements st) (m_id m) = None \<Longrightarrow>
    ledger (put_movement m st) i v = entry i v m + ledger st i v"
  by (simp add: ledger_def sum_tab_put_fresh)

lemma fresh_movement:
  assumes "inj uuid" "stock_inv uuid st" "uuids st \<le> n"
  shows "map_of (movements st) (uuid n) = None"
proof (rule ccontr)
  assume "map_of (movements st) (uuid n) \<noteq> None"
  then obtain m where "(uuid n, m) \<in> set (movements st)" by (auto dest: map_of_SomeD)
  then have "uuid n \<in> uuid ` {..<uuids st}" using assms(2) unfolding stock_inv_def by blast
  then show False using fresh_uuid [OF assms(1,3)] by blast
qed

lemma fresh_variant_ledger:
  assumes "inj uuid" "stock_inv uuid st" "uuids st \<le> n"
  shows "ledger st i (uuid n) = 0"
proof -
  have "entry i (uuid n) m = 0" if "(k, m) \<in> set (movements st)" for k m
  proof -
    have "m_variantId m \<in> uuid ` {..<uuids st}" using that assms(2) unfolding stock_inv_def by blast
    then have "m_variantId m \<noteq> uuid n" using fresh_uuid [OF assms(1,3)] by metis
    then show ?thesis by (simp add: entry_def)
  qed
  then have e: "map (\<lambda>(k, m). entry i (uuid n) m) (movements st) = map (\<lambda>_. 0) (movements st)" by auto
  show ?thesis unfolding ledger_def e by simp
qed

section \<open>Adjusting\<close>

lemma set_stock_ids [simp]: "map v_id (set_stock i s vs) = map v_id vs"
  by (induction vs) auto

lemma set_set_stock:
  "distinct (map v_id vs) \<Longrightarrow> v \<in> set (set_stock i s vs) \<longleftrightarrow>
     (v \<in> set vs \<and> v_id v \<noteq> i) \<or> (\<exists>w \<in> set vs. v_id w = i \<and> v = w\<lparr>v_stock := s\<rparr>)"
proof (induction vs)
  case (Cons a vs)
  then have "v_id a \<notin> v_id ` set vs" by simp
  then have "w \<in> set vs \<Longrightarrow> v_id w \<noteq> v_id a" for w by (metis imageI)
  then show ?case using Cons by auto
qed simp

lemma find_variant_Some:
  "find_variant i p = Some v \<Longrightarrow> v \<in> set (variants p) \<and> v_id v = i"
  by (auto simp: find_variant_def find_Some_iff)

lemma rollups_simps [simp]:
  "variants (rollups d p) = variants p" "p_id (rollups d p) = p_id p"
  "published (rollups d p) = published p" "p_name (rollups d p) = p_name p"
  "p_price (rollups d p) = p_price p"
  by (simp_all add: rollups_def Let_def)

text \<open>What a successful adjustment did.\<close>

lemma adjustStock_Inr:
  assumes "adjustStock uuid a t st = (Inr (p', m), st')"
  obtains p v d where
    "map_of (items st) (aa_itemId a) = Some p"
    "find_variant (default_variant (aa_variantId a) p) p = Some v"
    "d = (if aa_set a then \<lfloor>aa_amount a\<rfloor> - v_stock v else \<lfloor>aa_amount a\<rfloor>)" "0 \<le> v_stock v + d"
    "p' = (rollups (lowStockThreshold (readSettings st))
       (p\<lparr>variants := set_stock (v_id v) (v_stock v + d) (variants p)\<rparr>))\<lparr>p_updatedAt := t\<rparr>"
    "m_id m = uuid (uuids st)" "m_itemId m = p_id p" "m_variantId m = v_id v" "qtyDelta m = d"
    "balanceAfter m = v_stock v + d"
    "st' = put_movement m (st\<lparr>items := tab_put (p_id p) p' (items st)\<rparr>)"
proof -
  obtain p where p: "c_get (aa_itemId a) (items st) = Inr (Some p)"
    using assms by (auto simp: adjustStock_def Let_def split: sum.splits option.splits)
  then have p': "map_of (items st) (aa_itemId a) = Some p" by (auto simp: c_get_def split: sum.splits)
  obtain v where v: "find_variant (default_variant (aa_variantId a) p) p = Some v"
    using assms p by (auto simp: adjustStock_def Let_def split: option.splits)
  have "v_id v = default_variant (aa_variantId a) p" using find_variant_Some [OF v] by blast
  then show thesis
    by (intro that [OF p' v refl])
       (use assms p v in \<open>auto simp: adjustStock_def Let_def split: if_splits\<close>)
qed

lemma adjustStock_error: "adjustStock uuid a t st = (Inl e, st') \<Longrightarrow> st' = st"
  by (auto simp: adjustStock_def Let_def split: sum.splits option.splits if_splits)

lemma adjustStock_inv:
  assumes inj: "inj uuid" and inv: "stock_inv uuid st" and run: "adjustStock uuid a t st = (r, st')"
  shows "stock_inv uuid st'"
proof (cases r)
  case (Inl e)
  then show ?thesis using inv run adjustStock_error by blast
next
  case (Inr x)
  obtain p' m where x: "x = (p', m)" by force
  obtain p v d where a: "map_of (items st) (aa_itemId a) = Some p"
    "find_variant (default_variant (aa_variantId a) p) p = Some v" "0 \<le> v_stock v + d"
    "p' = (rollups (lowStockThreshold (readSettings st))
       (p\<lparr>variants := set_stock (v_id v) (v_stock v + d) (variants p)\<rparr>))\<lparr>p_updatedAt := t\<rparr>"
    "m_id m = uuid (uuids st)" "m_itemId m = p_id p" "m_variantId m = v_id v" "qtyDelta m = d"
    "st' = put_movement m (st\<lparr>items := tab_put (p_id p) p' (items st)\<rparr>)"
    by (rule adjustStock_Inr [OF run [unfolded Inr x]]) (rule that; assumption)
  have keyed: "keyed p_id (items st)" using inv by (simp add: stock_inv_def)
  have p: "p \<in> vals (items st)" "stock_ok uuid st p"
    using a(1) inv by (force simp: vals_def stock_inv_def dest: map_of_SomeD)+
  have v: "v \<in> set (variants p)" using find_variant_Some [OF a(2)] by blast
  have fresh: "map_of (movements st) (m_id m) = None"
    using fresh_movement [OF inj inv] a(5) by simp
  have led: "ledger st' i w = (if i = p_id p \<and> w = v_id v then d else 0) + ledger st i w" for i w
    using ledger_put [of "st\<lparr>items := tab_put (p_id p) p' (items st)\<rparr>" m i w] fresh a(6-9)
    by (auto simp: entry_def ledger_def)
  have ids: "v_id v \<in> uuid ` {..<uuids st'}" "uuids st \<le> uuids st'"
    using p(2) v a(9) by (auto simp: stock_ok_def dest: uuid_mono)
  have mem: "q = p' \<or> q \<in> vals (items st) \<and> p_id q \<noteq> p_id p" if "q \<in> vals (items st')" for q
    using that values_put [OF keyed, of "p_id p" p'] by (simp add: a(9))
  have "stock_ok uuid st' q" if "q \<in> vals (items st')" for q
    using mem [OF that]
  proof
    assume q: "q \<in> vals (items st) \<and> p_id q \<noteq> p_id p"
    then have "stock_ok uuid st q" using inv by (simp add: stock_inv_def)
    then show ?thesis using q ids(2) by (auto simp: stock_ok_def led dest: uuid_mono)
  next
    assume q: "q = p'"
    have d: "distinct (map v_id (variants p))" using p(2) by (simp add: stock_ok_def)
    have x: "w \<in> set (variants p') \<Longrightarrow> v_id w \<in> uuid ` {..<uuids st'} \<and> 0 \<le> v_stock w \<and>
        v_stock w = ledger st' (p_id p) (v_id w)" for w
    proof -
      assume "w \<in> set (variants p')"
      then consider "w \<in> set (variants p)" "v_id w \<noteq> v_id v" | u where "u \<in> set (variants p)"
          "v_id u = v_id v" "w = u\<lparr>v_stock := v_stock v + d\<rparr>"
        using set_set_stock [OF d] by (auto simp: a(4))
      then show ?thesis
      proof cases
        case 1
        then show ?thesis using p(2) ids(2) by (auto simp: stock_ok_def led dest: uuid_mono)
      next
        case 2
        then have "u = v" using d v by (meson distinct_map inj_onD)
        then show ?thesis using 2 p(2) v a(3) ids by (auto simp: stock_ok_def led)
      qed
    qed
    have e: "p_id p' = p_id p" by (simp add: a(4))
    have "\<forall>w \<in> set (variants p'). v_id w \<in> uuid ` {..<uuids st'} \<and> 0 \<le> v_stock w \<and>
        v_stock w = ledger st' (p_id p') (v_id w)" unfolding e using x by blast
    moreover have "distinct (map v_id (variants p'))" using d by (simp add: a(4))
    ultimately show ?thesis unfolding stock_ok_def q by blast
  qed
  moreover have "keyed p_id (items st')" using keyed by (auto simp: a(4,9))
  moreover have "tab_ok (movements st')" using inv by (simp add: a(9) stock_inv_def)
  moreover have "\<forall>(k, m') \<in> set (movements st'). k \<in> uuid ` {..<uuids st'} \<and> m_variantId m' \<in> uuid ` {..<uuids st'}"
  proof -
    have "set (movements st') \<subseteq> insert (m_id m, m) (set (movements st))"
      using inv by (auto simp: a(9) stock_inv_def set_tab_put)
    moreover have "m_id m \<in> uuid ` {..<uuids st'}" "m_variantId m \<in> uuid ` {..<uuids st'}"
      using ids(1) a(7) by (simp_all add: a(5,9))
    moreover have "k \<in> uuid ` {..<uuids st'} \<and> m_variantId m' \<in> uuid ` {..<uuids st'}"
      if "(k, m') \<in> set (movements st)" for k m'
      using that inv uuid_mono [OF _ ids(2), of _ uuid] unfolding stock_inv_def by blast
    ultimately show ?thesis by blast
  qed
  ultimately show ?thesis by (simp add: stock_inv_def)
qed


section \<open>Saving a product\<close>

definition movements_ok :: "(nat \<Rightarrow> string) \<Rightarrow> inventory \<Rightarrow> bool" where
  "movements_ok uuid st \<longleftrightarrow> tab_ok (movements st) \<and>
     (\<forall>(k, m) \<in> set (movements st). k \<in> uuid ` {..<uuids st} \<and> m_variantId m \<in> uuid ` {..<uuids st})"

lemma stock_inv_movements: "stock_inv uuid st \<Longrightarrow> movements_ok uuid st"
  by (simp add: stock_inv_def movements_ok_def)

lemma movements_ok_mono:
  assumes "movements_ok uuid st" "movements st' = movements st" "uuids st \<le> uuids st'"
  shows "movements_ok uuid st'"
  using assms uuid_mono [OF _ assms(3), of _ uuid] unfolding movements_ok_def by (metis (mono_tags, lifting) case_prodD case_prodI2)

lemma movements_fresh:
  assumes "inj uuid" "movements_ok uuid st" "uuids st \<le> n"
  shows "map_of (movements st) (uuid n) = None"
proof (rule ccontr)
  assume "map_of (movements st) (uuid n) \<noteq> None"
  then obtain m where "(uuid n, m) \<in> set (movements st)" by (auto dest: map_of_SomeD)
  then have "uuid n \<in> uuid ` {..<uuids st}" using assms(2) unfolding movements_ok_def by blast
  then show False using fresh_uuid [OF assms(1,3)] by blast
qed

lemma open_stock_step:
  assumes "inj uuid" "movements_ok uuid st" "fst x \<in> uuid ` {..<uuids st}"
  shows "movements_ok uuid (open_stock uuid i t x st)"
    "ledger (open_stock uuid i t x st) j v = (if j = i \<and> v = fst x then snd x else 0) + ledger st j v"
    "uuids (open_stock uuid i t x st) = uuids st + 1"
    "items (open_stock uuid i t x st) = items st" "settings (open_stock uuid i t x st) = settings st"
    "orders (open_stock uuid i t x st) = orders st" "counters (open_stock uuid i t x st) = counters st"
    "returns (open_stock uuid i t x st) = returns st" "payments (open_stock uuid i t x st) = payments st"
proof -
  note fresh = movements_fresh [OF assms(1,2) order_refl]
  show "ledger (open_stock uuid i t x st) j v =
      (if j = i \<and> v = fst x then snd x else 0) + ledger st j v"
    unfolding open_stock_def using fresh by (subst ledger_put) (auto simp: entry_def)
  let ?st = "open_stock uuid i t x st"
  have u: "uuids ?st = uuids st + 1" by (simp add: open_stock_def)
  have new: "uuid (uuids st) \<in> uuid ` {..<uuids ?st}" by (simp add: u)
  have up: "y \<in> uuid ` {..<uuids st} \<Longrightarrow> y \<in> uuid ` {..<uuids ?st}" for y by (auto simp: u)
  have t: "tab_ok (movements st)" using assms(2) by (simp add: movements_ok_def)
  have "k \<in> uuid ` {..<uuids ?st} \<and> m_variantId m \<in> uuid ` {..<uuids ?st}"
    if km: "(k, m) \<in> set (movements ?st)" for k m
  proof (cases "k = uuid (uuids st)")
    case True
    have "m_variantId m = fst x" using km True t by (auto simp: open_stock_def set_tab_put)
    then show ?thesis using True new up [OF assms(3)] by simp
  next
    case False
    then have "(k, m) \<in> set (movements st)" using km t by (auto simp: open_stock_def set_tab_put)
    then show ?thesis using assms(2) up unfolding movements_ok_def by blast
  qed
  then show "movements_ok uuid ?st"
    using t unfolding movements_ok_def by (auto simp: open_stock_def)
qed (simp_all add: open_stock_def)

lemma open_stock_fold:
  assumes "inj uuid" "movements_ok uuid st" "\<forall>x \<in> set ops. fst x \<in> uuid ` {..<uuids st}"
    "st' = foldl (\<lambda>st o'. open_stock uuid i t o' st) st ops"
  shows "movements_ok uuid st' \<and> uuids st \<le> uuids st' \<and> items st' = items st \<and>
    settings st' = settings st \<and> orders st' = orders st \<and> counters st' = counters st \<and>
    returns st' = returns st \<and> payments st' = payments st \<and>
    (\<forall>j v. ledger st' j v = (if j = i then \<Sum>(w, q) \<leftarrow> ops. if w = v then q else 0 else 0) + ledger st j v)"
  using assms(2-)
proof (induction ops arbitrary: st)
  case (Cons x ops)
  note s = open_stock_step [OF assms(1) Cons.prems(1), of x i t]
  have "\<forall>y \<in> set ops. fst y \<in> uuid ` {..<uuids (open_stock uuid i t x st)}"
    using Cons.prems(2) s(3) uuid_mono [of _ uuid "uuids st" "uuids st + 1"] by auto
  then show ?case
    using Cons.IH [of "open_stock uuid i t x st"] s Cons.prems by (auto simp: case_prod_unfold)
qed simp

end
