(* ===== verification/Inventory_Items.thy ===== *)
theory Inventory_Items
  imports Inventory_Ledger
begin

text \<open>
  Saving and removing products keeps the ledger: a row of an existing variant keeps its stock, a new
  row gets an id of its own and an opening movement of its stock.
\<close>

lemma existing_variant_Some:
  "existing_variant ex r = Some w \<Longrightarrow> w \<in> set ex \<and> vi_id r = Some (v_id w)"
  by (auto simp: existing_variant_def find_Some_iff split: option.splits) (metis nth_mem set_rev length_rev)

lemma existing_variant_None:
  "existing_variant ex r = None \<Longrightarrow> vi_id r = Some i \<Longrightarrow> i \<notin> v_id ` set ex"
  by (auto simp: existing_variant_def find_None_iff)

lemma nonNegInt_Inr: "nonNegInt n l = Inr k \<longleftrightarrow> n = of_int k \<and> 0 \<le> k"
  by (auto simp: nonNegInt_def)

lemma nonNegInt_of_int: "nonNegInt (of_int k) l = (if k < 0 then Inl (js_error (l @ '' must be a non-negative whole number'')) else Inr k)"
  by (auto simp: nonNegInt_def)

lemma cleanVariant_Inr:
  assumes "cleanVariant options ex new r = Inr v"
  shows "0 \<le> v_stock v"
    "existing_variant ex r = Some w \<Longrightarrow> v_id v = v_id w \<and> v_stock v = v_stock w"
    "existing_variant ex r = None \<Longrightarrow> v_id v = new"
  using assms
  by (auto simp: cleanVariant_def Let_def nonNegInt_Inr split: sum.splits option.splits)

text \<open>The ids of the rows that name an existing variant.\<close>

definition given_ids :: "variant list \<Rightarrow> variant_input list \<Rightarrow> string list" where
  "given_ids ex rows = map v_id (List.map_filter (existing_variant ex) rows)"

lemma given_ids_Cons:
  "given_ids ex (r # rows) =
     (case existing_variant ex r of None \<Rightarrow> given_ids ex rows | Some w \<Rightarrow> v_id w # given_ids ex rows)"
  by (simp add: given_ids_def List.map_filter_simps split: option.split)

definition row_ok :: "(nat \<Rightarrow> string) \<Rightarrow> variant list \<Rightarrow> nat \<Rightarrow> nat \<Rightarrow> variant \<Rightarrow> bool" where
  "row_ok uuid ex n n' v \<longleftrightarrow> 0 \<le> v_stock v \<and>
     ((\<exists>w \<in> set ex. v_id v = v_id w \<and> v_stock v = v_stock w) \<or> (\<exists>m. n \<le> m \<and> m < n' \<and> v_id v = uuid m))"

lemma clean_rows_Inr:
  assumes "inj uuid" "\<forall>w \<in> set ex. v_id w \<in> uuid ` {..<n0}"
  shows "clean_rows uuid options ex n rows = Inr (vs, ops, n') \<Longrightarrow> n0 \<le> n \<Longrightarrow>
    distinct (given_ids ex rows) \<Longrightarrow>
    n \<le> n' \<and> (\<forall>v \<in> set vs. row_ok uuid ex n n' v) \<and> distinct (map v_id vs) \<and>
    v_id ` set vs \<subseteq> set (given_ids ex rows) \<union> uuid ` {n..<n'} \<and>
    ops = map (\<lambda>v. (v_id v, v_stock v)) (filter (\<lambda>v. v_id v \<notin> v_id ` set ex \<and> 0 < v_stock v) vs)"
proof (induction rows arbitrary: n vs ops n')
  case Nil
  then show ?case by simp
next
  case (Cons r rows)
  obtain v where v: "cleanVariant options ex (uuid n) r = Inr v"
    using Cons.prems by (auto split: sum.splits)
  let ?m = "if existing_variant ex r = None then n + 1 else n"
  obtain vs' ops' where rest: "clean_rows uuid options ex ?m rows = Inr (vs', ops', n')"
    "vs = v # vs'"
    "ops = (if existing_variant ex r = None \<and> 0 < v_stock v then (v_id v, v_stock v) # ops' else ops')"
    using Cons.prems v by (auto simp: Let_def split: sum.splits)
  have d: "distinct (given_ids ex rows)"
    using Cons.prems(3) by (auto simp: given_ids_Cons split: option.splits)
  have IH: "?m \<le> n' \<and> (\<forall>v \<in> set vs'. row_ok uuid ex ?m n' v) \<and> distinct (map v_id vs') \<and>
    v_id ` set vs' \<subseteq> set (given_ids ex rows) \<union> uuid ` {?m..<n'} \<and>
    ops' = map (\<lambda>v. (v_id v, v_stock v)) (filter (\<lambda>v. v_id v \<notin> v_id ` set ex \<and> 0 < v_stock v) vs')"
    using Cons.IH [OF rest(1) _ d] Cons.prems(2) by (simp split: if_splits)
  have ge: "n \<le> ?m" by simp
  have up: "row_ok uuid ex n n' w" if "w \<in> set vs'" for w
  proof -
    have "row_ok uuid ex ?m n' w" using IH that by blast
    then show ?thesis using ge unfolding row_ok_def by (meson order_trans)
  qed
  have ids: "v_id ` set vs' \<subseteq> set (given_ids ex rows) \<union> uuid ` {?m..<n'}" using IH by blast
  have gsub: "set (given_ids ex rows) \<subseteq> v_id ` set ex"
    by (induction rows) (auto simp: given_ids_Cons given_ids_def [of _ "[]"] List.map_filter_simps
        dest!: existing_variant_Some split: option.splits)
  have nex: "uuid k \<notin> v_id ` set ex" if "n0 \<le> k" for k
    using that assms(2) fresh_uuid [OF assms(1) that] by auto
  show ?case
  proof (cases "existing_variant ex r")
    case None
    have vid: "v_id v = uuid n" using cleanVariant_Inr(3) [OF v None] .
    have "uuid n \<notin> uuid ` {Suc n..<n'}" using assms(1) by (auto dest: injD)
    then have "v_id v \<notin> v_id ` set vs'"
      using ids gsub nex [OF Cons.prems(2)] None by (auto simp: vid)
    moreover have "row_ok uuid ex n n' v"
      using cleanVariant_Inr(1) [OF v] vid IH None by (auto simp: row_ok_def)
    moreover have "v_id v \<notin> v_id ` set ex" using nex [OF Cons.prems(2)] by (simp add: vid)
    moreover have "v_id v \<in> uuid ` {n..<n'}" using IH None by (auto simp: vid)
    moreover have "uuid ` {?m..<n'} \<subseteq> uuid ` {n..<n'}" by auto
    ultimately show ?thesis
      using IH up None rest(2,3) given_ids_Cons [of ex r rows] by auto
  next
    case (Some w)
    have vid: "v_id v = v_id w" "v_stock v = v_stock w" using cleanVariant_Inr(2) [OF v Some] by auto
    have w: "w \<in> set ex" using existing_variant_Some [OF Some] by blast
    have "v_id w \<notin> set (given_ids ex rows)" using Cons.prems(3) Some by (simp add: given_ids_Cons)
    moreover have "v_id w \<notin> uuid ` {n..<n'}"
    proof
      assume "v_id w \<in> uuid ` {n..<n'}"
      then obtain k where "n \<le> k" "v_id w = uuid k" by auto
      then show False using nex [of k] w Cons.prems(2) by (metis imageI le_trans)
    qed
    ultimately have "v_id v \<notin> v_id ` set vs'" using ids Some by (auto simp: vid)
    moreover have "row_ok uuid ex n n' v"
      using cleanVariant_Inr(1) [OF v] vid w by (auto simp: row_ok_def)
    moreover have "v_id v \<in> v_id ` set ex" using w vid by auto
    ultimately show ?thesis using IH up Some rest(2,3) given_ids_Cons [of ex r rows] vid by auto
  qed
qed

text \<open>What the source needs of the rows of a save: no id twice.\<close>

definition ids_distinct :: "product_input \<Rightarrow> bool" where
  "ids_distinct inp =
     (case pi_variants inp of None \<Rightarrow> True | Some vs \<Rightarrow> distinct (List.map_filter vi_id vs))"

lemma given_ids_take:
  "distinct (List.map_filter vi_id rows) \<Longrightarrow>
    distinct (given_ids ex (take k rows)) \<and>
    set (given_ids ex (take k rows)) \<subseteq> set (List.map_filter vi_id rows)"
proof (induction rows arbitrary: k)
  case Nil
  then show ?case by (simp add: given_ids_def List.map_filter_simps)
next
  case (Cons r rows)
  show ?case
  proof (cases k)
    case 0
    then show ?thesis by (simp add: given_ids_def List.map_filter_simps)
  next
    case (Suc j)
    have "distinct (List.map_filter vi_id rows)"
      using Cons.prems by (auto simp: List.map_filter_simps split: option.splits)
    from Cons.IH [OF this, of j] show ?thesis using Cons.prems Suc
      by (auto simp: given_ids_Cons List.map_filter_simps split: option.splits
          dest!: existing_variant_Some)
  qed
qed

lemma map_filter_as_input: "List.map_filter vi_id (map as_input vs) = map v_id vs"
  by (induction vs) (simp_all add: List.map_filter_simps as_input_def)

lemma map_filter_blank: "List.map_filter vi_id (map (\<lambda>ov. blank_variant ov s) ovs) = []"
  by (induction ovs) (simp_all add: List.map_filter_simps blank_variant_def)

lemma cleanVariants_Inr:
  assumes "inj uuid" "\<forall>w \<in> set ex. v_id w \<in> uuid ` {..<n0}" "n0 \<le> n" "distinct (map v_id ex)"
    "ids_distinct inp" "cleanVariants uuid (resolve_variants inp options ex) options ex n = Inr (vs, ops, n')"
  shows "n \<le> n' \<and> (\<forall>v \<in> set vs. row_ok uuid ex n n' v) \<and> distinct (map v_id vs) \<and>
    ops = map (\<lambda>v. (v_id v, v_stock v)) (filter (\<lambda>v. v_id v \<notin> v_id ` set ex \<and> 0 < v_stock v) vs)"
proof -
  let ?rows0 = "case resolve_variants inp options ex of None \<Rightarrow> [] | Some rs \<Rightarrow> rs"
  define rows where "rows = (if ?rows0 \<noteq> [] then ?rows0
      else if options \<noteq> [] then map (\<lambda>ov. blank_variant ov (Some 0)) (cartesian options)
      else [blank_variant [] (Some 0)])"
  have "distinct (List.map_filter vi_id ?rows0)"
    using assms(4,5)
    by (auto simp: resolve_variants_def ids_distinct_def map_filter_as_input blank_variant_def
        List.map_filter_simps split: option.splits)
  then have "distinct (List.map_filter vi_id rows)"
    by (auto simp: rows_def map_filter_blank) (simp add: blank_variant_def List.map_filter_simps)
  then have "distinct (given_ids ex (take 200 rows))" using given_ids_take by blast
  moreover have "clean_rows uuid options ex n (take 200 rows) = Inr (vs, ops, n')"
    using assms(6) unfolding cleanVariants_def rows_def Let_def by simp
  ultimately show ?thesis using clean_rows_Inr [OF assms(1,2) _ assms(3)] by blast
qed

text \<open>What \<open>buildProduct\<close> returns.\<close>

lemma buildProduct_Inr:
  assumes "buildProduct uuid inp t st = Inr (p, ops, n)"
  obtains existing n0 n1 where
    "opt_str (pi_id inp) = [] \<and> existing = None \<and> p_id p = uuid (uuids st) \<and> n0 = uuids st + 1 \<or>
     opt_str (pi_id inp) \<noteq> [] \<and> existing = map_of (items st) (p_id p) \<and> p_id p = opt_str (pi_id inp) \<and>
       n0 = uuids st"
    "cleanVariants uuid (resolve_variants inp (cleanOptions (pi_options inp))
        (case existing of None \<Rightarrow> [] | Some q \<Rightarrow> variants q)) (cleanOptions (pi_options inp))
        (case existing of None \<Rightarrow> [] | Some q \<Rightarrow> variants q) n0 = Inr (variants p, ops, n1)"
    "n1 \<le> n" "0 \<le> p_price p" "p_name p \<noteq> []" "published p = pi_published inp"
proof -
  let ?i = "opt_str (pi_id inp)"
  obtain existing where ex: "(if ?i = [] then Inr None else c_get ?i (items st)) = Inr existing"
    using assms by (auto simp: buildProduct_def Let_def split: if_splits sum.splits)
  define id n0 where "id = (if ?i = [] then uuid (uuids st) else ?i)"
    and "n0 = (if ?i = [] then uuids st + 1 else uuids st)"
  obtain price compareAt where pr: "nonNegNumber (case pi_price inp of None \<Rightarrow> 0 | Some x \<Rightarrow> x) ''Price'' = Inr price"
      "optNumber (pi_compareAt inp) ''Compare-at price'' = Inr compareAt"
    using assms ex by (auto simp: buildProduct_def Let_def split: if_splits sum.splits)
  let ?ex = "case existing of None \<Rightarrow> [] | Some q \<Rightarrow> variants q"
  let ?o = "cleanOptions (pi_options inp)"
  have nm: "trimmed (opt_str (pi_name inp)) 200 \<noteq> []" and
      ca: "\<not> (case compareAt of None \<Rightarrow> False | Some c \<Rightarrow> c < price)"
    using assms ex pr by (auto simp: buildProduct_def Let_def split: if_splits)
  obtain vs ops' n1 where cv: "cleanVariants uuid (resolve_variants inp ?o ?ex) ?o ?ex n0 = Inr (vs, ops', n1)"
    using assms ex pr nm ca by (cases "?i = []") (auto simp: buildProduct_def Let_def n0_def split: sum.splits)
  have p: "p_id p = id \<and> variants p = vs \<and> ops = ops' \<and> n1 \<le> n \<and> p_price p = price \<and>
      p_name p = trimmed (opt_str (pi_name inp)) 200 \<and> published p = pi_published inp"
  proof (cases "?i = []")
    case True
    then show ?thesis using assms ex pr nm ca cv
      by (auto simp: buildProduct_def Let_def n0_def id_def split: sum.splits prod.splits if_splits)
  next
    case False
    then show ?thesis using assms ex pr nm ca cv
      by (auto simp: buildProduct_def Let_def n0_def id_def split: sum.splits prod.splits if_splits)
  qed
  have "0 \<le> price" using pr(1) by (auto simp: nonNegNumber_def split: if_splits)
  moreover have "?i \<noteq> [] \<Longrightarrow> existing = map_of (items st) ?i"
    using ex by (auto simp: c_get_def split: sum.splits)
  ultimately show thesis
    using that [of existing n0 n1] p cv nm ex by (auto simp: id_def n0_def split: if_splits)
qed

lemma sum_openings:
  "distinct (map v_id vs) \<Longrightarrow>
    (\<Sum>(w, q) \<leftarrow> map (\<lambda>v. (v_id v, v_stock v)) (filter P vs). if w = i then q else 0) =
    (case find (\<lambda>v. v_id v = i \<and> P v) vs of None \<Rightarrow> 0 | Some v \<Rightarrow> v_stock v)"
proof (induction vs)
  case (Cons v vs)
  have "v_id w \<noteq> v_id v" if "w \<in> set vs" for w
    using Cons.prems that by (auto simp: image_iff)
  then have "v_id v = i \<Longrightarrow> find (\<lambda>w. v_id w = i \<and> P w) vs = None"
    by (auto simp: find_None_iff)
  then show ?case using Cons by auto
qed simp

lemma sum_openings_member:
  assumes "distinct (map v_id vs)" "v \<in> set vs" "0 \<le> v_stock v"
  shows "(\<Sum>(w, q) \<leftarrow> map (\<lambda>v. (v_id v, v_stock v)) (filter (\<lambda>v. v_id v \<notin> X \<and> 0 < v_stock v) vs).
      if w = v_id v then q else 0) = (if v_id v \<in> X then 0 else v_stock v)"
proof -
  have u: "w = v" if "w \<in> set vs" "v_id w = v_id v" for w
    using that assms(1,2) by (meson distinct_map inj_onD)
  show ?thesis unfolding sum_openings [OF assms(1)]
    using u assms(2,3) by (auto simp: find_None_iff find_Some_iff split: option.splits) (metis nth_mem)+
qed

lemma stock_ok_frame:
  assumes "stock_ok uuid st p" "\<And>w. ledger st' (p_id p) w = ledger st (p_id p) w" "uuids st \<le> uuids st'"
  shows "stock_ok uuid st' p"
proof -
  have "x \<in> uuid ` {..<uuids st} \<Longrightarrow> x \<in> uuid ` {..<uuids st'}" for x using uuid_mono [OF _ assms(3)] .
  then show ?thesis using assms(1) unfolding stock_ok_def assms(2) by blast
qed

lemma saveItem_inv:
  assumes inj: "inj uuid" and inv: "stock_inv uuid st" and ids: "ids_distinct inp"
    and run: "saveItem uuid inp t st = (r, st')"
  shows "stock_inv uuid st' \<and> orders st' = orders st \<and> counters st' = counters st \<and>
    returns st' = returns st \<and> uuids st \<le> uuids st'"
proof (cases r)
  case (Inl e)
  then have "st' = st" using run by (auto simp: saveItem_def Let_def split: sum.splits)
  then show ?thesis using inv by simp
next
  case (Inr x)
  obtain p ops n where b: "buildProduct uuid inp t st = Inr (p, ops, n)"
    using run Inr by (auto simp: saveItem_def Let_def split: sum.splits)
  obtain existing n0 n1 where bp:
    "opt_str (pi_id inp) = [] \<and> existing = None \<and> p_id p = uuid (uuids st) \<and> n0 = uuids st + 1 \<or>
     opt_str (pi_id inp) \<noteq> [] \<and> existing = map_of (items st) (p_id p) \<and> p_id p = opt_str (pi_id inp) \<and>
       n0 = uuids st"
    "cleanVariants uuid (resolve_variants inp (cleanOptions (pi_options inp))
        (case existing of None \<Rightarrow> [] | Some q \<Rightarrow> variants q)) (cleanOptions (pi_options inp))
        (case existing of None \<Rightarrow> [] | Some q \<Rightarrow> variants q) n0 = Inr (variants p, ops, n1)"
    "n1 \<le> n"
    by (rule buildProduct_Inr [OF b]) (rule that; assumption)
  let ?ex = "case existing of None \<Rightarrow> [] | Some q \<Rightarrow> variants q"
  have keyed: "keyed p_id (items st)" using inv by (simp add: stock_inv_def)
  have n0: "uuids st \<le> n0" using bp(1) by auto
  have ex: "existing = Some q \<Longrightarrow> q \<in> vals (items st) \<and> p_id q = p_id p \<and> stock_ok uuid st q" for q
  proof -
    assume "existing = Some q"
    then have m: "map_of (items st) (p_id p) = Some q" using bp(1) by auto
    have "q \<in> vals (items st)" using map_of_SomeD [OF m] by (force simp: vals_def)
    then show ?thesis using keyed_id [OF keyed m] inv by (simp add: stock_inv_def)
  qed
  have ex_ok: "w \<in> set ?ex \<Longrightarrow> v_id w \<in> uuid ` {..<uuids st} \<and> 0 \<le> v_stock w \<and>
      v_stock w = ledger st (p_id p) (v_id w)" for w
    using ex by (cases existing) (auto simp: stock_ok_def)
  have dex: "distinct (map v_id ?ex)" using ex by (cases existing) (auto simp: stock_ok_def)
  note cv = cleanVariants_Inr [OF inj _ n0 dex ids bp(2)]
  have c: "n0 \<le> n1" "\<forall>v \<in> set (variants p). row_ok uuid ?ex n0 n1 v" "distinct (map v_id (variants p))"
    "ops = map (\<lambda>v. (v_id v, v_stock v)) (filter (\<lambda>v. v_id v \<notin> v_id ` set ?ex \<and> 0 < v_stock v) (variants p))"
    using cv ex_ok by blast+
  let ?st = "st\<lparr>items := tab_put (p_id p) p (items st), uuids := n\<rparr>"
  have le: "uuids st \<le> n" using n0 c(1) bp(3) by simp
  have vid: "v_id v \<in> uuid ` {..<n}" if "v \<in> set (variants p)" for v
  proof -
    have "row_ok uuid ?ex n0 n1 v" using c(2) that by blast
    then consider w where "w \<in> set ?ex" "v_id v = v_id w" | m where "m < n1" "v_id v = uuid m"
      unfolding row_ok_def by blast
    then show ?thesis
    proof cases
      case 1
      then show ?thesis using ex_ok [OF 1(1)] uuid_mono [OF _ le, of _ uuid] by metis
    next
      case 2
      then show ?thesis using bp(3) by auto
    qed
  qed
  have mok: "movements_ok uuid ?st"
    using stock_inv_movements [OF inv] le by (rule_tac movements_ok_mono) auto
  have fo: "\<forall>x \<in> set ops. fst x \<in> uuid ` {..<uuids ?st}" using vid by (auto simp: c(4))
  have st': "st' = foldl (\<lambda>st o'. open_stock uuid (p_id p) t o' st) ?st ops"
    using run b by (simp add: saveItem_def Let_def)
  note f = open_stock_fold [OF inj mok fo st']
  have led: "ledger st' j v = (if j = p_id p then \<Sum>(w, q) \<leftarrow> ops. if w = v then q else 0 else 0) + ledger st j v" for j v
    using f by (simp add: ledger_def)
  have up: "x \<in> uuid ` {..<n} \<Longrightarrow> x \<in> uuid ` {..<uuids st'}" for x using f by auto
  have "stock_ok uuid st' p"
    unfolding stock_ok_def
  proof (intro conjI ballI)
    show "distinct (map v_id (variants p))" by (rule c(3))
    fix v assume v: "v \<in> set (variants p)"
    then have ro: "row_ok uuid ?ex n0 n1 v" using c(2) by blast
    show "v_id v \<in> uuid ` {..<uuids st'}" using vid [OF v] up by blast
    show s0: "0 \<le> v_stock v" using ro by (simp add: row_ok_def)
    have l: "ledger st' (p_id p) (v_id v) =
        (if v_id v \<in> v_id ` set ?ex then 0 else v_stock v) + ledger st (p_id p) (v_id v)"
      unfolding led c(4) using sum_openings_member [OF c(3) v s0] by simp
    from ro consider w where "w \<in> set ?ex" "v_id v = v_id w" "v_stock v = v_stock w"
      | m where "n0 \<le> m" "v_id v = uuid m" unfolding row_ok_def by blast
    then show "v_stock v = ledger st' (p_id p) (v_id v)"
    proof cases
      case 1
      then show ?thesis using l ex_ok [OF 1(1)] by auto
    next
      case 2
      have "ledger st (p_id p) (v_id v) = 0"
        using fresh_variant_ledger [OF inj inv, of m] 2 n0 by simp
      moreover have "v_id v \<notin> v_id ` set ?ex"
      proof
        assume "v_id v \<in> v_id ` set ?ex"
        then have "uuid m \<in> uuid ` {..<uuids st}" using ex_ok 2(2) by (metis imageE)
        then show False using fresh_uuid [OF inj, of "uuids st" m] 2(1) n0 by simp
      qed
      ultimately show ?thesis using l by simp
    qed
  qed
  moreover have "stock_ok uuid st' q" if "q \<in> vals (items st)" "p_id q \<noteq> p_id p" for q
  proof -
    have "stock_ok uuid st q" using inv that(1) by (simp add: stock_inv_def)
    moreover have "ledger st' (p_id q) w = ledger st (p_id q) w" for w using that(2) by (simp add: led)
    moreover have "uuids st \<le> uuids st'" using f le by simp
    ultimately show ?thesis by (rule stock_ok_frame)
  qed
  moreover have "vals (items st') = insert p {q \<in> vals (items st). p_id q \<noteq> p_id p}"
    using f values_put [OF keyed, of "p_id p" p] by simp
  ultimately have "\<forall>q \<in> vals (items st'). stock_ok uuid st' q" by auto
  moreover have "keyed p_id (items st')" using f keyed by auto
  ultimately have "stock_inv uuid st'"
    using f unfolding stock_inv_def movements_ok_def by blast
  then show ?thesis using f le by simp
qed

lemma removeItem_inv:
  assumes "stock_inv uuid st" "removeItem i st = (r, st')"
  shows "stock_inv uuid st'"
proof -
  have "st' = st \<or> st' = st\<lparr>items := tab_del i (items st)\<rparr>"
    using assms(2) by (auto simp: removeItem_def c_delete_def split: if_splits sum.splits)
  moreover have "stock_inv uuid (st\<lparr>items := tab_del i (items st)\<rparr>)"
    using assms(1) values_del [of p_id "items st" i]
    by (auto simp: stock_inv_def stock_ok_def ledger_def)
  ultimately show ?thesis using assms(1) by metis
qed

end
