(* ===== verification/Inventory_Orders.thy ===== *)
theory Inventory_Orders
  imports Inventory_Items
begin

text \<open>
  Orders, payments and returns of \<open>builtins/inventory/index.mjs\<close>.  An error thrown after some stock
  has moved leaves those movements in place, as in the source, where the handlers run without a
  storage transaction.
\<close>

section \<open>Numbers of documents\<close>

definition ORDER_START :: int where "ORDER_START = 1000"
definition RETURN_START :: int where "RETURN_START = 1"

definition nextNumber :: "string \<Rightarrow> int \<Rightarrow> inventory \<Rightarrow> int \<times> inventory" where
  "nextNumber key start st =
     (let current = (case map_of (counters st) key of Some v \<Rightarrow> v | None \<Rightarrow> start - 1); v = current + 1
      in (v, st\<lparr>counters := tab_put key v (counters st)\<rparr>))"

section \<open>Pricing\<close>

record raw_line =
  raw_itemId :: string
  raw_variantId :: string
  raw_qty :: rat

definition cleanCustomer :: "customer \<Rightarrow> customer" where
  "cleanCustomer c = \<lparr>cu_name = trimmed (cu_name c) 200, cu_email = trimmed (cu_email c) 200,
     cu_phone = trimmed (cu_phone c) 60, cu_address = trimmed (cu_address c) 500\<rparr>"

definition first_image :: "product \<Rightarrow> string" where
  "first_image p = (case p_images p of [] \<Rightarrow> [] | u # _ \<Rightarrow> u)"

definition priceLine :: "inventory \<Rightarrow> raw_line \<Rightarrow> order_line result" where
  "priceLine st raw =
     (case nonNegInt (raw_qty raw) ''Quantity'' of Inl e \<Rightarrow> Inl e
      | Inr qty \<Rightarrow>
        if qty < 1 then Inl (js_error ''Quantity must be at least 1'')
        else case c_get (raw_itemId raw) (items st) of Inl e \<Rightarrow> Inl e
        | Inr None \<Rightarrow> Inl (js_error ''A product in the order no longer exists'')
        | Inr (Some p) \<Rightarrow>
          if \<not> published p then Inl (js_error ([CHR 0x22] @ p_name p @ [CHR 0x22] @ '' is not available''))
          else
            let variantId = default_variant (raw_variantId raw) p in
            (case find_variant variantId p of
               None \<Rightarrow> Inl (js_error (''Selected option for '' @ [CHR 0x22] @ p_name p @ [CHR 0x22] @ '' is unavailable''))
             | Some v \<Rightarrow>
               if v_stock v < qty
               then Inl (js_error (''Only '' @ int_string (v_stock v) @ '' of '' @ [CHR 0x22] @ p_name p @ '' ('' @
                      v_label v @ '')'' @ [CHR 0x22] @ '' left in stock''))
               else
                 let unitPrice = variantPrice v p
                 in Inr \<lparr>ol_itemId = raw_itemId raw, ol_variantId = variantId, ol_name = p_name p,
                         ol_variantLabel = or_else (v_label v) (variantLabel (optionValues v)),
                         ol_sku = or_else (v_sku v) (p_sku p), ol_image = first_image p,
                         ol_unitPrice = unitPrice, ol_qty = qty,
                         ol_lineTotal = fromCents (toCents unitPrice * qty)\<rparr>))"

fun price_all :: "inventory \<Rightarrow> raw_line list \<Rightarrow> order_line list result" where
  "price_all st [] = Inr []"
| "price_all st (r # rs) =
     (case priceLine st r of Inl e \<Rightarrow> Inl e
      | Inr l \<Rightarrow> (case price_all st rs of Inl e \<Rightarrow> Inl e | Inr ls \<Rightarrow> Inr (l # ls)))"

definition priceLines :: "inventory \<Rightarrow> raw_line list option \<Rightarrow> (order_line list \<times> rat) result" where
  "priceLines st rawLines =
     (case rawLines of None \<Rightarrow> Inl (js_error ''Order has no items'')
      | Some raws \<Rightarrow>
        if raws = [] then Inl (js_error ''Order has no items'')
        else case price_all st (take 100 raws) of Inl e \<Rightarrow> Inl e
        | Inr ls \<Rightarrow> Inr (ls, fromCents (\<Sum>l \<leftarrow> ls. toCents (ol_lineTotal l))))"

record totals =
  t_tax :: rat
  t_shipping :: rat
  t_discount :: rat
  t_total :: rat

definition computeTotals :: "rat \<Rightarrow> inv_settings \<Rightarrow> rat option \<Rightarrow> totals" where
  "computeTotals subtotal sets discount =
     (let subtotalCents = toCents subtotal;
          taxCents = math_round (of_int subtotalCents * taxRate sets / 100);
          shippingCents = toCents (max 0 (shippingFlat sets));
          discountCents = toCents (max 0 (case discount of None \<Rightarrow> 0 | Some d \<Rightarrow> d));
          totalCents = max 0 (subtotalCents + taxCents + shippingCents - discountCents)
      in \<lparr>t_tax = fromCents taxCents, t_shipping = fromCents shippingCents,
          t_discount = fromCents discountCents, t_total = fromCents totalCents\<rparr>)"

section \<open>Orders\<close>

fun adjust_all :: "(nat \<Rightarrow> string) \<Rightarrow> adjust_args list \<Rightarrow> string \<Rightarrow> (inventory, unit) action" where
  "adjust_all uuid [] t st = (Inr (), st)"
| "adjust_all uuid (a # as) t st =
     (case adjustStock uuid a t st of (Inl e, st') \<Rightarrow> (Inl e, st')
      | (Inr _, st') \<Rightarrow> adjust_all uuid as t st')"

text \<open>The loops that \<open>.catch(() => undefined)\<close> every adjustment.\<close>

definition adjust_lenient :: "(nat \<Rightarrow> string) \<Rightarrow> adjust_args list \<Rightarrow> string \<Rightarrow> inventory \<Rightarrow> inventory" where
  "adjust_lenient uuid as t st = foldl (\<lambda>st a. snd (adjustStock uuid a t st)) st as"

definition line_move :: "string \<Rightarrow> string \<Rightarrow> string \<Rightarrow> string \<Rightarrow> string \<Rightarrow> int \<Rightarrow> adjust_args" where
  "line_move itemId variantId type reason ref amount =
     \<lparr>aa_itemId = itemId, aa_variantId = variantId, aa_set = False, aa_amount = of_int amount,
      aa_type = Some type, aa_reason = reason, aa_ref = Some ref\<rparr>"

record order_args =
  oa_lines :: "raw_line list option"
  oa_customer :: customer
  oa_note :: string
  oa_discount :: "rat option"
  oa_source :: "string option"

text \<open>The document \<open>createOrder\<close> stores.\<close>

definition new_order ::
  "order_args \<Rightarrow> inv_settings \<Rightarrow> string \<Rightarrow> string \<Rightarrow> int \<Rightarrow> order_line list \<Rightarrow> rat \<Rightarrow> string \<Rightarrow> order" where
  "new_order args sets source orderId number lines subtotal t =
     (let cust = cleanCustomer (oa_customer args); tot = computeTotals subtotal sets (oa_discount args)
      in \<lparr>o_id = orderId, o_number = number, o_status = ''pending'', o_lines = lines,
          o_subtotal = subtotal, o_tax = t_tax tot, o_shipping = t_shipping tot,
          o_discount = t_discount tot, o_total = t_total tot, o_currency = currency sets,
          o_customer = cust, o_subjectRef = js_lower (cu_email cust),
          o_note = trimmed (oa_note args) 1000, o_source = source,
          paymentStatus = ''unpaid'', amountPaid = 0, amountRefunded = 0,
          o_restocked = False, o_createdAt = t, o_updatedAt = t\<rparr>)"

definition order_source :: "order_args \<Rightarrow> string" where
  "order_source args = (if oa_source args = Some ''storefront'' then ''storefront'' else ''admin'')"

definition anonymous :: "customer \<Rightarrow> bool" where
  "anonymous c \<longleftrightarrow> cu_name c = [] \<or> cu_email c = []"

definition createOrder :: "(nat \<Rightarrow> string) \<Rightarrow> order_args \<Rightarrow> string \<Rightarrow> (inventory, order) action" where
  "createOrder uuid args t st =
     (let sets = readSettings st; source = order_source args in
      if source = ''storefront'' \<and> anonymous (cleanCustomer (oa_customer args))
      then (Inl (js_error ''Name and email are required to place an order''), st)
      else case priceLines st (oa_lines args) of Inl e \<Rightarrow> (Inl e, st)
      | Inr (lines, subtotal) \<Rightarrow>
        let (number, st) = nextNumber ''orders'' ORDER_START st;
            orderId = uuid (uuids st);
            moves = map (\<lambda>l. line_move (ol_itemId l) (ol_variantId l) ''sell''
                (''Order #'' @ int_string number) orderId (- ol_qty l)) lines
        in (case adjust_all uuid moves t (st\<lparr>uuids := uuids st + 1\<rparr>) of (Inl e, st) \<Rightarrow> (Inl e, st)
            | (Inr _, st) \<Rightarrow>
              let order = new_order args sets source orderId number lines subtotal t
              in (Inr order, st\<lparr>orders := tab_put orderId order (orders st)\<rparr>)))"

definition order_not_found :: press_error where
  "order_not_found = js_error ''Order not found''"

definition get_order :: "string \<Rightarrow> inventory \<Rightarrow> order result" where
  "get_order i st =
     (case c_get i (orders st) of Inl e \<Rightarrow> Inl e | Inr None \<Rightarrow> Inl order_not_found | Inr (Some o') \<Rightarrow> Inr o')"

definition put_order :: "order \<Rightarrow> inventory \<Rightarrow> inventory" where
  "put_order o' st = st\<lparr>orders := tab_put (o_id o') o' (orders st)\<rparr>"

definition listOrders ::
  "(string \<Rightarrow> string \<Rightarrow> int) \<Rightarrow> string \<Rightarrow> string \<Rightarrow> inventory \<Rightarrow> order list" where
  "listOrders localeCompare status search st =
     (let os = all_rows (orders st);
          os = (if status = [] then os else filter (\<lambda>o'. o_status o' = status) os);
          search = js_trim (js_lower search);
          os = (if search = [] then os
                else filter (\<lambda>o'. list_ex (\<lambda>f. js_includes (js_lower f) search)
                  [int_string (o_number o'), cu_name (o_customer o'), cu_email (o_customer o')]) os)
      in js_sort (\<lambda>a b. localeCompare (o_createdAt b) (o_createdAt a)) os)"

definition getOrder ::
  "(string \<Rightarrow> string \<Rightarrow> int) \<Rightarrow> string \<Rightarrow> inventory \<Rightarrow> (order \<times> payment list \<times> return_doc list) result" where
  "getOrder localeCompare i st =
     (case get_order i st of Inl e \<Rightarrow> Inl e
      | Inr o' \<Rightarrow>
        Inr (o', js_sort (\<lambda>a b. localeCompare (pay_at a) (pay_at b))
               (filter (\<lambda>p. pay_orderId p = o_id o') (all_rows (payments st))),
             filter (\<lambda>r. ret_orderId r = o_id o') (all_rows (returns st))))"

definition cancelOrder ::
  "(nat \<Rightarrow> string) \<Rightarrow> string \<Rightarrow> bool \<Rightarrow> string \<Rightarrow> (inventory, order) action" where
  "cancelOrder uuid i restock t st =
     (case get_order i st of Inl e \<Rightarrow> (Inl e, st)
      | Inr o' \<Rightarrow>
        if o_status o' = ''cancelled'' then (Inr o', st)
        else if o_status o' = ''fulfilled'' \<or> o_status o' = ''refunded''
        then (Inl (js_error (''Cannot cancel a '' @ o_status o' @ '' order - process a return instead'')), st)
        else
          let again = restock \<and> \<not> o_restocked o';
              st = (if again
                    then adjust_lenient uuid (map (\<lambda>l. line_move (ol_itemId l) (ol_variantId l) ''return''
                        (''Cancelled order #'' @ int_string (o_number o')) (o_id o') (ol_qty l)) (o_lines o')) t st
                    else st);
              o' = o'\<lparr>o_restocked := o_restocked o' \<or> again, o_status := ''cancelled'', o_updatedAt := t\<rparr>
          in (Inr o', put_order o' st))"

definition ORDER_STATUSES :: "string list" where
  "ORDER_STATUSES = [''pending'', ''paid'', ''fulfilled'', ''cancelled'', ''refunded'']"

definition updateOrderStatus ::
  "(nat \<Rightarrow> string) \<Rightarrow> string \<Rightarrow> string \<Rightarrow> bool \<Rightarrow> string \<Rightarrow> (inventory, order) action" where
  "updateOrderStatus uuid i to restock t st =
     (if to \<notin> set ORDER_STATUSES then (Inl (js_error ''Invalid order status''), st)
      else if to = ''cancelled'' then cancelOrder uuid i restock t st
      else case get_order i st of Inl e \<Rightarrow> (Inl e, st)
      | Inr o' \<Rightarrow> let o' = o'\<lparr>o_status := to, o_updatedAt := t\<rparr> in (Inr o', put_order o' st))"

definition fulfillOrder :: "(nat \<Rightarrow> string) \<Rightarrow> string \<Rightarrow> string \<Rightarrow> (inventory, order) action" where
  "fulfillOrder uuid i t st = updateOrderStatus uuid i ''fulfilled'' True t st"

section \<open>Payments\<close>

definition recomputePaymentStatus :: "order \<Rightarrow> order" where
  "recomputePaymentStatus o' =
     (let total = o_total o'; paid = round2 (amountPaid o'); refunded = round2 (amountRefunded o');
          net = round2 (paid - refunded)
      in o'\<lparr>paymentStatus :=
           (if 0 < refunded \<and> total \<le> refunded then ''refunded''
            else if 0 < refunded then ''partial''
            else if 0 < total \<and> total \<le> net then ''paid''
            else if 0 < net then ''partial'' else ''unpaid'')\<rparr>)"

definition PAYMENT_METHODS :: "string list" where
  "PAYMENT_METHODS = [''card'', ''cash'', ''bank'', ''manual'', ''other'']"

definition pay_method_of :: "string option \<Rightarrow> string" where
  "pay_method_of m = (case m of Some s \<Rightarrow> if s \<in> set PAYMENT_METHODS then s else ''manual'' | None \<Rightarrow> ''manual'')"

definition mk_payment ::
  "(nat \<Rightarrow> string) \<Rightarrow> string \<Rightarrow> order \<Rightarrow> rat \<Rightarrow> string option \<Rightarrow> string \<Rightarrow> string \<Rightarrow> inventory \<Rightarrow> payment" where
  "mk_payment uuid kind o' amount method note t st =
     \<lparr>pay_id = uuid (uuids st), pay_orderId = o_id o', pay_orderNumber = o_number o', pay_kind = kind,
      pay_amount = round2 amount, pay_method = pay_method_of method, pay_status = ''recorded'',
      pay_gateway = ''manual'', pay_gatewayRef = None, pay_note = trimmed note 200, pay_at = t,
      pay_seq = seq st + 1\<rparr>"

definition put_payment :: "payment \<Rightarrow> inventory \<Rightarrow> inventory" where
  "put_payment p st = st\<lparr>payments := tab_put (pay_id p) p (payments st),
     uuids := uuids st + 1, seq := seq st + 1\<rparr>"

definition recordPayment ::
  "(nat \<Rightarrow> string) \<Rightarrow> string \<Rightarrow> rat \<Rightarrow> string option \<Rightarrow> string \<Rightarrow> string \<Rightarrow> (inventory, order \<times> payment) action" where
  "recordPayment uuid orderId amt method note t st =
     (case get_order orderId st of Inl e \<Rightarrow> (Inl e, st)
      | Inr o' \<Rightarrow>
        (case nonNegNumber amt ''Amount'' of Inl e \<Rightarrow> (Inl e, st)
         | Inr amount \<Rightarrow>
           if amount \<le> 0 then (Inl (js_error ''Payment amount must be greater than zero''), st)
           else
             let p = mk_payment uuid ''payment'' o' amount method note t st;
                 st = put_payment p st;
                 o' = recomputePaymentStatus (o'\<lparr>amountPaid := round2 (amountPaid o' + amount)\<rparr>);
                 o' = (if paymentStatus o' = ''paid'' \<and> o_status o' = ''pending''
                       then o'\<lparr>o_status := ''paid''\<rparr> else o');
                 o' = o'\<lparr>o_updatedAt := t\<rparr>
             in (Inr (o', p), put_order o' st)))"

definition refundPayment ::
  "(nat \<Rightarrow> string) \<Rightarrow> string \<Rightarrow> rat \<Rightarrow> string option \<Rightarrow> string \<Rightarrow> string \<Rightarrow> (inventory, order \<times> payment) action" where
  "refundPayment uuid orderId amt method note t st =
     (case get_order orderId st of Inl e \<Rightarrow> (Inl e, st)
      | Inr o' \<Rightarrow>
        (case nonNegNumber amt ''Amount'' of Inl e \<Rightarrow> (Inl e, st)
         | Inr amount \<Rightarrow>
           if amount \<le> 0 then (Inl (js_error ''Refund amount must be greater than zero''), st)
           else
             let maxRefund = round2 (amountPaid o' - amountRefunded o') in
             if maxRefund + 1 / 10 ^ 9 < amount
             then (Inl (js_error ''Cannot refund more than the amount collected''), st)
             else
               let p = mk_payment uuid ''refund'' o' amount method note t st;
                   st = put_payment p st;
                   o' = recomputePaymentStatus (o'\<lparr>amountRefunded := round2 (amountRefunded o' + amount)\<rparr>);
                   o' = (if paymentStatus o' = ''refunded'' then o'\<lparr>o_status := ''refunded''\<rparr> else o');
                   o' = o'\<lparr>o_updatedAt := t\<rparr>
               in (Inr (o', p), put_order o' st)))"

definition listPayments ::
  "(string \<Rightarrow> string \<Rightarrow> int) \<Rightarrow> string \<Rightarrow> inventory \<Rightarrow> payment list" where
  "listPayments localeCompare orderId st =
     js_sort (\<lambda>a b. let t = localeCompare (pay_at b) (pay_at a) in
         if t \<noteq> 0 then t else int (pay_seq b) - int (pay_seq a))
       (filter (\<lambda>p. orderId = [] \<or> pay_orderId p = orderId) (all_rows (payments st)))"

section \<open>Returns\<close>

definition lineKey :: "string \<Rightarrow> string \<Rightarrow> string" where
  "lineKey itemId variantId = itemId @ ''::'' @ variantId"

definition order_line_of :: "order \<Rightarrow> string \<Rightarrow> order_line option" where
  "order_line_of o' key = find (\<lambda>l. lineKey (ol_itemId l) (ol_variantId l) = key) (rev (o_lines o'))"

definition returned_in :: "string \<Rightarrow> return_doc \<Rightarrow> int" where
  "returned_in key r =
     (\<Sum>l \<leftarrow> filter (\<lambda>l. lineKey (rl_itemId l) (rl_variantId l) = key) (ret_lines r). rl_qty l)"

definition priorReturns :: "order \<Rightarrow> inventory \<Rightarrow> return_doc list" where
  "priorReturns o' st =
     filter (\<lambda>r. ret_orderId r = o_id o' \<and> ret_status r \<noteq> ''rejected'') (all_rows (returns st))"

definition alreadyReturned :: "order \<Rightarrow> inventory \<Rightarrow> string \<Rightarrow> int" where
  "alreadyReturned o' st key = (\<Sum>r \<leftarrow> priorReturns o' st. returned_in key r)"

definition returnLine :: "order \<Rightarrow> inventory \<Rightarrow> raw_line \<Rightarrow> return_line result" where
  "returnLine o' st raw =
     (let key = lineKey (raw_itemId raw) (raw_variantId raw) in
      case order_line_of o' key of None \<Rightarrow> Inl (js_error ''A return line does not match the order'')
      | Some ol \<Rightarrow>
        (case nonNegInt (raw_qty raw) ''Quantity'' of Inl e \<Rightarrow> Inl e
         | Inr qty \<Rightarrow>
           let remaining = ol_qty ol - alreadyReturned o' st key in
           if remaining \<le> 0
           then Inl (js_error (''All '' @ [CHR 0x22] @ ol_name ol @ [CHR 0x22] @
                  '' units on this order have already been returned''))
           else if qty < 1 \<or> remaining < qty
           then Inl (js_error (''Return quantity for '' @ [CHR 0x22] @ ol_name ol @ [CHR 0x22] @
                  '' must be between 1 and '' @ int_string remaining))
           else Inr \<lparr>rl_itemId = ol_itemId ol, rl_variantId = ol_variantId ol, rl_name = ol_name ol,
                    rl_variantLabel = ol_variantLabel ol, rl_qty = qty, rl_unitPrice = ol_unitPrice ol,
                    rl_lineRefund = round2 (ol_unitPrice ol * of_int qty)\<rparr>))"

fun return_lines :: "order \<Rightarrow> inventory \<Rightarrow> raw_line list \<Rightarrow> return_line list result" where
  "return_lines o' st [] = Inr []"
| "return_lines o' st (r # rs) =
     (case returnLine o' st r of Inl e \<Rightarrow> Inl e
      | Inr l \<Rightarrow> (case return_lines o' st rs of Inl e \<Rightarrow> Inl e | Inr ls \<Rightarrow> Inr (l # ls)))"

definition put_return :: "return_doc \<Rightarrow> inventory \<Rightarrow> inventory" where
  "put_return r st = st\<lparr>returns := tab_put (ret_id r) r (returns st)\<rparr>"

definition createReturn ::
  "(nat \<Rightarrow> string) \<Rightarrow> string \<Rightarrow> raw_line list \<Rightarrow> string \<Rightarrow> bool \<Rightarrow> string \<Rightarrow> (inventory, return_doc) action" where
  "createReturn uuid orderId rawLines reason restock t st =
     (case get_order orderId st of Inl e \<Rightarrow> (Inl e, st)
      | Inr o' \<Rightarrow>
        if rawLines = [] then (Inl (js_error ''Select at least one item to return''), st)
        else case return_lines o' st rawLines of Inl e \<Rightarrow> (Inl e, st)
        | Inr lines \<Rightarrow>
          let (number, st) = nextNumber ''returns'' RETURN_START st;
              r = \<lparr>ret_id = uuid (uuids st), ret_number = number, ret_orderId = o_id o',
                   ret_orderNumber = o_number o', ret_status = ''requested'', ret_lines = lines,
                   ret_reason = trimmed reason 500,
                   refundAmount = round2 (\<Sum>l \<leftarrow> lines. rl_lineRefund l), ret_restock = restock,
                   ret_restocked = False, ret_refunded = False, ret_createdAt = t, ret_updatedAt = t\<rparr>
          in (Inr r, put_return r (st\<lparr>uuids := uuids st + 1\<rparr>)))"

definition get_return :: "string \<Rightarrow> inventory \<Rightarrow> return_doc result" where
  "get_return i st =
     (case c_get i (returns st) of Inl e \<Rightarrow> Inl e
      | Inr None \<Rightarrow> Inl (js_error ''Return not found'') | Inr (Some r) \<Rightarrow> Inr r)"

definition listReturns ::
  "(string \<Rightarrow> string \<Rightarrow> int) \<Rightarrow> string \<Rightarrow> inventory \<Rightarrow> return_doc list" where
  "listReturns localeCompare status st =
     (let rs = all_rows (returns st);
          rs = (if status = [] then rs else filter (\<lambda>r. ret_status r = status) rs)
      in js_sort (\<lambda>a b. localeCompare (ret_createdAt b) (ret_createdAt a)) rs)"

definition RETURN_STATUSES :: "string list" where
  "RETURN_STATUSES = [''requested'', ''approved'', ''received'', ''refunded'', ''rejected'']"

definition updateReturnStatus :: "string \<Rightarrow> string \<Rightarrow> string \<Rightarrow> (inventory, return_doc) action" where
  "updateReturnStatus i to t st =
     (case get_return i st of Inl e \<Rightarrow> (Inl e, st)
      | Inr r \<Rightarrow>
        if to \<notin> set RETURN_STATUSES then (Inl (js_error ''Invalid return status''), st)
        else let r = r\<lparr>ret_status := to, ret_updatedAt := t\<rparr> in (Inr r, put_return r st))"

definition restock_moves :: "return_doc \<Rightarrow> bool option \<Rightarrow> adjust_args list" where
  "restock_moves r restockArg =
     (if (case restockArg of Some b \<Rightarrow> b | None \<Rightarrow> ret_restock r) \<and> \<not> ret_restocked r
      then map (\<lambda>l. line_move (rl_itemId l) (rl_variantId l) ''return''
             (''Return #'' @ int_string (ret_number r)) (ret_id r) (rl_qty l)) (ret_lines r)
      else [])"

definition restocked_now :: "return_doc \<Rightarrow> bool option \<Rightarrow> bool" where
  "restocked_now r restockArg = (ret_restocked r \<or> (case restockArg of Some b \<Rightarrow> b | None \<Rightarrow> ret_restock r))"

definition refund_due :: "return_doc \<Rightarrow> order option \<Rightarrow> rat" where
  "refund_due r ord =
     round2 (min (refundAmount r)
       (case ord of None \<Rightarrow> 0 | Some o' \<Rightarrow> round2 (amountPaid o' - amountRefunded o')))"

definition finish_return ::
  "return_doc \<Rightarrow> payment option \<Rightarrow> string \<Rightarrow> (inventory, return_doc \<times> payment option) action" where
  "finish_return r refund t st =
     (let r = r\<lparr>ret_status := (if ret_refunded r then ''refunded'' else ''received''), ret_updatedAt := t\<rparr>
      in (Inr (r, refund), put_return r st))"

definition processReturn ::
  "(nat \<Rightarrow> string) \<Rightarrow> string \<Rightarrow> bool option \<Rightarrow> bool \<Rightarrow> string \<Rightarrow>
   (inventory, return_doc \<times> payment option) action" where
  "processReturn uuid i restockArg issueRefund t st =
     (case get_return i st of Inl e \<Rightarrow> (Inl e, st)
      | Inr r \<Rightarrow>
        if ret_status r = ''refunded'' then (Inl (js_error ''This return is already completed''), st)
        else
          let st = adjust_lenient uuid (restock_moves r restockArg) t st;
              r = r\<lparr>ret_restocked := restocked_now r restockArg\<rparr>
          in if issueRefund \<and> \<not> ret_refunded r
             then (case c_get (ret_orderId r) (orders st) of Inl e \<Rightarrow> (Inl e, st)
               | Inr ord \<Rightarrow>
                 if 0 < refund_due r ord
                 then (case refundPayment uuid (ret_orderId r) (refund_due r ord) (Some ''manual'')
                         (''Return #'' @ int_string (ret_number r)) t st of
                     (Inl e, st) \<Rightarrow> (Inl e, st)
                   | (Inr (_, p), st) \<Rightarrow> finish_return (r\<lparr>ret_refunded := True\<rparr>) (Some p) t st)
                 else finish_return r None t st)
             else finish_return r None t st)"

end
