(* ===== verification/Inventory_Shop.thy ===== *)
theory Inventory_Shop
  imports Inventory_Orders
begin

text \<open>
  The storefront side of \<open>builtins/inventory/index.mjs\<close>: the public projection and the product feed,
  the cart preview, the checkout, and the dashboard summary.
\<close>

section \<open>Labels\<close>

text \<open>\<open>toFixed(2)\<close>: the hundredths nearest to the number, the larger ones when two are equally near.\<close>

definition two_digits :: "nat \<Rightarrow> string" where
  "two_digits n = pad_start 2 (CHR ''0'') (nat_digits n)"

definition to_fixed2 :: "rat \<Rightarrow> string" where
  "to_fixed2 x =
     (let n = nat \<lfloor>\<bar>x\<bar> * 100 + 1 / 2\<rfloor>
      in (if x < 0 then ''-'' else []) @ nat_digits (n div 100) @ ''.'' @ two_digits (n mod 100))"

section \<open>Feed\<close>

record public_variant =
  pv_id :: string
  pv_label :: string
  pv_optionValues :: option_values
  pv_sku :: string
  pv_price :: rat
  pv_stock :: int
  pv_inStock :: bool

record public_product =
  pp_id :: string
  pp_name :: string
  pp_slug :: string
  pp_sku :: string
  pp_description :: string
  pp_currency :: string
  pp_price :: rat
  pp_priceMin :: rat
  pp_priceMax :: rat
  pp_compareAtPrice :: "rat option"
  pp_image :: string
  pp_images :: "string list"
  pp_categoryId :: "string option"
  pp_tags :: "string list"
  pp_inStock :: bool
  pp_totalStock :: int
  pp_options :: "(string \<times> string list) list"
  pp_variants :: "public_variant list"
  pp_priceLabel :: string
  pp_compareAtLabel :: string

definition publicVariant :: "product \<Rightarrow> variant \<Rightarrow> public_variant" where
  "publicVariant p v = \<lparr>pv_id = v_id v, pv_label = v_label v, pv_optionValues = optionValues v,
     pv_sku = v_sku v, pv_price = variantPrice v p, pv_stock = v_stock v, pv_inStock = 0 < v_stock v\<rparr>"

definition publicProjection :: "string \<Rightarrow> product \<Rightarrow> public_product" where
  "publicProjection symbol p = \<lparr>pp_id = p_id p, pp_name = p_name p, pp_slug = p_slug p, pp_sku = p_sku p,
     pp_description = p_description p, pp_currency = p_currency p, pp_price = priceMin p,
     pp_priceMin = priceMin p, pp_priceMax = priceMax p, pp_compareAtPrice = compareAtPrice p,
     pp_image = first_image p, pp_images = p_images p, pp_categoryId = categoryId p, pp_tags = p_tags p,
     pp_inStock = 0 < totalStock p, pp_totalStock = totalStock p, pp_options = p_options p,
     pp_variants = map (publicVariant p) (variants p),
     pp_priceLabel = symbol @ to_fixed2 (priceMin p),
     pp_compareAtLabel = (case compareAtPrice p of None \<Rightarrow> [] | Some c \<Rightarrow> symbol @ to_fixed2 c)\<rparr>"

record feed_args =
  fa_category :: string
  fa_tag :: string
  fa_search :: string
  fa_sort :: string
  fa_limit :: "rat option"
  fa_inStockOnly :: bool

text \<open>\<open>sgn\<close> of a difference is all that \<open>sort\<close> looks at.\<close>

definition feed_order :: "(string \<Rightarrow> string \<Rightarrow> int) \<Rightarrow> string \<Rightarrow> product \<Rightarrow> product \<Rightarrow> int" where
  "feed_order localeCompare how a b =
     (if how = ''price-asc'' then \<lfloor>sgn (priceMin a - priceMin b)\<rfloor>
      else if how = ''price-desc'' then \<lfloor>sgn (priceMin b - priceMin a)\<rfloor>
      else if how = ''newest'' then localeCompare (p_createdAt b) (p_createdAt a)
      else localeCompare (p_name a) (p_name b))"

definition feed_matches :: "feed_args \<Rightarrow> product \<Rightarrow> bool" where
  "feed_matches args p \<longleftrightarrow>
     (fa_category args = [] \<or> categoryId p = Some (fa_category args) \<or> p_slug p = fa_category args) \<and>
     (fa_tag args = [] \<or> fa_tag args \<in> set (p_tags p)) \<and>
     (fa_inStockOnly args \<longrightarrow> 0 < totalStock p) \<and>
     (let search = js_trim (js_lower (fa_search args)) in
      search = [] \<or> list_ex (\<lambda>f. js_includes (js_lower f) search)
        ([p_name p, p_sku p, p_description p] @ p_tags p))"

definition feed ::
  "(string \<Rightarrow> string \<Rightarrow> int) \<Rightarrow> feed_args \<Rightarrow> inventory \<Rightarrow> public_product list \<times> string \<times> string" where
  "feed localeCompare args st =
     (let sets = readSettings st;
          ps = map (rollups (lowStockThreshold sets)) (filter published (all_rows (items st)));
          ps = js_sort (feed_order localeCompare (fa_sort args)) (filter (feed_matches args) ps);
          limit = nat (min (max 1 \<lfloor>case fa_limit args of None \<Rightarrow> 50 | Some x \<Rightarrow> x\<rfloor>) 200);
          symbol = or_else (currencySymbol sets) ''$''
      in (map (publicProjection symbol) (take limit ps), currency sets, symbol))"

definition publicItems ::
  "(string \<Rightarrow> string \<Rightarrow> int) \<Rightarrow> feed_args \<Rightarrow> inventory \<Rightarrow> public_product list \<times> string" where
  "publicItems localeCompare args st =
     (case feed localeCompare (args\<lparr>fa_inStockOnly := True\<rparr>) st of (ps, cur, _) \<Rightarrow> (ps, cur))"

section \<open>Cart and checkout\<close>

datatype cart_line =
    RemovedLine (cl_itemId: string) (cl_variantId: string) (cl_name: string) (cl_qty: int)
  | CartLine (cl_itemId: string) (cl_variantId: string) (cl_name: string) (cl_label: string)
      (cl_image: string) (cl_sku: string) (cl_unitPrice: rat) (cl_unitPriceLabel: string)
      (cl_qty: int) (cl_usableQty: int) (cl_available: int) (cl_adjusted: bool)
      (cl_lineTotal: rat) (cl_lineTotalLabel: string)

definition line_total :: "cart_line \<Rightarrow> rat" where
  "line_total l = (case l of RemovedLine _ _ _ _ \<Rightarrow> 0 | CartLine _ _ _ _ _ _ _ _ _ _ _ _ t _ \<Rightarrow> t)"

definition cart_qty :: "rat \<Rightarrow> int" where
  "cart_qty q = (if q = of_int \<lfloor>q\<rfloor> \<and> 0 < q then min \<lfloor>q\<rfloor> 999 else 1)"

definition cartLine :: "string \<Rightarrow> inventory \<Rightarrow> raw_line \<Rightarrow> cart_line result" where
  "cartLine symbol st raw =
     (let qty = cart_qty (raw_qty raw) in
      case c_get (raw_itemId raw) (items st) of Inl e \<Rightarrow> Inl e
      | Inr None \<Rightarrow> Inr (RemovedLine (raw_itemId raw) (raw_variantId raw) ''Unavailable item'' qty)
      | Inr (Some p) \<Rightarrow>
        if \<not> published p
        then Inr (RemovedLine (raw_itemId raw) (raw_variantId raw) ''Unavailable item'' qty)
        else
          let variantId = default_variant (raw_variantId raw) p in
          (case find_variant variantId p of
             None \<Rightarrow> Inr (RemovedLine (raw_itemId raw) variantId (p_name p) qty)
           | Some v \<Rightarrow>
             let usable = max 0 (min qty (v_stock v)); unitPrice = variantPrice v p;
                 total = round2 (unitPrice * of_int usable)
             in Inr (CartLine (raw_itemId raw) variantId (p_name p)
                  (or_else (v_label v) (variantLabel (optionValues v))) (first_image p)
                  (or_else (v_sku v) (p_sku p)) unitPrice (symbol @ to_fixed2 unitPrice) qty usable
                  (v_stock v) (usable \<noteq> qty) total (symbol @ to_fixed2 total))))"

fun cart_lines :: "string \<Rightarrow> inventory \<Rightarrow> raw_line list \<Rightarrow> cart_line list result" where
  "cart_lines symbol st [] = Inr []"
| "cart_lines symbol st (r # rs) =
     (case cartLine symbol st r of Inl e \<Rightarrow> Inl e
      | Inr l \<Rightarrow> (case cart_lines symbol st rs of Inl e \<Rightarrow> Inl e | Inr ls \<Rightarrow> Inr (l # ls)))"

record cart_preview =
  cp_lines :: "cart_line list"
  cp_currency :: string
  cp_symbol :: string
  cp_subtotal :: rat
  cp_tax :: rat
  cp_taxRate :: rat
  cp_shipping :: rat
  cp_total :: rat
  cp_labels :: "string list"

definition cartPreview :: "raw_line list \<Rightarrow> inventory \<Rightarrow> cart_preview result" where
  "cartPreview requested st =
     (let sets = readSettings st; symbol = or_else (currencySymbol sets) ''$'' in
      case cart_lines symbol st (take 100 requested) of Inl e \<Rightarrow> Inl e
      | Inr lines \<Rightarrow>
        let subtotal = round2 (\<Sum>l \<leftarrow> lines. line_total l); tot = computeTotals subtotal sets None
        in Inr \<lparr>cp_lines = lines, cp_currency = currency sets, cp_symbol = symbol, cp_subtotal = subtotal,
                cp_tax = t_tax tot, cp_taxRate = taxRate sets, cp_shipping = t_shipping tot,
                cp_total = t_total tot,
                cp_labels = map (\<lambda>x. symbol @ to_fixed2 x)
                  [subtotal, t_tax tot, t_shipping tot, t_total tot]\<rparr>)"

record checkout_result =
  co_orderId :: string
  co_orderNumber :: int
  co_total :: rat
  co_totalLabel :: string

definition checkout ::
  "(nat \<Rightarrow> string) \<Rightarrow> string \<Rightarrow> raw_line list \<Rightarrow> customer \<Rightarrow> string \<Rightarrow> string \<Rightarrow>
   (inventory, checkout_result) action" where
  "checkout uuid hp raws cust note t st =
     (if js_trim hp \<noteq> []
      then (Inr \<lparr>co_orderId = [], co_orderNumber = 0, co_total = 0, co_totalLabel = []\<rparr>, st)
      else case createOrder uuid \<lparr>oa_lines = Some raws, oa_customer = cust, oa_note = note,
               oa_discount = None, oa_source = Some ''storefront''\<rparr> t st of
        (Inl e, st) \<Rightarrow> (Inl e, st)
      | (Inr o', st) \<Rightarrow>
        let symbol = or_else (currencySymbol (readSettings st)) ''$''
        in (Inr \<lparr>co_orderId = o_id o', co_orderNumber = o_number o', co_total = o_total o',
                 co_totalLabel = symbol @ to_fixed2 (o_total o')\<rparr>, st))"

section \<open>Dashboard\<close>

record order_digest =
  od_id :: string
  od_number :: int
  od_total :: rat
  od_status :: string
  od_paymentStatus :: string
  od_customer :: string
  od_createdAt :: string

record dashboard =
  d_currency :: string
  d_symbol :: string
  d_products :: nat
  d_published :: nat
  d_lowStock :: nat
  d_categories :: nat
  d_orders :: nat
  d_revenue :: rat
  d_outstanding :: rat
  d_refunded :: rat
  d_byStatus :: "(string \<times> nat) list"
  d_recent :: "order_digest list"
  d_lowStockProducts :: "(string \<times> string \<times> int) list"

text \<open>The em dash that stands for an order without name and address is written \<open>-\<close>.\<close>

definition digest :: "order \<Rightarrow> order_digest" where
  "digest o' = \<lparr>od_id = o_id o', od_number = o_number o', od_total = o_total o', od_status = o_status o',
     od_paymentStatus = paymentStatus o',
     od_customer = or_else (or_else (cu_name (o_customer o')) (cu_email (o_customer o'))) ''-'',
     od_createdAt = o_createdAt o'\<rparr>"

definition count_status :: "order list \<Rightarrow> (string \<times> nat) list" where
  "count_status os = foldl (\<lambda>acc o'.
     obj_set (o_status o') (Suc (case map_of acc (o_status o') of None \<Rightarrow> 0 | Some n \<Rightarrow> n)) acc) [] os"

definition summary :: "(string \<Rightarrow> string \<Rightarrow> int) \<Rightarrow> inventory \<Rightarrow> dashboard" where
  "summary localeCompare st =
     (let sets = readSettings st;
          products = map (rollups (lowStockThreshold sets)) (all_rows (items st));
          low = map (\<lambda>p. (p_id p, p_name p, totalStock p)) (filter lowStock products);
          os = all_rows (orders st);
          live = filter (\<lambda>o'. o_status o' \<noteq> ''cancelled'') os;
          revenue = (\<Sum>o' \<leftarrow> live. amountPaid o');
          refunded = (\<Sum>o' \<leftarrow> live. amountRefunded o');
          outstanding = (\<Sum>o' \<leftarrow> live. max 0 (o_total o' - (amountPaid o' - amountRefunded o')))
      in \<lparr>d_currency = currency sets, d_symbol = currencySymbol sets, d_products = length products,
          d_published = length (filter published products), d_lowStock = length low,
          d_categories = length (all_rows (categories st)), d_orders = length os,
          d_revenue = round2 (revenue - refunded), d_outstanding = round2 outstanding,
          d_refunded = round2 refunded, d_byStatus = count_status os,
          d_recent = map digest (take 5 (js_sort (\<lambda>a b. localeCompare (o_createdAt b) (o_createdAt a)) os)),
          d_lowStockProducts = take 10 low\<rparr>)"

end
