(* ===== verification/Inventory_Facts.thy ===== *)
theory Inventory_Facts
  imports Inventory_Shop
begin

text \<open>
  Facts about the operations of the inventory plugin: what they leave alone, what they do to the
  stock of one variant, and the invariants of orders and payments.
\<close>

section \<open>Frames\<close>

definition docs_kept :: "inventory \<Rightarrow> inventory \<Rightarrow> bool" where
  "docs_kept st st' \<longleftrightarrow> orders st' = orders st \<and> returns st' = returns st \<and> payments st' = payments st \<and>
     counters st' = counters st \<and> settings st' = settings st \<and> categories st' = categories st \<and>
     uuids st \<le> uuids st'"

lemma docs_kept_refl [simp]: "docs_kept st st"
  by (simp add: docs_kept_def)

lemma docs_kept_trans: "docs_kept a b \<Longrightarrow> docs_kept b c \<Longrightarrow> docs_kept a c"
  by (auto simp: docs_kept_def)

lemma adjustStock_docs: "docs_kept st (snd (adjustStock uuid a t st))"
  by (auto simp: adjustStock_def Let_def docs_kept_def split: sum.splits option.splits)

lemma adjust_all_docs: "docs_kept st (snd (adjust_all uuid as t st))"
proof (induction as arbitrary: st)
  case (Cons a as)
  obtain r st1 where a: "adjustStock uuid a t st = (r, st1)" by force
  then have d: "docs_kept st st1" using adjustStock_docs [of st uuid a t] by simp
  show ?case using a d Cons.IH [of st1] docs_kept_trans by (cases r) auto
qed simp

lemma adjust_lenient_Cons:
  "adjust_lenient uuid (a # as) t st = adjust_lenient uuid as t (snd (adjustStock uuid a t st))"
  by (simp add: adjust_lenient_def)

lemma adjust_lenient_Nil [simp]: "adjust_lenient uuid [] t st = st"
  by (simp add: adjust_lenient_def)

lemma adjust_lenient_docs: "docs_kept st (adjust_lenient uuid as t st)"
proof (induction as arbitrary: st)
  case (Cons a as)
  then show ?case using adjustStock_docs docs_kept_trans unfolding adjust_lenient_Cons by blast
qed simp

lemma adjust_all_inv:
  "inj uuid \<Longrightarrow> stock_inv uuid st \<Longrightarrow> stock_inv uuid (snd (adjust_all uuid as t st))"
proof (induction as arbitrary: st)
  case (Cons a as)
  obtain r st1 where a: "adjustStock uuid a t st = (r, st1)" by force
  then have "stock_inv uuid st1" using adjustStock_inv Cons.prems by blast
  then show ?case using a Cons by (cases r) auto
qed simp

lemma adjust_lenient_inv:
  "inj uuid \<Longrightarrow> stock_inv uuid st \<Longrightarrow> stock_inv uuid (adjust_lenient uuid as t st)"
proof (induction as arbitrary: st)
  case (Cons a as)
  have "stock_inv uuid (snd (adjustStock uuid a t st))"
    using adjustStock_inv [OF Cons.prems] by (metis prod.collapse)
  then show ?case using Cons unfolding adjust_lenient_Cons by blast
qed simp

section \<open>The stock of one variant\<close>

definition stock_of :: "inventory \<Rightarrow> string \<Rightarrow> string \<Rightarrow> int option" where
  "stock_of st i w = (case map_of (items st) i of None \<Rightarrow> None
     | Some p \<Rightarrow> map_option v_stock (find_variant w p))"

lemma find_set_stock:
  "find (\<lambda>v. v_id v = w) (set_stock i s vs) =
    (if w = i then map_option (\<lambda>v. v\<lparr>v_stock := s\<rparr>) (find (\<lambda>v. v_id v = w) vs)
     else find (\<lambda>v. v_id v = w) vs)"
  by (induction vs) auto

lemma stock_of_items: "items st' = items st \<Longrightarrow> stock_of st' = stock_of st"
  by (simp add: stock_of_def fun_eq_iff)

lemma stock_of_put:
  "items st' = tab_put i p (items st) \<Longrightarrow>
    stock_of st' j w = (if j = i then map_option v_stock (find_variant w p) else stock_of st j w)"
  by (simp add: stock_of_def)

text \<open>A signed change of a named variant succeeds exactly if the variant is there and has enough.\<close>

lemma line_move_adjust:
  assumes keyed: "keyed p_id (items st)" and w: "w \<noteq> []"
  shows "case adjustStock uuid (line_move i w ty reason ref n) t st of
      (Inl e, st') \<Rightarrow> st' = st \<and> (is_ok (assertSegment i ''id'') \<longrightarrow>
        (case stock_of st i w of None \<Rightarrow> True | Some s \<Rightarrow> s + n < 0))
    | (Inr _, st') \<Rightarrow> \<exists>s. stock_of st i w = Some s \<and> 0 \<le> s + n \<and>
        (\<forall>j u. stock_of st' j u = (if j = i \<and> u = w then Some (s + n) else stock_of st j u))"
proof (cases "adjustStock uuid (line_move i w ty reason ref n) t st")
  case (Pair r st')
  show ?thesis
  proof (cases r)
    case (Inl e)
    then show ?thesis using Pair w
      by (auto simp: adjustStock_def Let_def line_move_def default_variant_def stock_of_def c_get_def
          split: sum.splits option.splits if_splits)
  next
    case (Inr x)
    obtain p' m where x: "x = (p', m)" by force
    obtain p v d where a:
      "map_of (items st) i = Some p" "find_variant (default_variant w p) p = Some v"
      "d = n" "0 \<le> v_stock v + d"
      "p' = (rollups (lowStockThreshold (readSettings st))
         (p\<lparr>variants := set_stock (v_id v) (v_stock v + d) (variants p)\<rparr>))\<lparr>p_updatedAt := t\<rparr>"
      "st' = put_movement m (st\<lparr>items := tab_put (p_id p) p' (items st)\<rparr>)"
      by (rule adjustStock_Inr [OF Pair [unfolded Inr x]]) (simp add: line_move_def that)
    have i: "p_id p = i" using keyed_id [OF keyed a(1)] .
    have v: "find_variant w p = Some v" "v_id v = w"
      using a(2) w find_variant_Some by (auto simp: default_variant_def)
    have s: "stock_of st i w = Some (v_stock v)" using a(1) v by (simp add: stock_of_def)
    have "stock_of st' j u = (if j = i \<and> u = w then Some (v_stock v + n) else stock_of st j u)" for j u
      using a(1,3,6) v i
      by (auto simp: stock_of_put [where i = i and p = p'] a(5) find_variant_def find_set_stock stock_of_def)
    then show ?thesis using Pair Inr x s a(3,4) by auto
  qed
qed

text \<open>The total of a list of moves for one variant.\<close>

definition moved :: "(string \<times> string \<times> int) list \<Rightarrow> string \<Rightarrow> string \<Rightarrow> int" where
  "moved ms i w = (\<Sum>(j, u, n) \<leftarrow> ms. if j = i \<and> u = w then n else 0)"

definition mk_moves :: "string \<Rightarrow> string \<Rightarrow> string \<Rightarrow> (string \<times> string \<times> int) list \<Rightarrow> adjust_args list" where
  "mk_moves ty reason ref ms = map (\<lambda>(j, u, n). line_move j u ty reason ref n) ms"

lemma moved_Cons: "moved ((j, u, n) # ms) i w = (if j = i \<and> u = w then n else 0) + moved ms i w"
  by (simp add: moved_def)

lemma adjust_keyed:
  "keyed p_id (items st) \<Longrightarrow> keyed p_id (items (snd (adjustStock uuid a t st)))"
  by (auto simp: adjustStock_def Let_def split: sum.splits option.splits)

lemma adjust_all_stock:
  "keyed p_id (items st) \<Longrightarrow> \<forall>(j, u, n) \<in> set ms. u \<noteq> [] \<Longrightarrow>
    adjust_all uuid (mk_moves ty reason ref ms) t st = (Inr (), st') \<Longrightarrow>
    stock_of st' i w = map_option (\<lambda>s. s + moved ms i w) (stock_of st i w)"
proof (induction ms arbitrary: st)
  case Nil
  then show ?case by (simp add: mk_moves_def moved_def option.map_ident)
next
  case (Cons a ms)
  obtain j u n where a: "a = (j, u, n)" by (metis surj_pair)
  obtain r st1 where m: "adjustStock uuid (line_move j u ty reason ref n) t st = (r, st1)" by force
  then obtain x where r: "r = Inr x" "adjust_all uuid (mk_moves ty reason ref ms) t st1 = (Inr (), st')"
    using Cons.prems(3) a by (cases r) (auto simp: mk_moves_def)
  have u: "u \<noteq> []" using Cons.prems(2) a by auto
  obtain s where s: "stock_of st j u = Some s"
      "\<forall>i w. stock_of st1 i w = (if i = j \<and> w = u then Some (s + n) else stock_of st i w)"
    using line_move_adjust [OF Cons.prems(1) u, where uuid = uuid and i = j and ty = ty and reason = reason and ref = ref and n = n and t = t] m r by auto
  have "keyed p_id (items st1)" using adjust_keyed [OF Cons.prems(1)] m by (metis snd_conv)
  then have "stock_of st' i w = map_option (\<lambda>s. s + moved ms i w) (stock_of st1 i w)"
    using Cons.IH r(2) Cons.prems(2) by simp
  then show ?case using s by (auto simp: a moved_Cons option.map_comp o_def add.assoc)
qed

lemma adjust_lenient_stock:
  "keyed p_id (items st) \<Longrightarrow>
    \<forall>(j, u, n) \<in> set ms. u \<noteq> [] \<and> 0 \<le> n \<and> is_ok (assertSegment j ''id'') \<and>
      (\<exists>s \<ge> 0. stock_of st j u = Some s) \<Longrightarrow>
    st' = adjust_lenient uuid (mk_moves ty reason ref ms) t st \<Longrightarrow>
    stock_of st' i w = map_option (\<lambda>s. s + moved ms i w) (stock_of st i w)"
proof (induction ms arbitrary: st)
  case Nil
  then show ?case by (simp add: mk_moves_def moved_def option.map_ident)
next
  case (Cons a ms)
  obtain j u n where a: "a = (j, u, n)" by (metis surj_pair)
  obtain s where p: "u \<noteq> []" "0 \<le> n" "is_ok (assertSegment j ''id'')" "0 \<le> s" "stock_of st j u = Some s"
    using Cons.prems(2) a by auto
  obtain r st1 where m: "adjustStock uuid (line_move j u ty reason ref n) t st = (r, st1)" by force
  then obtain x where r: "r = Inr x"
    using line_move_adjust [OF Cons.prems(1) p(1), where uuid = uuid and i = j and ty = ty and reason = reason and ref = ref and n = n and t = t] p by (cases r) auto
  have s1: "\<forall>i w. stock_of st1 i w = (if i = j \<and> w = u then Some (s + n) else stock_of st i w)"
    using line_move_adjust [OF Cons.prems(1) p(1), where uuid = uuid and i = j and ty = ty and reason = reason and ref = ref and n = n and t = t] m r p(5) by auto
  have "\<forall>(j', u', n') \<in> set ms. u' \<noteq> [] \<and> 0 \<le> n' \<and> is_ok (assertSegment j' ''id'') \<and>
      (\<exists>s \<ge> 0. stock_of st1 j' u' = Some s)"
    using Cons.prems(2) s1 p by auto
  moreover have "keyed p_id (items st1)" using adjust_keyed [OF Cons.prems(1)] m by (metis snd_conv)
  moreover have "st' = adjust_lenient uuid (mk_moves ty reason ref ms) t st1"
    using Cons.prems(3) m by (simp add: mk_moves_def a adjust_lenient_Cons)
  ultimately have "stock_of st' i w = map_option (\<lambda>s. s + moved ms i w) (stock_of st1 i w)"
    using Cons.IH by blast
  then show ?case using s1 p(5) by (auto simp: a moved_Cons option.map_comp o_def add.assoc)
qed

end
