(* ===== verification/Inventory_Reach.thy ===== *)
theory Inventory_Reach
  imports Inventory_Facts
begin

text \<open>
  Orders and payments of the inventory plugin: what pricing accepts, the shape of a created order, the
  invariant of the stored orders, and the states the plugin reaches.
\<close>

section \<open>UUIDs\<close>

text \<open>What the code relies on from \<open>randomUUID\<close>: no repetition, and a text the storage accepts as id.\<close>

definition uuid_ok :: "(nat \<Rightarrow> string) \<Rightarrow> bool" where
  "uuid_ok uuid \<longleftrightarrow> inj uuid \<and> (\<forall>n. is_ok (assertSegment (uuid n) ''id''))"

lemma uuid_ok_inj: "uuid_ok uuid \<Longrightarrow> inj uuid"
  by (simp add: uuid_ok_def)

lemma uuid_ok_segment: "uuid_ok uuid \<Longrightarrow> is_ok (assertSegment (uuid n) ''id'')"
  by (simp add: uuid_ok_def)

lemma segment_not_Nil: "is_ok (assertSegment s k) \<Longrightarrow> s \<noteq> []"
  by (auto simp: assertSegment_def split: if_splits)

lemma c_get_ok: "is_ok (assertSegment i ''id'') \<Longrightarrow> c_get i t = Inr (map_of t i)"
  by (auto simp: c_get_def is_ok_iff)

lemma c_get_Inr: "c_get i t = Inr x \<longleftrightarrow> is_ok (assertSegment i ''id'') \<and> x = map_of t i"
  by (auto simp: c_get_def is_ok_iff split: sum.splits)

section \<open>Pricing\<close>

lemma priceLine_Inr:
  assumes "priceLine st raw = Inr l"
  obtains p v where "map_of (items st) (ol_itemId l) = Some p" "is_ok (assertSegment (ol_itemId l) ''id'')"
    "published p" "find_variant (ol_variantId l) p = Some v" "1 \<le> ol_qty l" "ol_qty l \<le> v_stock v"
    "ol_unitPrice l = variantPrice v p" "ol_lineTotal l = fromCents (toCents (ol_unitPrice l) * ol_qty l)"
    "ol_itemId l = raw_itemId raw" "raw_qty raw = of_int (ol_qty l)"
    "ol_variantId l = default_variant (raw_variantId raw) p"
  using assms
  by (auto simp: priceLine_def Let_def c_get_Inr nonNegInt_Inr split: sum.splits if_splits option.splits)

definition line_ok :: "inventory \<Rightarrow> order_line \<Rightarrow> bool" where
  "line_ok st l \<longleftrightarrow> is_ok (assertSegment (ol_itemId l) ''id'') \<and> 1 \<le> ol_qty l \<and>
     (\<exists>p v. map_of (items st) (ol_itemId l) = Some p \<and> published p \<and>
        find_variant (ol_variantId l) p = Some v \<and> ol_qty l \<le> v_stock v \<and>
        ol_unitPrice l = variantPrice v p) \<and>
     ol_lineTotal l = fromCents (toCents (ol_unitPrice l) * ol_qty l)"

lemma priceLine_ok: "priceLine st raw = Inr l \<Longrightarrow> line_ok st l"
  by (erule priceLine_Inr) (auto simp: line_ok_def)

lemma price_all_ok: "price_all st raws = Inr ls \<Longrightarrow> list_all (line_ok st) ls \<and> length ls = length raws"
  by (induction raws arbitrary: ls) (auto split: sum.splits dest: priceLine_ok)

lemma priceLines_Inr:
  assumes "priceLines st raws = Inr (ls, subtotal)"
  shows "list_all (line_ok st) ls" "ls \<noteq> []"
    "subtotal = fromCents (\<Sum>l \<leftarrow> ls. toCents (ol_unitPrice l) * ol_qty l)"
proof -
  obtain rs where r: "raws = Some rs" "rs \<noteq> []" "price_all st (take 100 rs) = Inr ls"
      "subtotal = fromCents (\<Sum>l \<leftarrow> ls. toCents (ol_lineTotal l))"
    using assms by (auto simp: priceLines_def split: option.splits if_splits sum.splits)
  show ok: "list_all (line_ok st) ls" using price_all_ok [OF r(3)] by blast
  show "ls \<noteq> []" using price_all_ok [OF r(3)] r(2) by (cases rs) auto
  have "map (\<lambda>l. toCents (ol_lineTotal l)) ls = map (\<lambda>l. toCents (ol_unitPrice l) * ol_qty l) ls"
    using ok by (auto simp: list_all_iff line_ok_def)
  then show "subtotal = fromCents (\<Sum>l \<leftarrow> ls. toCents (ol_unitPrice l) * ol_qty l)" by (simp only: r(4))
qed

text \<open>The units of a variant an order takes.\<close>

definition sold :: "order_line list \<Rightarrow> string \<Rightarrow> string \<Rightarrow> int" where
  "sold ls i w = (\<Sum>l \<leftarrow> ls. if ol_itemId l = i \<and> ol_variantId l = w then ol_qty l else 0)"

lemma moved_lines:
  "moved (map (\<lambda>l. (ol_itemId l, ol_variantId l, ol_qty l)) ls) i w = sold ls i w"
  "moved (map (\<lambda>l. (ol_itemId l, ol_variantId l, - ol_qty l)) ls) i w = - sold ls i w"
  by (induction ls) (auto simp: moved_def sold_def)

section \<open>Creating an order\<close>

lemma createOrder_eq:
  assumes "priceLines st (oa_lines args) = Inr (lines, subtotal)"
    "nextNumber ''orders'' ORDER_START st = (num, st1)"
  shows "createOrder uuid args t st =
     (if order_source args = ''storefront'' \<and> anonymous (cleanCustomer (oa_customer args))
      then (Inl (js_error ''Name and email are required to place an order''), st)
      else case adjust_all uuid (mk_moves ''sell'' (''Order #'' @ int_string num) (uuid (uuids st1))
              (map (\<lambda>l. (ol_itemId l, ol_variantId l, - ol_qty l)) lines)) t (st1\<lparr>uuids := uuids st1 + 1\<rparr>) of
          (Inl e, st2) \<Rightarrow> (Inl e, st2)
        | (Inr _, st2) \<Rightarrow>
          let order = new_order args (readSettings st) (order_source args) (uuid (uuids st1)) num lines subtotal t
          in (Inr order, st2\<lparr>orders := tab_put (uuid (uuids st1)) order (orders st2)\<rparr>))"
  by (simp add: createOrder_def assms mk_moves_def o_def Let_def)

lemma createOrder_Inr:
  assumes "createOrder uuid args t st = (Inr ord, st')"
  obtains lines subtotal num st1 st2 where
    "priceLines st (oa_lines args) = Inr (lines, subtotal)"
    "nextNumber ''orders'' ORDER_START st = (num, st1)"
    "adjust_all uuid (mk_moves ''sell'' (''Order #'' @ int_string num) (uuid (uuids st1))
       (map (\<lambda>l. (ol_itemId l, ol_variantId l, - ol_qty l)) lines)) t (st1\<lparr>uuids := uuids st1 + 1\<rparr>) = (Inr (), st2)"
    "st' = st2\<lparr>orders := tab_put (uuid (uuids st1)) ord (orders st2)\<rparr>"
    "ord = new_order args (readSettings st) (order_source args) (uuid (uuids st1)) num lines subtotal t"
proof -
  obtain lines subtotal where pl: "priceLines st (oa_lines args) = Inr (lines, subtotal)"
    using assms by (auto simp: createOrder_def Let_def split: if_splits sum.splits)
  obtain num st1 where nn: "nextNumber ''orders'' ORDER_START st = (num, st1)" by force
  let ?moves = "mk_moves ''sell'' (''Order #'' @ int_string num) (uuid (uuids st1))
      (map (\<lambda>l. (ol_itemId l, ol_variantId l, - ol_qty l)) lines)"
  obtain r2 st2 where aa: "adjust_all uuid ?moves t (st1\<lparr>uuids := uuids st1 + 1\<rparr>) = (r2, st2)"
    by (rule prod.exhaust) (rule that)
  have r2: "r2 = Inr ()" "st' = st2\<lparr>orders := tab_put (uuid (uuids st1)) ord (orders st2)\<rparr>"
      "ord = new_order args (readSettings st) (order_source args) (uuid (uuids st1)) num lines subtotal t"
    using assms unfolding createOrder_eq [OF pl nn] aa by (cases r2; auto simp: Let_def split: if_splits)+
  show thesis by (rule that [OF pl nn aa [unfolded r2(1)] r2(2,3)])
qed

lemma new_order_simps [simp]:
  "o_id (new_order args sets source i n lines subtotal t) = i"
  "o_number (new_order args sets source i n lines subtotal t) = n"
  "o_lines (new_order args sets source i n lines subtotal t) = lines"
  "o_status (new_order args sets source i n lines subtotal t) = ''pending''"
  "o_subtotal (new_order args sets source i n lines subtotal t) = subtotal"
  "o_tax (new_order args sets source i n lines subtotal t) = t_tax (computeTotals subtotal sets (oa_discount args))"
  "o_shipping (new_order args sets source i n lines subtotal t) = t_shipping (computeTotals subtotal sets (oa_discount args))"
  "o_discount (new_order args sets source i n lines subtotal t) = t_discount (computeTotals subtotal sets (oa_discount args))"
  "o_total (new_order args sets source i n lines subtotal t) = t_total (computeTotals subtotal sets (oa_discount args))"
  "amountPaid (new_order args sets source i n lines subtotal t) = 0"
  "amountRefunded (new_order args sets source i n lines subtotal t) = 0"
  "o_restocked (new_order args sets source i n lines subtotal t) = False"
  by (simp_all add: new_order_def Let_def)

lemma nextNumber_simps:
  assumes "nextNumber key start st = (num, st1)"
  shows "items st1 = items st" "movements st1 = movements st" "orders st1 = orders st"
    "returns st1 = returns st" "settings st1 = settings st" "uuids st1 = uuids st" "payments st1 = payments st"
    "counters st1 = tab_put key num (counters st)"
    "num = (case map_of (counters st) key of Some v \<Rightarrow> v | None \<Rightarrow> start - 1) + 1"
  using assms by (auto simp: nextNumber_def Let_def)

lemma createOrder_stock_inv:
  assumes inj: "inj uuid" and inv: "stock_inv uuid st" and run: "createOrder uuid args t st = (r, st')"
  shows "stock_inv uuid st'"
proof (cases "priceLines st (oa_lines args)")
  case (Inl e)
  then show ?thesis using run inv by (auto simp: createOrder_def Let_def split: if_splits)
next
  case (Inr x)
  obtain lines subtotal where x: "x = (lines, subtotal)" by force
  obtain num st1 where nn: "nextNumber ''orders'' ORDER_START st = (num, st1)" by force
  have "stock_inv uuid (st1\<lparr>uuids := uuids st1 + 1\<rparr>)"
    using nextNumber_simps [OF nn] by (intro stock_inv_cong [OF inv]) auto
  from adjust_all_inv [OF inj this] have a: "adjust_all uuid ms t (st1\<lparr>uuids := uuids st1 + 1\<rparr>) = (r, s) \<Longrightarrow>
      stock_inv uuid s" for ms r s by (metis snd_conv)
  have o: "stock_inv uuid (s\<lparr>orders := os\<rparr>)" if "stock_inv uuid s" for s os
    using that by (intro stock_inv_cong [OF that]) auto
  obtain r2 st2 where aa: "adjust_all uuid (mk_moves ''sell'' (''Order #'' @ int_string num) (uuid (uuids st1))
      (map (\<lambda>l. (ol_itemId l, ol_variantId l, - ol_qty l)) lines)) t (st1\<lparr>uuids := uuids st1 + 1\<rparr>) = (r2, st2)"
    by (rule prod.exhaust) (rule that)
  have "st' = st \<or> st' = st2 \<or> (\<exists>os. st' = st2\<lparr>orders := os\<rparr>)"
    using run unfolding createOrder_eq [OF Inr [unfolded x] nn] aa
    by (cases r2) (auto simp: Let_def split: if_splits)
  then show ?thesis using inv a [OF aa] o by auto
qed

section \<open>Stored orders\<close>

definition money_ok :: "order \<Rightarrow> bool" where
  "money_ok ord \<longleftrightarrow> (\<exists>p r. amountPaid ord = fromCents p \<and> amountRefunded ord = fromCents r \<and> 0 \<le> r \<and> r \<le> p)"

definition last_number :: "inventory \<Rightarrow> int" where
  "last_number st = (case map_of (counters st) ''orders'' of Some v \<Rightarrow> v | None \<Rightarrow> ORDER_START - 1)"

definition orders_inv :: "(nat \<Rightarrow> string) \<Rightarrow> inventory \<Rightarrow> bool" where
  "orders_inv uuid st \<longleftrightarrow> keyed o_id (orders st) \<and>
     (\<forall>ord \<in> vals (orders st). o_id ord \<in> uuid ` {..<uuids st} \<and> o_number ord \<le> last_number st \<and> money_ok ord) \<and>
     (\<forall>a \<in> vals (orders st). \<forall>b \<in> vals (orders st). o_number a = o_number b \<longrightarrow> o_id a = o_id b)"

lemma orders_inv_cong:
  assumes "orders_inv uuid st" "orders st' = orders st" "last_number st \<le> last_number st'" "uuids st \<le> uuids st'"
  shows "orders_inv uuid st'"
proof -
  have "x \<in> uuid ` {..<uuids st} \<Longrightarrow> x \<in> uuid ` {..<uuids st'}" for x using uuid_mono [OF _ assms(4)] .
  then show ?thesis using assms(1,3) unfolding orders_inv_def assms(2) by (meson order_trans)
qed

lemma docs_kept_orders: "docs_kept st st' \<Longrightarrow> orders_inv uuid st \<Longrightarrow> orders_inv uuid st'"
  by (rule orders_inv_cong) (auto simp: docs_kept_def last_number_def)

text \<open>Writing back a stored order with its id and number.\<close>

lemma put_order_inv:
  assumes inv: "orders_inv uuid st" and ord: "ord0 \<in> vals (orders st)" "o_id ord = o_id ord0"
    "o_number ord = o_number ord0" "money_ok ord"
  shows "orders_inv uuid (put_order ord st)"
proof -
  have k: "keyed o_id (orders st)" using inv by (simp add: orders_inv_def)
  have v: "vals (orders (put_order ord st)) = insert ord {w \<in> vals (orders st). o_id w \<noteq> o_id ord}"
    using values_put [OF k] by (simp add: put_order_def)
  have n: "last_number (put_order ord st) = last_number st" "uuids (put_order ord st) = uuids st"
    by (simp_all add: put_order_def last_number_def)
  have "keyed o_id (orders (put_order ord st))" using k by (auto simp: put_order_def)
  moreover have all: "o_id w \<in> uuid ` {..<uuids st} \<and> o_number w \<le> last_number st \<and> money_ok w"
    if "w \<in> vals (orders st)" for w using inv that unfolding orders_inv_def by blast
  moreover have num: "o_id a = o_id b" if "a \<in> vals (orders st)" "b \<in> vals (orders st)" "o_number a = o_number b" for a b
    using inv that unfolding orders_inv_def by blast
  moreover have "o_id ord \<in> uuid ` {..<uuids st} \<and> o_number ord \<le> last_number st"
    using all [OF ord(1)] ord(2,3) by simp
  moreover have "o_id w = o_id ord" if "w \<in> vals (orders st)" "o_number w = o_number ord" for w
    using num [OF that(1) ord(1)] that(2) ord(2,3) by simp
  ultimately show ?thesis using ord(4) unfolding orders_inv_def v n by (metis (no_types, lifting) insert_iff mem_Collect_eq)
qed

lemma get_order_Inr: "get_order i st = Inr ord \<Longrightarrow> map_of (orders st) i = Some ord"
  by (auto simp: get_order_def c_get_Inr split: sum.splits option.splits)

lemma get_order_vals: "get_order i st = Inr ord \<Longrightarrow> ord \<in> vals (orders st)"
  by (force simp: vals_def dest!: get_order_Inr map_of_SomeD)

lemma paid_cents:
  assumes "money_ok ord" "0 < amount"
  shows "money_ok (ord\<lparr>amountPaid := round2 (amountPaid ord + amount)\<rparr>)"
proof -
  obtain p r where m: "amountPaid ord = fromCents p" "amountRefunded ord = fromCents r" "0 \<le> r" "r \<le> p"
    using assms(1) by (auto simp: money_ok_def)
  have "toCents (fromCents p) \<le> toCents (fromCents p + amount)" using assms(2) by (intro toCents_mono) simp
  then show ?thesis using m by (auto simp: money_ok_def round2_cents intro!: exI)
qed

lemma refund_cents:
  assumes "money_ok ord" "0 < amount" "amount \<le> round2 (amountPaid ord - amountRefunded ord) + 1 / 10 ^ 9"
  shows "money_ok (ord\<lparr>amountRefunded := round2 (amountRefunded ord + amount)\<rparr>)"
proof -
  obtain p r where m: "amountPaid ord = fromCents p" "amountRefunded ord = fromCents r" "0 \<le> r" "r \<le> p"
    using assms(1) by (auto simp: money_ok_def)
  have "fromCents p - fromCents r = fromCents (p - r)" by (simp add: fromCents_def diff_divide_distrib)
  then have "amount \<le> fromCents (p - r) + 1 / 10 ^ 9" using assms(3) m by simp
  then have "fromCents r + amount \<le> fromCents p + 1 / 10 ^ 9"
    by (simp add: fromCents_def diff_divide_distrib)
  then have "toCents (fromCents r + amount) \<le> toCents (fromCents p + 1 / 10 ^ 9)" by (rule toCents_mono)
  also have "\<dots> = p"
    unfolding toCents_def math_round_def
    by (rule floor_unique) (simp_all add: EPSILON_def fromCents_def distrib_right)
  finally have "toCents (fromCents r + amount) \<le> p" .
  moreover have "toCents (fromCents r) \<le> toCents (fromCents r + amount)"
    using assms(2) by (intro toCents_mono) simp
  ultimately show ?thesis using m by (auto simp: money_ok_def round2_cents intro!: exI)
qed

lemma recompute_simps [simp]:
  "o_id (recomputePaymentStatus ord) = o_id ord" "o_number (recomputePaymentStatus ord) = o_number ord"
  "amountPaid (recomputePaymentStatus ord) = amountPaid ord"
  "amountRefunded (recomputePaymentStatus ord) = amountRefunded ord"
  "o_status (recomputePaymentStatus ord) = o_status ord"
  by (simp_all add: recomputePaymentStatus_def Let_def)

lemma money_ok_cong:
  "money_ok a \<Longrightarrow> amountPaid b = amountPaid a \<Longrightarrow> amountRefunded b = amountRefunded a \<Longrightarrow> money_ok b"
  by (simp add: money_ok_def)

end
