(* ===== verification/Inventory_Steps.thy ===== *)
theory Inventory_Steps
  imports Inventory_Reach
begin

text \<open>
  The inventory plugin as a transition system: one rule per operation that changes its state, the
  invariant of the stock and of the orders, and its preservation by every operation.
\<close>

definition inventory_inv :: "(nat \<Rightarrow> string) \<Rightarrow> inventory \<Rightarrow> bool" where
  "inventory_inv uuid st \<longleftrightarrow> stock_inv uuid st \<and> orders_inv uuid st"

lemma inventory_inv_empty: "inventory_inv uuid inventory_empty"
  by (simp add: inventory_inv_def stock_inv_empty orders_inv_def) (simp add: inventory_empty_def)

lemma inventory_inv_keep:
  assumes "inventory_inv uuid st" "items st' = items st" "movements st' = movements st"
    "orders st' = orders st" "last_number st \<le> last_number st'" "uuids st \<le> uuids st'"
  shows "inventory_inv uuid st'"
  using assms stock_inv_cong orders_inv_cong unfolding inventory_inv_def by metis

lemma inventory_inv_put_order:
  assumes "inventory_inv uuid st" "ord0 \<in> vals (orders st)" "o_id ord = o_id ord0"
    "o_number ord = o_number ord0" "money_ok ord"
  shows "inventory_inv uuid (put_order ord st)"
proof -
  have "stock_inv uuid (put_order ord st)"
    using assms(1) by (rule_tac stock_inv_cong [of uuid st]) (auto simp: put_order_def inventory_inv_def)
  then show ?thesis using assms put_order_inv unfolding inventory_inv_def by blast
qed

lemma stored_money: "inventory_inv uuid st \<Longrightarrow> ord \<in> vals (orders st) \<Longrightarrow> money_ok ord"
  unfolding inventory_inv_def orders_inv_def by blast

section \<open>Each operation\<close>

lemma saveItem_inventory:
  assumes "inj uuid" "inventory_inv uuid st" "ids_distinct inp" "saveItem uuid inp t st = (r, st')"
  shows "inventory_inv uuid st'"
proof -
  have s: "stock_inv uuid st' \<and> orders st' = orders st \<and> counters st' = counters st \<and> uuids st \<le> uuids st'"
    using saveItem_inv [OF assms(1) _ assms(3,4)] assms(2) by (simp add: inventory_inv_def)
  then have "orders_inv uuid st'"
    using assms(2) by (rule_tac orders_inv_cong [of uuid st]) (auto simp: inventory_inv_def last_number_def)
  then show ?thesis using s by (simp add: inventory_inv_def)
qed

lemma removeItem_inventory:
  assumes "inventory_inv uuid st" "removeItem i st = (r, st')"
  shows "inventory_inv uuid st'"
proof -
  have "st' = st \<or> (\<exists>is. st' = st\<lparr>items := is\<rparr>)"
    using assms(2) by (auto simp: removeItem_def split: if_splits sum.splits)
  then have "orders_inv uuid st'"
    using assms(1) by (rule_tac orders_inv_cong [of uuid st]) (auto simp: inventory_inv_def last_number_def)
  then show ?thesis using removeItem_inv assms unfolding inventory_inv_def by blast
qed

lemma adjustStock_inventory:
  assumes "inj uuid" "inventory_inv uuid st"
  shows "inventory_inv uuid (snd (adjustStock uuid a t st))"
  using assms adjustStock_inv [OF assms(1), of st a t] docs_kept_orders [OF adjustStock_docs]
  unfolding inventory_inv_def by (metis prod.collapse)

lemma adjust_lenient_inventory:
  assumes "inj uuid" "inventory_inv uuid st"
  shows "inventory_inv uuid (adjust_lenient uuid as t st)"
  using assms adjust_lenient_inv [OF assms(1)] docs_kept_orders [OF adjust_lenient_docs]
  unfolding inventory_inv_def by blast

lemma adjust_lenient_orders: "orders (adjust_lenient uuid as t st) = orders st"
  using adjust_lenient_docs by (simp add: docs_kept_def)

lemma createOrder_inventory:
  assumes inj: "inj uuid" and inv: "inventory_inv uuid st" and run: "createOrder uuid args t st = (r, st')"
  shows "inventory_inv uuid st'"
proof (cases "priceLines st (oa_lines args)")
  case (Inl e)
  then show ?thesis using run inv by (auto simp: createOrder_def Let_def split: if_splits)
next
  case (Inr x)
  obtain lines subtotal where x: "x = (lines, subtotal)" by force
  obtain num st1 where nn: "nextNumber ''orders'' ORDER_START st = (num, st1)" by force
  note n = nextNumber_simps [OF nn]
  let ?st1 = "st1\<lparr>uuids := uuids st1 + 1\<rparr>"
  let ?ms = "mk_moves ''sell'' (''Order #'' @ int_string num) (uuid (uuids st1))
      (map (\<lambda>l. (ol_itemId l, ol_variantId l, - ol_qty l)) lines)"
  obtain r2 st2 where aa: "adjust_all uuid ?ms t ?st1 = (r2, st2)" by (rule prod.exhaust) (rule that)
  have "docs_kept ?st1 (snd (adjust_all uuid ?ms t ?st1))" by (rule adjust_all_docs)
  then have d: "docs_kept ?st1 st2" unfolding aa by simp
  have last: "num = last_number st + 1" "last_number st1 = num"
    using n(8,9) by (auto simp: last_number_def split: option.splits)
  have o1: "orders_inv uuid ?st1"
    using inv n last by (rule_tac orders_inv_cong [of uuid st]) (auto simp: inventory_inv_def last_number_def)
  have o2: "orders_inv uuid st2" using docs_kept_orders [OF d o1] .
  have l2: "last_number st2 = num" "orders st2 = orders st" "uuids st1 < uuids st2"
    using d last(2) n(3) by (auto simp: docs_kept_def last_number_def)
  let ?o = "new_order args (readSettings st) (order_source args) (uuid (uuids st1)) num lines subtotal t"
  have "st' = st \<or> st' = st2 \<or> st' = put_order ?o st2"
    using run unfolding createOrder_eq [OF Inr [unfolded x] nn] aa
    by (cases r2) (auto simp: Let_def put_order_def split: if_splits)
  moreover have "o_id ?o = uuid (uuids st) \<and> o_number ?o = num \<and> money_ok ?o"
    using n(6) by (auto simp: money_ok_def intro!: exI [of _ 0])
  moreover have "orders_inv uuid (put_order ord st2)"
    if ord: "o_id ord = uuid (uuids st)" "o_number ord = num" "money_ok ord" for ord
  proof -
    have k: "keyed o_id (orders st2)" using o2 by (simp add: orders_inv_def)
    have v: "vals (orders (put_order ord st2)) \<subseteq> insert ord (vals (orders st2))"
      using values_put [OF k] by (auto simp: put_order_def)
    have f: "last_number (put_order ord st2) = num" "uuids (put_order ord st2) = uuids st2"
      using l2 by (simp_all add: put_order_def last_number_def)
    have all: "o_id w \<in> uuid ` {..<uuids st2} \<and> o_number w < num \<and> money_ok w" if "w \<in> vals (orders st2)" for w
    proof -
      have "w \<in> vals (orders st)" using that l2(2) by simp
      then have "o_number w \<le> last_number st" using inv unfolding inventory_inv_def orders_inv_def by blast
      then have "o_number w < num" using last(1) by simp
      moreover have "o_id w \<in> uuid ` {..<uuids st2} \<and> money_ok w" using o2 that unfolding orders_inv_def by blast
      ultimately show ?thesis by blast
    qed
    have oid: "o_id ord \<in> uuid ` {..<uuids st2}" using ord(1) l2(3) n(6) by auto
    have num: "o_id a = o_id b" if "a \<in> insert ord (vals (orders st2))" "b \<in> insert ord (vals (orders st2))"
      "o_number a = o_number b" for a b
    proof -
      have old: "o_id x = o_id y" if "x \<in> vals (orders st2)" "y \<in> vals (orders st2)" "o_number x = o_number y" for x y
        using o2 that unfolding orders_inv_def by blast
      have lt: "w \<in> vals (orders st2) \<Longrightarrow> o_number w \<noteq> num" for w using all [of w] by auto
      show ?thesis using that old [of a b] lt [of a] lt [of b] ord(2) by fastforce
    qed
    have key: "keyed o_id (orders (put_order ord st2))" using k by (auto simp: put_order_def)
    have low: "o_id w \<in> uuid ` {..<uuids st2} \<and> o_number w \<le> num \<and> money_ok w" if "w \<in> insert ord (vals (orders st2))" for w
      using that all [of w] ord(2,3) oid by auto
    show ?thesis unfolding orders_inv_def f
    proof (intro conjI ballI impI key)
      fix a b assume "a \<in> vals (orders (put_order ord st2))" "b \<in> vals (orders (put_order ord st2))"
        "o_number a = o_number b"
      then show "o_id a = o_id b" using num v by blast
    qed (use low v in blast)+
  qed
  ultimately have "orders_inv uuid st'" using inv o2 by (auto simp: inventory_inv_def)
  then show ?thesis using createOrder_stock_inv [OF inj _ run] inv by (simp add: inventory_inv_def)
qed

lemma cancelOrder_inventory:
  assumes "inj uuid" "inventory_inv uuid st" "cancelOrder uuid i restock t st = (r, st')"
  shows "inventory_inv uuid st'"
proof (cases "get_order i st")
  case (Inl e)
  then show ?thesis using assms by (simp add: cancelOrder_def)
next
  case (Inr ord)
  note v = get_order_vals [OF Inr]
  have m: "money_ok ord" using stored_money [OF assms(2) v] .
  have "\<exists>as b. st' = st \<or> st' = put_order (ord\<lparr>o_restocked := b, o_status := ''cancelled'', o_updatedAt := t\<rparr>)
      (adjust_lenient uuid as t st)"
  proof (cases "restock \<and> \<not> o_restocked ord")
    case True
    then show ?thesis using assms(3) Inr by (auto simp: cancelOrder_def Let_def split: if_splits)
  next
    case False
    then have "st' = st \<or> st' = put_order (ord\<lparr>o_restocked := o_restocked ord \<or> restock \<and> \<not> o_restocked ord,
        o_status := ''cancelled'', o_updatedAt := t\<rparr>) (adjust_lenient uuid [] t st)"
      using assms(3) Inr by (auto simp: cancelOrder_def Let_def split: if_splits)
    then show ?thesis by blast
  qed
  moreover have "inventory_inv uuid (put_order (ord\<lparr>o_restocked := b, o_status := ''cancelled'', o_updatedAt := t\<rparr>)
      (adjust_lenient uuid as t st))" for as b
    by (rule inventory_inv_put_order [OF adjust_lenient_inventory [OF assms(1,2)], of ord])
       (use v m in \<open>auto simp: adjust_lenient_orders money_ok_def\<close>)
  ultimately show ?thesis using assms(2) by auto
qed

lemma updateOrderStatus_inventory:
  assumes "inj uuid" "inventory_inv uuid st" "updateOrderStatus uuid i to restock t st = (r, st')"
  shows "inventory_inv uuid st'"
proof (cases "to = ''cancelled''")
  case True
  then show ?thesis using assms cancelOrder_inventory by (auto simp: updateOrderStatus_def split: if_splits)
next
  case False
  then have "st' = st \<or> (\<exists>ord. get_order i st = Inr ord \<and> st' = put_order (ord\<lparr>o_status := to, o_updatedAt := t\<rparr>) st)"
    using assms(3) by (auto simp: updateOrderStatus_def Let_def split: if_splits sum.splits)
  then show ?thesis
  proof (elim disjE exE conjE)
    fix ord assume g: "get_order i st = Inr ord" "st' = put_order (ord\<lparr>o_status := to, o_updatedAt := t\<rparr>) st"
    note v = get_order_vals [OF g(1)]
    show ?thesis unfolding g(2)
      by (rule inventory_inv_put_order [OF assms(2) v]) (use stored_money [OF assms(2) v] in \<open>auto simp: money_ok_def\<close>)
  qed (use assms(2) in simp)
qed

lemma put_payment_inventory: "inventory_inv uuid st \<Longrightarrow> inventory_inv uuid (put_payment p st)"
  by (rule inventory_inv_keep) (auto simp: put_payment_def last_number_def)

lemma recordPayment_shape:
  assumes "recordPayment uuid i amt meth note t st = (r, st')" "st' \<noteq> st"
  obtains ord where "get_order i st = Inr ord" "0 < amt"
    "\<exists>p ord'. st' = put_order ord' (put_payment p st) \<and> o_id ord' = o_id ord \<and> o_number ord' = o_number ord \<and>
        amountPaid ord' = round2 (amountPaid ord + amt) \<and> amountRefunded ord' = amountRefunded ord"
proof -
  obtain ord where g: "get_order i st = Inr ord"
    using assms by (auto simp: recordPayment_def split: sum.splits)
  have a: "0 < amt" using assms g by (auto simp: recordPayment_def nonNegNumber_def split: if_splits)
  let ?o = "recomputePaymentStatus (ord\<lparr>amountPaid := round2 (amountPaid ord + amt)\<rparr>)"
  let ?o' = "(if paymentStatus ?o = ''paid'' \<and> o_status ?o = ''pending'' then ?o\<lparr>o_status := ''paid''\<rparr> else ?o)\<lparr>o_updatedAt := t\<rparr>"
  have "st' = put_order ?o' (put_payment (mk_payment uuid ''payment'' ord amt meth note t st) st)"
    using assms(1) g a unfolding recordPayment_def Let_def nonNegNumber_def by simp
  moreover have "o_id ?o' = o_id ord \<and> o_number ?o' = o_number ord \<and>
      amountPaid ?o' = round2 (amountPaid ord + amt) \<and> amountRefunded ?o' = amountRefunded ord" by simp
  ultimately show thesis using that [OF g a] by blast
qed

lemma refundPayment_shape:
  assumes "refundPayment uuid i amt meth note t st = (r, st')" "st' \<noteq> st"
  obtains ord where "get_order i st = Inr ord" "0 < amt"
    "amt \<le> round2 (amountPaid ord - amountRefunded ord) + 1 / 10 ^ 9"
    "\<exists>p ord'. st' = put_order ord' (put_payment p st) \<and> o_id ord' = o_id ord \<and> o_number ord' = o_number ord \<and>
        amountPaid ord' = amountPaid ord \<and> amountRefunded ord' = round2 (amountRefunded ord + amt)"
proof -
  obtain ord where g: "get_order i st = Inr ord"
    using assms by (auto simp: refundPayment_def split: sum.splits)
  have a: "0 < amt" using assms g by (auto simp: refundPayment_def nonNegNumber_def split: if_splits)
  have m: "amt \<le> round2 (amountPaid ord - amountRefunded ord) + 1 / 10 ^ 9"
    using assms g a unfolding refundPayment_def Let_def nonNegNumber_def by (simp split: if_splits)
  let ?o = "recomputePaymentStatus (ord\<lparr>amountRefunded := round2 (amountRefunded ord + amt)\<rparr>)"
  let ?o' = "(if paymentStatus ?o = ''refunded'' then ?o\<lparr>o_status := ''refunded''\<rparr> else ?o)\<lparr>o_updatedAt := t\<rparr>"
  have "st' = put_order ?o' (put_payment (mk_payment uuid ''refund'' ord amt meth note t st) st)"
    using assms(1) g a m unfolding refundPayment_def Let_def nonNegNumber_def by (simp add: not_less [symmetric])
  moreover have "o_id ?o' = o_id ord \<and> o_number ?o' = o_number ord \<and>
      amountPaid ?o' = amountPaid ord \<and> amountRefunded ?o' = round2 (amountRefunded ord + amt)" by simp
  ultimately show thesis using that [OF g a m] by blast
qed

lemma recordPayment_inventory:
  assumes inv: "inventory_inv uuid st" and run: "recordPayment uuid i amt meth note t st = (r, st')"
  shows "inventory_inv uuid st'"
proof (cases "st' = st")
  case False
  then obtain ord where g: "get_order i st = Inr ord" "0 < amt"
      "\<exists>p ord'. st' = put_order ord' (put_payment p st) \<and> o_id ord' = o_id ord \<and> o_number ord' = o_number ord \<and>
        amountPaid ord' = round2 (amountPaid ord + amt) \<and> amountRefunded ord' = amountRefunded ord"
    by (rule recordPayment_shape [OF run])
  then obtain p ord' where s: "st' = put_order ord' (put_payment p st)" "o_id ord' = o_id ord"
      "o_number ord' = o_number ord" "amountPaid ord' = round2 (amountPaid ord + amt)"
      "amountRefunded ord' = amountRefunded ord" by blast
  note v = get_order_vals [OF g(1)]
  have "money_ok ord'"
    using money_ok_cong [OF paid_cents [OF stored_money [OF inv v] g(2)]] s(4,5) by simp
  then show ?thesis unfolding s(1)
    by (intro inventory_inv_put_order [OF put_payment_inventory [OF inv], of ord])
       (use v s in \<open>auto simp: put_payment_def\<close>)
qed (use inv in simp)

lemma refundPayment_inventory:
  assumes inv: "inventory_inv uuid st" and run: "refundPayment uuid i amt meth note t st = (r, st')"
  shows "inventory_inv uuid st'"
proof (cases "st' = st")
  case False
  then obtain ord where g: "get_order i st = Inr ord" "0 < amt"
      "amt \<le> round2 (amountPaid ord - amountRefunded ord) + 1 / 10 ^ 9"
      "\<exists>p ord'. st' = put_order ord' (put_payment p st) \<and> o_id ord' = o_id ord \<and> o_number ord' = o_number ord \<and>
        amountPaid ord' = amountPaid ord \<and> amountRefunded ord' = round2 (amountRefunded ord + amt)"
    by (rule refundPayment_shape [OF run])
  then obtain p ord' where s: "st' = put_order ord' (put_payment p st)" "o_id ord' = o_id ord"
      "o_number ord' = o_number ord" "amountPaid ord' = amountPaid ord"
      "amountRefunded ord' = round2 (amountRefunded ord + amt)" by blast
  note v = get_order_vals [OF g(1)]
  have "money_ok ord'"
    using money_ok_cong [OF refund_cents [OF stored_money [OF inv v] g(2,3)]] s(4,5) by simp
  then show ?thesis unfolding s(1)
    by (intro inventory_inv_put_order [OF put_payment_inventory [OF inv], of ord])
       (use v s in \<open>auto simp: put_payment_def\<close>)
qed (use inv in simp)

lemma put_return_inventory: "inventory_inv uuid st \<Longrightarrow> inventory_inv uuid (put_return r st)"
  by (rule inventory_inv_keep) (auto simp: put_return_def last_number_def)

lemma createReturn_inventory:
  assumes inv: "inventory_inv uuid st" and run: "createReturn uuid i raws reason restock t st = (r, st')"
  shows "inventory_inv uuid st'"
proof -
  obtain num st1 where nn: "nextNumber ''returns'' RETURN_START st = (num, st1)" by force
  note n = nextNumber_simps [OF nn]
  have "inventory_inv uuid (st1\<lparr>uuids := uuids st1 + 1\<rparr>)"
    using n by (intro inventory_inv_keep [OF inv]) (auto simp: last_number_def)
  then have "inventory_inv uuid (put_return x (st1\<lparr>uuids := uuids st1 + 1\<rparr>))" for x
    by (rule put_return_inventory)
  moreover have "st' = st \<or> (\<exists>x. st' = put_return x (st1\<lparr>uuids := uuids st1 + 1\<rparr>))"
    using run nn by (auto simp: createReturn_def Let_def split: sum.splits if_splits)
  ultimately show ?thesis using inv by auto
qed

lemma updateReturnStatus_inventory:
  assumes "inventory_inv uuid st" "updateReturnStatus i to t st = (r, st')"
  shows "inventory_inv uuid st'"
proof -
  have "st' = st \<or> (\<exists>x. st' = put_return x st)"
    using assms(2) by (auto simp: updateReturnStatus_def Let_def split: sum.splits if_splits)
  then show ?thesis using assms(1) put_return_inventory by auto
qed

lemma processReturn_inventory:
  assumes inj: "inj uuid" and inv: "inventory_inv uuid st"
    and run: "processReturn uuid i restock issue t st = (r, st')"
  shows "inventory_inv uuid st'"
proof (cases "st' = st")
  case False
  then obtain ret where g: "get_return i st = Inr ret"
    using run by (auto simp: processReturn_def split: sum.splits)
  define st0 where "st0 = adjust_lenient uuid (restock_moves ret restock) t st"
  define ret0 where "ret0 = ret\<lparr>ret_restocked := restocked_now ret restock\<rparr>"
  define nt where "nt = ''Return #'' @ int_string (ret_number ret0)"
  have i0: "inventory_inv uuid st0" unfolding st0_def by (rule adjust_lenient_inventory [OF inj inv])
  have fin: "inventory_inv uuid s'" if "finish_return x p t s = (q, s')" "inventory_inv uuid s" for x p s q s'
    using that put_return_inventory by (auto simp: finish_return_def Let_def)
  have ns: "ret_status ret \<noteq> ''refunded''" using run False g by (auto simp: processReturn_def)
  have e: "(if issue \<and> \<not> ret_refunded ret0
      then (case c_get (ret_orderId ret0) (orders st0) of Inl e \<Rightarrow> (Inl e, st0)
        | Inr ord \<Rightarrow>
          if 0 < refund_due ret0 ord
          then (case refundPayment uuid (ret_orderId ret0) (refund_due ret0 ord) (Some ''manual'') nt t st0 of
              (Inl e, st) \<Rightarrow> (Inl e, st)
            | (Inr (_, p), st) \<Rightarrow> finish_return (ret0\<lparr>ret_refunded := True\<rparr>) (Some p) t st)
          else finish_return ret0 None t st0)
      else finish_return ret0 None t st0) = (r, st')"
    using run ns g unfolding processReturn_def Let_def nt_def st0_def ret0_def by simp
  show ?thesis
  proof (cases "issue \<and> \<not> ret_refunded ret0")
    case True
    show ?thesis
    proof (cases "c_get (ret_orderId ret0) (orders st0)")
      case (Inr ord)
      obtain q s2 where q: "refundPayment uuid (ret_orderId ret0) (refund_due ret0 ord) (Some ''manual'') nt t st0 = (q, s2)" by (rule prod.exhaust) (rule that)
      have "inventory_inv uuid s2" by (rule refundPayment_inventory [OF i0 q])
      note i2 = this
      show ?thesis
      proof (cases "0 < refund_due ret0 ord")
        case due: True
        show ?thesis
        proof (cases q)
          case (Inl x)
          then show ?thesis using e True Inr due q i2 by simp
        next
          case q2: (Inr y)
          obtain o2 p where y: "y = (o2, p)" by force
          have "finish_return (ret0\<lparr>ret_refunded := True\<rparr>) (Some p) t s2 = (r, st')"
            using e True Inr due by (simp add: q q2 y)
          then show ?thesis using fin i2 by blast
        qed
      next
        case False
        then have "finish_return ret0 None t st0 = (r, st')" using e True Inr by simp
        then show ?thesis using fin i0 by blast
      qed
    qed (use e True i0 in simp)
  next
    case False
    then show ?thesis using e fin [OF _ i0] by metis
  qed
qed (use inv in simp)

section \<open>The transition system\<close>

inductive inventory_step :: "(nat \<Rightarrow> string) \<Rightarrow> inventory \<Rightarrow> inventory \<Rightarrow> bool" for uuid where
  save_item: "ids_distinct inp \<Longrightarrow> saveItem uuid inp t st = (r, st') \<Longrightarrow> inventory_step uuid st st'"
| remove_item: "removeItem i st = (r, st') \<Longrightarrow> inventory_step uuid st st'"
| adjust: "adjustStock uuid a t st = (r, st') \<Longrightarrow> inventory_step uuid st st'"
| settings: "saveSettings s c y tax sh low st = (r, st') \<Longrightarrow> inventory_step uuid st st'"
| save_category: "saveCategory uuid i n s d p t st = (r, st') \<Longrightarrow> inventory_step uuid st st'"
| remove_category: "removeCategory i st = (r, st') \<Longrightarrow> inventory_step uuid st st'"
| create_order: "createOrder uuid args t st = (r, st') \<Longrightarrow> inventory_step uuid st st'"
| check_out: "checkout uuid hp raws cust note t st = (r, st') \<Longrightarrow> inventory_step uuid st st'"
| order_status: "updateOrderStatus uuid i to b t st = (r, st') \<Longrightarrow> inventory_step uuid st st'"
| cancel: "cancelOrder uuid i b t st = (r, st') \<Longrightarrow> inventory_step uuid st st'"
| fulfill: "fulfillOrder uuid i t st = (r, st') \<Longrightarrow> inventory_step uuid st st'"
| pay: "recordPayment uuid i amt m n t st = (r, st') \<Longrightarrow> inventory_step uuid st st'"
| refund: "refundPayment uuid i amt m n t st = (r, st') \<Longrightarrow> inventory_step uuid st st'"
| create_return: "createReturn uuid i raws reason b t st = (r, st') \<Longrightarrow> inventory_step uuid st st'"
| return_status: "updateReturnStatus i to t st = (r, st') \<Longrightarrow> inventory_step uuid st st'"
| process_return: "processReturn uuid i b issue t st = (r, st') \<Longrightarrow> inventory_step uuid st st'"

inductive inventory_reachable :: "(nat \<Rightarrow> string) \<Rightarrow> inventory \<Rightarrow> bool" for uuid where
  start: "inventory_reachable uuid inventory_empty"
| step: "inventory_reachable uuid st \<Longrightarrow> inventory_step uuid st st' \<Longrightarrow> inventory_reachable uuid st'"

lemma saveSettings_inventory:
  assumes "inventory_inv uuid st" "saveSettings s c y tax sh low st = (r, st')"
  shows "inventory_inv uuid st'"
proof -
  have "items st' = items st \<and> movements st' = movements st \<and> orders st' = orders st \<and>
      counters st' = counters st \<and> uuids st' = uuids st"
    using assms(2) by (auto simp: saveSettings_def Let_def split: sum.splits if_splits)
  then show ?thesis by (intro inventory_inv_keep [OF assms(1)]) (auto simp: last_number_def)
qed

lemma saveCategory_inventory:
  assumes "inventory_inv uuid st" "saveCategory uuid i n s d p t st = (r, st')"
  shows "inventory_inv uuid st'"
proof -
  have "items st' = items st \<and> movements st' = movements st \<and> orders st' = orders st \<and>
      counters st' = counters st \<and> uuids st \<le> uuids st'"
    using assms(2) by (auto simp: saveCategory_def Let_def split: sum.splits if_splits)
  then show ?thesis by (intro inventory_inv_keep [OF assms(1)]) (auto simp: last_number_def)
qed

lemma removeCategory_inventory:
  assumes "inventory_inv uuid st" "removeCategory i st = (r, st')"
  shows "inventory_inv uuid st'"
proof -
  have "items st' = items st \<and> movements st' = movements st \<and> orders st' = orders st \<and>
      counters st' = counters st \<and> uuids st \<le> uuids st'"
    using assms(2) by (auto simp: removeCategory_def Let_def split: sum.splits if_splits)
  then show ?thesis by (intro inventory_inv_keep [OF assms(1)]) (auto simp: last_number_def)
qed

lemma checkout_inventory:
  assumes "inj uuid" "inventory_inv uuid st" "checkout uuid hp raws cust note t st = (r, st')"
  shows "inventory_inv uuid st'"
  using assms createOrder_inventory [OF assms(1,2)]
  by (auto simp: checkout_def Let_def split: if_splits prod.splits sum.splits)

lemmas inventory_ops = saveItem_inventory removeItem_inventory createOrder_inventory cancelOrder_inventory
  updateOrderStatus_inventory recordPayment_inventory refundPayment_inventory createReturn_inventory
  updateReturnStatus_inventory processReturn_inventory saveSettings_inventory saveCategory_inventory
  removeCategory_inventory checkout_inventory

lemma inventory_step_inv:
  assumes "inj uuid" "inventory_step uuid st st'" "inventory_inv uuid st"
  shows "inventory_inv uuid st'"
  using assms(2)
proof cases
  case (adjust a t r)
  then show ?thesis using adjustStock_inventory [OF assms(1,3), of a t] by simp
qed (use assms inventory_ops in \<open>(unfold fulfillOrder_def, blast)+\<close>)

lemma inventory_reachable_inv:
  "inventory_reachable uuid st \<Longrightarrow> inj uuid \<Longrightarrow> inventory_inv uuid st"
  by (induction rule: inventory_reachable.induct) (auto intro: inventory_inv_empty inventory_step_inv)

end
