(* ===== verification/Inventory_Props.thy ===== *)
theory Inventory_Props
  imports Inventory_Steps
begin

text \<open>
  The properties of the inventory plugin: the stock ledger, what an order costs and takes from stock,
  cancelling, refunds, returns, and the cart preview.
\<close>

section \<open>A concrete shop for the witnesses\<close>

definition sample_uuid :: "nat \<Rightarrow> string" where
  "sample_uuid n = replicate (Suc n) (CHR ''a'')"

lemma sample_uuid_inj: "inj sample_uuid"
  by (auto simp: sample_uuid_def inj_def dest: arg_cong [of _ _ length])

lemma no_dots: "\<not> js_includes (replicate n (CHR ''a'')) ''..''"
  by (induction n) (auto simp: js_prefix_iff)

lemma sample_uuid_ok: "uuid_ok sample_uuid"
proof -
  have "is_ok (assertSegment (sample_uuid n) k)" for n k
  proof -
    have c: "is_word_char (CHR ''a'')" by code_simp
    have "js_includes (sample_uuid n) ''..'' = False" using no_dots by (simp add: sample_uuid_def)
    then show ?thesis
      using c by (auto simp: is_ok_iff assertSegment_ok SAFE_SEGMENT_def sample_uuid_def list_all_iff)
  qed
  then show ?thesis using sample_uuid_inj by (simp add: uuid_ok_def)
qed

definition sample_product :: product_input where
  "sample_product = \<lparr>pi_id = None, pi_name = Some ''Mug'', pi_slug = None, pi_sku = None,
     pi_description = None, pi_currency = None, pi_price = Some (5 / 2), pi_compareAt = None,
     pi_categoryId = None, pi_tags = [], pi_images = [], pi_options = [], pi_variants = None,
     pi_stock = Some 5, pi_low = None, pi_seoTitle = None, pi_seoDescription = None,
     pi_published = True\<rparr>"

definition sample_variant :: variant where
  "sample_variant = \<lparr>v_id = ''aa'', optionValues = [], v_label = ''Default'', v_sku = [], v_price = None,
     v_stock = 5, v_low = None\<rparr>"

definition shop :: inventory where
  "shop = snd (saveItem sample_uuid sample_product ''2024'' inventory_empty)"

lemma shop_step: "inventory_step sample_uuid inventory_empty shop"
  unfolding shop_def
  by (rule inventory_step.save_item [OF _ prod.collapse [symmetric]])
     (simp add: ids_distinct_def sample_product_def)

lemma shop_reachable: "inventory_reachable sample_uuid shop"
  by (rule inventory_reachable.step [OF inventory_reachable.start shop_step])

lemma shop_inv: "inventory_inv sample_uuid shop"
  by (rule inventory_reachable_inv [OF shop_reachable sample_uuid_inj])

lemma shop_items: "map (\<lambda>(k, p). (k, map (\<lambda>v. (v_id v, v_stock v)) (variants p))) (items shop) = [(''a'', [(''aa'', 5)])]"
  by code_simp

section \<open>The stock ledger\<close>



section \<open>Orders\<close>

text \<open>C8: Stored orders have pairwise different numbers, none beyond the counter, and no order is ever
  refunded more than was paid on it, for any sequence of payments and refunds.\<close>

theorem orders_sound:
  assumes "inventory_reachable uuid st" "inj uuid"
  shows "(\<forall>a \<in> vals (orders st). \<forall>b \<in> vals (orders st). o_number a = o_number b \<longrightarrow> a = b) \<and>
    (\<forall>a \<in> vals (orders st). o_number a \<le> last_number st) \<and>
    (\<forall>a \<in> vals (orders st). 0 \<le> amountRefunded a \<and> amountRefunded a \<le> amountPaid a)"
proof -
  have inv: "orders_inv uuid st" using inventory_reachable_inv [OF assms] by (simp add: inventory_inv_def)
  have "a = b" if "a \<in> vals (orders st)" "b \<in> vals (orders st)" "o_number a = o_number b" for a b
  proof -
    have "o_id a = o_id b" "keyed o_id (orders st)" using inv that unfolding orders_inv_def by blast+
    then show ?thesis using that keyed_value by (metis option.inject)
  qed
  moreover have "0 \<le> amountRefunded a \<and> amountRefunded a \<le> amountPaid a" if "a \<in> vals (orders st)" for a
  proof -
    have "money_ok a" using inv that unfolding orders_inv_def by blast
    then show ?thesis by (auto simp: money_ok_def fromCents_def divide_le_cancel)
  qed
  ultimately show ?thesis using inv unfolding orders_inv_def by blast
qed

definition sample_order :: order_args where
  "sample_order = \<lparr>oa_lines = Some [\<lparr>raw_itemId = ''a'', raw_variantId = [], raw_qty = 2\<rparr>],
     oa_customer = \<lparr>cu_name = ''Ann'', cu_email = ''Ann@b.c'', cu_phone = [], cu_address = []\<rparr>,
     oa_note = [], oa_discount = None, oa_source = None\<rparr>"

definition shop_sold :: inventory where
  "shop_sold = snd (createOrder sample_uuid sample_order ''2025'' shop)"

definition shop_order :: order where
  "shop_order = (case fst (createOrder sample_uuid sample_order ''2025'' shop) of Inr x \<Rightarrow> x)"

lemma shop_order_ok: "is_ok (fst (createOrder sample_uuid sample_order ''2025'' shop))"
  by code_simp

lemma shop_run: "createOrder sample_uuid sample_order ''2025'' shop = (Inr shop_order, shop_sold)"
  using shop_order_ok by (auto simp: shop_order_def shop_sold_def is_ok_iff prod_eq_iff)

lemma shop_sold_reachable: "inventory_reachable sample_uuid shop_sold"
  by (rule inventory_reachable.step [OF shop_reachable inventory_step.create_order [OF shop_run]])

theorem orders_sound_witness:
  "\<exists>a \<in> vals (orders shop_sold). o_number a \<le> last_number shop_sold \<and> amountRefunded a \<le> amountPaid a"
proof -
  have "map fst (orders shop_sold) = [''aaaa'']" by code_simp
  then obtain a where "a \<in> vals (orders shop_sold)" by (cases "orders shop_sold") (auto simp: vals_def)
  then show ?thesis using orders_sound [OF shop_sold_reachable sample_uuid_inj] by blast
qed

text \<open>The invoice of an order, in cents.\<close>

definition goods_cents :: "order \<Rightarrow> int" where
  "goods_cents ord = (\<Sum>l \<leftarrow> o_lines ord. toCents (ol_unitPrice l) * ol_qty l)"

lemma fromCents_diff: "fromCents (a - b) = fromCents a - fromCents b"
  by (simp add: fromCents_def diff_divide_distrib)

lemma fromCents_max: "fromCents (max 0 n) = max 0 (fromCents n)"
  by (simp add: fromCents_def max_def)

lemma computeTotals_total:
  "t_total (computeTotals sub sets d) = max 0 (fromCents (toCents sub) + t_tax (computeTotals sub sets d) +
     t_shipping (computeTotals sub sets d) - t_discount (computeTotals sub sets d))"
  unfolding computeTotals_def Let_def totals.select_convs fromCents_max fromCents_add fromCents_diff by (rule refl)

text \<open>An order is billed at the stored prices, exactly to the cent: its subtotal is the sum of price
  times quantity over its lines, the tax is the stored rate of that subtotal rounded to a cent, and the
  total is subtotal plus tax plus shipping less the discount, never negative; every line is a published
  product with a positive quantity that was in stock.\<close>

theorem order_amounts:
  assumes "createOrder uuid args t st = (Inr ord, st')"
  shows "o_subtotal ord = fromCents (goods_cents ord) \<and>
    o_tax ord = fromCents (math_round (of_int (goods_cents ord) * taxRate (readSettings st) / 100)) \<and>
    o_total ord = max 0 (o_subtotal ord + o_tax ord + o_shipping ord - o_discount ord) \<and>
    o_lines ord \<noteq> [] \<and>
    (\<forall>l \<in> set (o_lines ord). 1 \<le> ol_qty l \<and> (\<exists>p v. map_of (items st) (ol_itemId l) = Some p \<and> published p \<and>
       find_variant (ol_variantId l) p = Some v \<and> ol_qty l \<le> v_stock v \<and> ol_unitPrice l = variantPrice v p))"
proof -
  obtain lines subtotal num and st1 :: inventory where c:
    "priceLines st (oa_lines args) = Inr (lines, subtotal)"
    "ord = new_order args (readSettings st) (order_source args) (uuid (uuids st1)) num lines subtotal t"
    by (rule createOrder_Inr [OF assms]) (rule that)
  note p = priceLines_Inr [OF c(1)]
  have l: "o_lines ord = lines" by (simp add: c(2))
  let ?t = "computeTotals subtotal (readSettings st) (oa_discount args)"
  have f: "o_subtotal ord = subtotal" "o_total ord = t_total ?t" "o_tax ord = t_tax ?t"
      "o_shipping ord = t_shipping ?t" "o_discount ord = t_discount ?t"
    by (simp_all add: c(2))
  have g: "subtotal = fromCents (goods_cents ord)" unfolding goods_cents_def l by (rule p(3))
  then have k: "toCents subtotal = goods_cents ord" by simp
  have "o_total ord = max 0 (o_subtotal ord + o_tax ord + o_shipping ord - o_discount ord)"
    unfolding f using computeTotals_total [of subtotal] k g by metis
  moreover have "o_tax ord = fromCents (math_round (of_int (goods_cents ord) * taxRate (readSettings st) / 100))"
    unfolding f(3) computeTotals_def Let_def k by simp
  moreover have "line_ok st l" if "l \<in> set lines" for l using p(1) that by (simp add: list_all_iff)
  ultimately show ?thesis using g f(1) p(2) l unfolding line_ok_def by metis
qed

section \<open>Stock and orders\<close>

lemma line_variant:
  assumes ok: "uuid_ok uuid" and inv: "stock_inv uuid st" and l: "line_ok st l"
  shows "ol_variantId l \<noteq> []" "\<exists>s. stock_of st (ol_itemId l) (ol_variantId l) = Some s \<and> ol_qty l \<le> s"
proof -
  obtain p v where p: "map_of (items st) (ol_itemId l) = Some p" "find_variant (ol_variantId l) p = Some v"
      "ol_qty l \<le> v_stock v" using l by (auto simp: line_ok_def)
  then show "\<exists>s. stock_of st (ol_itemId l) (ol_variantId l) = Some s \<and> ol_qty l \<le> s"
    by (simp add: stock_of_def)
  have "p \<in> vals (items st)" using map_of_SomeD [OF p(1)] by (force simp: vals_def)
  then have "stock_ok uuid st p" using inv by (simp add: stock_inv_def)
  moreover have v: "v \<in> set (variants p)" "v_id v = ol_variantId l" using find_variant_Some [OF p(2)] by auto
  ultimately obtain n where "ol_variantId l = uuid n" unfolding stock_ok_def by (metis imageE)
  then show "ol_variantId l \<noteq> []" using uuid_ok_segment [OF ok, of n] segment_not_Nil by metis
qed

lemma createOrder_stock:
  assumes ok: "uuid_ok uuid" and inv: "stock_inv uuid st" and run: "createOrder uuid args t st = (Inr ord, st')"
  shows "stock_of st' i w = map_option (\<lambda>s. s - sold (o_lines ord) i w) (stock_of st i w)"
    "list_all (line_ok st) (o_lines ord)" "map_of (orders st') (o_id ord) = Some ord"
    "o_status ord = ''pending''" "\<not> o_restocked ord" "\<exists>n. o_id ord = uuid n"
proof -
  obtain lines subtotal num st1 st2 where c:
    "priceLines st (oa_lines args) = Inr (lines, subtotal)"
    "nextNumber ''orders'' ORDER_START st = (num, st1)"
    "adjust_all uuid (mk_moves ''sell'' (''Order #'' @ int_string num) (uuid (uuids st1))
       (map (\<lambda>l. (ol_itemId l, ol_variantId l, - ol_qty l)) lines)) t (st1\<lparr>uuids := uuids st1 + 1\<rparr>) = (Inr (), st2)"
    "st' = st2\<lparr>orders := tab_put (uuid (uuids st1)) ord (orders st2)\<rparr>"
    "ord = new_order args (readSettings st) (order_source args) (uuid (uuids st1)) num lines subtotal t"
    by (rule createOrder_Inr [OF run]) (rule that)
  note n = nextNumber_simps [OF c(2)]
  have l: "o_lines ord = lines" "o_id ord = uuid (uuids st1)" by (simp_all add: c(5))
  have lok: "list_all (line_ok st) lines" using priceLines_Inr [OF c(1)] by blast
  then show "list_all (line_ok st) (o_lines ord)" by (simp add: l)
  show "map_of (orders st') (o_id ord) = Some ord" unfolding l c(4) by simp
  show "o_status ord = ''pending''" "\<not> o_restocked ord" by (simp_all add: c(5))
  show "\<exists>n. o_id ord = uuid n" using l by blast
  let ?st1 = "st1\<lparr>uuids := uuids st1 + 1\<rparr>"
  have k: "keyed p_id (items ?st1)" using inv n(1) by (simp add: stock_inv_def)
  have ne: "\<forall>(j, u, n) \<in> set (map (\<lambda>l. (ol_itemId l, ol_variantId l, - ol_qty l)) lines). u \<noteq> []"
    using lok line_variant(1) [OF ok inv] by (auto simp: list_all_iff)
  have s1: "stock_of ?st1 = stock_of st" by (rule stock_of_items) (simp add: n(1))
  have "stock_of st2 i w = map_option (\<lambda>s. s - sold lines i w) (stock_of st i w)"
    using adjust_all_stock [OF k ne c(3), of i w] unfolding moved_lines s1 by simp
  moreover have "stock_of st' = stock_of st2" by (rule stock_of_items) (simp add: c(4))
  ultimately show "stock_of st' i w = map_option (\<lambda>s. s - sold (o_lines ord) i w) (stock_of st i w)"
    by (simp add: l)
qed

lemma stock_nonneg:
  assumes "stock_inv uuid st" "stock_of st i w = Some s"
  shows "0 \<le> s"
proof -
  obtain p v where p: "map_of (items st) i = Some p" "find_variant w p = Some v" "s = v_stock v"
    using assms(2) by (auto simp: stock_of_def split: option.splits)
  have "p \<in> vals (items st)" using map_of_SomeD [OF p(1)] by (force simp: vals_def)
  then show ?thesis using assms(1) find_variant_Some [OF p(2)] p(3)
    unfolding stock_inv_def stock_ok_def by blast
qed

text \<open>A placed order takes from the stock of each variant exactly the units of its lines, and leaves
  every other variant alone.\<close>

theorem order_takes_stock:
  assumes "uuid_ok uuid" "stock_inv uuid st" "createOrder uuid args t st = (Inr ord, st')"
  shows "stock_of st' i w = map_option (\<lambda>s. s - sold (o_lines ord) i w) (stock_of st i w) \<and>
    (\<forall>s. stock_of st' i w = Some s \<longrightarrow> 0 \<le> s)"
proof -
  have "stock_inv uuid st'"
    using createOrder_stock_inv [OF uuid_ok_inj [OF assms(1)] assms(2,3)] .
  then show ?thesis using createOrder_stock(1) [OF assms] stock_nonneg by blast
qed

theorem order_takes_stock_witness:
  "stock_of shop_sold ''a'' ''aa'' = Some 3"
proof -
  have "stock_of shop ''a'' ''aa'' = Some 5" "sold (o_lines shop_order) ''a'' ''aa'' = 2" by code_simp+
  then show ?thesis
    using order_takes_stock [OF sample_uuid_ok _ shop_run, of "''a''" "''aa''"] shop_inv
    by (simp add: inventory_inv_def)
qed

text \<open>C13: Cancelling an order that has just been placed gives every unit back, so that all stock is as it
  was before the order; the order is then cancelled, and cancelling it again changes nothing.\<close>

theorem cancel_restores_stock:
  assumes ok: "uuid_ok uuid" and inv: "stock_inv uuid st"
    and run: "createOrder uuid args t st = (Inr ord, st1)"
    and cancel: "cancelOrder uuid (o_id ord) True t' st1 = (res, st2)"
  shows "stock_of st2 = stock_of st \<and> is_ok res \<and>
    (\<exists>ord'. res = Inr ord' \<and> o_status ord' = ''cancelled'' \<and>
      cancelOrder uuid (o_id ord) restock t'' st2 = (Inr ord', st2))"
proof -
  note c = createOrder_stock [OF ok inv run]
  have inv1: "stock_inv uuid st1" using createOrder_stock_inv [OF uuid_ok_inj [OF ok] inv run] .
  have seg: "is_ok (assertSegment (o_id ord) ''id'')" using c(6) uuid_ok_segment [OF ok] by metis
  have g: "get_order (o_id ord) st1 = Inr ord" using c(3) seg by (simp add: get_order_def c_get_ok)
  let ?ms = "map (\<lambda>l. (ol_itemId l, ol_variantId l, ol_qty l)) (o_lines ord)"
  define why where "why = ''Cancelled order #'' @ int_string (o_number ord)"
  define st0 where "st0 = adjust_lenient uuid (mk_moves ''return'' why (o_id ord) ?ms) t' st1"
  let ?ord = "ord\<lparr>o_restocked := True, o_status := ''cancelled'', o_updatedAt := t'\<rparr>"
  have run2: "res = Inr ?ord" "st2 = put_order ?ord st0"
    using cancel g c(4,5) by (auto simp: cancelOrder_def Let_def st0_def why_def mk_moves_def o_def)
  have "\<exists>s \<ge> 0. stock_of st1 (ol_itemId l) (ol_variantId l) = Some s" if l: "l \<in> set (o_lines ord)" for l
  proof -
    have lo: "line_ok st l" using c(2) l by (simp add: list_all_iff)
    from line_variant(2) [OF ok inv lo] obtain s where
      "stock_of st1 (ol_itemId l) (ol_variantId l) = Some s" using c(1) by auto
    then show ?thesis using stock_nonneg [OF inv1] by blast
  qed
  then have ne: "\<forall>(j, u, n) \<in> set ?ms. u \<noteq> [] \<and> 0 \<le> n \<and> is_ok (assertSegment j ''id'') \<and>
      (\<exists>s \<ge> 0. stock_of st1 j u = Some s)"
    using c(2) line_variant(1) [OF ok inv] by (auto simp: list_all_iff line_ok_def)
  have k: "keyed p_id (items st1)" using inv1 by (simp add: stock_inv_def)
  have "stock_of st0 i w = stock_of st i w" for i w
    using adjust_lenient_stock [OF k ne st0_def, of i w] unfolding moved_lines
    by (simp add: c(1) option.map_comp o_def option.map_ident)
  moreover have "stock_of st2 = stock_of st0" by (rule stock_of_items) (simp add: run2(2) put_order_def)
  moreover have "get_order (o_id ord) st2 = Inr ?ord"
    using seg by (simp add: get_order_def c_get_ok run2(2) put_order_def)
  then have "cancelOrder uuid (o_id ord) restock t'' st2 = (Inr ?ord, st2)" by (simp add: cancelOrder_def)
  ultimately show ?thesis using run2(1) by (auto simp: fun_eq_iff)
qed

theorem cancel_restores_stock_witness:
  "stock_of (snd (cancelOrder sample_uuid (o_id shop_order) True ''2026'' shop_sold)) ''a'' ''aa'' = Some 5"
proof -
  have "stock_of shop ''a'' ''aa'' = Some 5" by code_simp
  then show ?thesis
    using cancel_restores_stock [OF sample_uuid_ok _ shop_run prod.collapse [symmetric]] shop_inv
    by (simp add: inventory_inv_def)
qed

text \<open>Two lines of one order for the same variant are each checked against the whole stock: if each
  fits but not both, the order fails after the first line has already been taken, so that the units are
  gone from stock although no order exists.\<close>

theorem duplicate_lines_lose_stock:
  assumes ok: "uuid_ok uuid" and inv: "stock_inv uuid st"
    and p: "map_of (items st) i = Some p" "published p" "find_variant w p = Some v" "w \<noteq> []"
      "is_ok (assertSegment i ''id'')"
    and q: "1 \<le> q1" "1 \<le> q2" "q1 \<le> v_stock v" "q2 \<le> v_stock v" "v_stock v < q1 + q2"
    and args: "oa_source args = None"
      "oa_lines args = Some [\<lparr>raw_itemId = i, raw_variantId = w, raw_qty = of_int q1\<rparr>,
                             \<lparr>raw_itemId = i, raw_variantId = w, raw_qty = of_int q2\<rparr>]"
    and run: "createOrder uuid args t st = (res, st')"
  shows "\<not> is_ok res \<and> orders st' = orders st \<and> stock_of st i w = Some (v_stock v) \<and>
    stock_of st' i w = Some (v_stock v - q1)"
proof -
  obtain l1 l2 where l: "priceLine st \<lparr>raw_itemId = i, raw_variantId = w, raw_qty = of_int q1\<rparr> = Inr l1"
      "priceLine st \<lparr>raw_itemId = i, raw_variantId = w, raw_qty = of_int q2\<rparr> = Inr l2"
      "ol_itemId l1 = i" "ol_variantId l1 = w" "ol_qty l1 = q1" "ol_itemId l2 = i" "ol_variantId l2 = w" "ol_qty l2 = q2"
    using p q by (auto simp: priceLine_def Let_def c_get_ok nonNegInt_of_int default_variant_def)
  obtain sub where pl: "priceLines st (oa_lines args) = Inr ([l1, l2], sub)"
    using l(1,2) by (simp add: priceLines_def args(2))
  obtain num st1 where nn: "nextNumber ''orders'' ORDER_START st = (num, st1)" by force
  note n = nextNumber_simps [OF nn]
  let ?st1 = "st1\<lparr>uuids := uuids st1 + 1\<rparr>"
  let ?adj = "\<lambda>q. line_move i w ''sell'' (''Order #'' @ int_string num) (uuid (uuids st1)) (- q)"
  have k: "keyed p_id (items ?st1)" using inv n(1) by (simp add: stock_inv_def)
  have s: "stock_of st i w = Some (v_stock v)" using p(1,3) by (simp add: stock_of_def)
  have s1: "stock_of ?st1 i w = Some (v_stock v)" using s n(1) by (simp add: stock_of_def)
  obtain r2 st2 where a: "adjustStock uuid (?adj q1) t ?st1 = (r2, st2)" by (rule prod.exhaust) (rule that)
  have m1: "(\<exists>x. r2 = Inr x) \<and> stock_of st2 i w = Some (v_stock v - q1)"
    using line_move_adjust [OF k p(4), where uuid = uuid and i = i and ty = "''sell''" and reason = "''Order #'' @ int_string num"
        and ref = "uuid (uuids st1)" and n = "- q1" and t = t] s1 p(5) q(3)
    unfolding a by (cases r2) auto
  have k2: "keyed p_id (items st2)" using adjust_keyed [OF k] a by (metis snd_conv)
  obtain r3 st3 where b: "adjustStock uuid (?adj q2) t st2 = (r3, st3)" by (rule prod.exhaust) (rule that)
  have m2: "(\<exists>e. r3 = Inl e) \<and> st3 = st2"
    using line_move_adjust [OF k2 p(4), where uuid = uuid and i = i and ty = "''sell''" and reason = "''Order #'' @ int_string num"
        and ref = "uuid (uuids st1)" and n = "- q2" and t = t] m1 q(5)
    unfolding b by (cases r3) auto
  have "mk_moves ''sell'' (''Order #'' @ int_string num) (uuid (uuids st1))
      (map (\<lambda>l. (ol_itemId l, ol_variantId l, - ol_qty l)) [l1, l2]) = [?adj q1, ?adj q2]"
    by (simp add: mk_moves_def l)
  then obtain e where "adjust_all uuid (mk_moves ''sell'' (''Order #'' @ int_string num) (uuid (uuids st1))
      (map (\<lambda>l. (ol_itemId l, ol_variantId l, - ol_qty l)) [l1, l2])) t ?st1 = (Inl e, st2)"
    using a b m1 m2 by auto
  then have "res = Inl e" "st' = st2"
    using run unfolding createOrder_eq [OF pl nn] by (simp_all add: order_source_def args(1))
  moreover have "docs_kept ?st1 st2" using adjustStock_docs [of ?st1 uuid "?adj q1" t] unfolding a by simp
  ultimately show ?thesis using m1 s n(3) by (simp add: docs_kept_def)
qed

definition twice_order :: order_args where
  "twice_order = \<lparr>oa_lines = Some [\<lparr>raw_itemId = ''a'', raw_variantId = ''aa'', raw_qty = of_int 3\<rparr>,
       \<lparr>raw_itemId = ''a'', raw_variantId = ''aa'', raw_qty = of_int 3\<rparr>],
     oa_customer = \<lparr>cu_name = [], cu_email = [], cu_phone = [], cu_address = []\<rparr>,
     oa_note = [], oa_discount = None, oa_source = None\<rparr>"

theorem duplicate_lines_lose_stock_witness:
  "\<not> is_ok (fst (createOrder sample_uuid twice_order ''2025'' shop)) \<and>
   stock_of (snd (createOrder sample_uuid twice_order ''2025'' shop)) ''a'' ''aa'' = Some 2"
proof -
  have "map_option (\<lambda>p. (published p, map_option v_stock (find_variant ''aa'' p))) (map_of (items shop) ''a'') =
      Some (True, Some 5)" by code_simp
  then obtain p v where p: "map_of (items shop) ''a'' = Some p" "published p"
      "find_variant ''aa'' p = Some v" "v_stock v = 5" by auto
  have "is_ok (assertSegment ''a'' ''id'')" by code_simp
  from duplicate_lines_lose_stock [OF sample_uuid_ok _ p(1-3) _ this, of 3 3 twice_order,
      OF _ _ _ _ _ _ _ _ _ prod.collapse [symmetric]] shop_inv p(4)
  show ?thesis by (simp add: inventory_inv_def twice_order_def)
qed

section \<open>Returns\<close>

definition raw_key :: "raw_line \<Rightarrow> string" where
  "raw_key r = lineKey (raw_itemId r) (raw_variantId r)"

definition ret_key :: "return_line \<Rightarrow> string" where
  "ret_key l = lineKey (rl_itemId l) (rl_variantId l)"

lemma returnLine_Inr:
  assumes "returnLine ord st raw = Inr l"
  shows "ret_key l = raw_key raw" "1 \<le> rl_qty l"
    "\<exists>ol. order_line_of ord (ret_key l) = Some ol \<and> alreadyReturned ord st (ret_key l) + rl_qty l \<le> ol_qty ol"
proof -
  obtain ol where ol: "order_line_of ord (raw_key raw) = Some ol"
    using assms by (auto simp: returnLine_def raw_key_def Let_def split: option.splits)
  then have "lineKey (ol_itemId ol) (ol_variantId ol) = raw_key raw"
    by (auto simp: order_line_of_def find_Some_iff)
  moreover have "rl_itemId l = ol_itemId ol" "rl_variantId l = ol_variantId ol" "1 \<le> rl_qty l"
      "alreadyReturned ord st (raw_key raw) + rl_qty l \<le> ol_qty ol"
    using assms ol unfolding returnLine_def raw_key_def Let_def
    by (auto split: sum.splits if_splits)
  ultimately show "ret_key l = raw_key raw" "1 \<le> rl_qty l"
    "\<exists>ol. order_line_of ord (ret_key l) = Some ol \<and> alreadyReturned ord st (ret_key l) + rl_qty l \<le> ol_qty ol"
    using ol by (simp_all add: ret_key_def)
qed

lemma return_lines_Inr:
  "return_lines ord st raws = Inr ls \<Longrightarrow> map ret_key ls = map raw_key raws \<and>
    (\<forall>l \<in> set ls. 1 \<le> rl_qty l \<and> (\<exists>ol. order_line_of ord (ret_key l) = Some ol \<and>
       alreadyReturned ord st (ret_key l) + rl_qty l \<le> ol_qty ol))"
  by (induction raws arbitrary: ls) (auto split: sum.splits dest: returnLine_Inr)

lemma returned_once:
  assumes "distinct (map ret_key ls)" "l \<in> set ls"
  shows "(\<Sum>x \<leftarrow> filter (\<lambda>x. ret_key x = ret_key l) ls. rl_qty x) = rl_qty l"
  using assms
proof (induction ls)
  case (Cons a ls)
  show ?case
  proof (cases "a = l")
    case True
    then have "filter (\<lambda>x. ret_key x = ret_key l) ls = []"
      using Cons.prems(1) by (simp add: filter_empty_conv) (metis image_eqI)
    then show ?thesis using True by simp
  next
    case False
    then have "l \<in> set ls" using Cons.prems(2) by simp
    moreover from this have "ret_key a \<noteq> ret_key l" using Cons.prems(1) by (metis distinct.simps(2) image_eqI list.set_map list.simps(9))
    ultimately show ?thesis using Cons by simp
  qed
qed simp

text \<open>A return whose request names each order line once never takes back more units of a line than the
  order sold, counting every earlier return that was not rejected.\<close>

theorem return_bounded:
  assumes run: "createReturn uuid orderId raws reason restock t st = (Inr ret, st')"
    and once: "distinct (map raw_key raws)"
  shows "\<exists>ord. get_order orderId st = Inr ord \<and> ret_lines ret \<noteq> [] \<and>
    (\<forall>l \<in> set (ret_lines ret). \<exists>ol. order_line_of ord (ret_key l) = Some ol \<and>
       1 \<le> returned_in (ret_key l) ret \<and>
       alreadyReturned ord st (ret_key l) + returned_in (ret_key l) ret \<le> ol_qty ol)"
proof -
  obtain ord where g: "get_order orderId st = Inr ord"
    using run by (auto simp: createReturn_def split: sum.splits)
  obtain ls where ls: "return_lines ord st raws = Inr ls" "raws \<noteq> []"
    using run g by (auto simp: createReturn_def split: sum.splits if_splits)
  have r: "ret_lines ret = ls"
    using run g ls by (auto simp: createReturn_def Let_def split: prod.splits)
  note l = return_lines_Inr [OF ls(1)]
  have "returned_in (ret_key x) ret = rl_qty x" if "x \<in> set ls" for x
    using returned_once [of ls x] that l once by (simp add: returned_in_def r ret_key_def)
  moreover have "ls \<noteq> []" using l ls(2) by auto
  ultimately show ?thesis using g l r by auto
qed

definition return_request :: "raw_line list" where
  "return_request = [\<lparr>raw_itemId = ''a'', raw_variantId = ''aa'', raw_qty = 2\<rparr>]"

theorem return_bounded_witness:
  "\<exists>ret. fst (createReturn sample_uuid ''aaaa'' return_request [] True ''2026'' shop_sold) = Inr ret \<and>
    ret_lines ret \<noteq> []"
proof -
  have "is_ok (fst (createReturn sample_uuid ''aaaa'' return_request [] True ''2026'' shop_sold))" by code_simp
  then obtain ret where r: "fst (createReturn sample_uuid ''aaaa'' return_request [] True ''2026'' shop_sold) = Inr ret"
    by (auto simp: is_ok_iff)
  then have "createReturn sample_uuid ''aaaa'' return_request [] True ''2026'' shop_sold =
      (Inr ret, snd (createReturn sample_uuid ''aaaa'' return_request [] True ''2026'' shop_sold))"
    by (metis prod.collapse)
  from return_bounded [OF this] r show ?thesis by (auto simp: return_request_def)
qed

section \<open>The cart preview\<close>

definition whole_cents :: "rat \<Rightarrow> bool" where
  "whole_cents x \<longleftrightarrow> fromCents (toCents x) = x"

lemma cartLine_priceLine:
  assumes l: "priceLine st raw = Inr l" and q: "ol_qty l \<le> 999" and c: "whole_cents (ol_unitPrice l)"
  obtains cl where "cartLine symbol st raw = Inr cl" "line_total cl = ol_lineTotal l"
    "cl_qty cl = ol_qty l" "\<not> cl_adjusted cl" "cl_itemId cl = ol_itemId l" "cl_variantId cl = ol_variantId l"
proof -
  obtain p v where p: "map_of (items st) (ol_itemId l) = Some p" "is_ok (assertSegment (ol_itemId l) ''id'')"
    "published p" "find_variant (ol_variantId l) p = Some v" "1 \<le> ol_qty l" "ol_qty l \<le> v_stock v"
    "ol_unitPrice l = variantPrice v p" "ol_lineTotal l = fromCents (toCents (ol_unitPrice l) * ol_qty l)"
    "ol_itemId l = raw_itemId raw" "raw_qty raw = of_int (ol_qty l)"
    "ol_variantId l = default_variant (raw_variantId raw) p"
    by (rule priceLine_Inr [OF l]) (rule that)
  have n: "cart_qty (of_int (ol_qty l)) = ol_qty l" using p(5) q by (simp add: cart_qty_def)
  have "fromCents (toCents (variantPrice v p)) * of_int (ol_qty l) = fromCents (toCents (variantPrice v p) * ol_qty l)"
    by (simp add: fromCents_def)
  then have "variantPrice v p * of_int (ol_qty l) = ol_lineTotal l"
    using c p(7,8) by (simp add: whole_cents_def)
  then have t: "round2 (variantPrice v p * of_int (ol_qty l)) = ol_lineTotal l"
    using p(8) by simp
  show thesis
  proof (rule that)
    show "cartLine symbol st raw = Inr (CartLine (raw_itemId raw) (ol_variantId l) (p_name p)
        (or_else (v_label v) (variantLabel (optionValues v))) (first_image p)
        (or_else (v_sku v) (p_sku p)) (variantPrice v p) (symbol @ to_fixed2 (variantPrice v p)) (ol_qty l) (ol_qty l)
        (v_stock v) False (ol_lineTotal l) (symbol @ to_fixed2 (ol_lineTotal l)))"
      using p q by (simp add: cartLine_def Let_def n c_get_ok t min_def max_def)
  qed (simp_all add: line_total_def p(9))
qed

lemma cart_lines_price_all:
  assumes "price_all st raws = Inr ls" "\<forall>l \<in> set ls. ol_qty l \<le> 999 \<and> whole_cents (ol_unitPrice l)"
  shows "\<exists>cs. cart_lines symbol st raws = Inr cs \<and> map line_total cs = map ol_lineTotal ls \<and>
    map cl_qty cs = map ol_qty ls \<and> list_all (\<lambda>c. \<not> cl_adjusted c) cs"
  using assms
proof (induction raws arbitrary: ls)
  case (Cons r raws)
  obtain l ls' where l: "priceLine st r = Inr l" "price_all st raws = Inr ls'" "ls = l # ls'"
    using Cons.prems(1) by (auto split: sum.splits)
  obtain c where c: "cartLine symbol st r = Inr c" "line_total c = ol_lineTotal l" "cl_qty c = ol_qty l" "\<not> cl_adjusted c"
    by (rule cartLine_priceLine [OF l(1), of symbol]) (use Cons.prems(2) l(3) in auto)
  show ?case using Cons.IH [OF l(2)] Cons.prems(2) l(3) c by auto
qed simp

lemma sum_line_totals:
  "list_all (line_ok st) ls \<Longrightarrow>
    (\<Sum>x \<leftarrow> map ol_lineTotal ls. x) = fromCents (\<Sum>l \<leftarrow> ls. toCents (ol_unitPrice l) * ol_qty l)"
  by (induction ls) (auto simp: line_ok_def fromCents_add) 



end
