(* ===== verification/Members.thy ===== *)
theory Members
  imports Services
begin

text \<open>
  Accounts of site visitors, \<open>packages/core/src/members.ts\<close>: registration, e-mail verification,
  password and magic-link login, password reset, profiles and administration.  The state is the three
  collections and the audit trail; hashing and the configured limits are the environment; random
  values and the clock readings of a call are arguments.
\<close>

section \<open>Records and environment\<close>

datatype token_type = Email_verify | Magic_link | Pw_reset
datatype member_status = Active | Suspended

record member_account =
  ma_id :: string
  ma_email :: string
  passwordHash :: "string option"
  displayName :: string
  avatarUrl :: "string option"
  bio :: "string option"
  emailVerified :: bool
  ma_status :: member_status
  failedAttempts :: int
  lockedUntil :: "int option"
  ma_createdAt :: string
  ma_updatedAt :: string

record member_session =
  ms_id :: string
  ms_memberId :: string
  ms_expiresAt :: int
  ms_createdAt :: string

record member_token =
  mt_id :: string
  mt_memberId :: string
  mt_email :: string
  mt_type :: token_type
  mt_tokenHash :: string
  mt_expiresAt :: int
  usedAt :: "string option"
  mt_createdAt :: string

text \<open>The public view: no password hash, no lockout state.\<close>

record member =
  mem_id :: string
  mem_email :: string
  mem_displayName :: string
  mem_avatarUrl :: "string option"
  mem_bio :: "string option"
  mem_emailVerified :: bool
  mem_status :: member_status
  mem_createdAt :: string
  mem_updatedAt :: string

record member_env =
  sha256 :: "string \<Rightarrow> string"
  argon_hash :: "string \<Rightarrow> string \<Rightarrow> string"
  argon_verify :: "string \<Rightarrow> string \<Rightarrow> bool"
  dummyHash :: string
  maxAttempts :: nat
  lockoutMs :: int

record member_state =
  accounts :: "member_account coll"
  msessions :: "member_session coll"
  mtokens :: "member_token coll"
  maudit :: "audit_event list"

definition MAX_LOCKOUT_MS_member :: int where "MAX_LOCKOUT_MS_member = 24 * 60 * 60 * 1000"
definition SESSION_TTL_MS :: int where "SESSION_TTL_MS = 30 * 24 * 60 * 60 * 1000"
definition VERIFY_TOKEN_TTL_MS :: int where "VERIFY_TOKEN_TTL_MS = 24 * 60 * 60 * 1000"
definition MAGIC_TOKEN_TTL_MS :: int where "MAGIC_TOKEN_TTL_MS = 15 * 60 * 1000"
definition RESET_TOKEN_TTL_MS :: int where "RESET_TOKEN_TTL_MS = 60 * 60 * 1000"
definition MIN_PASSWORD_LENGTH_member :: nat where "MIN_PASSWORD_LENGTH_member = 8"
definition MAX_DISPLAY_NAME_LENGTH :: nat where "MAX_DISPLAY_NAME_LENGTH = 60"
definition MAX_BIO_LENGTH :: nat where "MAX_BIO_LENGTH = 500"

definition normalizeEmail_member :: "string \<Rightarrow> string" where
  "normalizeEmail_member email = js_lower (js_trim email)"

definition toPublic_member :: "member_account \<Rightarrow> member" where
  "toPublic_member r = \<lparr>mem_id = ma_id r, mem_email = ma_email r, mem_displayName = displayName r,
     mem_avatarUrl = avatarUrl r, mem_bio = bio r, mem_emailVerified = emailVerified r,
     mem_status = ma_status r, mem_createdAt = ma_createdAt r, mem_updatedAt = ma_updatedAt r\<rparr>"

definition log_member :: "audit_event \<Rightarrow> member_state \<Rightarrow> member_state" where
  "log_member e st = st\<lparr>maudit := maudit st @ [e]\<rparr>"

definition put_account :: "member_account \<Rightarrow> member_state \<Rightarrow> member_state" where
  "put_account r st = st\<lparr>accounts := tab_put (ma_id r) r (accounts st)\<rparr>"

definition put_msession :: "member_session \<Rightarrow> member_state \<Rightarrow> member_state" where
  "put_msession s st = st\<lparr>msessions := tab_put (ms_id s) s (msessions st)\<rparr>"

definition put_mtoken :: "member_token \<Rightarrow> member_state \<Rightarrow> member_state" where
  "put_mtoken r st = st\<lparr>mtokens := tab_put (mt_id r) r (mtokens st)\<rparr>"

definition password_error_member :: press_error where
  "password_error_member = PressError Validation
     (''Password must be at least '' @ nat_digits MIN_PASSWORD_LENGTH_member @ '' characters'')"

definition member_not_found :: press_error where
  "member_not_found = PressError Not_found ''Member not found''"

definition bad_credentials_member :: press_error where
  "bad_credentials_member = PressError Unauthorized ''Invalid credentials''"

section \<open>Sessions and tokens\<close>

definition findByEmail :: "string \<Rightarrow> member_state \<Rightarrow> member_account option" where
  "findByEmail email st =
     first_item (c_query (\<lambda>r. ma_email r = normalizeEmail_member email) None (accounts st))"

definition findToken :: "member_env \<Rightarrow> string \<Rightarrow> token_type \<Rightarrow> member_state \<Rightarrow> member_token option" where
  "findToken env raw type st =
     first_item (c_query (\<lambda>r. mt_tokenHash r = sha256 env raw \<and> mt_type r = type) None (mtokens st))"

definition pruneExpiredSessions :: "string \<Rightarrow> int \<Rightarrow> member_state \<Rightarrow> member_state" where
  "pruneExpiredSessions memberId now st =
     (let page = c_query (\<lambda>s. ms_memberId s = memberId) None (msessions st)
      in st\<lparr>msessions := del_all (map ms_id (filter (\<lambda>s. ms_expiresAt s \<le> now) page)) (msessions st)\<rparr>)"

definition revokeAllSessions :: "string \<Rightarrow> member_state \<Rightarrow> member_state" where
  "revokeAllSessions memberId st =
     (let page = c_query (\<lambda>s. ms_memberId s = memberId) None (msessions st)
      in st\<lparr>msessions := del_all (map ms_id page) (msessions st)\<rparr>)"

definition deleteMemberTokens :: "string \<Rightarrow> member_state \<Rightarrow> member_state" where
  "deleteMemberTokens memberId st =
     (let page = c_query (\<lambda>t. mt_memberId t = memberId) None (mtokens st)
      in st\<lparr>mtokens := del_all (map mt_id page) (mtokens st)\<rparr>)"

text \<open>\<open>raw\<close> is the base64url text of the random bytes.\<close>

definition issueSession_member :: "member_env \<Rightarrow> string \<Rightarrow> string \<Rightarrow> int \<Rightarrow> member_state \<Rightarrow> member_state" where
  "issueSession_member env memberId raw now st =
     put_msession \<lparr>ms_id = sha256 env raw, ms_memberId = memberId,
        ms_expiresAt = now + SESSION_TTL_MS, ms_createdAt = iso_string now\<rparr>
       (pruneExpiredSessions memberId now st)"

definition issueToken ::
  "member_env \<Rightarrow> string \<Rightarrow> string \<Rightarrow> token_type \<Rightarrow> int \<Rightarrow> string \<Rightarrow> string \<Rightarrow> int \<Rightarrow> member_state \<Rightarrow> member_state" where
  "issueToken env memberId email type ttlMs uuid raw now st =
     put_mtoken \<lparr>mt_id = uuid, mt_memberId = memberId, mt_email = email, mt_type = type,
       mt_tokenHash = sha256 env raw, mt_expiresAt = now + ttlMs, usedAt = None,
       mt_createdAt = iso_string now\<rparr> st"

definition bad_token :: press_error where
  "bad_token = PressError Unauthorized ''Invalid or already-used token''"

text \<open>\<open>t\<close> and \<open>t'\<close> are the readings of the expiry check and of \<open>usedAt\<close>.  (The message of an expired
  link has an em dash in the source.)\<close>

definition consumeToken ::
  "member_env \<Rightarrow> string \<Rightarrow> token_type \<Rightarrow> int \<Rightarrow> int \<Rightarrow> (member_state, member_token) action" where
  "consumeToken env raw type t t' st =
     (case findToken env raw type st of None \<Rightarrow> (Inl bad_token, st)
      | Some r \<Rightarrow>
        if usedAt r \<noteq> None then (Inl bad_token, st)
        else if mt_expiresAt r \<le> t
        then (Inl (PressError Unauthorized ''This link has expired - please request a new one''), st)
        else let r = r\<lparr>usedAt := Some (iso_string t')\<rparr> in (Inr r, put_mtoken r st))"

section \<open>Registration and verification\<close>

definition check_display_name :: "string \<Rightarrow> unit result" where
  "check_display_name name =
     (if name = [] then Inl (PressError Validation ''Display name is required'')
      else if MAX_DISPLAY_NAME_LENGTH < length name
      then Inl (PressError Validation (''Display name must be '' @ nat_digits MAX_DISPLAY_NAME_LENGTH @
             '' characters or fewer''))
      else Inr ())"

definition register ::
  "member_env \<Rightarrow> string \<Rightarrow> string \<Rightarrow> string \<Rightarrow> string \<Rightarrow> string \<Rightarrow> string \<Rightarrow> string \<Rightarrow> int \<Rightarrow> int \<Rightarrow>
   (member_state, member \<times> string) action" where
  "register env inp_email password inp_name uuid salt uuid' raw now now' st =
     (let email = normalizeEmail_member inp_email in
      if \<not> js_includes email ''@'' then (Inl (PressError Validation ''A valid email is required''), st)
      else if length password < MIN_PASSWORD_LENGTH_member then (Inl password_error_member, st)
      else let name = js_trim inp_name in
      case check_display_name name of Inl e \<Rightarrow> (Inl e, st)
      | Inr _ \<Rightarrow>
        (case findByEmail email st of
           Some _ \<Rightarrow> (Inl (PressError Conflict ''An account with this email already exists''), st)
         | None \<Rightarrow>
           let r = \<lparr>ma_id = uuid, ma_email = email, passwordHash = Some (argon_hash env salt password),
                 displayName = name, avatarUrl = None, bio = None, emailVerified = False,
                 ma_status = Active, failedAttempts = 0, lockedUntil = None,
                 ma_createdAt = iso_string now, ma_updatedAt = iso_string now\<rparr>;
               st = put_account r st;
               st = log_member (event ''member.register'' (Some uuid) [(''email'', DStr email)]) st;
               st = issueToken env uuid email Email_verify VERIFY_TOKEN_TTL_MS uuid' raw now' st
           in (Inr (toPublic_member r, raw), st)))"

definition get_account :: "string \<Rightarrow> member_state \<Rightarrow> member_account result" where
  "get_account i st =
     (case c_get i (accounts st) of Inl e \<Rightarrow> Inl e
      | Inr None \<Rightarrow> Inl member_not_found | Inr (Some r) \<Rightarrow> Inr r)"

definition verifyEmail ::
  "member_env \<Rightarrow> string \<Rightarrow> int \<Rightarrow> int \<Rightarrow> int \<Rightarrow> (member_state, member) action" where
  "verifyEmail env token t1 t2 t3 st =
     (case consumeToken env token Email_verify t1 t2 st of (Inl e, st) \<Rightarrow> (Inl e, st)
      | (Inr tr, st) \<Rightarrow>
        (case get_account (mt_memberId tr) st of Inl e \<Rightarrow> (Inl e, st)
         | Inr r \<Rightarrow>
           let r = r\<lparr>emailVerified := True, ma_updatedAt := iso_string t3\<rparr>;
               st = log_member (event ''member.email.verified'' (Some (ma_id r))
                      [(''email'', DStr (ma_email r))]) (put_account r st)
           in (Inr (toPublic_member r), st)))"

section \<open>Login\<close>

text \<open>\<open>Math.min(lockoutMs * 2 ** (tier - 1), MAX_LOCKOUT_MS_member)\<close>, for a positive number of allowed attempts.\<close>

definition lockout_backoff_member :: "member_env \<Rightarrow> int \<Rightarrow> int" where
  "lockout_backoff_member env attempts =
     (let tier = attempts div int (maxAttempts env)
      in min (lockoutMs env * 2 ^ nat (tier - 1)) MAX_LOCKOUT_MS_member)"

definition record_failure_member :: "member_env \<Rightarrow> string \<Rightarrow> int \<Rightarrow> member_account \<Rightarrow> member_state \<Rightarrow> member_state" where
  "record_failure_member env email t r st =
     (let n = failedAttempts r + 1; r = r\<lparr>failedAttempts := n\<rparr> in
      if n \<ge> int (maxAttempts env)
      then let backoff = lockout_backoff_member env n; r = r\<lparr>lockedUntil := Some (t + backoff)\<rparr>
           in log_member (event ''member.account.locked'' (Some (ma_id r))
                [(''email'', DStr email), (''attempts'', DNum n), (''lockedForMs'', DNum backoff)])
                (put_account r st)
      else log_member (event ''member.login.failed'' (Some (ma_id r))
             [(''email'', DStr email), (''attempts'', DNum n)]) (put_account r st))"

definition is_locked_member :: "member_account \<Rightarrow> int \<Rightarrow> bool" where
  "is_locked_member r t = (case lockedUntil r of None \<Rightarrow> False | Some u \<Rightarrow> u > t)"

text \<open>The hash that is checked: the account's, or the dummy one.\<close>

definition password_ok :: "member_env \<Rightarrow> member_account option \<Rightarrow> string \<Rightarrow> bool" where
  "password_ok env rec password =
     argon_verify env (case rec of None \<Rightarrow> dummyHash env
       | Some r \<Rightarrow> (case passwordHash r of None \<Rightarrow> dummyHash env | Some h \<Rightarrow> h)) password"

definition authenticate_member ::
  "member_env \<Rightarrow> string \<Rightarrow> string \<Rightarrow> string \<Rightarrow> int \<Rightarrow> int \<Rightarrow> (member_state, string \<times> member) action" where
  "authenticate_member env inp_email password raw t t' st =
     (let email = normalizeEmail_member inp_email; rec = findByEmail email st; ok = password_ok env rec password
      in case rec of None \<Rightarrow> (Inl bad_credentials_member, st)
         | Some r \<Rightarrow>
           if is_locked_member r t
           then (Inl bad_credentials_member,
                 log_member (event ''member.login.locked'' (Some (ma_id r)) [(''email'', DStr email)]) st)
           else if \<not> ok \<or> ma_status r = Suspended
           then (Inl bad_credentials_member,
                 if ma_status r \<noteq> Suspended then record_failure_member env email t r st else st)
           else if \<not> emailVerified r
           then (Inl (PressError Unauthorized ''Please verify your email address before logging in''), st)
           else
             let r = r\<lparr>failedAttempts := 0, lockedUntil := None\<rparr>;
                 st = issueSession_member env (ma_id r) raw t' (put_account r st);
                 st = log_member (event ''member.login'' (Some (ma_id r)) [(''email'', DStr email)]) st
             in (Inr (raw, toPublic_member r), st))"

definition validateSession_member :: "member_env \<Rightarrow> string \<Rightarrow> int \<Rightarrow> member_state \<Rightarrow> member option result" where
  "validateSession_member env token now st =
     (case c_get (sha256 env token) (msessions st) of Inl e \<Rightarrow> Inl e
      | Inr None \<Rightarrow> Inr None
      | Inr (Some s) \<Rightarrow>
        if ms_expiresAt s \<le> now then Inr None
        else case c_get (ms_memberId s) (accounts st) of Inl e \<Rightarrow> Inl e
        | Inr None \<Rightarrow> Inr None
        | Inr (Some r) \<Rightarrow> if ma_status r = Suspended then Inr None else Inr (Some (toPublic_member r)))"

definition logout_member :: "member_env \<Rightarrow> string \<Rightarrow> (member_state, unit) action" where
  "logout_member env token st =
     (let i = sha256 env token in
      case c_get i (msessions st) of Inl e \<Rightarrow> (Inl e, st)
      | Inr None \<Rightarrow> (Inr (), st)
      | Inr (Some s) \<Rightarrow>
        (Inr (), log_member (event ''member.logout'' (Some (ms_memberId s)) [])
                   (st\<lparr>msessions := tab_del i (msessions st)\<rparr>)))"

definition issueMagicToken ::
  "member_env \<Rightarrow> string \<Rightarrow> string \<Rightarrow> string \<Rightarrow> int \<Rightarrow> (member_state, string) action" where
  "issueMagicToken env memberId uuid raw now st =
     (case get_account memberId st of Inl e \<Rightarrow> (Inl e, st)
      | Inr r \<Rightarrow> (Inr raw, issueToken env memberId (ma_email r) Magic_link MAGIC_TOKEN_TTL_MS uuid raw now st))"

definition verifyMagicLink ::
  "member_env \<Rightarrow> string \<Rightarrow> string \<Rightarrow> int \<Rightarrow> int \<Rightarrow> int \<Rightarrow> int \<Rightarrow> (member_state, string \<times> member) action" where
  "verifyMagicLink env token raw t1 t2 t3 t4 st =
     (case consumeToken env token Magic_link t1 t2 st of (Inl e, st) \<Rightarrow> (Inl e, st)
      | (Inr tr, st) \<Rightarrow>
        (case get_account (mt_memberId tr) st of Inl e \<Rightarrow> (Inl e, st)
         | Inr r \<Rightarrow>
           if ma_status r = Suspended
           then (Inl (PressError Unauthorized ''This account has been suspended''), st)
           else
             let r' = (if emailVerified r then r
                       else r\<lparr>emailVerified := True, ma_updatedAt := iso_string t3\<rparr>);
                 st = (if emailVerified r then st else put_account r' st);
                 st = issueSession_member env (ma_id r') raw t4 st;
                 st = log_member (event ''member.login.magic'' (Some (ma_id r'))
                        [(''email'', DStr (ma_email r'))]) st
             in (Inr (raw, toPublic_member r'), st)))"

definition issuePasswordResetToken ::
  "member_env \<Rightarrow> string \<Rightarrow> string \<Rightarrow> string \<Rightarrow> int \<Rightarrow> (member_state, string) action" where
  "issuePasswordResetToken env memberId uuid raw now st =
     (case get_account memberId st of Inl e \<Rightarrow> (Inl e, st)
      | Inr r \<Rightarrow> (Inr raw, issueToken env memberId (ma_email r) Pw_reset RESET_TOKEN_TTL_MS uuid raw now st))"

definition confirmPasswordReset ::
  "member_env \<Rightarrow> string \<Rightarrow> string \<Rightarrow> string \<Rightarrow> int \<Rightarrow> int \<Rightarrow> int \<Rightarrow> (member_state, member) action" where
  "confirmPasswordReset env token newPassword salt t1 t2 t3 st =
     (if length newPassword < MIN_PASSWORD_LENGTH_member then (Inl password_error_member, st)
      else case consumeToken env token Pw_reset t1 t2 st of (Inl e, st) \<Rightarrow> (Inl e, st)
      | (Inr tr, st) \<Rightarrow>
        (case get_account (mt_memberId tr) st of Inl e \<Rightarrow> (Inl e, st)
         | Inr r \<Rightarrow>
           let r = r\<lparr>passwordHash := Some (argon_hash env salt newPassword), emailVerified := True,
                 failedAttempts := 0, lockedUntil := None, ma_updatedAt := iso_string t3\<rparr>;
               st = log_member (event ''member.password.reset'' (Some (ma_id r))
                      [(''email'', DStr (ma_email r))]) (put_account r st)
           in (Inr (toPublic_member r), st)))"

section \<open>Profiles and administration\<close>

definition getMember :: "string \<Rightarrow> member_state \<Rightarrow> member option result" where
  "getMember i st =
     (case c_get i (accounts st) of Inl e \<Rightarrow> Inl e | Inr r \<Rightarrow> Inr (map_option toPublic_member r))"

definition getMemberByEmail :: "string \<Rightarrow> member_state \<Rightarrow> member option" where
  "getMemberByEmail email st = map_option toPublic_member (findByEmail email st)"

definition updateProfile ::
  "string \<Rightarrow> string option \<Rightarrow> string option \<Rightarrow> int \<Rightarrow> (member_state, member) action" where
  "updateProfile memberId inp_name inp_bio now st =
     (case get_account memberId st of Inl e \<Rightarrow> (Inl e, st)
      | Inr r \<Rightarrow>
        (case (case inp_name of None \<Rightarrow> Inr r
               | Some n \<Rightarrow> (let name = js_trim n in
                   case check_display_name name of Inl e \<Rightarrow> Inl e | Inr _ \<Rightarrow> Inr (r\<lparr>displayName := name\<rparr>))) of
           Inl e \<Rightarrow> (Inl e, st)
         | Inr r \<Rightarrow>
           (case (case inp_bio of None \<Rightarrow> Inr r
                  | Some b \<Rightarrow> (let b = js_trim b in
                      if MAX_BIO_LENGTH < length b
                      then Inl (PressError Validation (''Bio must be '' @ nat_digits MAX_BIO_LENGTH @
                             '' characters or fewer''))
                      else Inr (r\<lparr>bio := if b = [] then None else Some b\<rparr>))) of
              Inl e \<Rightarrow> (Inl e, st)
            | Inr r \<Rightarrow>
              let r = r\<lparr>ma_updatedAt := iso_string now\<rparr> in (Inr (toPublic_member r), put_account r st))))"

definition listMembers :: "member_state \<Rightarrow> member list" where
  "listMembers st = map toPublic_member (newest_first ma_createdAt (c_query (\<lambda>_. True) None (accounts st)))"

definition setMemberStatus ::
  "string \<Rightarrow> member_status \<Rightarrow> string option \<Rightarrow> int \<Rightarrow> (member_state, member) action" where
  "setMemberStatus memberId status actorId now st =
     (case get_account memberId st of Inl e \<Rightarrow> (Inl e, st)
      | Inr r \<Rightarrow>
        let r = r\<lparr>ma_status := status, ma_updatedAt := iso_string now\<rparr>;
            st = put_account r st;
            st = (if status = Suspended then revokeAllSessions memberId st else st);
            st = log_member (event (if status = Suspended then ''member.suspend'' else ''member.activate'') actorId
                   [(''memberId'', DStr memberId), (''email'', DStr (ma_email r))]) st
        in (Inr (toPublic_member r), st))"

definition deleteMember :: "string \<Rightarrow> string option \<Rightarrow> (member_state, unit) action" where
  "deleteMember memberId actorId st =
     (case get_account memberId st of Inl e \<Rightarrow> (Inl e, st)
      | Inr r \<Rightarrow>
        let st = deleteMemberTokens memberId (revokeAllSessions memberId st);
            st = st\<lparr>accounts := tab_del memberId (accounts st)\<rparr>;
            st = log_member (event ''member.delete'' actorId
                   [(''memberId'', DStr memberId), (''email'', DStr (ma_email r))]) st
        in (Inr (), st))"

end
