(* ===== verification/Members_Facts.thy ===== *)
theory Members_Facts
  imports Members
begin

text \<open>
  Runs of the member service and the invariant they keep: every operation is a step labelled with the
  tokens it issues; accounts are well formed with unique addresses and token hashes are unique.
\<close>

section \<open>Steps and runs\<close>

inductive member_step :: "member_env \<Rightarrow> string list \<Rightarrow> member_state \<Rightarrow> member_state \<Rightarrow> bool" for env where
  register: "map_of (accounts st) uuid = None \<Longrightarrow> map_of (mtokens st) uuid' = None \<Longrightarrow>
    register env email password name uuid salt uuid' raw t t' st = (r, st') \<Longrightarrow> member_step env [raw] st st'"
| verify_email: "verifyEmail env token t1 t2 t3 st = (r, st') \<Longrightarrow> member_step env [] st st'"
| login: "authenticate_member env email password raw t t' st = (r, st') \<Longrightarrow> member_step env [] st st'"
| logout_member: "logout_member env token st = (r, st') \<Longrightarrow> member_step env [] st st'"
| magic_token: "map_of (mtokens st) uuid = None \<Longrightarrow>
    issueMagicToken env i uuid raw t st = (r, st') \<Longrightarrow> member_step env [raw] st st'"
| magic_login: "verifyMagicLink env token raw t1 t2 t3 t4 st = (r, st') \<Longrightarrow> member_step env [] st st'"
| reset_token: "map_of (mtokens st) uuid = None \<Longrightarrow>
    issuePasswordResetToken env i uuid raw t st = (r, st') \<Longrightarrow> member_step env [raw] st st'"
| reset: "confirmPasswordReset env token pw salt t1 t2 t3 st = (r, st') \<Longrightarrow> member_step env [] st st'"
| profile: "updateProfile i n b t st = (r, st') \<Longrightarrow> member_step env [] st st'"
| set_status: "setMemberStatus i s actor t st = (r, st') \<Longrightarrow> member_step env [] st st'"
| delete: "deleteMember i actor st = (r, st') \<Longrightarrow> member_step env [] st st'"

text \<open>A run, with the tokens issued in its course.\<close>

inductive member_run :: "member_env \<Rightarrow> string list \<Rightarrow> member_state \<Rightarrow> member_state \<Rightarrow> bool" for env where
  refl: "member_run env [] st st"
| step: "member_run env raws st st' \<Longrightarrow> member_step env ws st' st'' \<Longrightarrow> member_run env (raws @ ws) st st''"

definition member_empty :: member_state where
  "member_empty = \<lparr>accounts = [], msessions = [], mtokens = [], maudit = []\<rparr>"

section \<open>Well-formed accounts\<close>

definition name_ok :: "string \<Rightarrow> bool" where
  "name_ok n \<longleftrightarrow> n \<noteq> [] \<and> length n \<le> MAX_DISPLAY_NAME_LENGTH \<and> js_trim n = n"

definition bio_ok :: "string option \<Rightarrow> bool" where
  "bio_ok b \<longleftrightarrow> (case b of None \<Rightarrow> True | Some s \<Rightarrow> s \<noteq> [] \<and> length s \<le> MAX_BIO_LENGTH \<and> js_trim s = s)"

definition account_ok :: "member_account \<Rightarrow> bool" where
  "account_ok r \<longleftrightarrow> (\<exists>e. ma_email r = normalizeEmail_member e) \<and> js_includes (ma_email r) ''@'' \<and>
     name_ok (displayName r) \<and> bio_ok (bio r) \<and> passwordHash r \<noteq> None \<and> 0 \<le> failedAttempts r"

definition accounts_inv :: "member_account coll \<Rightarrow> bool" where
  "accounts_inv t \<longleftrightarrow> keyed ma_id t \<and> (\<forall>r \<in> vals t. account_ok r) \<and>
     (\<forall>a \<in> vals t. \<forall>b \<in> vals t. ma_email a = ma_email b \<longrightarrow> ma_id a = ma_id b)"

text \<open>The ways an operation changes the accounts.\<close>

inductive account_effect :: "member_account coll \<Rightarrow> member_account coll \<Rightarrow> bool" for t where
  same: "account_effect t t"
| upd: "r0 \<in> vals t \<Longrightarrow> ma_id r = ma_id r0 \<Longrightarrow> ma_email r = ma_email r0 \<Longrightarrow> account_ok r \<Longrightarrow>
    account_effect t (tab_put (ma_id r) r t)"
| new: "map_of t (ma_id r) = None \<Longrightarrow> account_ok r \<Longrightarrow> \<forall>q \<in> vals t. ma_email q \<noteq> ma_email r \<Longrightarrow>
    account_effect t (tab_put (ma_id r) r t)"
| del: "account_effect t (tab_del i t)"

lemma account_effect_inv:
  assumes "account_effect t t'" "accounts_inv t"
  shows "accounts_inv t'"
  using assms
proof cases
  case (upd r0 r)
  have k: "keyed ma_id t" using assms(2) by (simp add: accounts_inv_def)
  have v: "vals t' = insert r {w \<in> vals t. ma_id w \<noteq> ma_id r}" unfolding upd by (rule values_put [OF k])
  have u: "ma_id a = ma_id b" if "a \<in> vals t" "b \<in> vals t" "ma_email a = ma_email b" for a b
    using assms(2) that unfolding accounts_inv_def by blast
  have e: "ma_id w = ma_id r" if "w \<in> vals t" "ma_email w = ma_email r" for w
    using u [OF that(1) upd(2)] that(2) upd(3,4) by simp
  have "keyed ma_id t'" unfolding upd(1) using k by blast
  moreover have "\<forall>w \<in> vals t'. account_ok w" using assms(2) upd(5) unfolding accounts_inv_def v by blast
  moreover have "ma_id a = ma_id b" if "a \<in> vals t'" "b \<in> vals t'" "ma_email a = ma_email b" for a b
    using that u e unfolding v by (metis (no_types, lifting) insert_iff mem_Collect_eq)
  ultimately show ?thesis unfolding accounts_inv_def by blast
next
  case (new r)
  have k: "keyed ma_id t" using assms(2) by (simp add: accounts_inv_def)
  have v: "vals t' = insert r {w \<in> vals t. ma_id w \<noteq> ma_id r}" unfolding new by (rule values_put [OF k])
  have u: "ma_id a = ma_id b" if "a \<in> vals t" "b \<in> vals t" "ma_email a = ma_email b" for a b
    using assms(2) that unfolding accounts_inv_def by blast
  have "keyed ma_id t'" unfolding new(1) using k by blast
  moreover have "\<forall>w \<in> vals t'. account_ok w" using assms(2) new(3) unfolding accounts_inv_def v by blast
  moreover have "ma_id a = ma_id b" if "a \<in> vals t'" "b \<in> vals t'" "ma_email a = ma_email b" for a b
    using that u new(4) unfolding v by (metis (no_types, lifting) insert_iff mem_Collect_eq)
  ultimately show ?thesis unfolding accounts_inv_def by blast
next
  case (del i)
  have k: "keyed ma_id t" using assms(2) by (simp add: accounts_inv_def)
  have v: "vals t' = {w \<in> vals t. ma_id w \<noteq> i}" unfolding del by (rule values_del [OF k])
  show ?thesis using assms(2) k del unfolding accounts_inv_def v by auto
next
  case same
  then show ?thesis using assms(2) by simp
qed

section \<open>Tokens\<close>

definition tokens_inv :: "member_env \<Rightarrow> string list \<Rightarrow> member_token coll \<Rightarrow> bool" where
  "tokens_inv env raws t \<longleftrightarrow> keyed mt_id t \<and>
     (\<forall>a \<in> vals t. mt_tokenHash a \<in> sha256 env ` set raws) \<and>
     (\<forall>a \<in> vals t. \<forall>b \<in> vals t. mt_tokenHash a = mt_tokenHash b \<longrightarrow> a = b)"

inductive token_effect :: "member_env \<Rightarrow> string list \<Rightarrow> member_token coll \<Rightarrow> member_token coll \<Rightarrow> bool" for env ws t where
  same: "token_effect env ws t t"
| spend: "r \<in> vals t \<Longrightarrow> token_effect env ws t (tab_put (mt_id r) (r\<lparr>usedAt := Some u\<rparr>) t)"
| new: "map_of t (mt_id r) = None \<Longrightarrow> ws = [raw] \<Longrightarrow> mt_tokenHash r = sha256 env raw \<Longrightarrow>
    token_effect env ws t (tab_put (mt_id r) r t)"
| del: "token_effect env ws t (del_all ids t)"

lemma tokens_inv_mono: "tokens_inv env raws t \<Longrightarrow> set raws \<subseteq> set raws' \<Longrightarrow> tokens_inv env raws' t"
  unfolding tokens_inv_def by blast

lemma token_effect_inv:
  assumes "token_effect env ws t t'" "tokens_inv env raws t" "distinct (map (sha256 env) (raws @ ws))"
  shows "tokens_inv env (raws @ ws) t'"
  using assms(1)
proof cases
  case same
  then show ?thesis using tokens_inv_mono [OF assms(2), of "raws @ ws"] by simp
next
  case (spend r u)
  have k: "keyed mt_id t" using assms(2) by (simp add: tokens_inv_def)
  have v: "vals t' = insert (r\<lparr>usedAt := Some u\<rparr>) {w \<in> vals t. mt_id w \<noteq> mt_id r}"
    unfolding spend by (rule values_put [OF k])
  have "mt_tokenHash w \<noteq> mt_tokenHash r" if "w \<in> vals t" "mt_id w \<noteq> mt_id r" for w
    using assms(2) that spend(2) unfolding tokens_inv_def by metis
  then show ?thesis using assms(2) k spend unfolding tokens_inv_def v by auto
next
  case (new r raw)
  have k: "keyed mt_id t" using assms(2) by (simp add: tokens_inv_def)
  have v: "vals t' = insert r {w \<in> vals t. mt_id w \<noteq> mt_id r}" unfolding new by (rule values_put [OF k])
  have "sha256 env raw \<notin> sha256 env ` set raws" using assms(3) new(3) by auto
  then have "mt_tokenHash w \<noteq> mt_tokenHash r" if "w \<in> vals t" for w
    using assms(2) that new(4) unfolding tokens_inv_def by metis
  then show ?thesis using assms(2) k new unfolding tokens_inv_def v by auto
next
  case (del ids)
  have k: "keyed mt_id t" using assms(2) by (simp add: tokens_inv_def)
  have v: "vals t' = {w \<in> vals t. mt_id w \<notin> set ids}" unfolding del by (rule values_del_all [OF k])
  show ?thesis using assms(2) k del unfolding tokens_inv_def v by auto
qed

text \<open>A token that can no longer be used: no row with its hash is unused.\<close>

definition spent :: "string \<Rightarrow> member_token coll \<Rightarrow> bool" where
  "spent h t \<longleftrightarrow> (\<forall>r \<in> vals t. mt_tokenHash r = h \<longrightarrow> usedAt r \<noteq> None)"

lemma token_effect_spent:
  assumes "token_effect env ws t t'" "keyed mt_id t" "spent h t" "h \<notin> sha256 env ` set ws"
  shows "spent h t'"
  using assms(1)
proof cases
  case (spend r u)
  then show ?thesis using assms(3) by (auto simp: spent_def values_put [OF assms(2)])
next
  case (new r raw)
  then show ?thesis using assms(3,4) by (auto simp: spent_def values_put [OF assms(2)])
next
  case (del ids)
  then show ?thesis using assms(3) by (auto simp: spent_def values_del_all [OF assms(2)])
qed (use assms in simp)

section \<open>Frames\<close>

lemma member_frames [simp]:
  "accounts (log_member e st) = accounts st" "mtokens (log_member e st) = mtokens st"
  "msessions (log_member e st) = msessions st"
  "mtokens (put_account r st) = mtokens st" "msessions (put_account r st) = msessions st"
  "accounts (put_account r st) = tab_put (ma_id r) r (accounts st)"
  "accounts (put_msession s st) = accounts st" "mtokens (put_msession s st) = mtokens st"
  "accounts (put_mtoken k st) = accounts st" "msessions (put_mtoken k st) = msessions st"
  "mtokens (put_mtoken k st) = tab_put (mt_id k) k (mtokens st)"
  "accounts (pruneExpiredSessions i t st) = accounts st" "mtokens (pruneExpiredSessions i t st) = mtokens st"
  "accounts (revokeAllSessions i st) = accounts st" "mtokens (revokeAllSessions i st) = mtokens st"
  "accounts (issueSession_member env i raw t st) = accounts st" "mtokens (issueSession_member env i raw t st) = mtokens st"
  "accounts (issueToken env i em ty ttl uu raw t st) = accounts st"
  "accounts (deleteMemberTokens i st) = accounts st"
  by (simp_all add: log_member_def put_account_def put_msession_def put_mtoken_def issueSession_member_def
      pruneExpiredSessions_def revokeAllSessions_def issueToken_def deleteMemberTokens_def Let_def)

lemma issueToken_tokens:
  "mtokens (issueToken env i em ty ttl uu raw t st) =
     tab_put uu \<lparr>mt_id = uu, mt_memberId = i, mt_email = em, mt_type = ty, mt_tokenHash = sha256 env raw,
       mt_expiresAt = t + ttl, usedAt = None, mt_createdAt = iso_string t\<rparr> (mtokens st)"
  by (simp add: issueToken_def)

lemma token_effect_issue:
  "map_of (mtokens st) uu = None \<Longrightarrow>
    token_effect env [raw] (mtokens st) (mtokens (issueToken env i em ty ttl uu raw t st))"
  using token_effect.new [of "mtokens st" "\<lparr>mt_id = uu, mt_memberId = i, mt_email = em, mt_type = ty,
        mt_tokenHash = sha256 env raw, mt_expiresAt = t + ttl, usedAt = None, mt_createdAt = iso_string t\<rparr>"
      "[raw]" raw env]
  unfolding issueToken_tokens by simp

lemma findToken_Some:
  "findToken env raw ty st = Some r \<Longrightarrow> r \<in> vals (mtokens st) \<and> mt_tokenHash r = sha256 env raw \<and> mt_type r = ty"
  unfolding findToken_def by (drule first_query_Some) simp

lemma consumeToken_cases:
  assumes "consumeToken env raw ty t t' st = (res, st')"
  obtains (bad) e where "res = Inl e" "st' = st"
  | (ok) r where "findToken env raw ty st = Some r" "usedAt r = None" "t < mt_expiresAt r"
      "res = Inr (r\<lparr>usedAt := Some (iso_string t')\<rparr>)"
      "st' = put_mtoken (r\<lparr>usedAt := Some (iso_string t')\<rparr>) st"
  using assms by (auto simp: consumeToken_def Let_def not_le split: option.splits if_splits)

lemma consumeToken_effect:
  assumes "consumeToken env raw ty t t' st = (res, st')"
  shows "accounts st' = accounts st" "msessions st' = msessions st" "token_effect env ws (mtokens st) (mtokens st')"
proof -
  have "accounts st' = accounts st \<and> msessions st' = msessions st \<and> token_effect env ws (mtokens st) (mtokens st')"
    using assms
  proof (cases rule: consumeToken_cases)
    case (ok r)
    then show ?thesis using token_effect.spend [of r "mtokens st" env ws "iso_string t'"] findToken_Some [OF ok(1)] by simp
  qed (auto intro: token_effect.same)
  then show "accounts st' = accounts st" "msessions st' = msessions st" "token_effect env ws (mtokens st) (mtokens st')"
    by blast+
qed

lemma findByEmail_Some: "findByEmail e st = Some r \<Longrightarrow> r \<in> vals (accounts st) \<and> ma_email r = normalizeEmail_member e"
  unfolding findByEmail_def by (drule first_query_Some) simp

lemma get_account_Inr: "get_account i st = Inr r \<longleftrightarrow> is_ok (assertSegment i ''id'') \<and> map_of (accounts st) i = Some r"
  by (auto simp: get_account_def c_get_def is_ok_iff split: sum.splits option.splits)

lemma get_account_vals: "get_account i st = Inr r \<Longrightarrow> r \<in> vals (accounts st)"
  by (force simp: get_account_Inr vals_def dest!: map_of_SomeD)

section \<open>The effect of every operation\<close>

lemma member_email_idem [simp]: "normalizeEmail_member (normalizeEmail_member e) = normalizeEmail_member e"
  by (simp add: normalizeEmail_member_def js_trim_lower)

lemma findByEmail_None: "findByEmail e st = None \<Longrightarrow> \<forall>q \<in> vals (accounts st). ma_email q \<noteq> normalizeEmail_member e"
  by (simp add: findByEmail_def first_query_None)

lemma check_display_name_ok: "check_display_name (js_trim n) = Inr u \<Longrightarrow> name_ok (js_trim n)"
  by (auto simp: check_display_name_def name_ok_def split: if_splits)

lemma stored_account: "accounts_inv t \<Longrightarrow> r \<in> vals t \<Longrightarrow> account_ok r"
  by (simp add: accounts_inv_def)

lemma register_effect:
  assumes "map_of (accounts st) uuid = None" "map_of (mtokens st) uuid' = None"
    "register env em pw n uuid salt uuid' raw t t' st = (r, st')"
  shows "account_effect (accounts st) (accounts st') \<and> token_effect env [raw] (mtokens st) (mtokens st')"
proof (cases "\<exists>e. r = Inl e")
  case True
  then have "st' = st"
    using assms(3) by (auto simp: register_def Let_def split: if_splits sum.splits option.splits)
  then show ?thesis by (simp add: account_effect.same token_effect.same)
next
  case False
  define a where "a = \<lparr>ma_id = uuid, ma_email = normalizeEmail_member em, passwordHash = Some (argon_hash env salt pw),
     displayName = js_trim n, avatarUrl = None, bio = None, emailVerified = False,
     ma_status = Active, failedAttempts = 0, lockedUntil = None,
     ma_createdAt = iso_string t, ma_updatedAt = iso_string t\<rparr>"
  have c: "js_includes (normalizeEmail_member em) ''@''" "is_ok (check_display_name (js_trim n))"
      "findByEmail (normalizeEmail_member em) st = None"
    using assms(3) False by (auto simp: register_def Let_def split: if_splits sum.splits option.splits)
  have e: "accounts st' = tab_put uuid a (accounts st)"
      "mtokens st' = mtokens (issueToken env uuid (normalizeEmail_member em) Email_verify VERIFY_TOKEN_TTL_MS uuid' raw t' st)"
    using assms(3) False unfolding a_def
    by (auto simp: register_def Let_def issueToken_tokens split: if_splits sum.splits option.splits)
  have "account_ok a"
    using c check_display_name_ok by (auto simp: account_ok_def a_def bio_ok_def is_ok_iff)
  moreover have "\<forall>q \<in> vals (accounts st). ma_email q \<noteq> ma_email a"
    using findByEmail_None [OF c(3)] by (simp add: a_def)
  moreover have "ma_id a = uuid" by (simp add: a_def)
  ultimately have "account_effect (accounts st) (accounts st')"
    unfolding e using account_effect.new [of "accounts st" a] assms(1) by simp
  then show ?thesis unfolding e(2) using token_effect_issue [OF assms(2)] by blast
qed

text \<open>Writing back a stored account.\<close>

lemma account_write_back:
  assumes "accounts_inv t" "r0 \<in> vals t" "ma_id r = ma_id r0" "ma_email r = ma_email r0"
    "displayName r = displayName r0" "bio r = bio r0" "passwordHash r \<noteq> None" "0 \<le> failedAttempts r"
  shows "account_effect t (tab_put (ma_id r) r t)"
  using account_effect.upd [OF assms(2-4)] stored_account [OF assms(1,2)] assms(4-) by (simp add: account_ok_def)

lemma account_back [intro]:
  assumes "accounts_inv t" "r0 \<in> vals t"
  shows "account_effect t (tab_put (ma_id r0) (r0\<lparr>emailVerified := b, ma_updatedAt := s\<rparr>) t)"
    "account_effect t (tab_put (ma_id r0) (r0\<lparr>failedAttempts := failedAttempts r0 + 1\<rparr>) t)"
    "account_effect t (tab_put (ma_id r0) (r0\<lparr>failedAttempts := failedAttempts r0 + 1, lockedUntil := u\<rparr>) t)"
    "account_effect t (tab_put (ma_id r0) (r0\<lparr>failedAttempts := 0, lockedUntil := u\<rparr>) t)"
    "account_effect t (tab_put (ma_id r0) (r0\<lparr>passwordHash := Some h, emailVerified := b, failedAttempts := 0,
       lockedUntil := u, ma_updatedAt := s\<rparr>) t)"
    "account_effect t (tab_put (ma_id r0) (r0\<lparr>ma_status := m, ma_updatedAt := s\<rparr>) t)"
proof -
  have ok: "passwordHash r0 \<noteq> None" "0 \<le> failedAttempts r0"
    using stored_account [OF assms] by (simp_all add: account_ok_def)
  note w = account_write_back [OF assms]
  show "account_effect t (tab_put (ma_id r0) (r0\<lparr>emailVerified := b, ma_updatedAt := s\<rparr>) t)"
    using w [of "r0\<lparr>emailVerified := b, ma_updatedAt := s\<rparr>"] ok by simp
  show "account_effect t (tab_put (ma_id r0) (r0\<lparr>failedAttempts := failedAttempts r0 + 1\<rparr>) t)"
    using w [of "r0\<lparr>failedAttempts := failedAttempts r0 + 1\<rparr>"] ok by simp
  show "account_effect t (tab_put (ma_id r0) (r0\<lparr>failedAttempts := failedAttempts r0 + 1, lockedUntil := u\<rparr>) t)"
    using w [of "r0\<lparr>failedAttempts := failedAttempts r0 + 1, lockedUntil := u\<rparr>"] ok by simp
  show "account_effect t (tab_put (ma_id r0) (r0\<lparr>failedAttempts := 0, lockedUntil := u\<rparr>) t)"
    using w [of "r0\<lparr>failedAttempts := 0, lockedUntil := u\<rparr>"] ok by simp
  show "account_effect t (tab_put (ma_id r0) (r0\<lparr>passwordHash := Some h, emailVerified := b, failedAttempts := 0,
       lockedUntil := u, ma_updatedAt := s\<rparr>) t)"
    using w [of "r0\<lparr>passwordHash := Some h, emailVerified := b, failedAttempts := 0,
       lockedUntil := u, ma_updatedAt := s\<rparr>"] ok by simp
  show "account_effect t (tab_put (ma_id r0) (r0\<lparr>ma_status := m, ma_updatedAt := s\<rparr>) t)"
    using w [of "r0\<lparr>ma_status := m, ma_updatedAt := s\<rparr>"] ok by simp
qed

lemma verifyEmail_effect:
  assumes "accounts_inv (accounts st)" "verifyEmail env token t1 t2 t3 st = (r, st')"
  shows "account_effect (accounts st) (accounts st') \<and> token_effect env ws (mtokens st) (mtokens st')"
proof -
  obtain res st1 where c: "consumeToken env token Email_verify t1 t2 st = (res, st1)" by force
  note e = consumeToken_effect [OF c]
  show ?thesis using assms e account_back(1) get_account_vals [of _ st1]
    by (auto simp: verifyEmail_def c Let_def split: sum.splits intro: account_effect.same)
qed

lemma authenticate_effect:
  assumes "accounts_inv (accounts st)" "authenticate_member env em pw raw t t' st = (r, st')"
  shows "account_effect (accounts st) (accounts st') \<and> token_effect env ws (mtokens st) (mtokens st')"
proof (cases "findByEmail (normalizeEmail_member em) st")
  case None
  then show ?thesis using assms by (auto simp: authenticate_member_def intro: account_effect.same token_effect.same)
next
  case (Some a)
  have a: "a \<in> vals (accounts st)" using findByEmail_Some [OF Some] by simp
  show ?thesis using assms(2) account_back [OF assms(1) a]
    by (auto simp: authenticate_member_def Some Let_def record_failure_member_def split: if_splits
        intro: account_effect.same token_effect.same)
qed

lemma magic_login_effect:
  assumes "accounts_inv (accounts st)" "verifyMagicLink env token raw t1 t2 t3 t4 st = (r, st')"
  shows "account_effect (accounts st) (accounts st') \<and> token_effect env ws (mtokens st) (mtokens st')"
proof -
  obtain res st1 where c: "consumeToken env token Magic_link t1 t2 st = (res, st1)" by force
  note e = consumeToken_effect [OF c]
  show ?thesis using assms e account_back(1) get_account_vals [of _ st1]
    by (auto simp: verifyMagicLink_def c Let_def split: sum.splits if_splits intro: account_effect.same)
qed

lemma reset_effect:
  assumes "accounts_inv (accounts st)" "confirmPasswordReset env token pw salt t1 t2 t3 st = (r, st')"
  shows "account_effect (accounts st) (accounts st') \<and> token_effect env ws (mtokens st) (mtokens st')"
proof -
  obtain res st1 where c: "consumeToken env token Pw_reset t1 t2 st = (res, st1)" by force
  note e = consumeToken_effect [OF c]
  show ?thesis using assms e account_back(5) get_account_vals [of _ st1]
    by (auto simp: confirmPasswordReset_def c Let_def split: sum.splits if_splits
        intro: account_effect.same token_effect.same)
qed

lemma profile_effect:
  assumes "accounts_inv (accounts st)" "updateProfile i n b t st = (r, st')"
  shows "account_effect (accounts st) (accounts st') \<and> mtokens st' = mtokens st"
proof (cases "get_account i st")
  case (Inl e)
  then show ?thesis using assms(2) by (auto simp: updateProfile_def intro: account_effect.same)
next
  case (Inr a)
  have a: "a \<in> vals (accounts st)" by (rule get_account_vals [OF Inr])
  have ok: "account_ok a" by (rule stored_account [OF assms(1) a])
  define nm where "nm = (case n of None \<Rightarrow> displayName a | Some x \<Rightarrow> js_trim x)"
  define bo where "bo = (case b of None \<Rightarrow> bio a | Some x \<Rightarrow> if js_trim x = [] then None else Some (js_trim x))"
  have acc: "name_ok nm \<and> bio_ok bo \<and>
      accounts st' = tab_put (ma_id a) (a\<lparr>displayName := nm, bio := bo, ma_updatedAt := iso_string t\<rparr>) (accounts st)"
    if "r = Inr m" for m
  proof -
    have "name_ok nm" using assms(2) that ok check_display_name_ok unfolding nm_def
      by (auto simp: updateProfile_def Inr Let_def account_ok_def split: option.splits sum.splits)
    moreover have "bio_ok bo" using assms(2) that ok unfolding bo_def
      by (cases b) (auto simp: updateProfile_def Inr Let_def account_ok_def bio_ok_def
        split: option.splits sum.splits if_splits)
    moreover have "accounts st' = tab_put (ma_id a)
        (a\<lparr>displayName := nm, bio := bo, ma_updatedAt := iso_string t\<rparr>) (accounts st)"
      using assms(2) that unfolding nm_def bo_def
      by (cases n; cases b) (auto simp: updateProfile_def Inr Let_def split: sum.splits if_splits)
    ultimately show ?thesis by blast
  qed
  moreover have "accounts st' = accounts st" if "r = Inl e" for e
    using assms(2) that by (auto simp: updateProfile_def Inr Let_def split: option.splits sum.splits if_splits)
  moreover have "mtokens st' = mtokens st"
    using assms(2) by (auto simp: updateProfile_def Inr Let_def split: option.splits sum.splits if_splits)
  moreover have "account_effect (accounts st)
      (tab_put (ma_id a) (a\<lparr>displayName := nm, bio := bo, ma_updatedAt := u\<rparr>) (accounts st))"
    if "name_ok nm" "bio_ok bo" for nm bo u
    using account_effect.upd [OF a, of "a\<lparr>displayName := nm, bio := bo, ma_updatedAt := u\<rparr>"] ok that
    by (simp add: account_ok_def)
  ultimately show ?thesis using acc by (cases r) (auto intro: account_effect.same)
qed

lemma set_status_effect:
  assumes "accounts_inv (accounts st)" "setMemberStatus i s actor t st = (r, st')"
  shows "account_effect (accounts st) (accounts st') \<and> mtokens st' = mtokens st"
  using assms account_back(6) get_account_vals [of i st]
  by (auto simp: setMemberStatus_def Let_def split: sum.splits if_splits intro: account_effect.same)

lemma delete_effect:
  assumes "deleteMember i actor st = (r, st')"
  shows "account_effect (accounts st) (accounts st') \<and> token_effect env ws (mtokens st) (mtokens st')"
proof -
  have "account_effect (accounts st) (tab_del i (accounts st))" by (rule account_effect.del)
  moreover have "mtokens (deleteMemberTokens i (revokeAllSessions i st)) =
      del_all (map mt_id (c_query (\<lambda>t. mt_memberId t = i) None (mtokens st))) (mtokens st)"
    by (simp add: deleteMemberTokens_def)
  then have "token_effect env ws (mtokens st) (mtokens (deleteMemberTokens i (revokeAllSessions i st)))"
    by (metis token_effect.del)
  ultimately show ?thesis using assms
    by (auto simp: deleteMember_def Let_def split: sum.splits intro: account_effect.same token_effect.same)
qed

lemma magic_token_effect:
  assumes "map_of (mtokens st) uuid = None" "issueMagicToken env i uuid raw t st = (r, st')"
  shows "accounts st' = accounts st \<and> token_effect env [raw] (mtokens st) (mtokens st')"
  using assms(2) token_effect_issue [OF assms(1)]
  by (auto simp: issueMagicToken_def split: sum.splits intro: token_effect.same)

lemma reset_token_effect:
  assumes "map_of (mtokens st) uuid = None" "issuePasswordResetToken env i uuid raw t st = (r, st')"
  shows "accounts st' = accounts st \<and> token_effect env [raw] (mtokens st) (mtokens st')"
  using assms(2) token_effect_issue [OF assms(1)]
  by (auto simp: issuePasswordResetToken_def split: sum.splits intro: token_effect.same)

lemma logout_effect:
  "logout_member env token st = (r, st') \<Longrightarrow> accounts st' = accounts st \<and> mtokens st' = mtokens st"
  by (auto simp: logout_member_def Let_def split: sum.splits option.splits)

lemma member_step_effect:
  assumes "member_step env ws st st'" "accounts_inv (accounts st)"
  shows "account_effect (accounts st) (accounts st') \<and> token_effect env ws (mtokens st) (mtokens st')"
  using assms(1)
proof cases
  case register
  then show ?thesis using register_effect by metis
next
  case verify_email
  then show ?thesis using verifyEmail_effect [OF assms(2)] by metis
next
  case login
  then show ?thesis using authenticate_effect [OF assms(2)] by metis
next
  case logout_member
  then show ?thesis using logout_effect by (metis account_effect.same token_effect.same)
next
  case magic_token
  then show ?thesis using magic_token_effect by (metis account_effect.same)
next
  case magic_login
  then show ?thesis using magic_login_effect [OF assms(2)] by metis
next
  case reset_token
  then show ?thesis using reset_token_effect by (metis account_effect.same)
next
  case reset
  then show ?thesis using reset_effect [OF assms(2)] by metis
next
  case profile
  then show ?thesis using profile_effect [OF assms(2)] by (metis token_effect.same)
next
  case set_status
  then show ?thesis using set_status_effect [OF assms(2)] by (metis token_effect.same)
next
  case delete
  then show ?thesis using delete_effect by metis
qed

lemma member_run_accounts: "member_run env raws st st' \<Longrightarrow> accounts_inv (accounts st) \<Longrightarrow> accounts_inv (accounts st')"
  by (induction rule: member_run.induct) (auto dest: member_step_effect account_effect_inv)

lemma member_run_tokens:
  "member_run env raws st st' \<Longrightarrow> accounts_inv (accounts st) \<Longrightarrow> tokens_inv env old (mtokens st) \<Longrightarrow>
    distinct (map (sha256 env) (old @ raws)) \<Longrightarrow> tokens_inv env (old @ raws) (mtokens st')"
proof (induction rule: member_run.induct)
  case (step raws st st' ws st'')
  have "distinct (map (sha256 env) (old @ raws))" using step.prems(3) by auto
  then have "tokens_inv env (old @ raws) (mtokens st')" using step.IH step.prems(1,2) by blast
  moreover have "token_effect env ws (mtokens st') (mtokens st'')"
    using member_step_effect [OF step.hyps(2)] member_run_accounts [OF step.hyps(1)] step.prems(1) by blast
  ultimately show ?case using token_effect_inv step.prems(3) by (metis append.assoc)
qed simp

lemma token_effect_keyed: "token_effect env ws t t' \<Longrightarrow> keyed mt_id t \<Longrightarrow> keyed mt_id t'"
  by (induction rule: token_effect.induct) auto

lemma member_run_spent:
  "member_run env raws st st' \<Longrightarrow> accounts_inv (accounts st) \<Longrightarrow> keyed mt_id (mtokens st) \<Longrightarrow> spent h (mtokens st) \<Longrightarrow>
    h \<notin> sha256 env ` set raws \<Longrightarrow> keyed mt_id (mtokens st') \<and> spent h (mtokens st')"
proof (induction rule: member_run.induct)
  case (step raws st st' ws st'')
  have "h \<notin> sha256 env ` set raws" using step.prems(4) by auto
  then have i: "keyed mt_id (mtokens st')" "spent h (mtokens st')" using step.IH step.prems(1-3) by blast+
  have "token_effect env ws (mtokens st') (mtokens st'')"
    using member_step_effect [OF step.hyps(2)] member_run_accounts [OF step.hyps(1)] step.prems(1) by blast
  then show ?case using i token_effect_keyed token_effect_spent step.prems(4) by (metis UnCI image_Un set_append)
qed simp

lemma accounts_inv_empty [simp]: "accounts_inv []"
  by (simp add: accounts_inv_def)

lemma tokens_inv_empty [simp]: "tokens_inv env raws []"
  by (simp add: tokens_inv_def)

end
