(* ===== verification/Members_Props.thy ===== *)
theory Members_Props
  imports Members_Facts
begin

text \<open>The properties of the member service: well-formed accounts, one-time tokens, and what a ban stops.\<close>

section \<open>Sample data for the witnesses\<close>

definition plain_env :: member_env where
  "plain_env = \<lparr>sha256 = (\<lambda>s. CHR ''h'' # s), argon_hash = (\<lambda>salt p. salt @ p),
     argon_verify = (\<lambda>h p. h = ''s'' @ p), dummyHash = [], maxAttempts = 5, lockoutMs = 900000\<rparr>"

definition joined :: member_state where
  "joined = snd (register plain_env ''Ann@b.c'' ''password'' '' Ann '' ''u1'' ''s'' ''k1'' ''raw1'' 0 0 member_empty)"

definition invited :: member_state where
  "invited = snd (issuePasswordResetToken plain_env ''u1'' ''k2'' ''raw2'' 10 joined)"

lemma joined_step: "member_step plain_env [''raw1''] member_empty joined"
  unfolding joined_def by (rule member_step.register [OF _ _ prod.collapse [symmetric]]) (simp_all add: member_empty_def)

lemma joined_run: "member_run plain_env [''raw1''] member_empty joined"
  using member_run.step [OF member_run.refl joined_step] by simp

lemma joined_tokens: "map fst (mtokens joined) = [''k1'']"
  by code_simp

lemma invited_run: "member_run plain_env [''raw1'', ''raw2''] member_empty invited"
proof -
  have "map_of (mtokens joined) ''k2'' = None"
    using joined_tokens by (cases "mtokens joined") (auto simp: map_of_eq_None_iff)
  then have "member_step plain_env [''raw2''] joined invited"
    unfolding invited_def by (rule member_step.reset_token [OF _ prod.collapse [symmetric]])
  from member_run.step [OF joined_run this] show ?thesis by simp
qed

section \<open>Accounts\<close>


lemma joined_account: "map_of (accounts joined) ''u1'' \<noteq> None"
  by code_simp


section \<open>One-time tokens\<close>

lemma consume_spent:
  assumes "consumeToken env raw ty t t' st = (Inr r, st1)" "tokens_inv env raws (mtokens st)"
  shows "spent (sha256 env raw) (mtokens st1)"
  using assms(1)
proof (cases rule: consumeToken_cases)
  case (ok a)
  have a: "a \<in> vals (mtokens st)" "mt_tokenHash a = sha256 env raw" using findToken_Some [OF ok(1)] by simp_all
  have k: "keyed mt_id (mtokens st)" using assms(2) by (simp add: tokens_inv_def)
  have "w = a" if "w \<in> vals (mtokens st)" "mt_tokenHash w = sha256 env raw" for w
    using assms(2) that a unfolding tokens_inv_def by metis
  then show ?thesis using ok(5) by (auto simp: spent_def values_put [OF k])
qed simp

lemma spent_consume:
  "spent (sha256 env raw) (mtokens st) \<Longrightarrow> consumeToken env raw ty t t' st = (Inl bad_token, st)"
  by (auto simp: consumeToken_def spent_def dest!: findToken_Some split: option.splits)

lemma spent_ops:
  assumes "spent (sha256 env raw) (mtokens st)"
  shows "\<exists>e. verifyEmail env raw t1 t2 t3 st = (Inl e, st)"
    "\<exists>e. verifyMagicLink env raw raw' t1 t2 t3 t4 st = (Inl e, st)"
    "\<exists>e. confirmPasswordReset env raw pw salt t1 t2 t3 st = (Inl e, st)"
  using spent_consume [OF assms] by (simp_all add: verifyEmail_def verifyMagicLink_def confirmPasswordReset_def)

lemma used_spent:
  assumes "tokens_inv env raws (mtokens st)"
    "verifyEmail env raw t1 t2 t3 st = (Inr m, st1) \<or> verifyMagicLink env raw raw' t1 t2 t3 t4 st = (Inr x, st1) \<or>
     confirmPasswordReset env raw pw salt t1 t2 t3 st = (Inr m, st1)"
  shows "spent (sha256 env raw) (mtokens st1)"
proof -
  have mono: "spent (sha256 env raw) (mtokens st1)"
    if c: "consumeToken env raw ty t1 t2 st = (res, st0)" and r: "is_ok res" "mtokens st1 = mtokens st0" for ty res st0
    using consume_spent [OF _ assms(1)] c r by (auto simp: is_ok_iff)
  have v: ?thesis if "verifyEmail env raw t1 t2 t3 st = (Inr m, st1)"
  proof -
    obtain res st0 where c: "consumeToken env raw Email_verify t1 t2 st = (res, st0)" by force
    then have "is_ok res \<and> mtokens st1 = mtokens st0"
      using that by (auto simp: verifyEmail_def Let_def is_ok_iff split: sum.splits)
    then show ?thesis using mono [OF c] by blast
  qed
  moreover have ?thesis if "verifyMagicLink env raw raw' t1 t2 t3 t4 st = (Inr x, st1)"
  proof -
    obtain res st0 where c: "consumeToken env raw Magic_link t1 t2 st = (res, st0)" by force
    then have "is_ok res \<and> mtokens st1 = mtokens st0"
      using that by (auto simp: verifyMagicLink_def Let_def is_ok_iff split: sum.splits if_splits)
    then show ?thesis using mono [OF c] by blast
  qed
  moreover have ?thesis if "confirmPasswordReset env raw pw salt t1 t2 t3 st = (Inr m, st1)"
  proof -
    obtain res st0 where c: "consumeToken env raw Pw_reset t1 t2 st = (res, st0)" by force
    then have "is_ok res \<and> mtokens st1 = mtokens st0"
      using that by (auto simp: confirmPasswordReset_def Let_def is_ok_iff split: sum.splits if_splits)
    then show ?thesis using mono [OF c] by blast
  qed
  ultimately show ?thesis using assms(2) by blast
qed

text \<open>C18: A token from an e-mail works once: after it has verified an address, logged a member in or reset a
  password, every later use of it for any purpose fails and changes nothing, whatever happened in between,
  as long as the random tokens have different hashes.\<close>

theorem member_token_once:
  assumes "member_run env raws member_empty st"
    and "verifyEmail env raw t1 t2 t3 st = (Inr m, st1) \<or> verifyMagicLink env raw raw' t1 t2 t3 t4 st = (Inr x, st1) \<or>
      confirmPasswordReset env raw pw salt t1 t2 t3 st = (Inr m, st1)"
    and "member_run env raws' st1 st2" "distinct (map (sha256 env) (raws @ raws'))"
    and "raw \<in> set raws"
  shows "(\<exists>e. verifyEmail env raw u1 u2 u3 st2 = (Inl e, st2)) \<and>
    (\<exists>e. verifyMagicLink env raw new u1 u2 u3 u4 st2 = (Inl e, st2)) \<and>
    (\<exists>e. confirmPasswordReset env raw pw' salt' u1 u2 u3 st2 = (Inl e, st2))"
proof -
  have acc: "accounts_inv (accounts st)" using member_run_accounts [OF assms(1)] by (simp add: member_empty_def)
  have tok: "tokens_inv env ([] @ raws) (mtokens st)"
    using member_run_tokens [OF assms(1), of "[]"] assms(4) by (simp add: member_empty_def)
  have "member_step env [] st st1"
    using assms(2) member_step.verify_email member_step.magic_login member_step.reset by metis
  then have e: "account_effect (accounts st) (accounts st1)" "token_effect env [] (mtokens st) (mtokens st1)"
    using member_step_effect [OF _ acc] by blast+
  have "keyed mt_id (mtokens st1)" using token_effect_keyed [OF e(2)] tok by (simp add: tokens_inv_def)
  moreover have "sha256 env raw \<notin> sha256 env ` set raws'" using assms(4,5) by auto
  ultimately have sp: "spent (sha256 env raw) (mtokens st2)"
    using member_run_spent [OF assms(3) account_effect_inv [OF e(1) acc]] used_spent [OF tok assms(2)] by blast
  show ?thesis by (intro conjI spent_ops [OF sp])
qed

theorem member_token_once_witness:
  "\<exists>e. confirmPasswordReset plain_env ''raw2'' ''another1'' ''s'' 30 30 30
     (snd (confirmPasswordReset plain_env ''raw2'' ''newsecret'' ''s'' 20 20 20 invited)) =
   (Inl e, snd (confirmPasswordReset plain_env ''raw2'' ''newsecret'' ''s'' 20 20 20 invited))"
proof -
  let ?run = "confirmPasswordReset plain_env ''raw2'' ''newsecret'' ''s'' 20 20 20 invited"
  have "is_ok (fst ?run)" by code_simp
  then obtain m where m: "?run = (Inr m, snd ?run)" by (metis is_ok_iff prod.collapse)
  have "distinct (map (sha256 plain_env) ([''raw1'', ''raw2''] @ []))" by (simp add: plain_env_def)
  from member_token_once [OF invited_run disjI2 [OF disjI2 [OF m]] member_run.refl this]
  show ?thesis by simp
qed

section \<open>Bans\<close>

text \<open>Account \<open>i\<close> is missing or suspended.\<close>

definition shut :: "string \<Rightarrow> member_state \<Rightarrow> bool" where
  "shut i st \<longleftrightarrow> (\<forall>r \<in> vals (accounts st). ma_id r = i \<longrightarrow> ma_status r = Suspended)"

lemma shut_session:
  assumes "keyed ma_id (accounts st)" "shut i st" "validateSession_member env token now st = Inr (Some x)"
  shows "mem_id x \<noteq> i"
proof -
  obtain s where s: "map_of (msessions st) (sha256 env token) = Some s"
    using assms(3) by (auto simp: validateSession_member_def c_get_def split: sum.splits option.splits)
  obtain r where r: "map_of (accounts st) (ms_memberId s) = Some r" "ma_status r \<noteq> Suspended" "toPublic_member r = x"
    using assms(3) by (auto simp: validateSession_member_def c_get_def s split: sum.splits option.splits if_splits)
  then have "r \<in> vals (accounts st)" by (force simp: vals_def dest: map_of_SomeD)
  then show ?thesis using assms(2) r by (auto simp: shut_def toPublic_member_def)
qed

lemma shut_login:
  assumes "shut i st" "authenticate_member env em pw raw t t' st = (Inr (tok, x), st')"
  shows "mem_id x \<noteq> i"
proof -
  obtain r where r: "findByEmail (normalizeEmail_member em) st = Some r" "ma_status r \<noteq> Suspended"
      "mem_id x = ma_id r"
    using assms(2) by (auto simp: authenticate_member_def Let_def toPublic_member_def split: option.splits if_splits)
  then show ?thesis using assms(1) findByEmail_Some [OF r(1)] by (auto simp: shut_def)
qed

lemma shut_magic:
  assumes "shut i st" "verifyMagicLink env token raw t1 t2 t3 t4 st = (Inr (tok, x), st')"
  shows "mem_id x \<noteq> i"
proof -
  obtain res st1 where c: "consumeToken env token Magic_link t1 t2 st = (res, st1)" by force
  obtain tr where tr: "res = Inr tr"
    using assms(2) by (auto simp: verifyMagicLink_def c split: sum.splits)
  obtain r where r: "get_account (mt_memberId tr) st1 = Inr r"
    using assms(2) by (auto simp: verifyMagicLink_def c tr split: sum.splits)
  have "ma_status r \<noteq> Suspended" "mem_id x = ma_id r"
    using assms(2) by (auto simp: verifyMagicLink_def c tr r Let_def toPublic_member_def split: if_splits)
  note r = r this
  have "r \<in> vals (accounts st)" using get_account_vals [OF r(1)] consumeToken_effect(1) [OF c] by simp
  then show ?thesis using assms(1) r by (auto simp: shut_def)
qed

text \<open>Suspending or deleting a member takes effect at once: no session, however many the member has, no
  password and no magic link gives access to that account any more.\<close>

theorem member_shut_out:
  assumes "member_run env raws member_empty st"
    and "setMemberStatus i Suspended actor t st = (Inr m, st1) \<or> deleteMember i actor st = (Inr (), st1)"
  shows "(validateSession_member env token now st1 \<noteq> Inr (Some x) \<or> mem_id x \<noteq> i) \<and>
    (authenticate_member env em pw raw u u' st1 \<noteq> (Inr (tok, x), st2) \<or> mem_id x \<noteq> i) \<and>
    (verifyMagicLink env token raw u1 u2 u3 u4 st1 \<noteq> (Inr (tok, x), st2) \<or> mem_id x \<noteq> i)"
proof -
  have acc: "accounts_inv (accounts st)" using member_run_accounts [OF assms(1)] by (simp add: member_empty_def)
  then have k: "keyed ma_id (accounts st)" by (simp add: accounts_inv_def)
  have "member_step env [] st st1" using assms(2) member_step.set_status member_step.delete by metis
  then have "accounts_inv (accounts st1)" using account_effect_inv member_step_effect [OF _ acc] acc by blast
  then have k1: "keyed ma_id (accounts st1)" by (simp add: accounts_inv_def)
  have "shut i st1"
    using assms(2)
  proof
    assume s: "setMemberStatus i Suspended actor t st = (Inr m, st1)"
    then obtain r where r: "map_of (accounts st) i = Some r"
        "accounts st1 = tab_put (ma_id r) (r\<lparr>ma_status := Suspended, ma_updatedAt := iso_string t\<rparr>) (accounts st)"
      by (auto simp: setMemberStatus_def Let_def get_account_Inr split: sum.splits)
    moreover have "ma_id r = i" by (rule keyed_id [OF k r(1)])
    ultimately show ?thesis by (auto simp: shut_def values_put [OF k])
  next
    assume "deleteMember i actor st = (Inr (), st1)"
    then have "accounts st1 = tab_del i (accounts st)" by (auto simp: deleteMember_def Let_def split: sum.splits)
    then show ?thesis by (auto simp: shut_def values_del [OF k])
  qed
  note s = this
  show ?thesis
    using shut_session [OF k1 s, of env token now x] shut_login [OF s, of env em pw raw u u' tok x st2]
      shut_magic [OF s, of env token raw u1 u2 u3 u4 tok x st2] by argo
qed

definition member_in :: member_state where
  "member_in = snd (authenticate_member plain_env ''ann@b.c'' ''password'' ''sess'' 7 7
     (snd (verifyEmail plain_env ''raw1'' 5 5 5 joined)))"

lemma member_in_run: "member_run plain_env [''raw1''] member_empty member_in"
  unfolding member_in_def
  using member_run.step [OF member_run.step [OF joined_run member_step.verify_email [OF prod.collapse [symmetric]]]
      member_step.login [OF prod.collapse [symmetric]]]
  by fastforce

end
