(* ===== verification/Json.thy ===== *)
theory Json
  imports Prelude
begin

text \<open>
  JSON values and the text of \<open>JSON.stringify\<close> and \<open>JSON.parse\<close>, which the storage mapper, the audit
  log and the content model use.  Objects keep their entries in insertion order, without duplicate keys
  (\<open>wf_json\<close>); numbers are the integers the documents hold (timestamps, counters, versions): a text with
  a fraction or an exponent is not parsed here.
\<close>

section \<open>Values\<close>

datatype json = JNull | JBool bool | JNum int | JStr string | JArr "json list" | JObj "(string \<times> json) list"

fun wf_json :: "json \<Rightarrow> bool" where
  "wf_json (JArr vs) = list_all wf_json vs"
| "wf_json (JObj kvs) = (distinct (map fst kvs) \<and> list_all (\<lambda>(k, v). wf_json v) kvs)"
| "wf_json _ = True"

fun js_truthy :: "json \<Rightarrow> bool" where
  "js_truthy JNull = False"
| "js_truthy (JBool b) = b"
| "js_truthy (JNum i) = (i \<noteq> 0)"
| "js_truthy (JStr s) = (s \<noteq> [])"
| "js_truthy (JArr vs) = True"
| "js_truthy (JObj kvs) = True"

section \<open>JSON.stringify\<close>

definition hex_digit :: "nat \<Rightarrow> char" where
  "hex_digit n = (if n < 10 then char_of (48 + n) else char_of (87 + n))"

definition json_esc :: "char \<Rightarrow> string" where
  "json_esc c =
     (if c = CHR 0x22 then [CHR 0x5C, CHR 0x22]
      else if c = CHR 0x5C then [CHR 0x5C, CHR 0x5C]
      else if c = CHR 0x08 then [CHR 0x5C, CHR ''b'']
      else if c = CHR 0x09 then [CHR 0x5C, CHR ''t'']
      else if c = CHR 0x0A then [CHR 0x5C, CHR ''n'']
      else if c = CHR 0x0C then [CHR 0x5C, CHR ''f'']
      else if c = CHR 0x0D then [CHR 0x5C, CHR ''r'']
      else if (of_char c :: nat) < 32
      then [CHR 0x5C, CHR ''u'', CHR ''0'', CHR ''0'', hex_digit (of_char c div 16), hex_digit (of_char c mod 16)]
      else [c])"

definition json_quote :: "string \<Rightarrow> string" where
  "json_quote s = [CHR 0x22] @ concat (map json_esc s) @ [CHR 0x22]"

fun json_text :: "json \<Rightarrow> string" where
  "json_text JNull = ''null''"
| "json_text (JBool b) = (if b then ''true'' else ''false'')"
| "json_text (JNum i) = int_string i"
| "json_text (JStr s) = json_quote s"
| "json_text (JArr vs) = ''['' @ js_join '','' (map json_text vs) @ '']''"
| "json_text (JObj kvs) = ''{'' @ js_join '','' (map (\<lambda>(k, v). json_quote k @ '':'' @ json_text v) kvs) @ ''}''"

section \<open>JSON.parse\<close>

definition json_space :: "char \<Rightarrow> bool" where
  "json_space c \<longleftrightarrow> c = CHR 0x20 \<or> c = CHR 0x09 \<or> c = CHR 0x0A \<or> c = CHR 0x0D"

definition skip_ws :: "string \<Rightarrow> string" where
  "skip_ws s = dropWhile json_space s"

definition hex_val :: "char \<Rightarrow> nat option" where
  "hex_val c = (let n = (of_char c :: nat) in
     if 48 \<le> n \<and> n \<le> 57 then Some (n - 48)
     else if 97 \<le> n \<and> n \<le> 102 then Some (n - 87)
     else if 65 \<le> n \<and> n \<le> 70 then Some (n - 55) else None)"

definition simple_escape :: "char \<Rightarrow> char option" where
  "simple_escape e =
     (if e = CHR 0x22 \<or> e = CHR 0x5C \<or> e = CHR ''/'' then Some e
      else if e = CHR ''b'' then Some (CHR 0x08) else if e = CHR ''t'' then Some (CHR 0x09)
      else if e = CHR ''n'' then Some (CHR 0x0A) else if e = CHR ''f'' then Some (CHR 0x0C)
      else if e = CHR ''r'' then Some (CHR 0x0D) else None)"

text \<open>A \<open>\u\<close> escape above 255 is outside the strings of the model.\<close>

definition hex4 :: "char \<Rightarrow> char \<Rightarrow> char \<Rightarrow> char \<Rightarrow> char option" where
  "hex4 a b c d =
     (case (hex_val a, hex_val b, hex_val c, hex_val d) of
        (Some 0, Some 0, Some x, Some y) \<Rightarrow> Some (char_of (16 * x + y)) | _ \<Rightarrow> None)"

fun parse_str :: "string \<Rightarrow> (string \<times> string) option" where
  "parse_str [] = None"
| "parse_str (c # cs) =
     (if c = CHR 0x22 then Some ([], cs)
      else if c = CHR 0x5C
      then (case cs of [] \<Rightarrow> None
        | e # r \<Rightarrow>
          if e = CHR ''u''
          then (case r of h1 # h2 # h3 # h4 # r' \<Rightarrow>
                 (case hex4 h1 h2 h3 h4 of None \<Rightarrow> None
                  | Some x \<Rightarrow> map_option (\<lambda>(s, r). (x # s, r)) (parse_str r')) | _ \<Rightarrow> None)
          else (case simple_escape e of None \<Rightarrow> None
                | Some x \<Rightarrow> map_option (\<lambda>(s, r). (x # s, r)) (parse_str r)))
      else if (of_char c :: nat) < 32 then None
      else map_option (\<lambda>(s, r). (c # s, r)) (parse_str cs))"

definition digits_nat :: "string \<Rightarrow> nat" where
  "digits_nat s = foldl (\<lambda>n c. 10 * n + (of_char c - 48)) 0 s"

definition parse_nat :: "string \<Rightarrow> (nat \<times> string) option" where
  "parse_nat s =
     (let ds = takeWhile is_digit s in
      if ds = [] \<or> (hd ds = CHR ''0'' \<and> 1 < length ds) then None
      else Some (digits_nat ds, dropWhile is_digit s))"

definition parse_num :: "string \<Rightarrow> (json \<times> string) option" where
  "parse_num s =
     (case s of [] \<Rightarrow> None
      | c # cs \<Rightarrow>
        if c = CHR ''-'' then map_option (\<lambda>(n, r). (JNum (- int n), r)) (parse_nat cs)
        else map_option (\<lambda>(n, r). (JNum (int n), r)) (parse_nat s))"

text \<open>
  The first argument bounds the nesting and is never reached: the text itself is longer.
\<close>

fun parse_val :: "nat \<Rightarrow> string \<Rightarrow> (json \<times> string) option"
  and parse_elems :: "nat \<Rightarrow> string \<Rightarrow> (json list \<times> string) option"
  and parse_members :: "nat \<Rightarrow> string \<Rightarrow> ((string \<times> json) list \<times> string) option" where
  "parse_val 0 s = None"
| "parse_val (Suc n) s =
     (case skip_ws s of [] \<Rightarrow> None
      | c # cs \<Rightarrow>
        if c = CHR 0x22 then map_option (\<lambda>(s, r). (JStr s, r)) (parse_str cs)
        else if c = CHR ''['' then
          (if js_prefix '']'' (skip_ws cs) then Some (JArr [], tl (skip_ws cs))
           else map_option (\<lambda>(vs, r). (JArr vs, r)) (parse_elems n cs))
        else if c = CHR ''{'' then
          (if js_prefix ''}'' (skip_ws cs) then Some (JObj [], tl (skip_ws cs))
           else map_option (\<lambda>(kvs, r). (JObj (obj_assign [] kvs), r)) (parse_members n cs))
        else if js_prefix ''null'' (c # cs) then Some (JNull, drop 3 cs)
        else if js_prefix ''true'' (c # cs) then Some (JBool True, drop 3 cs)
        else if js_prefix ''false'' (c # cs) then Some (JBool False, drop 4 cs)
        else parse_num (c # cs))"
| "parse_elems 0 s = None"
| "parse_elems (Suc n) s =
     (case parse_val n s of None \<Rightarrow> None
      | Some (v, r) \<Rightarrow>
        (case skip_ws r of [] \<Rightarrow> None
         | c # r \<Rightarrow>
           if c = CHR '','' then map_option (\<lambda>(vs, r). (v # vs, r)) (parse_elems n r)
           else if c = CHR '']'' then Some ([v], r) else None))"
| "parse_members 0 s = None"
| "parse_members (Suc n) s =
     (case skip_ws s of [] \<Rightarrow> None
      | q # s \<Rightarrow>
        if q \<noteq> CHR 0x22 then None
        else case parse_str s of None \<Rightarrow> None
        | Some (k, r) \<Rightarrow>
          (case skip_ws r of [] \<Rightarrow> None
           | c # r \<Rightarrow>
             if c \<noteq> CHR '':'' then None
             else case parse_val n r of None \<Rightarrow> None
             | Some (v, r) \<Rightarrow>
               (case skip_ws r of [] \<Rightarrow> None
                | c # r \<Rightarrow>
                  if c = CHR '','' then map_option (\<lambda>(kvs, r). ((k, v) # kvs, r)) (parse_members n r)
                  else if c = CHR ''}'' then Some ([(k, v)], r) else None)))"

definition json_parse :: "string \<Rightarrow> json option" where
  "json_parse s =
     (case parse_val (Suc (length s)) s of None \<Rightarrow> None
      | Some (v, r) \<Rightarrow> if skip_ws r = [] then Some v else None)"

section \<open>Round trip\<close>

lemma digits_nat_snoc: "digits_nat (s @ [c]) = 10 * digits_nat s + (of_char c - 48)"
  by (simp add: digits_nat_def)

lemma digits_nat_digits [simp]: "digits_nat (nat_digits n) = n"
proof (induction n rule: nat_digits.induct)
  case (1 n)
  show ?case
  proof (cases "n < 10")
    case True
    then show ?thesis by (subst nat_digits.simps) (simp add: digits_nat_def)
  next
    case False
    have "(of_char (char_of (48 + n mod 10) :: char) :: nat) = 48 + n mod 10" by simp
    then show ?thesis using 1 False by (subst nat_digits.simps) (simp add: digits_nat_snoc)
  qed
qed

lemma nat_digits_hd: "hd (nat_digits n) = CHR ''0'' \<Longrightarrow> length (nat_digits n) = 1"
proof (induction n rule: nat_digits.induct)
  case (1 n)
  show ?case
  proof (cases "n < 10")
    case True
    then show ?thesis by (subst nat_digits.simps) simp
  next
    case False
    then have d: "nat_digits n = nat_digits (n div 10) @ [char_of (48 + n mod 10)]"
      by (subst nat_digits.simps) simp
    then have "hd (nat_digits (n div 10)) = CHR ''0''" using 1(2) by simp
    then have l: "length (nat_digits (n div 10)) = 1" using 1(1) False by blast
    then have "n div 10 < 10" by (subst (asm) nat_digits.simps) (auto split: if_splits)
    then have "nat_digits (n div 10) = [char_of (48 + n div 10)]" by (subst nat_digits.simps) simp
    then have c: "(char_of (48 + n div 10) :: char) = CHR ''0''" using \<open>hd (nat_digits (n div 10)) = _\<close> by simp
    have "(of_char (char_of (48 + n div 10) :: char) :: nat) = 48 + n div 10"
      using \<open>n div 10 < 10\<close> by simp
    then have "n div 10 = 0" unfolding c by simp
    then show ?thesis using False by simp
  qed
qed

text \<open>What follows a value in a text does not go on with digits.\<close>

definition stops :: "string \<Rightarrow> bool" where
  "stops r \<longleftrightarrow> (r = [] \<or> \<not> is_digit (hd r))"

lemma parse_nat_digits: "stops r \<Longrightarrow> parse_nat (nat_digits n @ r) = Some (n, r)"
proof -
  assume r: "stops r"
  have all: "\<forall>c \<in> set (nat_digits n). is_digit c" using nat_digits_digit by blast
  have t: "takeWhile is_digit (nat_digits n @ r) = nat_digits n" "dropWhile is_digit (nat_digits n @ r) = r"
    using all r by (cases r; simp add: stops_def)+
  have h: "\<not> (hd (nat_digits n) = CHR ''0'' \<and> 1 < length (nat_digits n))" using nat_digits_hd by force
  show ?thesis unfolding parse_nat_def t Let_def using h by simp
qed

lemma parse_num_int:
  assumes "stops r"
  shows "parse_num (int_string i @ r) = Some (JNum i, r)"
proof (cases "i < 0")
  case True
  then show ?thesis using parse_nat_digits [OF assms] by (simp add: parse_num_def int_string_def)
next
  case False
  obtain c cs where c: "nat_digits (nat i) = c # cs" by (cases "nat_digits (nat i)") auto
  then have "is_digit c" using nat_digits_digit by (metis list.set_intros(1))
  then have "c \<noteq> CHR ''-''" by (auto simp: is_digit_def)
  then show ?thesis using parse_nat_digits [OF assms, of "nat i"] False
    by (simp add: parse_num_def int_string_def c)
qed

lemma hex_val_digit [simp]: "n < 16 \<Longrightarrow> hex_val (hex_digit n) = Some n"
  by (auto simp: hex_val_def hex_digit_def Let_def)

lemma hex4_control: "hex4 (CHR ''0'') (CHR ''0'') (hex_digit (of_char c div 16)) (hex_digit (of_char c mod 16)) = Some c"
  if "(of_char c :: nat) < 32"
proof -
  have z: "hex_val (CHR ''0'') = Some 0" by code_simp
  have "(of_char c :: nat) div 16 < 16" "(of_char c :: nat) mod 16 < 16" using that by auto
  moreover have "16 * ((of_char c :: nat) div 16) + of_char c mod 16 = of_char c" by simp
  ultimately show ?thesis by (simp add: hex4_def z)
qed

lemma parse_str_esc: "parse_str (json_esc c @ r) = map_option (\<lambda>(s, r). (c # s, r)) (parse_str r)"
proof -
  consider "c = CHR 0x22" | "c = CHR 0x5C" | "c = CHR 0x08" | "c = CHR 0x09" | "c = CHR 0x0A" | "c = CHR 0x0C" |
    "c = CHR 0x0D" | (control) "c \<noteq> CHR 0x22 \<and> c \<noteq> CHR 0x5C \<and> c \<noteq> CHR 0x08 \<and> c \<noteq> CHR 0x09 \<and> c \<noteq> CHR 0x0A \<and>
      c \<noteq> CHR 0x0C \<and> c \<noteq> CHR 0x0D \<and> (of_char c :: nat) < 32"
    | (plain) "c \<noteq> CHR 0x22 \<and> c \<noteq> CHR 0x5C \<and> c \<noteq> CHR 0x08 \<and> c \<noteq> CHR 0x09 \<and> c \<noteq> CHR 0x0A \<and>
      c \<noteq> CHR 0x0C \<and> c \<noteq> CHR 0x0D \<and> \<not> (of_char c :: nat) < 32"
    by blast
  then show ?thesis
  proof cases
    case control
    then have "json_esc c = [CHR 0x5C, CHR ''u'', CHR ''0'', CHR ''0'', hex_digit (of_char c div 16), hex_digit (of_char c mod 16)]"
      by (simp add: json_esc_def)
    then show ?thesis using hex4_control control by simp
  qed (simp_all add: json_esc_def simple_escape_def)
qed

lemma parse_str_quote: "parse_str (concat (map json_esc s) @ CHR 0x22 # r) = Some (s, r)"
  by (induction s) (simp_all add: parse_str_esc)

lemma json_quote_app: "json_quote s @ r = CHR 0x22 # (concat (map json_esc s) @ CHR 0x22 # r)"
  by (simp add: json_quote_def)

lemma skip_ws_id [simp]: "\<not> json_space c \<Longrightarrow> skip_ws (c # s) = c # s"
  by (simp add: skip_ws_def)

lemma spaces [simp]:
  "\<not> json_space (CHR 0x22)" "\<not> json_space (CHR ''['')" "\<not> json_space (CHR '']'')" "\<not> json_space (CHR ''{'')"
  "\<not> json_space (CHR ''}'')" "\<not> json_space (CHR '','')" "\<not> json_space (CHR '':'')" "\<not> json_space (CHR ''n'')"
  "\<not> json_space (CHR ''t'')" "\<not> json_space (CHR ''f'')" "\<not> json_space (CHR ''-'')"
  by (simp_all add: json_space_def)

lemma stops_simps [simp]: "stops []" "stops (CHR '','' # r)" "stops (CHR '']'' # r)" "stops (CHR ''}'' # r)"
  by (auto simp: stops_def is_digit_def)

text \<open>The first character of an integer.\<close>

lemma int_string_hd:
  obtains c cs where "int_string i = c # cs" "c = CHR ''-'' \<or> is_digit c"
proof (cases "i < 0")
  case True
  then show thesis using that by (simp add: int_string_def)
next
  case False
  obtain c cs where "nat_digits (nat i) = c # cs" by (cases "nat_digits (nat i)") auto
  moreover from this have "is_digit c" using nat_digits_digit by (metis list.set_intros(1))
  ultimately show thesis using that False by (simp add: int_string_def)
qed

lemma digit_not: "is_digit c \<Longrightarrow> \<not> json_space c \<and> c \<noteq> CHR 0x22 \<and> c \<noteq> CHR ''['' \<and> c \<noteq> CHR ''{'' \<and> c \<noteq> CHR '']'' \<and>
    c \<noteq> CHR ''}'' \<and> c \<noteq> CHR ''n'' \<and> c \<noteq> CHR ''t'' \<and> c \<noteq> CHR ''f''"
  by (auto simp: is_digit_def json_space_def)

lemma parse_val_num: "stops r \<Longrightarrow> parse_val (Suc n) (int_string i @ r) = Some (JNum i, r)"
proof -
  assume r: "stops r"
  obtain c cs where c: "int_string i = c # cs" "c = CHR ''-'' \<or> is_digit c" by (rule int_string_hd)
  have s: "\<not> json_space c \<and> c \<noteq> CHR 0x22 \<and> c \<noteq> CHR ''['' \<and> c \<noteq> CHR ''{'' \<and> c \<noteq> CHR ''n'' \<and> c \<noteq> CHR ''t'' \<and> c \<noteq> CHR ''f''"
    using c(2) digit_not by auto
  have "parse_num (c # cs @ r) = Some (JNum i, r)" using parse_num_int [OF r, of i] by (simp add: c(1))
  then show ?thesis using s by (auto simp: c(1))
qed

lemma length_json_text: "0 < length (json_text v)"
proof (cases v)
  case (JNum i)
  then show ?thesis using int_string_hd [of i] by (metis json_text.simps(3) length_greater_0_conv list.discI)
qed (auto simp: json_quote_def)

text \<open>The texts of values, and of entries, up to the closing bracket.\<close>

definition elems_text :: "json list \<Rightarrow> string" where
  "elems_text vs = js_join '','' (map json_text vs) @ '']''"

definition members_text :: "(string \<times> json) list \<Rightarrow> string" where
  "members_text kvs = js_join '','' (map (\<lambda>(k, v). json_quote k @ '':'' @ json_text v) kvs) @ ''}''"

lemma elems_text_simps:
  "elems_text [v] = json_text v @ '']''"
  "elems_text (v # w # vs) = json_text v @ '','' @ elems_text (w # vs)"
  by (simp_all add: elems_text_def)

lemma members_text_simps:
  "members_text [(k, v)] = json_quote k @ '':'' @ json_text v @ ''}''"
  "members_text ((k, v) # kv # kvs) = json_quote k @ '':'' @ json_text v @ '','' @ members_text (kv # kvs)"
  by (simp_all add: members_text_def)

lemma json_text_arr: "json_text (JArr vs) = CHR ''['' # elems_text vs"
  "json_text (JObj kvs) = CHR ''{'' # members_text kvs"
  by (simp_all add: elems_text_def members_text_def)

lemma parse_elems_text:
  assumes "\<And>v n r. v \<in> set vs \<Longrightarrow> stops r \<Longrightarrow> length (json_text v) \<le> n \<Longrightarrow> parse_val n (json_text v @ r) = Some (v, r)"
    "vs \<noteq> []" "length (elems_text vs) \<le> n"
  shows "parse_elems n (elems_text vs @ r) = Some (vs, r)"
  using assms
proof (induction vs arbitrary: n)
  case (Cons v vs)
  obtain m where n: "n = Suc m" using Cons.prems(3) by (cases n) (auto simp: elems_text_def)
  show ?case
  proof (cases vs)
    case Nil
    have "parse_val m (json_text v @ CHR '']'' # r) = Some (v, CHR '']'' # r)"
      using Cons.prems(1) [of v "CHR '']'' # r" m] Cons.prems(3) by (simp add: n Nil elems_text_simps)
    then show ?thesis by (simp add: n Nil elems_text_simps)
  next
    case (Cons w ws)
    have l: "length (json_text v) \<le> m" "length (elems_text (w # ws)) \<le> m"
      using Cons.prems(3) by (simp_all add: n Cons elems_text_simps)
    have "parse_val m (json_text v @ CHR '','' # (elems_text (w # ws) @ r)) = Some (v, CHR '','' # (elems_text (w # ws) @ r))"
      using Cons.prems(1) [of v "CHR '','' # (elems_text (w # ws) @ r)" m] l(1) by simp
    moreover have "parse_elems m (elems_text (w # ws) @ r) = Some (w # ws, r)"
      using Cons.IH [of m] Cons.prems(1) l(2) Cons by auto
    ultimately show ?thesis by (simp add: n Cons elems_text_simps)
  qed
qed simp

lemma parse_members_text:
  assumes "\<And>v n r. v \<in> snd ` set kvs \<Longrightarrow> stops r \<Longrightarrow> length (json_text v) \<le> n \<Longrightarrow> parse_val n (json_text v @ r) = Some (v, r)"
    "kvs \<noteq> []" "length (members_text kvs) \<le> n"
  shows "parse_members n (members_text kvs @ r) = Some (kvs, r)"
  using assms
proof (induction kvs arbitrary: n)
  case (Cons kv kvs)
  obtain k v where kv: "kv = (k, v)" by force
  obtain m where n: "n = Suc m" using Cons.prems(3) by (cases n) (auto simp: members_text_def)
  show ?case
  proof (cases kvs)
    case Nil
    have "parse_val m (json_text v @ CHR ''}'' # r) = Some (v, CHR ''}'' # r)"
      using Cons.prems(1) [of v "CHR ''}'' # r" m] Cons.prems(3) by (simp add: n kv Nil members_text_simps)
    then show ?thesis by (simp add: n kv Nil members_text_simps json_quote_app parse_str_quote)
  next
    case (Cons w ws)
    have l: "length (json_text v) \<le> m" "length (members_text (w # ws)) \<le> m"
      using Cons.prems(3) by (simp_all add: n kv Cons members_text_simps)
    have "parse_val m (json_text v @ CHR '','' # (members_text (w # ws) @ r)) =
        Some (v, CHR '','' # (members_text (w # ws) @ r))"
      using Cons.prems(1) [of v "CHR '','' # (members_text (w # ws) @ r)" m] l(1) by (simp add: kv)
    moreover have "parse_members m (members_text (w # ws) @ r) = Some (w # ws, r)"
      using Cons.IH [of m] Cons.prems(1) l(2) Cons by auto
    ultimately show ?thesis by (simp add: n kv Cons members_text_simps json_quote_app parse_str_quote)
  qed
qed simp

lemma json_text_hd:
  obtains c cs where "json_text v = c # cs" "\<not> json_space c" "c \<noteq> CHR '']''" "c \<noteq> CHR ''}''"
proof (cases v)
  case (JNum i)
  obtain c cs where c: "int_string i = c # cs" "c = CHR ''-'' \<or> is_digit c" by (rule int_string_hd)
  have "\<not> json_space c" "c \<noteq> CHR '']''" "c \<noteq> CHR ''}''" using c(2) digit_not by auto
  then show thesis using that c(1) by (simp add: JNum)
next
  case (JBool b)
  then show thesis using that by (cases b) simp_all
qed (use that in \<open>simp_all add: json_quote_def\<close>)

lemma elems_text_hd:
  assumes "vs \<noteq> []"
  obtains c cs where "elems_text vs = c # cs" "\<not> json_space c" "c \<noteq> CHR '']''"
proof -
  obtain v ws where v: "vs = v # ws" using assms by (cases vs) auto
  obtain c cs where "json_text v = c # cs" "\<not> json_space c" "c \<noteq> CHR '']''" by (rule json_text_hd)
  then show thesis using that v by (cases ws) (auto simp: elems_text_def)
qed

lemma members_text_hd:
  assumes "kvs \<noteq> []"
  obtains cs where "members_text kvs = CHR 0x22 # cs"
proof -
  obtain k v ws where v: "kvs = (k, v) # ws" using assms by (cases kvs) auto
  then show thesis using that by (cases ws) (simp_all add: members_text_def json_quote_def)
qed

lemma parse_val_text:
  "wf_json v \<Longrightarrow> stops r \<Longrightarrow> length (json_text v) \<le> n \<Longrightarrow> parse_val n (json_text v @ r) = Some (v, r)"
proof (induction v arbitrary: n r)
  case (JNum i)
  then show ?case using length_json_text [of "JNum i"] parse_val_num by (cases n) auto
next
  case (JStr s)
  then show ?case by (cases n) (simp_all add: json_quote_app parse_str_quote, simp add: json_quote_def)
next
  case (JArr vs)
  obtain m where n: "n = Suc m" using JArr.prems(3) by (cases n) auto
  show ?case
  proof (cases vs)
    case Nil
    then show ?thesis by (simp add: n)
  next
    case (Cons w ws)
    then have ne: "vs \<noteq> []" by simp
    obtain c cs where c: "elems_text vs = c # cs" "\<not> json_space c" "c \<noteq> CHR '']''" by (rule elems_text_hd [OF ne])
    have ih: "parse_val n (json_text v @ r) = Some (v, r)"
      if "v \<in> set vs" "stops r" "length (json_text v) \<le> n" for v n r
      using JArr.IH [OF that(1) _ that(2,3)] JArr.prems(1) that(1) by (simp add: list_all_iff)
    have "length (elems_text vs) \<le> m" using JArr.prems(3) by (simp add: n json_text_arr del: json_text.simps)
    then have "parse_elems m (elems_text vs @ r) = Some (vs, r)" using parse_elems_text [OF ih ne] by blast
    then show ?thesis using c by (simp add: n json_text_arr del: json_text.simps)
  qed
next
  case (JObj kvs)
  obtain m where n: "n = Suc m" using JObj.prems(3) by (cases n) auto
  show ?case
  proof (cases kvs)
    case Nil
    then show ?thesis by (simp add: n)
  next
    case (Cons w ws)
    then have ne: "kvs \<noteq> []" by simp
    obtain cs where c: "members_text kvs = CHR 0x22 # cs" by (rule members_text_hd [OF ne])
    have ih: "parse_val n (json_text v @ r) = Some (v, r)"
      if "v \<in> snd ` set kvs" "stops r" "length (json_text v) \<le> n" for v n r
    proof -
      note m = that
      obtain k where k: "(k, v) \<in> set kvs" using m(1) by auto
      then have "wf_json v" using JObj.prems(1) by (auto simp: list_all_iff)
      then show ?thesis using JObj.IH [OF k, of v] m(2,3) by simp
    qed
    have "length (members_text kvs) \<le> m" using JObj.prems(3) by (simp add: n json_text_arr del: json_text.simps)
    then have "parse_members m (members_text kvs @ r) = Some (kvs, r)" using parse_members_text [OF ih ne] by blast
    moreover have "obj_assign [] kvs = kvs" using obj_assign_distinct [of kvs "[]"] JObj.prems(1) by simp
    ultimately show ?thesis using c by (simp add: n json_text_arr del: json_text.simps)
  qed
next
  case (JBool b)
  then show ?case by (cases n; cases b) simp_all
next
  case JNull
  then show ?case by (cases n) simp_all
qed

text \<open>\<open>JSON.parse(JSON.stringify(v))\<close> is \<open>v\<close>.\<close>

lemma json_roundtrip [simp]: "wf_json v \<Longrightarrow> json_parse (json_text v) = Some v"
  using parse_val_text [of v "[]" "Suc (length (json_text v))"] by (simp add: json_parse_def skip_ws_def)

lemma json_text_inj: "wf_json v \<Longrightarrow> wf_json w \<Longrightarrow> json_text v = json_text w \<Longrightarrow> v = w"
  by (metis json_roundtrip option.inject)

text \<open>A JSON text is one line.\<close>

lemma json_text_one_line: "CHR 0x0A \<notin> set (json_text v)"
proof -
  have hex: "hex_digit n \<noteq> CHR 0x0A" if "n < 16" for n
  proof
    assume "hex_digit n = CHR 0x0A"
    then have "hex_val (CHR 0x0A) = Some n" using that by (metis hex_val_digit)
    then show False by (simp add: hex_val_def)
  qed
  have esc: "CHR 0x0A \<notin> set (json_esc c)" for c
  proof (cases "(of_char c :: nat) < 32")
    case True
    then have "(of_char c :: nat) div 16 < 16" "(of_char c :: nat) mod 16 < 16" by auto
    then have "hex_digit (of_char c div 16) \<noteq> CHR 0x0A" "hex_digit (of_char c mod 16) \<noteq> CHR 0x0A" using hex by blast+
    then show ?thesis by (auto simp: json_esc_def)
  qed (auto simp: json_esc_def)
  then have quote: "CHR 0x0A \<notin> set (json_quote s)" for s by (auto simp: json_quote_def)
  have join: "CHR 0x0A \<notin> set (js_join '','' ws)" if "\<forall>w \<in> set ws. CHR 0x0A \<notin> set w" for ws
    using that by (induction ws rule: induct_list012) auto
  have num: "CHR 0x0A \<notin> set (int_string i)" for i
    using nat_digits_digit [of "CHR 0x0A"] by (auto simp: int_string_def is_digit_def)
  show ?thesis
  proof (induction v)
    case (JArr vs)
    then show ?case using join [of "map json_text vs"] by auto
  next
    case (JObj kvs)
    then show ?case using join [of "map (\<lambda>(k, v). json_quote k @ '':'' @ json_text v) kvs"] quote by fastforce
  qed (use quote num in \<open>auto split: if_splits\<close>)
qed

end
