(* ===== verification/Schema.thy ===== *)
theory Schema
  imports Json
begin

text \<open>
  The declarative table schema of \<open>packages/core/src/storage/schema.ts\<close> and the mapping between
  documents and normalised rows of \<open>typed-mapper.ts\<close>, with the round trip that makes a SQL backend
  lossless for documents of the declared shapes.
\<close>

section \<open>Table specifications\<close>

datatype column_kind = TextCol | IntegerCol | BooleanCol | JsonCol
datatype on_delete = Cascade | Restrict

record column_spec =
  field :: string
  kind :: column_kind
  notNull :: bool
  unique :: bool
  optional :: bool

record fk_spec =
  fk_column :: string
  refTable :: string
  refColumn :: string
  onDelete :: on_delete

record table_spec =
  collection :: string
  table_name :: string
  columns :: "column_spec list"
  indexes :: "string list"
  foreignKeys :: "fk_spec list"

definition col :: "string \<Rightarrow> column_kind \<Rightarrow> bool \<Rightarrow> bool \<Rightarrow> bool \<Rightarrow> column_spec" where
  "col f k n u opt = \<lparr>field = f, kind = k, notNull = n, unique = u, optional = opt\<rparr>"

definition SPEC_users :: table_spec where
  "SPEC_users =
  \<lparr>collection = ''users'', table_name = ''users'',
     columns = [
        col ''email'' TextCol True True False,
        col ''passwordHash'' TextCol False False False,
        col ''status'' TextCol False False False,
        col ''mustChangePassword'' BooleanCol False False False,
        col ''failedAttempts'' IntegerCol False False False,
        col ''lockedUntil'' IntegerCol False False False,
        col ''mfaEnabled'' BooleanCol False False False,
        col ''roles'' JsonCol False False False,
        col ''createdAt'' TextCol False False False],
     indexes = [],
     foreignKeys = []\<rparr>"

definition SPEC_sessions :: table_spec where
  "SPEC_sessions =
  \<lparr>collection = ''sessions'', table_name = ''sessions'',
     columns = [
        col ''userId'' TextCol True False False,
        col ''createdAt'' TextCol False False False,
        col ''expiresAt'' IntegerCol False False False,
        col ''revoked'' BooleanCol False False False],
     indexes = [''userId''],
     foreignKeys = [\<lparr>fk_column = ''userId'', refTable = ''users'', refColumn = ''id'', onDelete = Cascade\<rparr>]\<rparr>"

definition SPEC_invites :: table_spec where
  "SPEC_invites =
  \<lparr>collection = ''invites'', table_name = ''invites'',
     columns = [
        col ''email'' TextCol True False False,
        col ''roles'' JsonCol False False False,
        col ''tokenHash'' TextCol False False False,
        col ''invitedBy'' TextCol False False False,
        col ''expiresAt'' IntegerCol False False False,
        col ''consumedAt'' TextCol False False False,
        col ''createdAt'' TextCol False False False],
     indexes = [''tokenHash''],
     foreignKeys = []\<rparr>"

definition SPEC_content_types :: table_spec where
  "SPEC_content_types =
  \<lparr>collection = ''content_types'', table_name = ''content_types'',
     columns = [
        col ''name'' TextCol False False False,
        col ''slug'' TextCol True False False,
        col ''fields'' JsonCol False False False,
        col ''createdAt'' TextCol False False False],
     indexes = [''slug''],
     foreignKeys = []\<rparr>"

definition SPEC_content_entries :: table_spec where
  "SPEC_content_entries =
  \<lparr>collection = ''content_entries'', table_name = ''content_entries'',
     columns = [
        col ''typeId'' TextCol False False False,
        col ''slug'' TextCol False False False,
        col ''locale'' TextCol False False False,
        col ''status'' TextCol False False False,
        col ''authorId'' TextCol False False False,
        col ''currentRevision'' IntegerCol False False False,
        col ''publishedAt'' TextCol False False False,
        col ''scheduledFor'' TextCol False False False,
        col ''createdAt'' TextCol False False False,
        col ''updatedAt'' TextCol False False False,
        col ''system'' BooleanCol False False True,
        col ''requiresMembership'' BooleanCol False False True],
     indexes = [''status'', ''slug''],
     foreignKeys = [\<lparr>fk_column = ''typeId'', refTable = ''content_types'', refColumn = ''id'', onDelete = Restrict\<rparr>]\<rparr>"

definition SPEC_revisions :: table_spec where
  "SPEC_revisions =
  \<lparr>collection = ''revisions'', table_name = ''revisions'',
     columns = [
        col ''entryId'' TextCol True False False,
        col ''version'' IntegerCol False False False,
        col ''fields'' JsonCol False False False,
        col ''blocks'' JsonCol False False False,
        col ''editorId'' TextCol False False False,
        col ''createdAt'' TextCol False False False],
     indexes = [''entryId''],
     foreignKeys = [\<lparr>fk_column = ''entryId'', refTable = ''content_entries'', refColumn = ''id'', onDelete = Cascade\<rparr>]\<rparr>"

definition SPEC_jobs :: table_spec where
  "SPEC_jobs =
  \<lparr>collection = ''jobs'', table_name = ''jobs'',
     columns = [
        col ''type'' TextCol False False False,
        col ''runAt'' IntegerCol False False False,
        col ''payload'' JsonCol False False False,
        col ''status'' TextCol False False False,
        col ''attempts'' IntegerCol False False False,
        col ''createdAt'' TextCol False False False],
     indexes = [''status''],
     foreignKeys = []\<rparr>"

definition SPEC_plugin_state :: table_spec where
  "SPEC_plugin_state =
  \<lparr>collection = ''plugin_state'', table_name = ''plugin_state'',
     columns = [
        col ''enabled'' BooleanCol False False False],
     indexes = [],
     foreignKeys = []\<rparr>"

definition SPEC_media :: table_spec where
  "SPEC_media =
  \<lparr>collection = ''media'', table_name = ''media'',
     columns = [
        col ''filename'' TextCol False False False,
        col ''mime'' TextCol False False False,
        col ''ext'' TextCol False False False,
        col ''size'' IntegerCol False False False,
        col ''path'' TextCol False False False,
        col ''createdAt'' TextCol False False False],
     indexes = [],
     foreignKeys = []\<rparr>"

definition SPEC_consent_records :: table_spec where
  "SPEC_consent_records =
  \<lparr>collection = ''consent_records'', table_name = ''consent_records'',
     columns = [
        col ''subjectRef'' TextCol False False False,
        col ''scope'' TextCol False False False,
        col ''granted'' BooleanCol False False False,
        col ''at'' TextCol False False False],
     indexes = [''subjectRef''],
     foreignKeys = []\<rparr>"

definition SPEC_gdpr_tombstones :: table_spec where
  "SPEC_gdpr_tombstones =
  \<lparr>collection = ''gdpr_tombstones'', table_name = ''gdpr_tombstones'',
     columns = [
        col ''subject'' TextCol False False False,
        col ''erasedCount'' IntegerCol False False False,
        col ''erasedAt'' TextCol False False False],
     indexes = [],
     foreignKeys = []\<rparr>"

definition SPEC_member_accounts :: table_spec where
  "SPEC_member_accounts =
  \<lparr>collection = ''member_accounts'', table_name = ''member_accounts'',
     columns = [
        col ''email'' TextCol True True False,
        col ''passwordHash'' TextCol False False False,
        col ''displayName'' TextCol True False False,
        col ''avatarUrl'' TextCol False False False,
        col ''bio'' TextCol False False False,
        col ''emailVerified'' BooleanCol False False False,
        col ''status'' TextCol False False False,
        col ''failedAttempts'' IntegerCol False False False,
        col ''lockedUntil'' IntegerCol False False False,
        col ''createdAt'' TextCol False False False,
        col ''updatedAt'' TextCol False False False],
     indexes = [],
     foreignKeys = []\<rparr>"

definition SPEC_member_sessions :: table_spec where
  "SPEC_member_sessions =
  \<lparr>collection = ''member_sessions'', table_name = ''member_sessions'',
     columns = [
        col ''memberId'' TextCol True False False,
        col ''expiresAt'' IntegerCol False False False,
        col ''createdAt'' TextCol False False False],
     indexes = [''memberId''],
     foreignKeys = [\<lparr>fk_column = ''memberId'', refTable = ''member_accounts'', refColumn = ''id'', onDelete = Cascade\<rparr>]\<rparr>"

definition SPEC_member_tokens :: table_spec where
  "SPEC_member_tokens =
  \<lparr>collection = ''member_tokens'', table_name = ''member_tokens'',
     columns = [
        col ''memberId'' TextCol True False False,
        col ''email'' TextCol True False False,
        col ''type'' TextCol False False False,
        col ''tokenHash'' TextCol False False False,
        col ''expiresAt'' IntegerCol False False False,
        col ''usedAt'' TextCol False False False,
        col ''createdAt'' TextCol False False False],
     indexes = [''tokenHash'', ''memberId''],
     foreignKeys = [\<lparr>fk_column = ''memberId'', refTable = ''member_accounts'', refColumn = ''id'', onDelete = Cascade\<rparr>]\<rparr>"

definition SPEC_redirects :: table_spec where
  "SPEC_redirects =
  \<lparr>collection = ''redirects'', table_name = ''redirects'',
     columns = [
        col ''from'' TextCol True True False,
        col ''to'' TextCol True False False,
        col ''code'' IntegerCol False False False,
        col ''createdAt'' TextCol False False False],
     indexes = [''from''],
     foreignKeys = []\<rparr>"

definition TABLE_SPECS :: "table_spec list" where
  "TABLE_SPECS = [SPEC_users, SPEC_sessions, SPEC_invites, SPEC_content_types, SPEC_content_entries, SPEC_revisions, SPEC_jobs, SPEC_plugin_state, SPEC_media, SPEC_consent_records, SPEC_gdpr_tombstones, SPEC_member_accounts, SPEC_member_sessions, SPEC_member_tokens, SPEC_redirects]"

definition tableSpecFor :: "string \<Rightarrow> table_spec option" where
  "tableSpecFor c = find (\<lambda>s. collection s = c) TABLE_SPECS"

section \<open>Mapping\<close>

text \<open>
  A document is the list of its entries, \<open>id\<close> among them; \<open>undefined\<close> and an absent field are
  \<^const>\<open>None\<close>.  \<open>js_coerce\<close> stands for the coercions \<open>Number(v)\<close> and \<open>String(v)\<close> of a value of another
  type than the column's, which documents of the declared shapes never need.
\<close>

type_synonym jdoc = "(string \<times> json) list"

datatype sql_value = SNull | SNum int | SText string

record js_coerce =
  number_of :: "json \<Rightarrow> sql_value"
  string_of :: "json \<Rightarrow> string"
  number_back :: "sql_value \<Rightarrow> json"
  string_back :: "sql_value \<Rightarrow> string"

definition toStore :: "js_coerce \<Rightarrow> column_kind \<Rightarrow> json option \<Rightarrow> sql_value" where
  "toStore co k v =
     (case v of None \<Rightarrow> SNull | Some JNull \<Rightarrow> SNull
      | Some v \<Rightarrow>
        (case k of
           BooleanCol \<Rightarrow> SNum (if js_truthy v then 1 else 0)
         | JsonCol \<Rightarrow> SText (json_text v)
         | IntegerCol \<Rightarrow> (case v of JNum i \<Rightarrow> SNum i | _ \<Rightarrow> number_of co v)
         | TextCol \<Rightarrow> SText (case v of JStr s \<Rightarrow> s | _ \<Rightarrow> string_of co v)))"

text \<open>\<open>JSON.parse\<close> throws on a text that is none.\<close>

definition fromStore :: "js_coerce \<Rightarrow> column_kind \<Rightarrow> sql_value \<Rightarrow> json result" where
  "fromStore co k v =
     (case v of SNull \<Rightarrow> Inr JNull
      | _ \<Rightarrow>
        (case k of
           BooleanCol \<Rightarrow> Inr (JBool (js_truthy (case v of SNum i \<Rightarrow> JNum i | _ \<Rightarrow> number_back co v)))
         | JsonCol \<Rightarrow>
             (case json_parse (case v of SText s \<Rightarrow> s | _ \<Rightarrow> string_back co v) of
                None \<Rightarrow> Inl (js_error ''Unexpected token in JSON'') | Some x \<Rightarrow> Inr x)
         | IntegerCol \<Rightarrow> Inr (case v of SNum i \<Rightarrow> JNum i | _ \<Rightarrow> number_back co v)
         | TextCol \<Rightarrow> Inr (JStr (case v of SText s \<Rightarrow> s | _ \<Rightarrow> string_back co v))))"

definition typedColumns :: "table_spec \<Rightarrow> string list" where
  "typedColumns spec = [''id''] @ map field (columns spec) @ [''extra'']"

type_synonym row = "(string \<times> sql_value) list"

definition doc_id_text :: "js_coerce \<Rightarrow> jdoc \<Rightarrow> string" where
  "doc_id_text co d =
     (case map_of d ''id'' of Some (JStr s) \<Rightarrow> s | Some v \<Rightarrow> string_of co v | None \<Rightarrow> ''undefined'')"

definition docToRow :: "js_coerce \<Rightarrow> table_spec \<Rightarrow> jdoc \<Rightarrow> row" where
  "docToRow co spec d =
     (let row = obj_assign [(''id'', SText (doc_id_text co d))]
            (map (\<lambda>c. (field c, toStore co (kind c) (map_of d (field c)))) (columns spec));
          known = ''id'' # map field (columns spec);
          extra = filter (\<lambda>(k, v). k \<notin> set known) d
      in obj_set ''extra'' (SText (json_text (JObj extra))) row)"

text \<open>\<open>Object.assign(doc, x)\<close> copies the entries of an object, the elements of an array or a string.\<close>

definition own_entries :: "json \<Rightarrow> jdoc" where
  "own_entries v =
     (case v of JObj kvs \<Rightarrow> kvs
      | JArr vs \<Rightarrow> zip (map nat_digits [0..<length vs]) vs
      | JStr s \<Rightarrow> zip (map nat_digits [0..<length s]) (map (\<lambda>c. JStr [c]) s)
      | _ \<Rightarrow> [])"

fun read_columns :: "js_coerce \<Rightarrow> row \<Rightarrow> column_spec list \<Rightarrow> jdoc \<Rightarrow> jdoc result" where
  "read_columns co row [] d = Inr d"
| "read_columns co row (c # cs) d =
     (let raw = (case map_of row (field c) of None \<Rightarrow> SNull | Some x \<Rightarrow> x) in
      if optional c \<and> raw = SNull then read_columns co row cs d
      else case fromStore co (kind c) raw of Inl e \<Rightarrow> Inl e
      | Inr v \<Rightarrow> read_columns co row cs (obj_set (field c) v d))"

definition cell_text :: "js_coerce \<Rightarrow> string \<Rightarrow> sql_value option \<Rightarrow> string" where
  "cell_text co dflt v =
     (case v of None \<Rightarrow> dflt | Some SNull \<Rightarrow> dflt | Some (SText s) \<Rightarrow> s | Some x \<Rightarrow> string_back co x)"

definition rowToDoc :: "js_coerce \<Rightarrow> table_spec \<Rightarrow> row \<Rightarrow> jdoc result" where
  "rowToDoc co spec row =
     (case read_columns co row (columns spec)
             [(''id'', JStr (cell_text co (if map_of row ''id'' = None then ''undefined'' else ''null'') (map_of row ''id'')))] of
        Inl e \<Rightarrow> Inl e
      | Inr d \<Rightarrow>
        (case json_parse (cell_text co ''{}'' (map_of row ''extra'')) of
           None \<Rightarrow> Inl (js_error ''Unexpected token in JSON'')
         | Some x \<Rightarrow> Inr (obj_assign d (own_entries x))))"

section \<open>Round trip\<close>

text \<open>A document of the declared shape.\<close>

definition kind_ok :: "column_kind \<Rightarrow> json \<Rightarrow> bool" where
  "kind_ok k v \<longleftrightarrow> v = JNull \<or>
     (case k of TextCol \<Rightarrow> (\<exists>s. v = JStr s) | IntegerCol \<Rightarrow> (\<exists>i. v = JNum i)
      | BooleanCol \<Rightarrow> (\<exists>b. v = JBool b) | JsonCol \<Rightarrow> True)"

definition conforms :: "table_spec \<Rightarrow> jdoc \<Rightarrow> bool" where
  "conforms spec d \<longleftrightarrow> wf_json (JObj d) \<and> (\<exists>s. map_of d ''id'' = Some (JStr s)) \<and>
     list_all (\<lambda>c. case map_of d (field c) of None \<Rightarrow> optional c
        | Some v \<Rightarrow> kind_ok (kind c) v \<and> \<not> (optional c \<and> v = JNull)) (columns spec)"

definition spec_ok :: "table_spec \<Rightarrow> bool" where
  "spec_ok spec \<longleftrightarrow> distinct (typedColumns spec)"

lemmas TABLE_SPECS_defs = SPEC_users_def SPEC_sessions_def SPEC_invites_def SPEC_content_types_def
  SPEC_content_entries_def SPEC_revisions_def SPEC_jobs_def SPEC_plugin_state_def SPEC_media_def
  SPEC_consent_records_def SPEC_gdpr_tombstones_def SPEC_member_accounts_def SPEC_member_sessions_def
  SPEC_member_tokens_def SPEC_redirects_def

lemma TABLE_SPECS_ok: "spec \<in> set TABLE_SPECS \<Longrightarrow> spec_ok spec"
proof -
  have "list_all spec_ok TABLE_SPECS" by code_simp
  then show "spec \<in> set TABLE_SPECS \<Longrightarrow> spec_ok spec" by (simp add: list_all_iff)
qed

lemma fromStore_toStore:
  "kind_ok k v \<Longrightarrow> wf_json v \<Longrightarrow> fromStore co k (toStore co k (Some v)) = Inr v"
  by (cases k; cases v) (auto simp: kind_ok_def toStore_def fromStore_def simp del: json_text.simps wf_json.simps)

lemma toStore_null: "toStore co k v = SNull \<Longrightarrow> kind_ok k (case v of None \<Rightarrow> JNull | Some x \<Rightarrow> x) \<Longrightarrow>
    v = None \<or> v = Some JNull"
  by (cases v; cases k) (auto simp: kind_ok_def toStore_def split: json.splits)

lemma read_columns_doc:
  assumes "\<And>c. c \<in> set cs \<Longrightarrow> map_of row (field c) = Some (toStore co (kind c) (map_of d (field c)))"
    "\<And>c. c \<in> set cs \<Longrightarrow> (case map_of d (field c) of None \<Rightarrow> optional c
        | Some v \<Rightarrow> kind_ok (kind c) v \<and> wf_json v \<and> \<not> (optional c \<and> v = JNull))"
  shows "\<exists>d'. read_columns co row cs acc = Inr d' \<and>
    map_of d' = (\<lambda>k. if k \<in> field ` set cs \<and> map_of d k \<noteq> None then map_of d k else map_of acc k)"
  using assms
proof (induction cs arbitrary: acc)
  case (Cons c cs)
  have row: "map_of row (field c) = Some (toStore co (kind c) (map_of d (field c)))" using Cons.prems(1) by simp
  have IH: "\<exists>d'. read_columns co row cs acc = Inr d' \<and>
    map_of d' = (\<lambda>k. if k \<in> field ` set cs \<and> map_of d k \<noteq> None then map_of d k else map_of acc k)" for acc
    using Cons.IH Cons.prems by simp
  show ?case
  proof (cases "map_of d (field c)")
    case None
    then have "optional c" using Cons.prems(2) [of c] by simp
    then show ?thesis using IH [of acc] row None by (auto simp: toStore_def fun_eq_iff)
  next
    case (Some v)
    then have v: "kind_ok (kind c) v" "wf_json v" "\<not> (optional c \<and> v = JNull)" using Cons.prems(2) [of c] by auto
    then have "\<not> (optional c \<and> toStore co (kind c) (Some v) = SNull)"
      using toStore_null [of co "kind c" "Some v"] by auto
    then have "read_columns co row (c # cs) acc = read_columns co row cs (obj_set (field c) v acc)"
      using row Some fromStore_toStore [OF v(1,2)] by auto
    then show ?thesis using IH [of "obj_set (field c) v acc"] Some by (auto simp: map_of_obj_set fun_eq_iff)
  qed
qed simp

lemma map_of_filter_keys: "map_of (filter (\<lambda>(k, v). P k) kvs) k = (if P k then map_of kvs k else None)"
  by (induction kvs) auto

lemma row_cells:
  assumes "spec_ok spec" "c \<in> set (columns spec)"
  shows "map_of (docToRow co spec d) (field c) = Some (toStore co (kind c) (map_of d (field c)))"
    "map_of (docToRow co spec d) ''id'' = Some (SText (doc_id_text co d))"
proof -
  let ?cells = "map (\<lambda>c. (field c, toStore co (kind c) (map_of d (field c)))) (columns spec)"
  have d: "distinct (map fst ?cells)" "''id'' \<notin> field ` set (columns spec)" "''extra'' \<notin> field ` set (columns spec)"
    using assms(1) by (auto simp: spec_ok_def typedColumns_def o_def)
  have r: "map_of (rev ?cells) = map_of ?cells" by (rule map_of_rev_distinct [OF d(1)])
  have m: "map_of (docToRow co spec d) k =
      (if k = ''extra'' then Some (SText (json_text (JObj (filter (\<lambda>(k, v). k \<notin> set (''id'' # map field (columns spec))) d))))
       else ([''id'' \<mapsto> SText (doc_id_text co d)] ++ map_of ?cells) k)" for k
    by (simp add: docToRow_def Let_def map_of_obj_set map_of_obj_assign r)
  have "map_of ?cells (field c) = Some (toStore co (kind c) (map_of d (field c)))"
    using assms(2) d(1) by (intro map_of_is_SomeI) auto
  moreover have "field c \<noteq> ''extra''" using assms(2) d(3) by force
  ultimately show "map_of (docToRow co spec d) (field c) = Some (toStore co (kind c) (map_of d (field c)))"
    unfolding m by (simp add: map_add_def)
  have "map_of ?cells ''id'' = None" using d(2) by (auto simp: map_of_eq_None_iff)
  then show "map_of (docToRow co spec d) ''id'' = Some (SText (doc_id_text co d))"
    unfolding m by (simp add: map_add_def)
qed

text \<open>Reading back the row of a conforming document gives the same fields.\<close>

lemma docToRow_rowToDoc:
  assumes ok: "spec_ok spec" and d: "conforms spec d" and ne: "columns spec \<noteq> []"
  shows "\<exists>d'. rowToDoc co spec (docToRow co spec d) = Inr d' \<and> map_of d' = map_of d"
proof -
  let ?row = "docToRow co spec d" and ?known = "''id'' # map field (columns spec)"
  let ?extra = "filter (\<lambda>(k, v). k \<notin> set ?known) d"
  obtain i where i: "map_of d ''id'' = Some (JStr i)" using d by (auto simp: conforms_def)
  have wf: "distinct (map fst d)" "\<And>k v. map_of d k = Some v \<Longrightarrow> wf_json v"
    using d by (auto simp: conforms_def list_all_iff dest: map_of_SomeD)
  have c: "case map_of d (field c) of None \<Rightarrow> optional c
        | Some v \<Rightarrow> kind_ok (kind c) v \<and> wf_json v \<and> \<not> (optional c \<and> v = JNull)" if "c \<in> set (columns spec)" for c
    using d that wf(2) by (auto simp: conforms_def list_all_iff split: option.splits)
  obtain d1 where d1: "read_columns co ?row (columns spec) [(''id'', JStr i)] = Inr d1"
      "map_of d1 = (\<lambda>k. if k \<in> field ` set (columns spec) \<and> map_of d k \<noteq> None then map_of d k
         else map_of [(''id'', JStr i)] k)"
    using read_columns_doc [of "columns spec" ?row co d] row_cells(1) [OF ok] c by blast
  obtain c0 where "c0 \<in> set (columns spec)" using ne by (cases "columns spec") auto
  then have id: "map_of ?row ''id'' = Some (SText i)" using row_cells(2) [OF ok] i by (simp add: doc_id_text_def)
  have ex: "map_of ?row ''extra'' = Some (SText (json_text (JObj ?extra)))"
    by (simp add: docToRow_def Let_def map_of_obj_set del: json_text.simps)
  have dx: "distinct (map fst ?extra)" using wf(1) by (simp add: distinct_map_filter)
  have "list_all (\<lambda>(k, v). wf_json v) d" using d by (simp add: conforms_def)
  then have "wf_json (JObj ?extra)" using dx by (auto simp: list_all_iff)
  then have "json_parse (json_text (JObj ?extra)) = Some (JObj ?extra)" by (rule json_roundtrip)
  then have "rowToDoc co spec ?row = Inr (obj_assign d1 ?extra)"
    using d1(1) unfolding rowToDoc_def id ex cell_text_def by (simp add: own_entries_def del: json_text.simps)
  moreover have "map_of (obj_assign d1 ?extra) = map_of d"
    unfolding map_of_obj_assign map_of_rev_distinct [OF dx] d1(2)
    using i by (auto simp: fun_eq_iff map_add_def map_of_filter_keys split: option.splits)
  ultimately show ?thesis by blast
qed

end
