(* ===== verification/Migrate.thy ===== *)
theory Migrate
  imports Transaction Schema
begin

text \<open>
  Copying a whole store to another backend, \<open>packages/core/src/storage/migrate.ts\<close>: the order of the
  collections along the foreign keys of the typed tables, and the copy loop over the pages of each
  collection.  A source whose pages are those of a table extends the storage contract; the filesystem
  adapter is such a source.
\<close>

section \<open>Order of the collections\<close>

definition tableToCollection :: "string \<Rightarrow> string option" where
  "tableToCollection t = map_option collection (find (\<lambda>s. table_name s = t) TABLE_SPECS)"

definition spec_collections :: "string set" where
  "spec_collections = collection ` set TABLE_SPECS"

lemma tableSpecFor_in: "tableSpecFor c = Some spec \<Longrightarrow> spec \<in> set TABLE_SPECS \<and> collection spec = c"
  unfolding tableSpecFor_def by (auto simp: find_Some_iff)

text \<open>\<open>visit\<close> keeps the collections on the stack and the result; \<open>added\<close> is the set of the result.\<close>

function visit :: "string set \<Rightarrow> string \<Rightarrow> string set \<Rightarrow> string list \<Rightarrow> string list"
  and visit_refs :: "string set \<Rightarrow> string \<Rightarrow> fk_spec list \<Rightarrow> string set \<Rightarrow> string list \<Rightarrow> string list" where
  "visit present c stack res =
     (if c \<in> set res \<or> c \<in> stack then res
      else case tableSpecFor c of None \<Rightarrow> res @ [c]
      | Some spec \<Rightarrow> visit_refs present c (foreignKeys spec) (insert c stack) res @ [c])"
| "visit_refs present c [] stack res = res"
| "visit_refs present c (fk # fks) stack res =
     visit_refs present c fks stack
       (case tableToCollection (refTable fk) of None \<Rightarrow> res
        | Some ref \<Rightarrow> if ref \<noteq> c \<and> ref \<in> present then visit present ref stack res else res)"
  by pat_completeness auto
termination
proof (relation "measures
    [\<lambda>x. case x of Inl (p, c, stack, res) \<Rightarrow> card (spec_collections - stack)
       | Inr (p, c, fks, stack, res) \<Rightarrow> card (spec_collections - stack),
     \<lambda>x. case x of Inl _ \<Rightarrow> 0 | Inr (p, c, fks, stack, res) \<Rightarrow> Suc (length fks)]")
  fix present c stack res spec
  assume a: "\<not> (c \<in> set res \<or> c \<in> stack)" "tableSpecFor c = Some spec"
  then have "c \<in> spec_collections - stack" using tableSpecFor_in by (force simp: spec_collections_def)
  then have "card (spec_collections - insert c stack) < card (spec_collections - stack)"
    by (intro psubset_card_mono) (auto simp: spec_collections_def)
  then show "(Inr (present, c, foreignKeys spec, insert c stack, res), Inl (present, c, stack, res)) \<in> measures
    [\<lambda>x. case x of Inl (p, c, stack, res) \<Rightarrow> card (spec_collections - stack)
       | Inr (p, c, fks, stack, res) \<Rightarrow> card (spec_collections - stack),
     \<lambda>x. case x of Inl _ \<Rightarrow> 0 | Inr (p, c, fks, stack, res) \<Rightarrow> Suc (length fks)]" by simp
qed auto

definition orderByDependency :: "string list \<Rightarrow> string list" where
  "orderByDependency cs = foldl (\<lambda>res c. visit (set cs) c {} res) [] cs"

section \<open>The copy loop\<close>

fun copy_docs ::
  "('t, 'd, 'p) storage_adapter \<Rightarrow> string \<Rightarrow> 'd doc list \<Rightarrow> nat \<Rightarrow> ('t, nat) action" where
  "copy_docs B c [] n t = (Inr n, t)"
| "copy_docs B c (d # ds) n t =
     (case ad_put B c d t of (Inl e, t) \<Rightarrow> (Inl e, t) | (Inr _, t) \<Rightarrow> copy_docs B c ds (n + 1) t)"

partial_function (option) copy_pages ::
  "('s, 'd, 'q) storage_adapter \<Rightarrow> ('t, 'd, 'p) storage_adapter \<Rightarrow> string \<Rightarrow> string option \<Rightarrow> nat \<Rightarrow> 's \<Rightarrow> 't \<Rightarrow>
   (nat result \<times> 't) option" where
  "copy_pages A B c cursor n s t =
     (case ad_query A c [] cursor (Some 500) s of Inl e \<Rightarrow> Some (Inl e, t)
      | Inr page \<Rightarrow>
        (case copy_docs B c (fst page) n t of (r, t) \<Rightarrow>
          (case r of Inl e \<Rightarrow> Some (Inl e, t)
           | Inr n \<Rightarrow> (case snd page of None \<Rightarrow> Some (Inr n, t) | Some a \<Rightarrow> copy_pages A B c (Some a) n s t))))"

fun copy_collections ::
  "('s, 'd, 'q) storage_adapter \<Rightarrow> ('t, 'd, 'p) storage_adapter \<Rightarrow> string list \<Rightarrow> nat \<Rightarrow> 's \<Rightarrow> 't \<Rightarrow>
   (nat result \<times> 't) option" where
  "copy_collections A B [] n s t = Some (Inr n, t)"
| "copy_collections A B (c # cs) n s t =
     (case copy_pages A B c None n s t of None \<Rightarrow> None
      | Some (Inl e, t) \<Rightarrow> Some (Inl e, t)
      | Some (Inr n, t) \<Rightarrow> copy_collections A B cs n s t)"

text \<open>The result counts the collections and the records.\<close>

definition migrateStorage ::
  "('s, 'd, 'q) storage_adapter \<Rightarrow> ('t, 'd, 'p) storage_adapter \<Rightarrow> 's \<Rightarrow> 't \<Rightarrow>
   ((nat \<times> nat) result \<times> 't) option" where
  "migrateStorage A B s t =
     (case ad_listCollections A s of Inl e \<Rightarrow> Some (Inl e, t)
      | Inr cs \<Rightarrow>
        (case copy_collections A B (orderByDependency cs) 0 s t of None \<Rightarrow> None
         | Some (Inl e, t) \<Rightarrow> Some (Inl e, t)
         | Some (Inr n, t) \<Rightarrow> Some (Inr (length (orderByDependency cs), n), t)))"

section \<open>The order respects the foreign keys\<close>

definition fks_of :: "string \<Rightarrow> fk_spec list" where
  "fks_of c = (case tableSpecFor c of None \<Rightarrow> [] | Some spec \<Rightarrow> foreignKeys spec)"

definition depends :: "string \<Rightarrow> string \<Rightarrow> bool" where
  "depends c r \<longleftrightarrow> r \<noteq> c \<and> (\<exists>fk \<in> set (fks_of c). tableToCollection (refTable fk) = Some r)"

text \<open>The position of a collection in the schema; a foreign key points to an earlier one.\<close>

fun spec_index :: "table_spec list \<Rightarrow> string \<Rightarrow> nat" where
  "spec_index [] c = 0"
| "spec_index (s # ss) c = (if collection s = c then 0 else Suc (spec_index ss c))"

definition spec_rank :: "string \<Rightarrow> nat" where
  "spec_rank c = spec_index TABLE_SPECS c"

lemma depends_rank: "depends c r \<Longrightarrow> spec_rank r < spec_rank c"
proof -
  assume d: "depends c r"
  have all: "list_all (\<lambda>s. list_all (\<lambda>fk. case tableToCollection (refTable fk) of None \<Rightarrow> True
      | Some r \<Rightarrow> r = collection s \<or> spec_rank r < spec_rank (collection s)) (foreignKeys s)) TABLE_SPECS"
    by code_simp
  obtain spec where s: "tableSpecFor c = Some spec"
    using d by (cases "tableSpecFor c") (auto simp: depends_def fks_of_def)
  then have "spec \<in> set TABLE_SPECS" "collection spec = c" using tableSpecFor_in by auto
  then show ?thesis using all d s by (fastforce simp: depends_def fks_of_def list_all_iff)
qed

definition deps_first :: "string set \<Rightarrow> string list \<Rightarrow> bool" where
  "deps_first present res \<longleftrightarrow> distinct res \<and>
     (\<forall>xs c ys. res = xs @ c # ys \<longrightarrow> (\<forall>r \<in> present. depends c r \<longrightarrow> r \<in> set xs))"

lemma deps_first_snoc:
  assumes "deps_first present res" "c \<notin> set res" "\<forall>r \<in> present. depends c r \<longrightarrow> r \<in> set res"
  shows "deps_first present (res @ [c])"
  using assms unfolding deps_first_def
  by (auto simp: append_eq_append_conv2 append_eq_Cons_conv Cons_eq_append_conv)

lemma visit_spec:
  shows "c \<in> present \<Longrightarrow> deps_first present res \<Longrightarrow> set res \<subseteq> present \<Longrightarrow> \<forall>s \<in> stack. spec_rank c < spec_rank s \<Longrightarrow>
      deps_first present (visit present c stack res) \<and>
      insert c (set res) \<subseteq> set (visit present c stack res) \<and> set (visit present c stack res) \<subseteq> present \<and>
      set (visit present c stack res) \<inter> stack \<subseteq> set res"
    and "deps_first present res \<Longrightarrow> set res \<subseteq> present \<Longrightarrow> set fks \<subseteq> set (fks_of c) \<Longrightarrow> c \<in> stack \<Longrightarrow>
      \<forall>s \<in> stack. spec_rank c \<le> spec_rank s \<Longrightarrow>
      deps_first present (visit_refs present c fks stack res) \<and>
      set res \<subseteq> set (visit_refs present c fks stack res) \<and> set (visit_refs present c fks stack res) \<subseteq> present \<and>
      set (visit_refs present c fks stack res) \<inter> stack \<subseteq> set res \<and>
      (\<forall>fk \<in> set fks. \<forall>r \<in> present. tableToCollection (refTable fk) = Some r \<longrightarrow> r \<noteq> c \<longrightarrow>
         r \<in> set (visit_refs present c fks stack res))"
proof (induction present c stack res and present c fks stack res rule: visit_visit_refs.induct)
  case (1 present c stack res)
  have ns: "c \<notin> stack" using "1.prems"(4) by blast
  show ?case
  proof (cases "c \<in> set res")
    case True
    then show ?thesis using "1.prems" by auto
  next
    case new: False
    show ?thesis
    proof (cases "tableSpecFor c")
      case None
      then have "\<not> depends c r" for r by (simp add: depends_def fks_of_def)
      then show ?thesis using deps_first_snoc [OF "1.prems"(2) new] "1.prems" new ns None by auto
    next
      case (Some spec)
      let ?r = "visit_refs present c (foreignKeys spec) (insert c stack) res"
      have f: "foreignKeys spec = fks_of c" by (simp add: fks_of_def Some)
      have r: "deps_first present ?r \<and> set res \<subseteq> set ?r \<and> set ?r \<subseteq> present \<and> set ?r \<inter> insert c stack \<subseteq> set res \<and>
          (\<forall>fk \<in> set (foreignKeys spec). \<forall>r \<in> present. tableToCollection (refTable fk) = Some r \<longrightarrow> r \<noteq> c \<longrightarrow> r \<in> set ?r)"
        using "1.IH" [OF _ Some] new ns "1.prems" f by (auto simp: less_imp_le)
      then have "c \<notin> set ?r" using new by blast
      moreover have "\<forall>r \<in> present. depends c r \<longrightarrow> r \<in> set ?r" using r f by (auto simp: depends_def)
      ultimately have "deps_first present (?r @ [c])" using r deps_first_snoc by blast
      moreover have "visit present c stack res = ?r @ [c]" using new ns Some by simp
      ultimately show ?thesis using r "1.prems"(1) ns by auto
    qed
  qed
next
  case (2 present c stack res)
  then show ?case by simp
next
  case (3 present c fk fks stack res)
  let ?r = "case tableToCollection (refTable fk) of None \<Rightarrow> res
        | Some ref \<Rightarrow> if ref \<noteq> c \<and> ref \<in> present then visit present ref stack res else res"
  have v: "deps_first present ?r \<and> set res \<subseteq> set ?r \<and> set ?r \<subseteq> present \<and> set ?r \<inter> stack \<subseteq> set res \<and>
      (\<forall>r \<in> present. tableToCollection (refTable fk) = Some r \<longrightarrow> r \<noteq> c \<longrightarrow> r \<in> set ?r)"
  proof (cases "\<exists>ref. tableToCollection (refTable fk) = Some ref \<and> ref \<noteq> c \<and> ref \<in> present")
    case True
    then obtain ref where ref: "tableToCollection (refTable fk) = Some ref" "ref \<noteq> c \<and> ref \<in> present" by blast
    then have "depends c ref" using "3.prems"(3) by (auto simp: depends_def)
    then have "\<forall>s \<in> stack. spec_rank ref < spec_rank s" using depends_rank "3.prems"(5) by fastforce
    then show ?thesis using "3.IH"(1) [OF ref] "3.prems"(1,2) ref by auto
  next
    case False
    then have "?r = res" by (auto split: option.splits)
    then show ?thesis using "3.prems"(1,2) False by auto
  qed
  have "deps_first present (visit_refs present c fks stack ?r) \<and>
      set ?r \<subseteq> set (visit_refs present c fks stack ?r) \<and> set (visit_refs present c fks stack ?r) \<subseteq> present \<and>
      set (visit_refs present c fks stack ?r) \<inter> stack \<subseteq> set ?r \<and>
      (\<forall>fk \<in> set fks. \<forall>r \<in> present. tableToCollection (refTable fk) = Some r \<longrightarrow> r \<noteq> c \<longrightarrow>
         r \<in> set (visit_refs present c fks stack ?r))"
    using "3.IH"(2) v "3.prems"(3-5) by simp
  then show ?case using v unfolding visit_refs.simps(2) by (auto 0 3)
qed

lemma order_fold:
  "set cs \<subseteq> present \<Longrightarrow> deps_first present res \<Longrightarrow> set res \<subseteq> present \<Longrightarrow>
    deps_first present (foldl (\<lambda>res c. visit present c {} res) res cs) \<and>
    set (foldl (\<lambda>res c. visit present c {} res) res cs) \<subseteq> present \<and>
    set res \<union> set cs \<subseteq> set (foldl (\<lambda>res c. visit present c {} res) res cs)"
proof (induction cs arbitrary: res)
  case (Cons c cs)
  have v: "deps_first present (visit present c {} res) \<and> insert c (set res) \<subseteq> set (visit present c {} res) \<and>
      set (visit present c {} res) \<subseteq> present"
    using visit_spec(1) [of c present res "{}"] Cons.prems by simp
  then show ?case using Cons.IH [of "visit present c {} res"] Cons.prems(1) by auto
qed simp

lemma orderByDependency_spec:
  "deps_first (set cs) (orderByDependency cs)" "set (orderByDependency cs) = set cs"
proof -
  have "deps_first (set cs) []" by (simp add: deps_first_def)
  then have "deps_first (set cs) (orderByDependency cs) \<and> set (orderByDependency cs) \<subseteq> set cs \<and>
      set [] \<union> set cs \<subseteq> set (orderByDependency cs)"
    unfolding orderByDependency_def by (intro order_fold) auto
  then show "deps_first (set cs) (orderByDependency cs)" "set (orderByDependency cs) = set cs" by auto
qed

section \<open>Stores whose pages are those of a table\<close>

locale paged_store = document_store A inv view ok
  for A :: "('s, 'd, 'q) storage_adapter" and inv :: "'s \<Rightarrow> bool"
    and view :: "'s \<Rightarrow> string \<times> string \<Rightarrow> 'd doc option" and ok :: "string \<Rightarrow> string \<Rightarrow> bool" +
  fixes rows :: "'s \<Rightarrow> string \<Rightarrow> (string, 'd doc) table"
  assumes rows_ok: "inv s \<Longrightarrow> tab_ok (rows s c)"
    and rows_view: "inv s \<Longrightarrow> map_of (rows s c) i = view s (c, i)"
    and query_page: "inv s \<Longrightarrow> view s (c, i) = Some d \<Longrightarrow>
      ad_query A c [] after lm s = Inr (tab_query (\<lambda>_. True) after lm (rows s c))"
    and collections: "inv s \<Longrightarrow>
      \<exists>cs. ad_listCollections A s = Inr cs \<and> distinct cs \<and> set cs = {c. \<exists>i d. view s (c, i) = Some d}"
begin

lemma rows_id: "inv s \<Longrightarrow> (i, d) \<in> set (rows s c) \<Longrightarrow> doc_id d = i \<and> ok c i"
  using rows_view view_id map_of_in_set rows_ok by metis

end

text \<open>The documents of one collection laid over a view.\<close>

definition overlay :: "string \<Rightarrow> 'd doc list \<Rightarrow> (string \<times> string \<Rightarrow> 'd doc option) \<Rightarrow> string \<times> string \<Rightarrow> 'd doc option" where
  "overlay c ds v = v ++ map_of (rev (map (\<lambda>d. ((c, doc_id d), d)) ds))"

lemma overlay_Nil [simp]: "overlay c [] v = v"
  by (simp add: overlay_def)

lemma overlay_Cons: "overlay c (d # ds) v = overlay c ds (v((c, doc_id d) \<mapsto> d))"
  by (auto simp: overlay_def fun_eq_iff map_add_def split: option.splits)

lemma overlay_append: "overlay c (ds @ es) v = overlay c es (overlay c ds v)"
  by (simp add: overlay_def flip: map_add_assoc)

locale migration =
  src: paged_store A inv view ok rows + dst: document_store B inv' view' ok'
  for A :: "('s, 'd, 'q) storage_adapter" and inv :: "'s \<Rightarrow> bool"
    and view :: "'s \<Rightarrow> string \<times> string \<Rightarrow> 'd doc option" and ok :: "string \<Rightarrow> string \<Rightarrow> bool"
    and rows :: "'s \<Rightarrow> string \<Rightarrow> (string, 'd doc) table"
    and B :: "('t, 'd, 'p) storage_adapter" and inv' :: "'t \<Rightarrow> bool"
    and view' :: "'t \<Rightarrow> string \<times> string \<Rightarrow> 'd doc option" and ok' :: "string \<Rightarrow> string \<Rightarrow> bool" +
  assumes keys: "ok c i \<Longrightarrow> ok' c i"
begin

lemma copy_docs_ok:
  "inv' t \<Longrightarrow> \<forall>d \<in> set ds. ok' c (doc_id d) \<Longrightarrow>
    \<exists>t'. copy_docs B c ds n t = (Inr (n + length ds), t') \<and> inv' t' \<and> view' t' = overlay c ds (view' t)"
proof (induction ds arbitrary: n t)
  case (Cons d ds)
  obtain t1 where p: "ad_put B c d t = (Inr (), t1)" "inv' t1" "view' t1 = (view' t)((c, doc_id d) \<mapsto> d)"
    using dst.put_ok [of t c d] Cons.prems by auto
  have "\<exists>t'. copy_docs B c ds (n + 1) t1 = (Inr (n + 1 + length ds), t') \<and> inv' t' \<and>
      view' t' = overlay c ds (view' t1)" using Cons.IH [OF p(2), of "n + 1"] Cons.prems(2) by simp
  then obtain t' where q: "copy_docs B c ds (n + 1) t1 = (Inr (n + 1 + length ds), t')" "inv' t'"
      "view' t' = overlay c (d # ds) (view' t)" unfolding p(3) overlay_Cons [symmetric] by blast
  have "copy_docs B c (d # ds) n t = (Inr (n + length (d # ds)), t')" using p(1) q(1) by simp
  then show ?case using q(2,3) by blast
qed simp

lemma copy_pages_ok:
  assumes s: "inv s" "view s (c, i0) = Some d0"
  shows "inv' t \<Longrightarrow> \<exists>t'. copy_pages A B c cursor n s t =
      Some (Inr (n + length (matching (\<lambda>_. True) cursor (rows s c))), t') \<and> inv' t' \<and>
      view' t' = overlay c (map snd (matching (\<lambda>_. True) cursor (rows s c))) (view' t)"
proof (induction "length (matching (\<lambda>_. True) cursor (rows s c))" arbitrary: cursor n t rule: less_induct)
  case less
  let ?m = "matching (\<lambda>_. True) cursor (rows s c)" and ?k = "page_limit (Some 500)"
  obtain items nxt where q: "tab_query (\<lambda>_. True) cursor (Some 500) (rows s c) = (items, nxt)" by force
  have query: "ad_query A c [] cursor (Some 500) s = Inr (items, nxt)"
    using src.query_page [OF s, of cursor "Some 500"] q by simp
  have it: "items = map snd (take ?k ?m)"
    using tab_query_items [of "\<lambda>_. True" cursor "Some 500" "rows s c"] q by simp
  have sub: "set ?m \<subseteq> set (rows s c)" by (auto simp: matching_def)
  have "ok' c (doc_id d)" if "d \<in> set items" for d
  proof -
    have "d \<in> snd ` set ?m" using that unfolding it by (auto dest: in_set_takeD)
    then obtain i where "(i, d) \<in> set (rows s c)" using sub by auto
    then show ?thesis using src.rows_id [OF s(1)] keys by blast
  qed
  then obtain t1 where t1: "copy_docs B c items n t = (Inr (n + length items), t1)" "inv' t1"
      "view' t1 = overlay c items (view' t)" using copy_docs_ok [OF less.prems, of items c n] by blast
  show ?case
  proof (cases nxt)
    case None
    then have "length ?m \<le> ?k"
      using tab_query_done [of "\<lambda>_. True" cursor "Some 500" "rows s c"] q by simp
    then have "items = map snd ?m" by (simp add: it)
    then show ?thesis using t1 by (subst copy_pages.simps) (simp add: query None)
  next
    case (Some a)
    then have a: "snd (tab_query (\<lambda>_. True) cursor (Some 500) (rows s c)) = Some a" using q by simp
    have d: "matching (\<lambda>_. True) (Some a) (rows s c) = drop ?k ?m"
      by (rule matching_after_cursor [OF src.rows_ok [OF s(1)] a])
    note lt = tab_query_cursor(2) [OF a]
    have "length (matching (\<lambda>_. True) (Some a) (rows s c)) < length ?m"
      using d lt page_limit_bounds [of "Some 500"] by simp linarith
    from less.hyps [OF this t1(2), of "n + length items"] obtain t2 where t2:
      "copy_pages A B c (Some a) (n + length items) s t1 =
        Some (Inr (n + length items + length (drop ?k ?m)), t2)" "inv' t2"
      "view' t2 = overlay c (map snd (drop ?k ?m)) (view' t1)" unfolding d by blast
    have e: "items @ map snd (drop ?k ?m) = map snd ?m" by (simp add: it flip: map_append)
    then have v: "view' t2 = overlay c (map snd ?m) (view' t)"
      using t2(3) t1(3) by (simp add: overlay_append [symmetric])
    have "length items + length (drop ?k ?m) = length ?m" using arg_cong [OF e, of length] by simp
    then have "copy_pages A B c cursor n s t = Some (Inr (n + length ?m), t2)"
      by (subst copy_pages.simps) (simp add: query t1(1) Some t2(1) add.assoc del: length_drop)
    then show ?thesis using t2(2) v by blast
  qed
qed

lemma overlay_rows:
  assumes "inv s"
  shows "overlay c (map snd (rows s c)) v k = (if fst k = c \<and> view s k \<noteq> None then view s k else v k)"
proof -
  obtain c' i where k: "k = (c', i)" by force
  let ?l = "map (\<lambda>d. ((c, doc_id d), d)) (map snd (rows s c))"
  have l: "?l = map (\<lambda>(i, d). ((c, i), d)) (rows s c)" using src.rows_id [OF assms] by auto
  have dist: "distinct (map fst ?l)" unfolding l
    using tab_ok_distinct [OF src.rows_ok [OF assms], of c] by (auto simp: distinct_map inj_on_def case_prod_unfold)
  have "map_of (rev ?l) = map_of ?l" by (rule map_of_rev_distinct [OF dist])
  moreover have "map_of ?l (c', i) = (if c' = c then map_of (rows s c) i else None)"
  proof -
    have "map_of (map (\<lambda>(i, d). ((c, i), d)) xs) (c', i) = (if c' = c then map_of xs i else None)" for xs
      by (induction xs) auto
    then show ?thesis unfolding l .
  qed
  ultimately show ?thesis using src.rows_view [OF assms] by (auto simp: overlay_def map_add_def k split: option.splits)
qed

lemma copy_collections_ok:
  assumes s: "inv s"
  shows "inv' t \<Longrightarrow> distinct cs \<Longrightarrow> \<forall>c \<in> set cs. \<exists>i d. view s (c, i) = Some d \<Longrightarrow>
    \<exists>t'. copy_collections A B cs n s t = Some (Inr (n + (\<Sum>c \<leftarrow> cs. length (rows s c))), t') \<and> inv' t' \<and>
      view' t' = (\<lambda>k. if fst k \<in> set cs \<and> view s k \<noteq> None then view s k else view' t k)"
proof (induction cs arbitrary: n t)
  case (Cons c cs)
  obtain i d where "view s (c, i) = Some d" using Cons.prems(3) by auto
  from copy_pages_ok [OF s this Cons.prems(1), of None n] obtain t1 where t1:
    "copy_pages A B c None n s t = Some (Inr (n + length (rows s c)), t1)" "inv' t1"
    "view' t1 = overlay c (map snd (rows s c)) (view' t)" by (auto simp: matching_None)
  from Cons.IH [OF t1(2), of "n + length (rows s c)"] Cons.prems(2,3) obtain t2 where t2:
    "copy_collections A B cs (n + length (rows s c)) s t1 =
       Some (Inr (n + length (rows s c) + (\<Sum>c \<leftarrow> cs. length (rows s c))), t2)" "inv' t2"
    "view' t2 = (\<lambda>k. if fst k \<in> set cs \<and> view s k \<noteq> None then view s k else view' t1 k)" by auto
  have "view' t2 = (\<lambda>k. if fst k \<in> set (c # cs) \<and> view s k \<noteq> None then view s k else view' t k)"
    unfolding t2(3) t1(3) by (auto simp: fun_eq_iff overlay_rows [OF s])
  then show ?case using t1(1) t2(1,2) by (simp add: add.assoc)
qed simp

text \<open>A migration copies everything and replaces nothing else.\<close>

lemma migrate_ok:
  assumes "inv s" "inv' t"
  shows "\<exists>cs t'. ad_listCollections A s = Inr cs \<and>
    migrateStorage A B s t = Some (Inr (length cs, \<Sum>c \<leftarrow> orderByDependency cs. length (rows s c)), t') \<and>
    inv' t' \<and> view' t' = view' t ++ view s"
proof -
  obtain cs where cs: "ad_listCollections A s = Inr cs" "distinct cs" "set cs = {c. \<exists>i d. view s (c, i) = Some d}"
    using src.collections [OF assms(1)] by blast
  have o: "set (orderByDependency cs) = set cs" "distinct (orderByDependency cs)"
    using orderByDependency_spec [of cs] by (auto simp: deps_first_def)
  then have len: "length (orderByDependency cs) = length cs" using cs(2) by (metis distinct_card)
  from copy_collections_ok [OF assms(1,2) o(2), of 0] obtain t' where t':
    "copy_collections A B (orderByDependency cs) 0 s t =
       Some (Inr (\<Sum>c \<leftarrow> orderByDependency cs. length (rows s c)), t')" "inv' t'"
    "view' t' = (\<lambda>k. if fst k \<in> set cs \<and> view s k \<noteq> None then view s k else view' t k)" using o(1) cs(3) by auto
  have "view' t' = view' t ++ view s"
    unfolding t'(3) using cs(3) by (fastforce simp: fun_eq_iff map_add_def split: option.splits)
  then show ?thesis using cs(1) t'(1,2) len by (simp add: migrateStorage_def)
qed

end

section \<open>The filesystem adapter\<close>

interpretation fsp: paged_store "fs_adapter ext" fs_inv fs_view key_ok "\<lambda>s c. coll_of c (fs_docs s)"
proof
  fix s :: "'a fs_state" and c i :: string and d :: "'a doc" and after lm
  show "fs_inv s \<Longrightarrow> tab_ok (coll_of c (fs_docs s))" by (simp add: fs_inv_def tab_ok_coll_of)
  show "fs_inv s \<Longrightarrow> map_of (coll_of c (fs_docs s)) i = fs_view s (c, i)"
    by (simp add: map_of_coll_of fs_view_def)
  assume inv: "fs_inv s"
  show "ad_query (fs_adapter ext) c [] after lm s = Inr (tab_query (\<lambda>_. True) after lm (coll_of c (fs_docs s)))"
    if "fs_view s (c, i) = Some d"
  proof -
    have "key_ok c i" using fs_inv_doc_id [OF inv] that by (auto simp: fs_view_def)
    then show ?thesis by (auto simp: fs_adapter_def fs_query_def key_ok_def is_ok_iff)
  qed
  show "\<exists>cs. ad_listCollections (fs_adapter ext) s = Inr cs \<and> distinct cs \<and>
      set cs = {c. \<exists>i d. fs_view s (c, i) = Some d}"
  proof (intro exI conjI)
    have "tab_ok (fs_docs s)" using inv by (simp add: fs_inv_def)
    then show "set (fs_listCollections s) = {c. \<exists>i d. fs_view s (c, i) = Some d}"
      by (force simp: fs_listCollections_def fs_view_def map_of_in_set [symmetric] image_iff)
  qed (simp_all add: fs_adapter_def fs_listCollections_def)
qed

interpretation fs_migration: migration "fs_adapter ext" fs_inv fs_view key_ok "\<lambda>s c. coll_of c (fs_docs s)"
    "fs_adapter ext'" fs_inv fs_view key_ok
  by unfold_locales auto

end
