(* ===== verification/Storage_Props.thy ===== *)
theory Storage_Props
  imports Migrate
begin

text \<open>The properties of the typed tables and of the migration between backends.\<close>


definition sample_row :: jdoc where
  "sample_row = [(''id'', JStr ''ab12''), (''userId'', JStr ''u1''), (''createdAt'', JStr ''2024''),
     (''expiresAt'', JNum 1700), (''revoked'', JBool False), (''mfaPending'', JBool True)]"

definition plain_coerce :: js_coerce where
  "plain_coerce = \<lparr>number_of = (\<lambda>_. SNull), string_of = json_text, number_back = (\<lambda>_. JNull),
     string_back = (\<lambda>_. [])\<rparr>"


text \<open>The collections are copied once each, and a collection of a typed table always after the
  collections its foreign keys point to.\<close>

theorem migration_order:
  "set (orderByDependency cs) = set cs \<and> distinct (orderByDependency cs) \<and>
   (orderByDependency cs = xs @ c # ys \<longrightarrow> r \<in> set cs \<longrightarrow> depends c r \<longrightarrow> r \<in> set xs)"
  using orderByDependency_spec [of cs] by (auto simp: deps_first_def)

theorem migration_order_witness:
  "orderByDependency [''revisions'', ''content_entries'', ''notes'', ''content_types''] =
     [''content_types'', ''content_entries'', ''revisions'', ''notes''] \<and>
   ''content_types'' \<in> set [''content_types'']"
proof -
  let ?cs = "[''revisions'', ''content_entries'', ''notes'', ''content_types'']"
  have o: "orderByDependency ?cs = [''content_types'', ''content_entries'', ''revisions'', ''notes'']" by code_simp
  have "fks_of ''content_entries'' = foreignKeys SPEC_content_entries" by code_simp
  moreover have "tableToCollection ''content_types'' = Some ''content_types''" by code_simp
  ultimately have "depends ''content_entries'' ''content_types''"
    by (simp add: depends_def SPEC_content_entries_def)
  then show ?thesis
    using migration_order [of ?cs "[''content_types'']" "''content_entries''" "[''revisions'', ''notes'']" "''content_types''"] o
    by simp
qed

text \<open>C17: Migrating a filesystem store to another one returns, having copied every document: afterwards the
  target holds each document of the source as it is and otherwise what it held before, its index is
  consistent, and the reported counts are those of the collections and documents.\<close>

theorem migration_complete:
  assumes "fs_inv s" "fs_inv t"
  shows "\<exists>t'. migrateStorage (fs_adapter ext) (fs_adapter ext') s t =
      Some (Inr (length (fs_listCollections s), length (fs_docs s)), t') \<and>
    fs_inv t' \<and> fs_view t' = fs_view t ++ fs_view s"
proof -
  obtain t' where t': "migrateStorage (fs_adapter ext) (fs_adapter ext') s t =
      Some (Inr (length (fs_listCollections s), \<Sum>c \<leftarrow> orderByDependency (fs_listCollections s). length (coll_of c (fs_docs s))), t')"
      "fs_inv t'" "fs_view t' = fs_view t ++ fs_view s"
    using fs_migration.migrate_ok [OF assms, of ext ext'] by (auto simp: fs_adapter_def)
  have o: "set (orderByDependency (fs_listCollections s)) = (fst \<circ> fst) ` set (fs_docs s)"
    "distinct (orderByDependency (fs_listCollections s))"
    using orderByDependency_spec [of "fs_listCollections s"]
    by (simp_all add: deps_first_def fs_listCollections_def case_prod_unfold o_def)
  have "(\<Sum>c \<leftarrow> cs. length (coll_of c ds)) = length ds"
    if "distinct cs" "(fst \<circ> fst) ` set ds \<subseteq> set cs" for cs and ds :: "((string \<times> string) \<times> 'a doc) list"
    using that(2)
  proof (induction ds)
    case Nil
    then show ?case by (simp add: coll_of_def)
  next
    case (Cons x ds)
    have one: "(\<Sum>c \<leftarrow> cs. if c = fst (fst x) then 1 else 0 :: nat) = 1"
      using that(1) Cons.prems by (simp add: sum_list_distinct_conv_sum_set)
    have "length (coll_of c (x # ds)) = (if c = fst (fst x) then 1 else 0) + length (coll_of c ds)" for c
      by (cases x) (auto simp: coll_of_def split: prod.splits)
    then show ?case using Cons one by (simp add: sum_list_addf)
  qed
  then show ?thesis using t' o by (metis subset_refl)
qed

definition two_rows :: "json fs_state" where
  "two_rows = snd (fs_put ''users'' \<lparr>doc_id = ''u1'', doc_body = JNull\<rparr>
     (snd (fs_put ''notes'' \<lparr>doc_id = ''n1'', doc_body = JNull\<rparr> fs_empty)))"

theorem migration_complete_witness:
  "\<exists>t'. migrateStorage (fs_adapter (\<lambda>_ _. None :: json option)) (fs_adapter (\<lambda>_ _. None :: json option)) two_rows fs_empty =
      Some (Inr (2, 2), t') \<and> fs_view t' (''notes'', ''n1'') = Some \<lparr>doc_id = ''n1'', doc_body = JNull\<rparr>"
proof -
  have inv: "fs_inv two_rows" unfolding two_rows_def by (intro fs_put_inv fs_inv_empty)
  have n: "length (fs_listCollections two_rows) = 2" "length (fs_docs two_rows) = 2" by code_simp+
  have "fs_view two_rows (''notes'', ''n1'') = Some \<lparr>doc_id = ''n1'', doc_body = JNull\<rparr>" by code_simp
  then show ?thesis
    using migration_complete [OF inv fs_inv_empty, of "\<lambda>_ _. None :: json option" "\<lambda>_ _. None :: json option"]
    unfolding n by (auto simp: map_add_def)
qed

end
