(* ===== verification/Render_Cache.thy ===== *)
theory Render_Cache
  imports Prelude
begin

text \<open>
  The tag-indexed render cache of \<open>apps/site/src/cache.ts\<close>: pages in least-recently-used order under a
  byte budget and an entry cap, and the index from tags to keys.  A JavaScript \<open>Map\<close> is the list of its
  entries in insertion order, a \<open>Set\<close> the list of its elements.
\<close>

section \<open>State\<close>

record page_entry =
  pg_html :: string
  pg_version :: string
  pg_tags :: "string list"
  pg_bytes :: nat

record render_cache =
  entries :: "(string \<times> page_entry) list"
  tagToKeys :: "(string \<times> string list) list"
  totalBytes :: int
  maxBytes :: nat
  maxEntries :: nat

record cached_page =
  cp_html :: string
  cp_version :: string

definition DEFAULT_MAX_BYTES :: nat where "DEFAULT_MAX_BYTES = 24 * 1024 * 1024"
definition DEFAULT_MAX_ENTRIES :: nat where "DEFAULT_MAX_ENTRIES = 5000"

definition entrySize :: "string \<Rightarrow> string \<Rightarrow> string list \<Rightarrow> nat" where
  "entrySize key html tags = foldl (\<lambda>n t. n + byteLength t) (byteLength html + byteLength key) tags"

text \<open>\<open>env\<close> gives the number an environment variable holds, if it is set to one.\<close>

definition envInt :: "(string \<Rightarrow> rat option) \<Rightarrow> string \<Rightarrow> nat option" where
  "envInt env name =
     (case env name of None \<Rightarrow> None
      | Some n \<Rightarrow> if n = of_int \<lfloor>n\<rfloor> \<and> 0 < n then Some (nat \<lfloor>n\<rfloor>) else None)"

definition createRenderCache :: "(string \<Rightarrow> rat option) \<Rightarrow> nat option \<Rightarrow> nat option \<Rightarrow> render_cache" where
  "createRenderCache env optBytes optEntries =
     \<lparr>entries = [], tagToKeys = [], totalBytes = 0,
      maxBytes = max 1 (case optBytes of Some n \<Rightarrow> n
        | None \<Rightarrow> (case envInt env ''PRESSH_RENDER_CACHE_MAX_BYTES'' of Some n \<Rightarrow> n | None \<Rightarrow> DEFAULT_MAX_BYTES)),
      maxEntries = max 1 (case optEntries of Some n \<Rightarrow> n | None \<Rightarrow> DEFAULT_MAX_ENTRIES)\<rparr>"

section \<open>Operations\<close>

definition map_delete :: "string \<Rightarrow> (string \<times> 'v) list \<Rightarrow> (string \<times> 'v) list" where
  "map_delete k m = filter (\<lambda>(k', _). k' \<noteq> k) m"

definition set_add :: "string \<Rightarrow> string list \<Rightarrow> string list" where
  "set_add x xs = (if x \<in> set xs then xs else xs @ [x])"

text \<open>The loop of \<open>dropKey\<close> over the tags of the dropped entry.\<close>

definition untag :: "string \<Rightarrow> (string \<times> string list) list \<Rightarrow> string \<Rightarrow> (string \<times> string list) list" where
  "untag key m tag =
     (case map_of m tag of None \<Rightarrow> m
      | Some keys \<Rightarrow>
        let keys = filter (\<lambda>k. k \<noteq> key) keys
        in if keys = [] then map_delete tag m else obj_set tag keys m)"

definition dropKey :: "string \<Rightarrow> render_cache \<Rightarrow> render_cache" where
  "dropKey key st =
     (case map_of (entries st) key of None \<Rightarrow> st\<lparr>entries := map_delete key (entries st)\<rparr>
      | Some e \<Rightarrow> st\<lparr>entries := map_delete key (entries st), totalBytes := totalBytes st - int (pg_bytes e),
                   tagToKeys := foldl (untag key) (tagToKeys st) (pg_tags e)\<rparr>)"

definition cache_get :: "string \<Rightarrow> render_cache \<Rightarrow> cached_page option \<times> render_cache" where
  "cache_get key st =
     (case map_of (entries st) key of None \<Rightarrow> (None, st)
      | Some e \<Rightarrow> (Some \<lparr>cp_html = pg_html e, cp_version = pg_version e\<rparr>,
                 st\<lparr>entries := map_delete key (entries st) @ [(key, e)]\<rparr>))"

definition tag_key :: "string \<Rightarrow> (string \<times> string list) list \<Rightarrow> string \<Rightarrow> (string \<times> string list) list" where
  "tag_key key m tag =
     obj_set tag (set_add key (case map_of m tag of None \<Rightarrow> [] | Some keys \<Rightarrow> keys)) m"

definition over_budget :: "render_cache \<Rightarrow> bool" where
  "over_budget st \<longleftrightarrow> int (maxBytes st) < totalBytes st \<or> maxEntries st < length (entries st)"

lemma dropKey_entries [simp]: "entries (dropKey key st) = map_delete key (entries st)"
  by (simp add: dropKey_def split: option.splits)

function evict :: "render_cache \<Rightarrow> render_cache" where
  "evict st =
     (if over_budget st
      then case entries st of [] \<Rightarrow> st | (oldest, _) # _ \<Rightarrow> evict (dropKey oldest st)
      else st)"
  by auto
termination
  by (relation "measure (\<lambda>st. length (entries st))")
     (auto simp: map_delete_def le_imp_less_Suc length_filter_le)

declare evict.simps [simp del]

definition cache_set :: "string \<Rightarrow> string \<Rightarrow> string \<Rightarrow> string list \<Rightarrow> render_cache \<Rightarrow> render_cache" where
  "cache_set key html version tags st =
     (let st = dropKey key st; bytes = entrySize key html tags in
      if maxBytes st < bytes then st
      else
        let e = \<lparr>pg_html = html, pg_version = version, pg_tags = tags, pg_bytes = bytes\<rparr>;
            st = st\<lparr>entries := obj_set key e (entries st), totalBytes := totalBytes st + int bytes,
                   tagToKeys := foldl (tag_key key) (tagToKeys st) tags\<rparr>
        in evict st)"

definition invalidateTag :: "string \<Rightarrow> render_cache \<Rightarrow> render_cache" where
  "invalidateTag tag st =
     (case map_of (tagToKeys st) tag of None \<Rightarrow> st
      | Some keys \<Rightarrow>
        let st = foldl (\<lambda>st k. dropKey k st) st keys
        in st\<lparr>tagToKeys := map_delete tag (tagToKeys st)\<rparr>)"

definition cache_clear :: "render_cache \<Rightarrow> render_cache" where
  "cache_clear st = st\<lparr>entries := [], tagToKeys := [], totalBytes := 0\<rparr>"

datatype cache_op = Get string | Set string string string "string list" | InvalidateTag string | Clear

fun cache_step :: "cache_op \<Rightarrow> render_cache \<Rightarrow> render_cache" where
  "cache_step (Get k) st = snd (cache_get k st)"
| "cache_step (Set k h v ts) st = cache_set k h v ts st"
| "cache_step (InvalidateTag t) st = invalidateTag t st"
| "cache_step Clear st = cache_clear st"

definition cache_run :: "cache_op list \<Rightarrow> render_cache \<Rightarrow> render_cache" where
  "cache_run ops st = foldl (\<lambda>st op. cache_step op st) st ops"

section \<open>Specification\<close>

text \<open>
  The cache without limits: a map from keys to pages with their tags.  A bounded cache may forget
  pages, but must never serve one the specification does not hold.
\<close>

type_synonym spec_cache = "string \<rightharpoonup> string \<times> string \<times> string list"

fun spec_step :: "cache_op \<Rightarrow> spec_cache \<Rightarrow> spec_cache" where
  "spec_step (Get k) m = m"
| "spec_step (Set k h v ts) m = m(k \<mapsto> (h, v, ts))"
| "spec_step (InvalidateTag t) m = (\<lambda>k. case m k of None \<Rightarrow> None | Some (h, v, ts) \<Rightarrow> if t \<in> set ts then None else Some (h, v, ts))"
| "spec_step Clear m = Map.empty"

definition spec_run :: "cache_op list \<Rightarrow> spec_cache \<Rightarrow> spec_cache" where
  "spec_run ops m = foldl (\<lambda>m op. spec_step op m) m ops"

definition page_of :: "page_entry \<Rightarrow> string \<times> string \<times> string list" where
  "page_of e = (pg_html e, pg_version e, pg_tags e)"

definition cache_view :: "render_cache \<Rightarrow> spec_cache" where
  "cache_view st = (\<lambda>k. map_option page_of (map_of (entries st) k))"

section \<open>The invariant\<close>

definition tagged :: "(string \<times> page_entry) list \<Rightarrow> string \<Rightarrow> string \<Rightarrow> bool" where
  "tagged es tag key \<longleftrightarrow> (\<exists>e. map_of es key = Some e \<and> tag \<in> set (pg_tags e))"

text \<open>The keys the index holds for a tag.\<close>

definition keys_for :: "(string \<times> string list) list \<Rightarrow> string \<Rightarrow> string list" where
  "keys_for m tag = (case map_of m tag of None \<Rightarrow> [] | Some keys \<Rightarrow> keys)"

definition index_ok :: "(string \<times> page_entry) list \<Rightarrow> (string \<times> string list) list \<Rightarrow> bool" where
  "index_ok es m \<longleftrightarrow> distinct (map fst m) \<and>
     (\<forall>tag. map_of m tag \<noteq> Some [] \<and> distinct (keys_for m tag) \<and> set (keys_for m tag) = Collect (tagged es tag))"

definition entries_ok :: "render_cache \<Rightarrow> bool" where
  "entries_ok st \<longleftrightarrow> distinct (map fst (entries st)) \<and>
     totalBytes st = (\<Sum>(k, e) \<leftarrow> entries st. int (pg_bytes e)) \<and>
     (\<forall>(k, e) \<in> set (entries st). pg_bytes e = entrySize k (pg_html e) (pg_tags e)) \<and>
     index_ok (entries st) (tagToKeys st)"

definition cache_inv :: "render_cache \<Rightarrow> bool" where
  "cache_inv st \<longleftrightarrow> entries_ok st \<and> \<not> over_budget st \<and> 1 \<le> maxEntries st"

lemma map_of_map_delete: "map_of (map_delete k m) = (map_of m)(k := None)"
  by (induction m) (auto simp: map_delete_def fun_eq_iff)

lemma distinct_map_delete: "distinct (map fst m) \<Longrightarrow> distinct (map fst (map_delete k m))"
  by (simp add: map_delete_def distinct_map_filter)

lemma map_delete_absent: "map_of m k = None \<Longrightarrow> map_delete k m = m"
  by (force simp: map_delete_def map_of_eq_None_iff intro!: filter_True)

lemma keys_map_delete: "fst ` set (map_delete k m) = fst ` set m - {k}"
  by (auto simp: map_delete_def)

lemma sum_map_delete:
  "distinct (map fst m) \<Longrightarrow> map_of m k = Some e \<Longrightarrow>
    (\<Sum>(k, e) \<leftarrow> map_delete k m. int (pg_bytes e)) = (\<Sum>(k, e) \<leftarrow> m. int (pg_bytes e)) - int (pg_bytes e)"
proof (induction m)
  case (Cons x m)
  show ?case
  proof (cases "fst x = k")
    case True
    then have "map_of m k = None" using Cons.prems(1) by (auto simp: map_of_eq_None_iff)
    then have "map_delete k m = m" by (rule map_delete_absent)
    then have "map_delete k (x # m) = m" using True by (auto simp: map_delete_def)
    then show ?thesis using Cons.prems(2) True by (cases x) auto
  next
    case False
    then have "map_delete k (x # m) = x # map_delete k m" by (auto simp: map_delete_def)
    then show ?thesis using Cons False by (cases x) auto
  qed
qed simp


section \<open>The index follows the entries\<close>

lemma keys_for_untag:
  "keys_for (untag key m tag) t = (if t = tag then filter (\<lambda>k. k \<noteq> key) (keys_for m t) else keys_for m t)"
  by (simp add: untag_def keys_for_def map_of_map_delete map_of_obj_set Let_def split: option.split)

lemma keys_for_untags:
  "keys_for (foldl (untag key) m tags) t =
     (if t \<in> set tags then filter (\<lambda>k. k \<noteq> key) (keys_for m t) else keys_for m t)"
  by (induction tags arbitrary: m) (auto simp: keys_for_untag)

lemma untags_frame:
  assumes "distinct (map fst m)" "\<And>t. map_of m t \<noteq> Some []"
  shows "distinct (map fst (foldl (untag key) m tags)) \<and> (\<forall>t. map_of (foldl (untag key) m tags) t \<noteq> Some [])"
  using assms
proof (induction tags arbitrary: m)
  case (Cons tag tags)
  have "distinct (map fst (untag key m tag))"
    using Cons.prems(1)
    by (simp add: untag_def Let_def distinct_map_delete distinct_obj_set split: option.split)
  moreover have "map_of (untag key m tag) t \<noteq> Some []" for t
    using Cons.prems(2)
    by (simp add: untag_def Let_def map_of_map_delete map_of_obj_set split: option.split)
  ultimately show ?case unfolding foldl.simps by (rule Cons.IH)
qed simp

lemma keys_for_tag_key:
  "keys_for (tag_key key m tag) t = (if t = tag then set_add key (keys_for m t) else keys_for m t)"
  by (simp add: tag_key_def keys_for_def map_of_obj_set)

lemma keys_for_tag_keys:
  "set (keys_for (foldl (tag_key key) m tags) t) =
     (if t \<in> set tags then insert key (set (keys_for m t)) else set (keys_for m t))"
  by (induction tags arbitrary: m) (auto simp: keys_for_tag_key set_add_def)

lemma set_add_ne: "set_add x xs \<noteq> []"
  by (auto simp: set_add_def)

lemma tag_keys_frame:
  assumes "distinct (map fst m)" "\<And>t. map_of m t \<noteq> Some [] \<and> distinct (keys_for m t)"
  shows "distinct (map fst (foldl (tag_key key) m tags)) \<and>
    (\<forall>t. map_of (foldl (tag_key key) m tags) t \<noteq> Some [] \<and> distinct (keys_for (foldl (tag_key key) m tags) t))"
  using assms
proof (induction tags arbitrary: m)
  case (Cons tag tags)
  have "distinct (map fst (tag_key key m tag))"
    using Cons.prems(1) by (simp add: tag_key_def distinct_obj_set)
  moreover have "map_of (tag_key key m tag) t \<noteq> Some []" for t
    using Cons.prems(2) [of t] by (simp add: tag_key_def map_of_obj_set set_add_ne del: map_of_eq_Some_iff)
  moreover have "distinct (keys_for (tag_key key m tag) t)" for t
    using Cons.prems(2) by (simp add: keys_for_tag_key set_add_def)
  ultimately show ?case unfolding foldl.simps by (intro Cons.IH) simp_all
qed simp

lemma tagged_map_delete: "tagged (map_delete key es) t k \<longleftrightarrow> k \<noteq> key \<and> tagged es t k"
  by (auto simp: tagged_def map_of_map_delete)

lemma index_drop:
  assumes "index_ok es m" "map_of es key = Some e"
  shows "index_ok (map_delete key es) (foldl (untag key) m (pg_tags e))"
proof -
  have sets: "set (keys_for m t) = Collect (tagged es t)" for t using assms(1) by (simp add: index_ok_def)
  have "t \<in> set (pg_tags e)" if "tagged es t key" for t
    using that assms(2) by (simp add: tagged_def)
  then have "set (keys_for (foldl (untag key) m (pg_tags e)) t) = Collect (tagged (map_delete key es) t)" for t
    by (auto simp: keys_for_untags sets tagged_map_delete)
  moreover have "distinct (keys_for (foldl (untag key) m (pg_tags e)) t)" for t
    using assms(1) by (simp add: keys_for_untags index_ok_def)
  moreover have "distinct (map fst m)" "\<And>t. map_of m t \<noteq> Some []" using assms(1) unfolding index_ok_def by blast+
  ultimately show ?thesis
    using untags_frame [of m key "pg_tags e"] unfolding index_ok_def by blast
qed

lemma index_add:
  assumes "index_ok es m" "map_of es key = None"
  shows "index_ok (obj_set key e es) (foldl (tag_key key) m (pg_tags e))"
proof -
  have sets: "set (keys_for m t) = Collect (tagged es t)" for t using assms(1) by (simp add: index_ok_def)
  have "set (keys_for (foldl (tag_key key) m (pg_tags e)) t) = Collect (tagged (obj_set key e es) t)" for t
    using assms(2) by (auto simp: keys_for_tag_keys sets tagged_def map_of_obj_set split: if_splits)
  moreover have "distinct (map fst m)" "\<And>t. map_of m t \<noteq> Some [] \<and> distinct (keys_for m t)"
    using assms(1) unfolding index_ok_def by blast+
  ultimately show ?thesis
    using tag_keys_frame [of m key "pg_tags e"] unfolding index_ok_def by blast
qed

lemma index_map_of: "index_ok es m \<Longrightarrow> map_of es = map_of es' \<Longrightarrow> index_ok es' m"
  unfolding index_ok_def tagged_def by simp

section \<open>Every operation keeps the invariant\<close>

lemma dropKey_limits [simp]: "maxBytes (dropKey k st) = maxBytes st" "maxEntries (dropKey k st) = maxEntries st"
  by (simp_all add: dropKey_def split: option.split)

lemma entries_ok_drop: "entries_ok st \<Longrightarrow> entries_ok (dropKey key st)"
proof (cases "map_of (entries st) key")
  case None
  assume ok: "entries_ok st"
  from None have "dropKey key st = st" by (simp add: dropKey_def map_delete_absent)
  with ok show ?thesis by simp
next
  case (Some e)
  assume ok: "entries_ok st"
  have "index_ok (map_delete key (entries st)) (foldl (untag key) (tagToKeys st) (pg_tags e))"
    using ok Some by (intro index_drop) (simp_all add: entries_ok_def)
  moreover have "(\<Sum>(k, e) \<leftarrow> map_delete key (entries st). int (pg_bytes e)) = totalBytes st - int (pg_bytes e)"
    using sum_map_delete [OF _ Some] ok by (simp add: entries_ok_def)
  moreover have "\<forall>(k, e) \<in> set (map_delete key (entries st)). pg_bytes e = entrySize k (pg_html e) (pg_tags e)"
    using ok by (auto simp: entries_ok_def map_delete_def)
  ultimately show ?thesis
    using ok Some by (simp add: entries_ok_def dropKey_def distinct_map_delete)
qed

lemma over_budget_empty: "entries_ok st \<Longrightarrow> entries st = [] \<Longrightarrow> \<not> over_budget st"
  by (simp add: over_budget_def entries_ok_def)

lemma evict_limits [simp]: "maxBytes (evict st) = maxBytes st \<and> maxEntries (evict st) = maxEntries st"
proof (induction st rule: evict.induct)
  case (1 st)
  show ?case
    by (subst (1 2) evict.simps) (use 1 in \<open>auto split: list.split\<close>)
qed

lemma evict_ok: "entries_ok st \<Longrightarrow> entries_ok (evict st) \<and> \<not> over_budget (evict st)"
proof (induction st rule: evict.induct)
  case (1 st)
  show ?case
  proof (cases "over_budget st \<and> entries st \<noteq> []")
    case True
    then obtain k e es where es: "entries st = (k, e) # es" by (cases "entries st") auto
    have "evict st = evict (dropKey k st)" using True by (subst evict.simps) (simp add: es)
    then show ?thesis using 1 True es by (simp add: entries_ok_drop)
  next
    case False
    then have no: "\<not> over_budget st" using 1 over_budget_empty by blast
    then have "evict st = st" by (subst evict.simps) simp
    then show ?thesis using no 1 by simp
  qed
qed

lemma map_delete_head: "distinct (map fst ((k, e) # es)) \<Longrightarrow> map_delete k ((k, e) # es) = es"
  by (force simp: map_delete_def intro!: filter_True)

text \<open>Eviction drops a prefix of the recency order.\<close>

lemma evict_prefix: "entries_ok st \<Longrightarrow> \<exists>n. entries (evict st) = drop n (entries st)"
proof (induction st rule: evict.induct)
  case (1 st)
  show ?case
  proof (cases "over_budget st \<and> entries st \<noteq> []")
    case True
    then obtain k e es where es: "entries st = (k, e) # es" by (cases "entries st") auto
    have ev: "evict st = evict (dropKey k st)" using True by (subst evict.simps) (simp add: es)
    have "distinct (map fst (entries st))" using 1 by (simp add: entries_ok_def)
    then have rest: "entries (dropKey k st) = es" using es map_delete_head by simp
    obtain n where "entries (evict (dropKey k st)) = drop n es"
      using 1 True es entries_ok_drop rest by metis
    then show ?thesis using ev es by (intro exI [of _ "Suc n"]) simp
  next
    case False
    then have "evict st = st" by (subst evict.simps) (auto split: list.split)
    then show ?thesis by (metis drop0)
  qed
qed

lemma evict_keeps_last:
  assumes "entries_ok st" "entries st = xs @ [(key, e)]" "pg_bytes e \<le> maxBytes st" "1 \<le> maxEntries st"
  shows "\<exists>n \<le> length xs. entries (evict st) = drop n (entries st)"
proof -
  obtain n where n: "entries (evict st) = drop n (entries st)" using evict_prefix [OF assms(1)] by blast
  have "entries (evict st) \<noteq> []"
    using assms
  proof (induction xs arbitrary: st)
    case Nil
    then have "\<not> over_budget st" by (simp add: over_budget_def entries_ok_def)
    then have "evict st = st" by (subst evict.simps) simp
    then show ?case using Nil by simp
  next
    case (Cons x xs)
    obtain k' e' where x: "x = (k', e')" by force
    show ?case
    proof (cases "over_budget st")
      case True
      have ev: "evict st = evict (dropKey k' st)" using True Cons.prems x by (subst evict.simps) simp
      have "distinct (map fst (entries st))" using Cons.prems by (simp add: entries_ok_def)
      then have "entries (dropKey k' st) = xs @ [(key, e)]"
        using Cons.prems(2) x map_delete_head [of k' e' "xs @ [(key, e)]"] by simp
      then show ?thesis using ev Cons.IH [of "dropKey k' st"] Cons.prems by (simp add: entries_ok_drop)
    next
      case False
      then have "evict st = st" by (subst evict.simps) simp
      then show ?thesis using Cons.prems by simp
    qed
  qed
  then have "n \<le> length xs" using n assms(2) by (cases "n \<le> length xs") auto
  then show ?thesis using n by blast
qed

text \<open>The state \<open>set\<close> reaches before the eviction loop.\<close>

lemma cache_set_steps:
  fixes key html version :: string
  assumes "entries_ok st" "entrySize key html tags \<le> maxBytes st"
  defines "e \<equiv> \<lparr>pg_html = html, pg_version = version, pg_tags = tags, pg_bytes = entrySize key html tags\<rparr>"
  obtains st1 where "cache_set key html version tags st = evict st1" "entries_ok st1"
    "entries st1 = map_delete key (entries st) @ [(key, e)]"
    "maxBytes st1 = maxBytes st" "maxEntries st1 = maxEntries st"
proof -
  let ?d = "dropKey key st"
  let ?st1 = "?d\<lparr>entries := obj_set key e (entries ?d), totalBytes := totalBytes ?d + int (pg_bytes e),
                   tagToKeys := foldl (tag_key key) (tagToKeys ?d) (pg_tags e)\<rparr>"
  have ok: "entries_ok ?d" using assms(1) by (rule entries_ok_drop)
  have absent: "key \<notin> fst ` set (entries ?d)" by (simp add: keys_map_delete)
  then have app: "obj_set key e (entries ?d) = map_delete key (entries st) @ [(key, e)]"
    by (simp add: obj_set_new)
  have "cache_set key html version tags st = evict ?st1"
    using assms(2) by (simp add: cache_set_def Let_def e_def)
  moreover have "entries_ok ?st1"
  proof -
    have none: "map_of (entries ?d) key = None" using absent by (simp add: map_of_eq_None_iff)
    have "index_ok (obj_set key e (entries ?d)) (foldl (tag_key key) (tagToKeys ?d) (pg_tags e))"
      using ok none by (intro index_add) (simp_all add: entries_ok_def)
    moreover have "distinct (map fst (obj_set key e (entries ?d)))"
      using ok by (intro distinct_obj_set) (simp add: entries_ok_def)
    moreover have "(\<Sum>(k, e) \<leftarrow> obj_set key e (entries ?d). int (pg_bytes e)) = totalBytes ?d + int (pg_bytes e)"
      unfolding app using ok by (simp add: entries_ok_def)
    moreover have "\<forall>(k, e) \<in> set (obj_set key e (entries ?d)). pg_bytes e = entrySize k (pg_html e) (pg_tags e)"
      unfolding app using ok by (simp add: entries_ok_def) (simp add: e_def)
    ultimately show ?thesis unfolding entries_ok_def by simp
  qed
  moreover have "entries ?st1 = map_delete key (entries st) @ [(key, e)]" using app by simp
  ultimately show thesis using that by simp
qed

lemma cache_set_too_big:
  "maxBytes st < entrySize key html tags \<Longrightarrow> cache_set key html version tags st = dropKey key st"
  by (simp add: cache_set_def Let_def)

lemma cache_set_ok: "cache_inv st \<Longrightarrow> cache_inv (cache_set key html version tags st)"
proof (cases "maxBytes st < entrySize key html tags")
  case True
  assume inv: "cache_inv st"
  then have ok: "entries_ok (dropKey key st)" by (simp add: cache_inv_def entries_ok_drop)
  have "totalBytes (dropKey key st) \<le> totalBytes st" by (simp add: dropKey_def split: option.split)
  moreover have "length (map_delete key (entries st)) \<le> length (entries st)" by (simp add: map_delete_def)
  ultimately show ?thesis using inv ok True by (auto simp: cache_set_too_big cache_inv_def over_budget_def)
next
  case False
  assume inv: "cache_inv st"
  then obtain st1 where "cache_set key html version tags st = evict st1" "entries_ok st1"
      "maxEntries st1 = maxEntries st"
    using False cache_set_steps [where st = st and key = key and html = html and tags = tags and version = version] by (metis cache_inv_def not_less)
  then show ?thesis using inv evict_ok [of st1] by (simp add: cache_inv_def)
qed

lemma cache_get_ok: "cache_inv st \<Longrightarrow> cache_inv (snd (cache_get key st))"
proof (cases "map_of (entries st) key")
  case (Some e)
  assume inv: "cache_inv st"
  let ?es = "map_delete key (entries st) @ [(key, e)]"
  have d: "distinct (map fst (entries st))" and mem: "(key, e) \<in> set (entries st)"
    using inv Some by (auto simp: cache_inv_def entries_ok_def dest: map_of_SomeD)
  have "map_of ?es = map_of (entries st)" using Some by (auto simp: fun_eq_iff map_of_map_delete map_add_def split: option.splits)
  then have ix: "index_ok ?es (tagToKeys st)"
    using inv index_map_of [of "entries st"] by (simp add: cache_inv_def entries_ok_def)
  have "distinct (map fst ?es)" using d distinct_map_delete [of "entries st" key]
    by (simp add: keys_map_delete)
  moreover have sum: "(\<Sum>(k, e) \<leftarrow> ?es. int (pg_bytes e)) = totalBytes st"
    using sum_map_delete [OF d Some] inv by (simp add: cache_inv_def entries_ok_def)
  moreover have "\<forall>(k, e) \<in> set ?es. pg_bytes e = entrySize k (pg_html e) (pg_tags e)"
    using inv mem by (auto simp: cache_inv_def entries_ok_def map_delete_def)
  moreover have "length ?es = length (entries st)"
  proof -
    have "length (map fst ?es) = card (fst ` set ?es)"
      by (metis calculation(1) distinct_card image_set)
    also have "fst ` set ?es = fst ` set (entries st)" using mem by (force simp: keys_map_delete)
    also have "card \<dots> = length (map fst (entries st))" by (metis d distinct_card image_set)
    finally show ?thesis by simp
  qed
  ultimately show ?thesis using Some inv ix
    unfolding cache_inv_def entries_ok_def over_budget_def cache_get_def by simp
qed (simp add: cache_get_def)

lemma dropKeys_ok: "entries_ok st \<Longrightarrow> entries_ok (foldl (\<lambda>st k. dropKey k st) st keys)"
  by (induction keys arbitrary: st) (simp_all add: entries_ok_drop)

lemma dropKeys_frame:
  "map_of (entries (foldl (\<lambda>st k. dropKey k st) st keys)) k = (if k \<in> set keys then None else map_of (entries st) k) \<and>
   totalBytes (foldl (\<lambda>st k. dropKey k st) st keys) \<le> totalBytes st \<and>
   length (entries (foldl (\<lambda>st k. dropKey k st) st keys)) \<le> length (entries st) \<and>
   maxBytes (foldl (\<lambda>st k. dropKey k st) st keys) = maxBytes st \<and>
   maxEntries (foldl (\<lambda>st k. dropKey k st) st keys) = maxEntries st"
proof (induction keys arbitrary: st)
  case (Cons x keys)
  have "totalBytes (dropKey x st) \<le> totalBytes st" by (simp add: dropKey_def split: option.split)
  moreover have "length (map_delete x (entries st)) \<le> length (entries st)" by (simp add: map_delete_def)
  moreover have "map_of (entries (dropKey x st)) k = (if k = x then None else map_of (entries st) k)"
    by (simp add: map_of_map_delete)
  ultimately show ?case using Cons.IH [of "dropKey x st"] by auto
qed simp

lemma invalidateTag_drops:
  assumes "entries_ok st"
  shows "invalidateTag tag st = foldl (\<lambda>st k. dropKey k st) st (keys_for (tagToKeys st) tag)"
proof (cases "map_of (tagToKeys st) tag")
  case (Some keys)
  let ?s = "foldl (\<lambda>st k. dropKey k st) st keys"
  have "keys_for (tagToKeys st) tag = keys" using Some by (simp add: keys_for_def del: map_of_eq_Some_iff)
  moreover have "set (keys_for (tagToKeys st) tag) = Collect (tagged (entries st) tag)"
    using assms unfolding entries_ok_def index_ok_def by blast
  ultimately have "set keys = Collect (tagged (entries st) tag)" by simp
  then have "\<not> tagged (entries ?s) tag k" for k
    by (auto simp: tagged_def dropKeys_frame split: if_splits)
  then have "set (keys_for (tagToKeys ?s) tag) = {}"
    using dropKeys_ok [OF assms, of keys] by (simp add: entries_ok_def index_ok_def)
  moreover have "map_of (tagToKeys ?s) tag \<noteq> Some []"
    using dropKeys_ok [OF assms, of keys] unfolding entries_ok_def index_ok_def by blast
  ultimately have "map_of (tagToKeys ?s) tag = None"
    by (cases "map_of (tagToKeys ?s) tag") (simp_all add: keys_for_def del: map_of_eq_Some_iff)
  then have "map_delete tag (tagToKeys ?s) = tagToKeys ?s" by (rule map_delete_absent)
  then show ?thesis using Some by (simp add: invalidateTag_def keys_for_def Let_def)
qed (simp add: invalidateTag_def keys_for_def)

lemma invalidateTag_ok: "cache_inv st \<Longrightarrow> cache_inv (invalidateTag tag st)"
  using invalidateTag_drops [of st tag] dropKeys_ok [of st] dropKeys_frame [of st "keys_for (tagToKeys st) tag"]
  by (fastforce simp: cache_inv_def over_budget_def)

lemma cache_clear_ok: "cache_inv st \<Longrightarrow> cache_inv (cache_clear st)"
  by (simp add: cache_inv_def cache_clear_def over_budget_def entries_ok_def index_ok_def keys_for_def tagged_def)

lemma cache_step_ok: "cache_inv st \<Longrightarrow> cache_inv (cache_step op st)"
  by (cases op) (simp_all add: cache_set_ok cache_get_ok invalidateTag_ok cache_clear_ok)

lemma createRenderCache_ok: "cache_inv (createRenderCache env b n)"
  by (simp add: createRenderCache_def cache_inv_def over_budget_def entries_ok_def index_ok_def keys_for_def tagged_def)

lemma cache_run_ok: "cache_inv st \<Longrightarrow> cache_inv (cache_run ops st)"
  unfolding cache_run_def by (induction ops arbitrary: st) (simp_all add: cache_step_ok)

section \<open>Refinement\<close>

lemma view_drop: "cache_view (dropKey key st) = (cache_view st)(key := None)"
  by (auto simp: cache_view_def map_of_map_delete)

lemma view_get: "cache_view (snd (cache_get key st)) = cache_view st"
  by (auto simp: cache_view_def cache_get_def fun_eq_iff map_of_map_delete map_add_def split: option.splits)

lemma map_of_drop_le: "distinct (map fst m) \<Longrightarrow> map_of (drop n m) k = Some v \<Longrightarrow> map_of m k = Some v"
  by (metis distinct_map drop_map in_set_dropD map_of_SomeD map_of_is_SomeI)

lemma view_evict: "entries_ok st \<Longrightarrow> cache_view (evict st) \<subseteq>\<^sub>m cache_view st"
  using evict_prefix [of st] map_of_drop_le [of "entries st"]
  by (fastforce simp: cache_view_def map_le_def entries_ok_def dom_def)

lemma view_set:
  assumes "entries_ok st"
  shows "cache_view (cache_set key html version tags st) \<subseteq>\<^sub>m (cache_view st)(key \<mapsto> (html, version, tags))"
proof (cases "maxBytes st < entrySize key html tags")
  case True
  then show ?thesis by (auto simp: cache_set_too_big view_drop map_le_def)
next
  case False
  obtain st1 where st1: "cache_set key html version tags st = evict st1" "entries_ok st1"
    and es: "entries st1 = map_delete key (entries st) @
      [(key, \<lparr>pg_html = html, pg_version = version, pg_tags = tags, pg_bytes = entrySize key html tags\<rparr>)]"
    using False cache_set_steps [where st = st and key = key and html = html and tags = tags and version = version, OF assms]
    by (metis not_less)
  have "cache_view st1 = (cache_view st)(key \<mapsto> (html, version, tags))"
    by (auto simp: cache_view_def es fun_eq_iff map_of_map_delete map_add_def page_of_def split: option.splits)
  then show ?thesis using st1 view_evict [of st1] by simp
qed

lemma view_invalidate:
  assumes "entries_ok st"
  shows "cache_view (invalidateTag tag st) = spec_step (InvalidateTag tag) (cache_view st)"
proof
  fix k
  have "k \<in> set (keys_for (tagToKeys st) tag) \<longleftrightarrow> tagged (entries st) tag k"
    using assms unfolding entries_ok_def index_ok_def by blast
  then show "cache_view (invalidateTag tag st) k = spec_step (InvalidateTag tag) (cache_view st) k"
    by (auto simp: invalidateTag_drops [OF assms] cache_view_def dropKeys_frame tagged_def page_of_def split: option.splits)
qed

lemma spec_step_mono: "m \<subseteq>\<^sub>m m' \<Longrightarrow> spec_step op m \<subseteq>\<^sub>m spec_step op m'"
proof (cases op)
  case (InvalidateTag t)
  assume "m \<subseteq>\<^sub>m m'"
  then show ?thesis
    by (auto simp: InvalidateTag map_le_def dom_def split: option.splits)
qed (auto simp: map_le_def)

lemma cache_step_refines:
  assumes "cache_inv st"
  shows "cache_view (cache_step op st) \<subseteq>\<^sub>m spec_step op (cache_view st)"
proof (cases op)
  case (InvalidateTag t)
  then show ?thesis using assms view_invalidate [of st t] by (simp add: cache_inv_def)
next
  case Clear
  then show ?thesis by (simp add: cache_view_def cache_clear_def map_le_def)
qed (use assms in \<open>simp_all add: view_get view_set cache_inv_def\<close>)

lemma cache_run_refines:
  assumes "cache_inv st" "cache_view st \<subseteq>\<^sub>m m"
  shows "cache_view (cache_run ops st) \<subseteq>\<^sub>m spec_run ops m"
  using assms
proof (induction ops arbitrary: st m)
  case (Cons op ops)
  have "cache_view (cache_step op st) \<subseteq>\<^sub>m spec_step op m"
    using cache_step_refines [OF Cons.prems(1)] spec_step_mono [OF Cons.prems(2)] by (rule map_le_trans)
  then show ?case
    using Cons.IH [OF cache_step_ok [OF Cons.prems(1)]] by (simp add: cache_run_def spec_run_def)
qed (simp add: cache_run_def spec_run_def)

section \<open>Properties\<close>

text \<open>C31: However the cache is configured and whatever calls it has served, it is inside its byte budget and its
  entry cap, its byte counter is the sum of the sizes of the pages it holds, and the tag index lists
  exactly the held pages of every tag, without an empty set left behind.
\<close>

theorem cache_bounded:
  "let st = cache_run ops (createRenderCache env optBytes optEntries) in
     (\<Sum>(k, e) \<leftarrow> entries st. entrySize k (pg_html e) (pg_tags e)) \<le> maxBytes st \<and>
     length (entries st) \<le> maxEntries st \<and> distinct (map fst (entries st)) \<and>
     totalBytes st = int (\<Sum>(k, e) \<leftarrow> entries st. entrySize k (pg_html e) (pg_tags e)) \<and>
     index_ok (entries st) (tagToKeys st)"
proof -
  let ?st = "cache_run ops (createRenderCache env optBytes optEntries)"
  have inv: "cache_inv ?st" by (intro cache_run_ok createRenderCache_ok)
  then have sizes: "\<forall>(k, e) \<in> set (entries ?st). pg_bytes e = entrySize k (pg_html e) (pg_tags e)"
    by (simp add: cache_inv_def entries_ok_def)
  have "(\<Sum>(k, e) \<leftarrow> es. int (pg_bytes e)) = int (\<Sum>(k, e) \<leftarrow> es. entrySize k (pg_html e) (pg_tags e))"
    if "\<forall>(k, e) \<in> set es. pg_bytes e = entrySize k (pg_html e) (pg_tags e)" for es
    using that by (induction es) auto
  from this [OF sizes] show ?thesis
    using inv by (auto simp: Let_def cache_inv_def entries_ok_def over_budget_def)
qed

text \<open>C15: The bounded cache refines an unbounded map from keys to pages: after the same calls, a page it serves
  is the page the map holds, so it never serves a page after it was replaced, after one of its tags
  was invalidated or after the cache was cleared.
\<close>

theorem cache_refines:
  "cache_view (cache_run ops (createRenderCache env optBytes optEntries)) \<subseteq>\<^sub>m spec_run ops Map.empty \<and>
   fst (cache_get key st) = map_option (\<lambda>(html, version, tags). \<lparr>cp_html = html, cp_version = version\<rparr>) (cache_view st key)"
proof
  show "cache_view (cache_run ops (createRenderCache env optBytes optEntries)) \<subseteq>\<^sub>m spec_run ops Map.empty"
    by (intro cache_run_refines createRenderCache_ok) (simp add: cache_view_def createRenderCache_def)
  show "fst (cache_get key st) = map_option (\<lambda>(html, version, tags). \<lparr>cp_html = html, cp_version = version\<rparr>) (cache_view st key)"
    by (simp add: cache_get_def cache_view_def page_of_def split: option.split)
qed

text \<open>Storing a page that fits the budget makes it readable, and the only other pages that leave the cache are
  the least recently used ones.
\<close>

theorem cache_set_get:
  fixes version :: string
  assumes "st = cache_run ops (createRenderCache env optBytes optEntries)"
    and "entrySize key html tags \<le> maxBytes st"
  shows "fst (cache_get key (cache_set key html version tags st)) = Some \<lparr>cp_html = html, cp_version = version\<rparr> \<and>
    (\<exists>n. map fst (entries (cache_set key html version tags st)) =
         drop n (map fst (map_delete key (entries st))) @ [key])"
proof -
  let ?e = "\<lparr>pg_html = html, pg_version = version, pg_tags = tags, pg_bytes = entrySize key html tags\<rparr>"
  have inv: "cache_inv st" unfolding assms(1) by (intro cache_run_ok createRenderCache_ok)
  obtain st1 where st1: "cache_set key html version tags st = evict st1" "entries_ok st1"
    "entries st1 = map_delete key (entries st) @ [(key, ?e)]" "maxBytes st1 = maxBytes st" "maxEntries st1 = maxEntries st"
    using inv cache_set_steps [where st = st and key = key and html = html and tags = tags and version = version, OF _ assms(2)]
    by (metis cache_inv_def)
  then obtain n where n: "n \<le> length (map_delete key (entries st))" "entries (evict st1) = drop n (entries st1)"
    using evict_keeps_last [OF st1(2,3)] inv assms(2) by (auto simp: cache_inv_def)
  then have es: "entries (evict st1) = drop n (map_delete key (entries st)) @ [(key, ?e)]" using st1(3) by simp
  then have "map_of (entries (evict st1)) key = Some ?e"
    using evict_ok [OF st1(2)] by (intro map_of_is_SomeI) (simp_all add: entries_ok_def)
  then have "fst (cache_get key (evict st1)) = Some \<lparr>cp_html = html, cp_version = version\<rparr>"
    by (simp add: cache_get_def del: map_of_eq_Some_iff)
  moreover have "map fst (entries (evict st1)) = drop n (map fst (map_delete key (entries st))) @ [key]"
    by (simp add: es drop_map)
  ultimately show ?thesis using st1(1) by auto
qed

theorem cache_set_get_witness:
  "fst (cache_get ''c'' (cache_set ''c'' ''<p>c</p>'' ''3'' [''home'']
     (cache_run [Set ''a'' ''<p>a</p>'' ''1'' [''home''], Set ''b'' ''<p>b</p>'' ''2'' []]
       (createRenderCache (\<lambda>_. None) (Some 30) (Some 2))))) = Some \<lparr>cp_html = ''<p>c</p>'', cp_version = ''3''\<rparr>"
  by (rule cache_set_get [OF refl, THEN conjunct1]) code_simp

end
