(* ===== verification/Audit_Log.thy ===== *)
theory Audit_Log
  imports Json
begin

text \<open>
  The hash-chained audit log of \<open>packages/core/src/audit.ts\<close>, with \<open>redactDeep\<close> of \<open>logger.ts\<close>: the
  log file and its seal as texts, the log object that keeps the head and the count in memory, and the
  values a detail may hold, \<open>undefined\<close> among them.  SHA-256, HMAC and the coercions of foreign values in
  a seal are the environment.
\<close>

section \<open>Values and redaction\<close>

datatype js_val =
    VUndef | VNull | VBool bool | VNum int | VStr string
  | VArr "js_val list" | VObj "(string \<times> js_val) list"

definition SENSITIVE_KEYS :: "string list" where
  "SENSITIVE_KEYS = [''password'', ''passwordhash'', ''token'', ''accesstoken'', ''refreshtoken'', ''secret'',
     ''apikey'', ''authorization'', ''cookie'', ''sessionid'', ''masterkey'', ''privatekey'', ''pressh_master_key'']"

definition REDACTED :: string where "REDACTED = ''[REDACTED]''"

text \<open>A detail is a tree here: no object occurs in it twice, so \<open>seen\<close> never matches.\<close>

fun redactDeep :: "string list \<Rightarrow> js_val \<Rightarrow> js_val" where
  "redactDeep sensitive (VArr vs) = VArr (map (redactDeep sensitive) vs)"
| "redactDeep sensitive (VObj kvs) =
     VObj (map (\<lambda>(key, val). (key, if js_lower key \<in> set sensitive then VStr REDACTED else redactDeep sensitive val)) kvs)"
| "redactDeep sensitive v = v"

text \<open>What \<open>JSON.stringify\<close> keeps of a value: no undefined entries, null for undefined elements.\<close>

fun plain_json :: "js_val \<Rightarrow> json" where
  "plain_json VUndef = JNull"
| "plain_json VNull = JNull"
| "plain_json (VBool b) = JBool b"
| "plain_json (VNum i) = JNum i"
| "plain_json (VStr s) = JStr s"
| "plain_json (VArr vs) = JArr (map plain_json vs)"
| "plain_json (VObj kvs) = JObj (map (\<lambda>(k, v). (k, plain_json v)) (filter (\<lambda>(k, v). v \<noteq> VUndef) kvs))"

fun js_val_of :: "json \<Rightarrow> js_val" where
  "js_val_of JNull = VNull"
| "js_val_of (JBool b) = VBool b"
| "js_val_of (JNum i) = VNum i"
| "js_val_of (JStr s) = VStr s"
| "js_val_of (JArr vs) = VArr (map js_val_of vs)"
| "js_val_of (JObj kvs) = VObj (map (\<lambda>(k, v). (k, js_val_of v)) kvs)"

section \<open>Hashes and seals\<close>

record audit_env =
  sha256_hex :: "string \<Rightarrow> string"
  hmac_sha256 :: "string \<Rightarrow> string \<Rightarrow> string"
  to_hex :: "string \<Rightarrow> string"
  show_val :: "js_val \<Rightarrow> string"
  odd_mac_equal :: "json \<Rightarrow> string \<Rightarrow> bool result"

definition GENESIS :: string where "GENESIS = []"
definition SEAL_LABEL :: string where "SEAL_LABEL = ''pressh/audit-seal/v1''"

fun stableStringify :: "js_val \<Rightarrow> string" where
  "stableStringify VUndef = ''null''"
| "stableStringify VNull = ''null''"
| "stableStringify (VBool b) = (if b then ''true'' else ''false'')"
| "stableStringify (VNum i) = int_string i"
| "stableStringify (VStr s) = json_quote s"
| "stableStringify (VArr vs) = ''['' @ js_join '','' (map stableStringify vs) @ '']''"
| "stableStringify (VObj record) =
     ''{'' @ js_join '','' (map (\<lambda>(k, text). json_quote k @ '':'' @ text)
        (sort_key fst (map (\<lambda>(k, v). (k, stableStringify v)) record))) @ ''}''"

definition computeHash :: "audit_env \<Rightarrow> (string \<times> js_val) list \<Rightarrow> string" where
  "computeHash env entry = sha256_hex env (stableStringify (VObj entry))"

definition deriveSealKey :: "audit_env \<Rightarrow> string \<Rightarrow> string" where
  "deriveSealKey env secret = hmac_sha256 env secret SEAL_LABEL"

text \<open>\<open>${x}\<close> in the text that is sealed; arrays and objects are left to the environment.\<close>

definition template_text :: "audit_env \<Rightarrow> js_val \<Rightarrow> string" where
  "template_text env x =
     (case x of VUndef \<Rightarrow> ''undefined'' | VNull \<Rightarrow> ''null'' | VStr s \<Rightarrow> s | VNum i \<Rightarrow> int_string i
      | VBool b \<Rightarrow> (if b then ''true'' else ''false'') | v \<Rightarrow> show_val env v)"

definition sealMac :: "audit_env \<Rightarrow> string \<Rightarrow> js_val \<Rightarrow> js_val \<Rightarrow> string" where
  "sealMac env key count headHash =
     to_hex env (hmac_sha256 env key (template_text env count @ ''.'' @ template_text env headHash))"

text \<open>
  \<open>a\<close> is the \<open>mac\<close> a seal file holds; reading \<open>length\<close> of null or undefined throws, and so does
  \<open>timingSafeEqual\<close> on buffers of different lengths.  Arrays and objects are compared by the environment.
\<close>

definition macEqual :: "audit_env \<Rightarrow> json option \<Rightarrow> string \<Rightarrow> bool result" where
  "macEqual env a b =
     (case a of
        None \<Rightarrow> Inl (js_error ''Cannot read properties of undefined'')
      | Some JNull \<Rightarrow> Inl (js_error ''Cannot read properties of null'')
      | Some (JStr s) \<Rightarrow>
          if length s \<noteq> length b then Inr False
          else if byteLength s \<noteq> byteLength b then Inl (js_error ''Input buffers must have the same byte length'')
          else Inr (s = b)
      | Some (JArr vs) \<Rightarrow> odd_mac_equal env (JArr vs) b
      | Some (JObj kvs) \<Rightarrow> odd_mac_equal env (JObj kvs) b
      | Some v \<Rightarrow> Inr False)"

section \<open>The log\<close>

record audit_entry_input =
  in_action :: string
  in_actorId :: "string option"
  in_detail :: "(string \<times> js_val) list option"

record audit_disk =
  log_file :: "string option"
  seal_file :: "string option"

record audit_log =
  lastHash :: js_val
  log_count :: nat
  sealKey :: "string option"
  sensitive :: "string list"

definition read_error :: "string \<Rightarrow> press_error" where
  "read_error what = PressError Internal (''Failed to read audit '' @ what)"

fun parse_all :: "string list \<Rightarrow> json list option" where
  "parse_all [] = Some []"
| "parse_all (l # ls) =
     (case json_parse l of None \<Rightarrow> None | Some v \<Rightarrow> map_option (\<lambda>vs. v # vs) (parse_all ls))"

definition parseLines :: "string \<Rightarrow> json list option" where
  "parseLines raw = parse_all (filter (\<lambda>line. 0 < length line) (js_split (CHR 0x0A) raw))"

definition readAll :: "audit_disk \<Rightarrow> json list result" where
  "readAll d =
     (case log_file d of None \<Rightarrow> Inr []
      | Some raw \<Rightarrow> (case parseLines raw of None \<Rightarrow> Inl (read_error ''log'') | Some es \<Rightarrow> Inr es))"

definition readSeal :: "audit_disk \<Rightarrow> json result" where
  "readSeal d =
     (case seal_file d of None \<Rightarrow> Inr JNull
      | Some raw \<Rightarrow> (case json_parse raw of None \<Rightarrow> Inl (read_error ''seal'') | Some v \<Rightarrow> Inr v))"

definition writeSeal :: "audit_env \<Rightarrow> audit_log \<Rightarrow> audit_disk \<Rightarrow> audit_disk" where
  "writeSeal env l d =
     (case sealKey l of None \<Rightarrow> d
      | Some key \<Rightarrow>
        d\<lparr>seal_file := Some (json_text (plain_json (VObj
           [(''count'', VNum (int (log_count l))), (''headHash'', lastHash l),
            (''mac'', VStr (sealMac env key (VNum (int (log_count l))) (lastHash l)))])))\<rparr>)"

text \<open>\<open>readSeal\<close> answers null for a missing file and for a file that holds the text null.\<close>

definition ensureSeal :: "audit_env \<Rightarrow> audit_log \<Rightarrow> audit_disk \<Rightarrow> audit_disk result" where
  "ensureSeal env l d =
     (if sealKey l = None then Inr d
      else case readSeal d of Inl e \<Rightarrow> Inl e
      | Inr seal \<Rightarrow> Inr (if seal = JNull then writeSeal env l d else d))"

definition opt_text :: "string option \<Rightarrow> js_val" where
  "opt_text x = (case x of None \<Rightarrow> VNull | Some s \<Rightarrow> VStr s)"

definition entry_base :: "audit_log \<Rightarrow> audit_entry_input \<Rightarrow> string \<Rightarrow> string \<Rightarrow> (string \<times> js_val) list" where
  "entry_base l inp uuid time =
     [(''id'', VStr uuid), (''at'', VStr time), (''action'', VStr (in_action inp)),
      (''actorId'', opt_text (in_actorId inp)),
      (''detail'', redactDeep (sensitive l) (VObj (case in_detail inp of None \<Rightarrow> [] | Some kvs \<Rightarrow> kvs))),
      (''prevHash'', lastHash l)]"

definition append_line :: "string \<Rightarrow> audit_disk \<Rightarrow> audit_disk" where
  "append_line line d = d\<lparr>log_file := Some ((case log_file d of None \<Rightarrow> [] | Some raw \<Rightarrow> raw) @ line)\<rparr>"

definition appendLocked ::
  "audit_env \<Rightarrow> audit_entry_input \<Rightarrow> string \<Rightarrow> string \<Rightarrow> audit_log \<times> audit_disk \<Rightarrow>
   (string \<times> js_val) list \<times> audit_log \<times> audit_disk" where
  "appendLocked env inp uuid time ld =
     (let (l, d) = ld;
          base = entry_base l inp uuid time;
          hash = computeHash env base;
          entry = base @ [(''hash'', VStr hash)];
          d = append_line (json_text (plain_json (VObj entry)) @ [CHR 0x0A]) d;
          l = l\<lparr>lastHash := VStr hash, log_count := log_count l + 1\<rparr>
      in (entry, l, writeSeal env l d))"

section \<open>Verification and queries\<close>

text \<open>\<open>v.name\<close>: reading a property of null throws, other values without the property give undefined.\<close>

definition js_prop :: "string \<Rightarrow> json \<Rightarrow> json option result" where
  "js_prop name v =
     (case v of JNull \<Rightarrow> Inl (js_error ''Cannot read properties of null'')
      | JObj kvs \<Rightarrow> Inr (map_of kvs name) | _ \<Rightarrow> Inr None)"

text \<open>The loop of \<open>verifyChain\<close>: the last hash if the chain holds.\<close>

fun check_chain :: "audit_env \<Rightarrow> string \<Rightarrow> json list \<Rightarrow> string option result" where
  "check_chain env prev [] = Inr (Some prev)"
| "check_chain env prev (entry # es) =
     (case js_prop ''prevHash'' entry of Inl e \<Rightarrow> Inl e
      | Inr p \<Rightarrow>
        if p \<noteq> Some (JStr prev) then Inr None
        else case entry of
          JObj kvs \<Rightarrow>
            (let rest = map (\<lambda>(k, v). (k, js_val_of v)) (filter (\<lambda>(k, v). k \<noteq> ''hash'') kvs);
                 h = computeHash env rest
             in if map_of kvs ''hash'' \<noteq> Some (JStr h) then Inr None else check_chain env h es)
        | _ \<Rightarrow> Inr None)"

text \<open>A property of the value parsed from the seal file, which is not null here.\<close>

definition seal_prop :: "string \<Rightarrow> json \<Rightarrow> json option" where
  "seal_prop name v = (case v of JObj kvs \<Rightarrow> map_of kvs name | _ \<Rightarrow> None)"

definition opt_val :: "json option \<Rightarrow> js_val" where
  "opt_val x = (case x of None \<Rightarrow> VUndef | Some v \<Rightarrow> js_val_of v)"

definition verifyChain :: "audit_env \<Rightarrow> audit_log \<Rightarrow> audit_disk \<Rightarrow> bool result" where
  "verifyChain env l d =
     (case readAll d of Inl e \<Rightarrow> Inl e
      | Inr es \<Rightarrow>
        (case check_chain env GENESIS es of Inl e \<Rightarrow> Inl e
         | Inr None \<Rightarrow> Inr False
         | Inr (Some head) \<Rightarrow>
           (case sealKey l of None \<Rightarrow> Inr True
            | Some key \<Rightarrow>
              (case readSeal d of Inl e \<Rightarrow> Inl e
               | Inr seal \<Rightarrow>
                 if \<not> js_truthy seal then Inr (length es = 0)
                 else
                   (case macEqual env (seal_prop ''mac'' seal)
                      (sealMac env key (opt_val (seal_prop ''count'' seal)) (opt_val (seal_prop ''headHash'' seal))) of
                      Inl e \<Rightarrow> Inl e
                    | Inr ok \<Rightarrow>
                      Inr (ok \<and> seal_prop ''count'' seal = Some (JNum (int (length es))) \<and>
                           seal_prop ''headHash'' seal = Some (JStr head)))))))"

fun filter_prop :: "string \<Rightarrow> string option \<Rightarrow> json list \<Rightarrow> json list result" where
  "filter_prop name None es = Inr es"
| "filter_prop name (Some x) [] = Inr []"
| "filter_prop name (Some x) (e # es) =
     (case js_prop name e of Inl err \<Rightarrow> Inl err
      | Inr p \<Rightarrow> (case filter_prop name (Some x) es of Inl err \<Rightarrow> Inl err
          | Inr es \<Rightarrow> Inr (if p = Some (JStr x) then e # es else es)))"

text \<open>\<open>es.slice(-limit)\<close>: the last elements, all of them for a limit of 0.\<close>

definition slice_last :: "int \<Rightarrow> 'a list \<Rightarrow> 'a list" where
  "slice_last limit es = (if 0 < limit then drop (length es - nat limit) es else drop (nat (- limit)) es)"

definition query :: "string option \<Rightarrow> string option \<Rightarrow> int option \<Rightarrow> audit_disk \<Rightarrow> json list result" where
  "query action actorId limit d =
     (case readAll d of Inl e \<Rightarrow> Inl e
      | Inr es \<Rightarrow> (case filter_prop ''action'' action es of Inl e \<Rightarrow> Inl e
        | Inr es \<Rightarrow> (case filter_prop ''actorId'' actorId es of Inl e \<Rightarrow> Inl e
          | Inr es \<Rightarrow> Inr (case limit of None \<Rightarrow> es | Some n \<Rightarrow> slice_last n es))))"

text \<open>The head \<open>createFileAuditLog\<close> reads: \<open>last.hash\<close> if the last line is truthy.\<close>

definition last_hash :: "json list \<Rightarrow> js_val" where
  "last_hash es =
     (if es = [] \<or> \<not> js_truthy (last es) then VStr GENESIS else opt_val (seal_prop ''hash'' (last es)))"

definition seal_key :: "audit_env \<Rightarrow> string option \<Rightarrow> string option" where
  "seal_key env sealSecret =
     (case sealSecret of None \<Rightarrow> None | Some s \<Rightarrow> if s = [] then None else Some (deriveSealKey env s))"

definition createFileAuditLog ::
  "audit_env \<Rightarrow> string list option \<Rightarrow> string option \<Rightarrow> audit_disk \<Rightarrow> (audit_log \<times> audit_disk) result" where
  "createFileAuditLog env sensitiveKeys sealSecret d =
     (case readAll d of Inl e \<Rightarrow> Inl e
      | Inr es \<Rightarrow>
        let l = \<lparr>lastHash = last_hash es, log_count = length es, sealKey = seal_key env sealSecret,
                 sensitive = (case sensitiveKeys of None \<Rightarrow> SENSITIVE_KEYS | Some ks \<Rightarrow> ks)\<rparr>
        in (case ensureSeal env l d of Inl e \<Rightarrow> Inl e | Inr d \<Rightarrow> Inr (l, d)))"

end
