(* ===== verification/Audit_Log_Facts.thy ===== *)
theory Audit_Log_Facts
  imports Audit_Log
begin

text \<open>
  Facts about the audit log: the canonical form behind \<open>stableStringify\<close>, what a value becomes on its way
  through the file, and the invariant of a log that only \<open>append\<close> and reopening have touched.
\<close>

section \<open>Canonical forms\<close>

fun canon :: "js_val \<Rightarrow> json" where
  "canon VUndef = JNull"
| "canon VNull = JNull"
| "canon (VBool b) = JBool b"
| "canon (VNum i) = JNum i"
| "canon (VStr s) = JStr s"
| "canon (VArr vs) = JArr (map canon vs)"
| "canon (VObj kvs) = JObj (sort_key fst (map (\<lambda>(k, v). (k, canon v)) kvs))"

fun wf_val :: "js_val \<Rightarrow> bool" where
  "wf_val (VArr vs) = list_all wf_val vs"
| "wf_val (VObj kvs) = (distinct (map fst kvs) \<and> list_all (\<lambda>(k, v). wf_val v) kvs)"
| "wf_val _ = True"

text \<open>No entry of an object is undefined.\<close>

fun defined_val :: "js_val \<Rightarrow> bool" where
  "defined_val (VArr vs) = list_all defined_val vs"
| "defined_val (VObj kvs) = list_all (\<lambda>(k, v). v \<noteq> VUndef \<and> defined_val v) kvs"
| "defined_val _ = True"

lemma map_fst_vals [simp]: "map fst (map (\<lambda>(k, v). (k, f v)) xs) = map fst xs"
  by (simp add: case_prod_beta comp_def)

lemma insort_key_map: "insort_key fst (k, f v) (map (\<lambda>(k, v). (k, f v)) xs) = map (\<lambda>(k, v). (k, f v)) (insort_key fst (k, v) xs)"
  by (induction xs) auto

lemma sort_key_map: "sort_key fst (map (\<lambda>(k, v). (k, f v)) xs) = map (\<lambda>(k, v). (k, f v)) (sort_key fst xs)"
  by (induction xs) (auto simp: insort_key_map)

lemma stable_canon: "stableStringify v = json_text (canon v)"
proof (induction v rule: stableStringify.induct)
  case (7 kvs)
  have "map (\<lambda>(k, v). (k, stableStringify v)) kvs = map (\<lambda>(k, v). (k, json_text (canon v))) kvs"
    using 7 by auto
  then show ?case by (simp only: stableStringify.simps canon.simps json_text.simps sort_key_map map_map)
    (simp add: case_prod_beta comp_def)
qed (auto cong: map_cong)

lemma set_sort_key_map: "set (sort_key fst xs) = set xs" by simp

lemma wf_canon: "wf_val v \<Longrightarrow> wf_json (canon v)"
proof (induction v rule: canon.induct)
  case (7 kvs)
  have "distinct (map fst (map (\<lambda>(k, v). (k, canon v)) kvs))" using 7(2) by (simp only: map_fst_vals wf_val.simps)
  then have "distinct (map fst (sort_key fst (map (\<lambda>(k, v). (k, canon v)) kvs)))"
    by (simp only: distinct_map distinct_sort set_sort)
  then show ?case using 7 by (auto simp: list_all_iff)
qed (auto simp: list_all_iff)

lemma stable_inj: "wf_val v \<Longrightarrow> wf_val w \<Longrightarrow> stableStringify v = stableStringify w \<Longrightarrow> canon v = canon w"
  by (metis stable_canon wf_canon json_text_inj)

lemma map_of_sort_key: "distinct (map fst xs) \<Longrightarrow> map_of (sort_key fst xs) = map_of xs"
  by (intro map_of_inject_set [THEN iffD2]) (simp_all add: distinct_map inj_on_def)

lemma canon_field:
  assumes "distinct (map fst kvs)"
  shows "map_of (sort_key fst (map (\<lambda>(k, v). (k, canon v)) kvs)) k = map_option canon (map_of kvs k)"
proof -
  have "distinct (map fst (map (\<lambda>(k, v). (k, canon v)) kvs))" using assms by (simp only: map_fst_vals)
  from map_of_sort_key [OF this] show ?thesis by (simp add: map_of_map)
qed

section \<open>Through the file\<close>

lemma wf_plain: "wf_val v \<Longrightarrow> wf_json (plain_json v)"
proof (induction v rule: plain_json.induct)
  case (7 kvs)
  let ?xs = "filter (\<lambda>(k, v). v \<noteq> VUndef) kvs"
  have "distinct (map fst ?xs)" using 7(2) by (auto intro: distinct_map_filter)
  then have "distinct (map fst (map (\<lambda>(k, v). (k, plain_json v)) ?xs))" by (simp only: map_fst_vals)
  moreover have "list_all (\<lambda>(k, v). wf_json v) (map (\<lambda>(k, v). (k, plain_json v)) ?xs)" using 7 by (auto simp: list_all_iff)
  ultimately show ?case by (simp only: plain_json.simps wf_json.simps simp_thms)
qed (auto simp: list_all_iff)

lemma filter_defined: "defined_val (VObj kvs) \<Longrightarrow> filter (\<lambda>(k, v). v \<noteq> VUndef) kvs = kvs"
  by (auto simp: list_all_iff intro!: filter_True)

lemma canon_plain: "defined_val v \<Longrightarrow> canon (js_val_of (plain_json v)) = canon v"
proof (induction v rule: plain_json.induct)
  case (7 kvs)
  have eq: "map (\<lambda>(k, v). (k, canon (js_val_of (plain_json v)))) kvs = map (\<lambda>(k, v). (k, canon v)) kvs"
    using 7 by (auto simp: list_all_iff)
  have "canon (js_val_of (plain_json (VObj kvs))) = JObj (sort_key fst (map (\<lambda>(k, v). (k, canon (js_val_of (plain_json v)))) kvs))"
    using filter_defined [OF 7(2)] by (simp add: case_prod_beta' comp_def)
  then show ?case by (simp only: eq canon.simps)
qed (auto simp: list_all_iff)

lemma redact_undef: "redactDeep s v = VUndef \<longleftrightarrow> v = VUndef"
  by (cases v) auto

lemma defined_redact: "defined_val v \<Longrightarrow> defined_val (redactDeep s v)"
proof (induction s v rule: redactDeep.induct)
  case (2 s kvs)
  then show ?case by (auto simp: list_all_iff redact_undef split: if_splits)
qed (auto simp: list_all_iff)

lemma wf_redact: "wf_val v \<Longrightarrow> wf_val (redactDeep s v)"
proof (induction s v rule: redactDeep.induct)
  case (2 s kvs)
  then show ?case by (auto simp: list_all_iff case_prod_beta comp_def)
qed (auto simp: list_all_iff)

definition log_line :: "json \<Rightarrow> string" where
  "log_line e = json_text e @ [CHR 0x0A]"

definition log_text :: "json list \<Rightarrow> string" where
  "log_text es = concat (map log_line es)"

lemma parseLines_text: "list_all wf_json es \<Longrightarrow> parseLines (log_text es) = Some es"
proof -
  have "filter (\<lambda>l. 0 < length l) (js_split (CHR 0x0A) (log_text es)) = map json_text es"
    using length_json_text by (induction es) (auto simp: log_text_def log_line_def js_split_append json_text_one_line)
  moreover have "parse_all (map json_text es) = Some es" if "list_all wf_json es" using that by (induction es) auto
  ultimately show "list_all wf_json es \<Longrightarrow> ?thesis" by (simp add: parseLines_def)
qed

section \<open>The life of a log\<close>

datatype audit_op = Append audit_entry_input string string | Reopen "string list option"

type_synonym audit_world = "(string \<times> js_val) list list \<times> audit_log \<times> audit_disk"

text \<open>The entries handed out so far, the log object and the two files.\<close>

fun audit_step :: "audit_env \<Rightarrow> string option \<Rightarrow> audit_op \<Rightarrow> audit_world \<Rightarrow> audit_world result" where
  "audit_step env secret (Append inp uuid time) (es, ld) =
     (let (e, ld) = appendLocked env inp uuid time ld in Inr (es @ [e], ld))"
| "audit_step env secret (Reopen keys) (es, l, d) =
     (case createFileAuditLog env keys secret d of Inl e \<Rightarrow> Inl e | Inr ld \<Rightarrow> Inr (es, ld))"

fun audit_run :: "audit_env \<Rightarrow> string option \<Rightarrow> audit_op list \<Rightarrow> audit_world \<Rightarrow> audit_world result" where
  "audit_run env secret [] w = Inr w"
| "audit_run env secret (op # ops) w =
     (case audit_step env secret op w of Inl e \<Rightarrow> Inl e | Inr w \<Rightarrow> audit_run env secret ops w)"

definition no_disk :: audit_disk where
  "no_disk = \<lparr>log_file = None, seal_file = None\<rparr>"

text \<open>A first start on an empty directory, then the operations.\<close>

definition audit_life :: "audit_env \<Rightarrow> string option \<Rightarrow> string list option \<Rightarrow> audit_op list \<Rightarrow> audit_world result" where
  "audit_life env secret keys ops =
     (case createFileAuditLog env keys secret no_disk of Inl e \<Rightarrow> Inl e
      | Inr ld \<Rightarrow> audit_run env secret ops ([], ld))"

definition input_ok :: "audit_entry_input \<Rightarrow> bool" where
  "input_ok inp \<longleftrightarrow> (case in_detail inp of None \<Rightarrow> True | Some kvs \<Rightarrow> wf_val (VObj kvs) \<and> defined_val (VObj kvs))"

fun op_ok :: "audit_op \<Rightarrow> bool" where
  "op_ok (Append inp _ _) = input_ok inp"
| "op_ok (Reopen _) = True"

section \<open>The invariant\<close>

definition log_ok :: "audit_env \<Rightarrow> audit_disk \<Rightarrow> json list \<Rightarrow> string \<Rightarrow> bool" where
  "log_ok env d es h \<longleftrightarrow> (case log_file d of None \<Rightarrow> [] | Some raw \<Rightarrow> raw) = log_text es \<and>
     list_all wf_json es \<and> check_chain env GENESIS es = Inr (Some h)"

definition seal_text :: "audit_env \<Rightarrow> string \<Rightarrow> nat \<Rightarrow> string \<Rightarrow> string" where
  "seal_text env key n h = json_text (JObj [(''count'', JNum (int n)), (''headHash'', JStr h),
     (''mac'', JStr (sealMac env key (VNum (int n)) (VStr h)))])"

definition audit_inv :: "audit_env \<Rightarrow> audit_log \<Rightarrow> audit_disk \<Rightarrow> json list \<Rightarrow> string \<Rightarrow> bool" where
  "audit_inv env l d es h \<longleftrightarrow> log_ok env d es h \<and> lastHash l = VStr h \<and> log_count l = length es \<and>
     (\<forall>key. sealKey l = Some key \<longrightarrow> seal_file d = Some (seal_text env key (length es) h))"

lemma log_text_simps [simp]: "log_text [] = []" "log_text (es @ [e]) = log_text es @ log_line e"
  by (simp_all add: log_text_def)

lemma parseLines_empty: "parseLines [] = Some []"
  by (simp add: parseLines_def)

lemma readAll_ok: "log_ok env d es h \<Longrightarrow> readAll d = Inr es"
proof -
  assume ok: "log_ok env d es h"
  then have p: "parseLines (log_text es) = Some es" by (simp add: log_ok_def parseLines_text)
  show ?thesis
  proof (cases "log_file d")
    case None
    then have "log_text es = []" using ok by (simp add: log_ok_def)
    with p have "es = []" by (simp add: parseLines_empty)
    then show ?thesis using None by (simp add: readAll_def)
  next
    case (Some raw)
    then show ?thesis using ok p by (simp add: readAll_def log_ok_def)
  qed
qed

lemma check_chain_append:
  "check_chain env p (xs @ ys) =
     (case check_chain env p xs of Inl e \<Rightarrow> Inl e | Inr None \<Rightarrow> Inr None | Inr (Some h) \<Rightarrow> check_chain env h ys)"
  by (induction env p xs rule: check_chain.induct) (auto simp: Let_def split: sum.split json.split)

lemma check_chain_one:
  assumes "check_chain env p [e] = Inr (Some h)"
  obtains kvs where "e = JObj kvs" "map_of kvs ''prevHash'' = Some (JStr p)" "map_of kvs ''hash'' = Some (JStr h)"
    "h = computeHash env (map (\<lambda>(k, v). (k, js_val_of v)) (filter (\<lambda>(k, v). k \<noteq> ''hash'') kvs))"
proof -
  obtain kvs where e: "e = JObj kvs" using assms by (auto simp: js_prop_def split: json.splits if_splits sum.splits)
  then show thesis using assms that by (simp add: js_prop_def Let_def split: if_splits)
qed

lemma last_hash_chain:
  assumes "check_chain env GENESIS es = Inr (Some h)"
  shows "last_hash es = VStr h"
proof (cases es rule: rev_cases)
  case Nil
  then show ?thesis using assms by (simp add: last_hash_def)
next
  case (snoc xs e)
  then obtain p where "check_chain env p [e] = Inr (Some h)"
    using assms by (auto simp: check_chain_append simp del: check_chain.simps split: sum.splits option.splits)
  then obtain kvs where "e = JObj kvs" "map_of kvs ''hash'' = Some (JStr h)" by (rule check_chain_one)
  then show ?thesis using snoc by (simp add: last_hash_def seal_prop_def opt_val_def)
qed

lemma writeSeal_ok: "sealKey l = Some key \<Longrightarrow> lastHash l = VStr h \<Longrightarrow>
    writeSeal env l d = d\<lparr>seal_file := Some (seal_text env key (log_count l) h)\<rparr>"
  by (simp add: writeSeal_def seal_text_def)

lemma writeSeal_log [simp]: "log_file (writeSeal env l d) = log_file d"
  by (simp add: writeSeal_def split: option.split)

lemma seal_text_parses: "json_parse (seal_text env key n h) = Some (JObj [(''count'', JNum (int n)), (''headHash'', JStr h),
     (''mac'', JStr (sealMac env key (VNum (int n)) (VStr h)))])"
  unfolding seal_text_def by (rule json_roundtrip) simp

text \<open>Opening a log whose file is an intact chain: the seal is written only if there is none.\<close>

lemma open_ok:
  assumes "log_ok env d es h" "createFileAuditLog env keys secret d = Inr (l, d')"
  shows "lastHash l = VStr h \<and> log_count l = length es \<and> sealKey l = seal_key env secret \<and> log_file d' = log_file d \<and>
    (seal_file d \<noteq> None \<longrightarrow> readSeal d \<noteq> Inr JNull \<longrightarrow> d' = d) \<and>
    (seal_file d = None \<longrightarrow> d' = writeSeal env l d)"
proof -
  have "last_hash es = VStr h" using assms(1) last_hash_chain unfolding log_ok_def by blast
  then show ?thesis using assms(2) readAll_ok [OF assms(1)]
    by (auto simp: createFileAuditLog_def Let_def ensureSeal_def writeSeal_def readSeal_def
        split: sum.splits if_splits option.splits)
qed

lemma open_inv:
  assumes "audit_inv env l d es h" "sealKey l = seal_key env secret" "createFileAuditLog env keys secret d = Inr (l', d')"
  shows "audit_inv env l' d' es h \<and> sealKey l' = seal_key env secret"
proof -
  have ok: "log_ok env d es h" using assms(1) by (simp add: audit_inv_def)
  note o = open_ok [OF ok assms(3)]
  have "seal_file d' = Some (seal_text env key (length es) h)" if "seal_key env secret = Some key" for key
  proof -
    have "seal_file d = Some (seal_text env key (length es) h)" using assms(1,2) that by (simp add: audit_inv_def)
    moreover from this have "readSeal d \<noteq> Inr JNull" by (simp add: readSeal_def seal_text_parses)
    ultimately show ?thesis using o by simp
  qed
  then show ?thesis using o ok by (simp add: audit_inv_def log_ok_def)
qed

lemma wf_base: "input_ok inp \<Longrightarrow> lastHash l = VStr h \<Longrightarrow> wf_val (VObj (entry_base l inp uuid time)) \<and>
    defined_val (VObj (entry_base l inp uuid time))"
  using wf_redact [of "VObj (case in_detail inp of None \<Rightarrow> [] | Some kvs \<Rightarrow> kvs)" "sensitive l"]
    defined_redact [of "VObj (case in_detail inp of None \<Rightarrow> [] | Some kvs \<Rightarrow> kvs)" "sensitive l"]
  by (auto simp: entry_base_def opt_text_def input_ok_def split: option.splits)

lemma plain_base:
  assumes "defined_val (VObj (entry_base l inp uuid time))"
  shows "plain_json (VObj (entry_base l inp uuid time @ [(''hash'', VStr x)])) =
    JObj (map (\<lambda>(k, v). (k, plain_json v)) (entry_base l inp uuid time) @ [(''hash'', JStr x)])"
  using filter_defined [OF assms] by simp

lemma chain_new:
  assumes "defined_val (VObj (entry_base l inp uuid time))" "lastHash l = VStr h"
  shows "check_chain env h [plain_json (VObj (entry_base l inp uuid time @ [(''hash'', VStr (computeHash env (entry_base l inp uuid time)))]))]
    = Inr (Some (computeHash env (entry_base l inp uuid time)))"
proof -
  let ?b = "entry_base l inp uuid time" and ?x = "computeHash env (entry_base l inp uuid time)"
  let ?kvs = "map (\<lambda>(k, v). (k, plain_json v)) ?b @ [(''hash'', JStr ?x)]"
  have rest: "filter (\<lambda>(k, v). k \<noteq> ''hash'') ?kvs = map (\<lambda>(k, v). (k, plain_json v)) ?b"
    by (simp add: entry_base_def)
  have "VObj (map (\<lambda>(k, v). (k, js_val_of v)) (map (\<lambda>(k, v). (k, plain_json v)) ?b)) = js_val_of (plain_json (VObj ?b))"
    using filter_defined [OF assms(1)] by simp
  then have "computeHash env (map (\<lambda>(k, v). (k, js_val_of v)) (map (\<lambda>(k, v). (k, plain_json v)) ?b)) = ?x"
    unfolding computeHash_def by (simp only: stable_canon canon_plain [OF assms(1)])
  moreover have "map_of ?kvs ''hash'' = Some (JStr ?x)" by (simp add: entry_base_def)
  moreover have "map_of ?kvs ''prevHash'' = Some (JStr h)" using assms(2) by (simp add: entry_base_def)
  ultimately show ?thesis unfolding plain_base [OF assms(1)] by (simp only: check_chain.simps js_prop_def json.case sum.case rest Let_def) simp
qed

text \<open>An append writes a fresh seal, so it needs nothing of the one before.\<close>

lemma append_seals:
  assumes "log_ok env d es h" "lastHash l = VStr h" "log_count l = length es" "input_ok inp" "appendLocked env inp uuid time (l, d) = (e, l', d')"
  shows "audit_inv env l' d' (es @ [plain_json (VObj e)]) (computeHash env (entry_base l inp uuid time)) \<and> sealKey l' = sealKey l"
proof -
  let ?b = "entry_base l inp uuid time" and ?x = "computeHash env (entry_base l inp uuid time)"
  note lh = assms(2)
  note wf = wf_base [OF assms(4) lh, of uuid time]
  have e: "e = ?b @ [(''hash'', VStr ?x)]" and l': "l' = l\<lparr>lastHash := VStr ?x, log_count := log_count l + 1\<rparr>"
    and d': "d' = writeSeal env l' (append_line (log_line (plain_json (VObj e))) d)"
    using assms(5) by (auto simp: appendLocked_def Let_def log_line_def)
  have "check_chain env GENESIS (es @ [plain_json (VObj e)]) = Inr (Some ?x)"
    using assms(1) chain_new [OF conjunct2 [OF wf] lh] unfolding e
    by (simp add: check_chain_append log_ok_def del: check_chain.simps plain_json.simps)
  moreover have "wf_json (plain_json (VObj e))"
    using wf unfolding e by (intro wf_plain) (auto simp: entry_base_def)
  moreover have "(case log_file d' of None \<Rightarrow> [] | Some raw \<Rightarrow> raw) = log_text (es @ [plain_json (VObj e)])"
    using assms(1) unfolding d' by (simp add: append_line_def log_ok_def del: plain_json.simps)
  ultimately have "log_ok env d' (es @ [plain_json (VObj e)]) ?x"
    using assms(1) by (simp add: log_ok_def del: plain_json.simps)
  moreover have "seal_file d' = Some (seal_text env key (length es + 1) ?x)" if "sealKey l' = Some key" for key
    unfolding d' using writeSeal_ok [OF that, of ?x] assms(3) by (simp add: l')
  ultimately show ?thesis using assms(3) by (simp add: audit_inv_def l' del: plain_json.simps)
qed

lemma append_inv:
  assumes "audit_inv env l d es h" "input_ok inp" "appendLocked env inp uuid time (l, d) = (e, l', d')"
  shows "audit_inv env l' d' (es @ [plain_json (VObj e)]) (computeHash env (entry_base l inp uuid time)) \<and> sealKey l' = sealKey l"
  using assms append_seals unfolding audit_inv_def by blast

definition world_ok :: "audit_env \<Rightarrow> string option \<Rightarrow> audit_world \<Rightarrow> bool" where
  "world_ok env secret w = (case w of (es, l, d) \<Rightarrow>
     (\<exists>h. audit_inv env l d (map (\<lambda>e. plain_json (VObj e)) es) h) \<and> sealKey l = seal_key env secret)"

lemma audit_step_ok:
  assumes "world_ok env secret w" "op_ok op" "audit_step env secret op w = Inr w'"
  shows "world_ok env secret w'"
proof -
  obtain es l d where w: "w = (es, l, d)" by (cases w)
  obtain h where inv: "audit_inv env l d (map (\<lambda>e. plain_json (VObj e)) es) h" and k: "sealKey l = seal_key env secret"
    using assms(1) by (auto simp: world_ok_def w)
  show ?thesis
  proof (cases op)
    case (Append inp uuid time)
    obtain e l' d' where a: "appendLocked env inp uuid time (l, d) = (e, l', d')" by (metis prod.collapse)
    have "w' = (es @ [e], l', d')" using assms(3) by (simp add: w Append a)
    then show ?thesis using append_inv [OF inv _ a] assms(2) k by (auto simp: world_ok_def Append simp del: plain_json.simps)
  next
    case (Reopen keys)
    then obtain l' d' where a: "createFileAuditLog env keys secret d = Inr (l', d')" and "w' = (es, l', d')"
      using assms(3) by (auto simp: w split: sum.splits)
    then show ?thesis using open_inv [OF inv k a] by (auto simp: world_ok_def)
  qed
qed

lemma audit_run_ok:
  "world_ok env secret w \<Longrightarrow> list_all op_ok ops \<Longrightarrow> audit_run env secret ops w = Inr w' \<Longrightarrow> world_ok env secret w'"
proof (induction ops arbitrary: w)
  case (Cons op ops)
  then obtain w1 where "audit_step env secret op w = Inr w1" "audit_run env secret ops w1 = Inr w'"
    by (auto split: sum.splits)
  note w1 = this
  have "op_ok op" "list_all op_ok ops" using Cons.prems(2) by simp_all
  then show ?case using Cons.IH [OF audit_step_ok [OF Cons.prems(1) _ w1(1)] _ w1(2)] by blast
qed simp

lemma audit_life_ok:
  assumes "audit_life env secret keys ops = Inr w" "list_all op_ok ops"
  shows "world_ok env secret w"
proof -
  obtain l d where c: "createFileAuditLog env keys secret no_disk = Inr (l, d)" and r: "audit_run env secret ops ([], l, d) = Inr w"
    using assms(1) by (auto simp: audit_life_def split: sum.splits)
  have "log_ok env no_disk [] GENESIS" by (simp add: log_ok_def no_disk_def)
  note o = open_ok [OF this c]
  have "audit_inv env l d [] GENESIS"
    using o writeSeal_ok [of l _ GENESIS env no_disk] by (auto simp: audit_inv_def log_ok_def no_disk_def)
  then have "world_ok env secret ([], l, d)" using o by (auto simp: world_ok_def)
  then show ?thesis using audit_run_ok r assms(2) by blast
qed

section \<open>Nothing fails\<close>

lemma open_total:
  assumes "log_ok env d es h" "seal_key env secret = None \<or> seal_file d = None \<or> (\<exists>key n h. seal_file d = Some (seal_text env key n h))"
  shows "\<exists>l d'. createFileAuditLog env keys secret d = Inr (l, d')"
  using assms(2) readAll_ok [OF assms(1)]
  by (auto simp: createFileAuditLog_def Let_def ensureSeal_def readSeal_def seal_text_parses split: sum.split)

lemma audit_step_total:
  assumes "world_ok env secret w"
  shows "\<exists>w'. audit_step env secret op w = Inr w'"
proof -
  obtain es l d where w: "w = (es, l, d)" by (cases w)
  obtain h where inv: "audit_inv env l d (map (\<lambda>e. plain_json (VObj e)) es) h" and k: "sealKey l = seal_key env secret"
    using assms by (auto simp: world_ok_def w)
  show ?thesis
  proof (cases op)
    case (Append inp uuid time)
    then show ?thesis by (simp add: w Let_def split: prod.split)
  next
    case (Reopen keys)
    have "seal_key env secret = None \<or> (\<exists>key n h. seal_file d = Some (seal_text env key n h))"
      using inv k by (cases "seal_key env secret") (auto simp: audit_inv_def)
    then show ?thesis using open_total [of env d _ h secret keys] inv by (fastforce simp: w Reopen audit_inv_def)
  qed
qed

lemma audit_life_total:
  assumes "list_all op_ok ops"
  shows "\<exists>w. audit_life env secret keys ops = Inr w"
proof -
  have run: "\<exists>w'. audit_run env secret ops w = Inr w'" if "world_ok env secret w" "list_all op_ok ops" for w ops
    using that
  proof (induction ops arbitrary: w)
    case (Cons op ops)
    obtain w1 where w1: "audit_step env secret op w = Inr w1" using audit_step_total [OF Cons.prems(1)] by blast
    then show ?case using Cons.IH [OF audit_step_ok [OF Cons.prems(1) _ w1]] Cons.prems(2) by simp
  next
    case Nil
    then show ?case by (metis audit_run.simps(1))
  qed
  have ok: "log_ok env no_disk [] GENESIS" by (simp add: log_ok_def no_disk_def)
  obtain l d where c: "createFileAuditLog env keys secret no_disk = Inr (l, d)"
    using open_total [OF ok, of secret keys] by (auto simp: no_disk_def)
  have "audit_life env secret keys [] = Inr ([], l, d)" by (simp add: audit_life_def c)
  then have "world_ok env secret ([], l, d)" by (rule audit_life_ok) simp
  from run [OF this assms] show ?thesis by (simp add: audit_life_def c)
qed

lemma verify_ok:
  assumes "audit_inv env l d es h"
  shows "verifyChain env l d = Inr True"
proof -
  have "log_ok env d es h" using assms by (simp add: audit_inv_def)
  from readAll_ok [OF this] show ?thesis
    using assms by (cases "sealKey l")
      (auto simp: verifyChain_def audit_inv_def log_ok_def readSeal_def seal_text_parses seal_prop_def opt_val_def macEqual_def)
qed

section \<open>Parsed values are well formed\<close>

lemma obj_assign_wf:
  "list_all (\<lambda>(k, v). wf_json v) a \<Longrightarrow> list_all (\<lambda>(k, v). wf_json v) b \<Longrightarrow> distinct (map fst a) \<Longrightarrow>
   distinct (map fst (obj_assign a b)) \<and> list_all (\<lambda>(k, v). wf_json v) (obj_assign a b)"
proof (induction b arbitrary: a)
  case (Cons x b)
  obtain k v where x: "x = (k, v)" by force
  have "list_all (\<lambda>(k, v). wf_json v) (obj_set k v a)"
    using Cons.prems x by (induction a) auto
  moreover have "distinct (map fst (obj_set k v a))" using Cons.prems(3) by (rule distinct_obj_set)
  ultimately show ?case using Cons.IH [of "obj_set k v a"] Cons.prems(2) by (simp add: obj_assign_def x)
qed (simp add: obj_assign_def)

lemma parse_wf:
  "parse_val n s = Some (v, r) \<Longrightarrow> wf_json v"
  "parse_elems n s = Some (vs, r) \<Longrightarrow> list_all wf_json vs"
  "parse_members n s = Some (kvs, r) \<Longrightarrow> list_all (\<lambda>(k, v). wf_json v) kvs"
proof (induction n s and n s and n s arbitrary: v r and vs r and kvs r rule: parse_val_parse_elems_parse_members.induct)
  case (2 n s)
  show ?case
  proof (cases "skip_ws s")
    case (Cons c cs)
    show ?thesis
    proof (cases "c = CHR 0x22 \<or> c = CHR ''['' \<or> c = CHR ''{''")
      case True
      then show ?thesis using 2 Cons obj_assign_wf [of "[]"] by (auto split: if_splits)
    next
      case False
      then show ?thesis using "2.prems" Cons
        by (auto simp: parse_num_def simp del: js_prefix.simps split: if_splits option.splits)
    qed
  qed (use "2.prems" in simp)
next
  case (4 n s)
  then show ?case by (auto split: option.splits list.splits if_splits)
next
  case (6 n s)
  then show ?case by (auto split: option.splits list.splits if_splits)
qed auto

lemma json_parse_wf: "json_parse s = Some v \<Longrightarrow> wf_json v"
  unfolding json_parse_def by (auto simp del: parse_val.simps split: option.splits if_splits dest: parse_wf(1))

lemma readAll_wf: "readAll d = Inr es \<Longrightarrow> list_all wf_json es"
proof -
  have "parse_all ls = Some es \<Longrightarrow> list_all wf_json es" for ls es
    by (induction ls arbitrary: es) (auto split: option.splits dest: json_parse_wf)
  then show "readAll d = Inr es \<Longrightarrow> ?thesis" by (auto simp: readAll_def parseLines_def split: option.splits)
qed

end
