(* ===== verification/Audit_Log_Props.thy ===== *)
theory Audit_Log_Props
  imports Audit_Log_Facts
begin

text \<open>
  The properties of the audit log: an untouched log verifies and reads back, an altered one does not, and
  the two ways in which the evidence is lost.
\<close>

definition entry_json :: "(string \<times> js_val) list \<Rightarrow> json" where
  "entry_json e = plain_json (VObj e)"

text \<open>A JSON value up to the order of object keys.\<close>

definition jcanon :: "json \<Rightarrow> json" where
  "jcanon v = canon (js_val_of v)"

definition same_content :: "json list \<Rightarrow> json list \<Rightarrow> bool" where
  "same_content xs ys \<longleftrightarrow> map jcanon xs = map jcanon ys"

text \<open>The text whose hash an entry carries.\<close>

definition hashed_text :: "json \<Rightarrow> string" where
  "hashed_text v = (case v of
     JObj kvs \<Rightarrow> stableStringify (VObj (map (\<lambda>(k, v). (k, js_val_of v)) (filter (\<lambda>(k, v). k \<noteq> ''hash'') kvs)))
   | _ \<Rightarrow> [])"

lemma wf_js_val_of: "wf_json v \<Longrightarrow> wf_val (js_val_of v)"
  by (induction v rule: js_val_of.induct) (auto simp: list_all_iff simp del: map_map)

definition without_hash :: "(string \<times> json) list \<Rightarrow> (string \<times> json) list" where
  "without_hash kvs = filter (\<lambda>(k, v). k \<noteq> ''hash'') kvs"

definition canons :: "(string \<times> json) list \<Rightarrow> (string \<times> json) list" where
  "canons kvs = map (\<lambda>(k, v). (k, jcanon v)) kvs"

lemma jcanon_obj: "jcanon (JObj kvs) = JObj (sort_key fst (canons kvs))"
  by (simp add: jcanon_def canons_def case_prod_beta' comp_def)

lemma hashed_obj: "hashed_text (JObj kvs) = stableStringify (js_val_of (JObj (without_hash kvs)))"
  by (simp add: hashed_text_def without_hash_def)

lemma map_of_without: "map_of (without_hash kvs) k = (if k = ''hash'' then None else map_of kvs k)"
  by (induction kvs) (auto simp: without_hash_def)

lemma map_of_canons: "map_of (canons kvs) k = map_option jcanon (map_of kvs k)"
  by (simp add: canons_def map_of_map)

lemma keys_canons: "map fst (canons kvs) = map fst kvs"
  by (simp only: canons_def map_fst_vals)

lemma distinct_without: "distinct (map fst kvs) \<Longrightarrow> distinct (map fst (without_hash kvs))"
  by (simp add: without_hash_def distinct_map_filter)

lemma canons_eqI:
  assumes "distinct (map fst xs)" "distinct (map fst ys)" "map_of (canons xs) = map_of (canons ys)"
  shows "sort_key fst (canons xs) = sort_key fst (canons ys)"
proof -
  have d: "distinct (map fst (canons xs))" "distinct (map fst (canons ys))" using assms by (simp_all only: keys_canons)
  then have s: "set (canons xs) = set (canons ys)" using assms(3) by (metis map_of_inject_set)
  have "sorted (map fst (sort_key fst zs)) \<and> distinct (map fst (sort_key fst zs))"
    if "distinct (map fst zs)" for zs :: "(string \<times> json) list"
    using that by (simp add: distinct_map)
  moreover have "inj_on fst (set (sort_key fst (canons xs)) \<union> set (sort_key fst (canons ys)))"
    using d s by (simp add: distinct_map)
  ultimately show ?thesis using d s by (intro map_sorted_distinct_set_unique [of fst]) simp_all
qed

text \<open>Entries with the same hash, if the hashed texts do not collide.\<close>

lemma same_hash:
  assumes "wf_json (JObj kx)" "wf_json (JObj ky)" "map_of kx ''hash'' = map_of ky ''hash''"
    and "hashed_text (JObj kx) = hashed_text (JObj ky)"
  shows "jcanon (JObj kx) = jcanon (JObj ky)"
    "map_option jcanon (map_of kx ''prevHash'') = map_option jcanon (map_of ky ''prevHash'')"
proof -
  have dx: "distinct (map fst kx)" and dy: "distinct (map fst ky)" using assms(1,2) by simp_all
  have "wf_json (JObj (without_hash k))" if "wf_json (JObj k)" for k
    using that distinct_without by (auto simp: list_all_iff without_hash_def)
  then have "jcanon (JObj (without_hash kx)) = jcanon (JObj (without_hash ky))"
    using assms(1,2,4) wf_js_val_of unfolding jcanon_def hashed_obj by (blast intro: stable_inj)
  then have sk: "sort_key fst (canons (without_hash kx)) = sort_key fst (canons (without_hash ky))"
    by (simp add: jcanon_obj)
  have "map_of (canons (without_hash k)) = map_of (sort_key fst (canons (without_hash k)))" if "distinct (map fst k)" for k
    using distinct_without [OF that] by (simp only: keys_canons map_of_sort_key)
  with sk dx dy have m: "map_of (canons (without_hash kx)) = map_of (canons (without_hash ky))" by simp
  have eq: "map_option jcanon (map_of kx k) = map_option jcanon (map_of ky k)" if "k \<noteq> ''hash''" for k
    using fun_cong [OF m, of k] that by (simp add: map_of_canons map_of_without)
  show "map_option jcanon (map_of kx ''prevHash'') = map_option jcanon (map_of ky ''prevHash'')" by (rule eq) simp
  have "map_of (canons kx) = map_of (canons ky)"
  proof
    fix k show "map_of (canons kx) k = map_of (canons ky) k"
      using eq [of k] assms(3) by (cases "k = ''hash''") (simp_all add: map_of_canons)
  qed
  then show "jcanon (JObj kx) = jcanon (JObj ky)" using canons_eqI [OF dx dy] by (simp add: jcanon_obj)
qed

text \<open>Two chains of the same length and head have the same entries.\<close>

lemma chain_unique:
  assumes "length xs = length ys" "check_chain env GENESIS xs = Inr (Some h)" "check_chain env GENESIS ys = Inr (Some h)"
    and "list_all wf_json xs" "list_all wf_json ys"
    and "\<And>x y. x \<in> set xs \<Longrightarrow> y \<in> set ys \<Longrightarrow> sha256_hex env (hashed_text x) = sha256_hex env (hashed_text y) \<Longrightarrow>
      hashed_text x = hashed_text y"
  shows "same_content xs ys"
  using assms
proof (induction xs arbitrary: ys h rule: rev_induct)
  case (snoc x xs)
  then obtain y ys' where ys: "ys = ys' @ [y]" by (cases ys rule: rev_cases) auto
  obtain p where p: "check_chain env GENESIS xs = Inr (Some p)" "check_chain env p [x] = Inr (Some h)"
    using snoc.prems(2) by (auto simp: check_chain_append simp del: check_chain.simps split: sum.splits option.splits)
  obtain q where q: "check_chain env GENESIS ys' = Inr (Some q)" "check_chain env q [y] = Inr (Some h)"
    using snoc.prems(3) by (auto simp: ys check_chain_append simp del: check_chain.simps split: sum.splits option.splits)
  obtain kx where kx: "x = JObj kx" "map_of kx ''prevHash'' = Some (JStr p)" "map_of kx ''hash'' = Some (JStr h)"
      "h = computeHash env (map (\<lambda>(k, v). (k, js_val_of v)) (filter (\<lambda>(k, v). k \<noteq> ''hash'') kx))"
    by (rule check_chain_one [OF p(2)])
  obtain ky where ky: "y = JObj ky" "map_of ky ''prevHash'' = Some (JStr q)" "map_of ky ''hash'' = Some (JStr h)"
      "h = computeHash env (map (\<lambda>(k, v). (k, js_val_of v)) (filter (\<lambda>(k, v). k \<noteq> ''hash'') ky))"
    by (rule check_chain_one [OF q(2)])
  have hx: "sha256_hex env (hashed_text x) = h" using kx(1,4) by (simp add: hashed_text_def computeHash_def)
  have hy: "sha256_hex env (hashed_text y) = h" using ky(1,4) by (simp add: hashed_text_def computeHash_def)
  have "hashed_text x = hashed_text y" by (rule snoc.prems(6)) (simp_all add: ys hx hy)
  then have same: "jcanon x = jcanon y" and "map_option jcanon (map_of kx ''prevHash'') = map_option jcanon (map_of ky ''prevHash'')"
    using same_hash [of kx ky] snoc.prems(4,5) kx ky ys by auto
  then have "p = q" using kx(2) ky(2) by (simp add: jcanon_def)
  then have "same_content xs ys'"
    using snoc.IH [of ys' p] snoc.prems p(1) q(1) ys by auto
  then show ?case using same ys by (simp add: same_content_def)
qed (simp add: same_content_def)

lemma life_inv:
  assumes "audit_life env secret keys ops = Inr (es, l, d)" "list_all op_ok ops"
  obtains h where "audit_inv env l d (map entry_json es) h" "sealKey l = seal_key env secret"
proof -
  have "entry_json = (\<lambda>e. plain_json (VObj e))" by (simp add: fun_eq_iff entry_json_def del: plain_json.simps)
  then show thesis using audit_life_ok [OF assms] that by (auto simp: world_ok_def simp del: plain_json.simps)
qed


definition audit_demo_env :: audit_env where
  "audit_demo_env = \<lparr>sha256_hex = (\<lambda>t. t), hmac_sha256 = (\<lambda>key t. key @ t), to_hex = (\<lambda>t. t),
     show_val = (\<lambda>v. []), odd_mac_equal = (\<lambda>v b. Inr False)\<rparr>"

definition login :: "string \<Rightarrow> audit_op" where
  "login who = Append \<lparr>in_action = ''login'', in_actorId = Some who, in_detail = Some [(''n'', VNum 1), (''Token'', VStr ''t'')]\<rparr> who ''now''"

lemma login_ok: "op_ok (login who)"
  by (simp add: login_def input_ok_def)


text \<open>The texts the seals of a log were made for: one for every number of entries it has had.\<close>

definition sealed_text :: "nat \<Rightarrow> string \<Rightarrow> string" where
  "sealed_text n h = int_string (int n) @ ''.'' @ h"

definition heads :: "audit_env \<Rightarrow> json list \<Rightarrow> (nat \<times> string) set" where
  "heads env es = {(n, h). n \<le> length es \<and> check_chain env GENESIS (take n es) = Inr (Some h)}"

lemma sealed_text_inj: "sealed_text m g = sealed_text n h \<Longrightarrow> m = n \<and> g = h"
proof -
  have t: "takeWhile (\<lambda>c. c \<noteq> CHR ''.'') (sealed_text m g) = nat_digits m \<and>
      dropWhile (\<lambda>c. c \<noteq> CHR ''.'') (sealed_text m g) = CHR ''.'' # g" for m g
  proof -
    have "\<forall>c \<in> set (nat_digits m). c \<noteq> CHR ''.''" using nat_digits_digit by (force simp: is_digit_def)
    then show ?thesis by (simp add: sealed_text_def int_string_def takeWhile_append2 dropWhile_append2)
  qed
  assume "sealed_text m g = sealed_text n h"
  then show "m = n \<and> g = h" by (metis t digits_nat_digits list.inject)
qed

text \<open>C39: Tampering is detected: if the log of a running system, replaced together with its seal by any other
  contents, still verifies, then its entries are those appended, up to some point in the past; and all
  of them, if the seal was left as it is.  The seal key is secret: a MAC that verifies was made for a
  text the log once sealed; and no text of the new entries has the hash of another one that was appended.
\<close>

theorem audit_tamper_evident:
  assumes life: "audit_life env (Some secret) keys ops = Inr (es, l, d)" "secret \<noteq> []" "list_all op_ok ops"
    and forged: "readAll d' = Inr es'" "verifyChain env l d' = Inr True"
    and no_collision: "\<And>x y. x \<in> set es' \<Longrightarrow> y \<in> set (map entry_json es) \<Longrightarrow>
      sha256_hex env (hashed_text x) = sha256_hex env (hashed_text y) \<Longrightarrow> hashed_text x = hashed_text y"
    and unforgeable: "\<And>seal n h. readSeal d' = Inr seal \<Longrightarrow>
      macEqual env (seal_prop ''mac'' seal) (sealMac env (deriveSealKey env secret) (VNum (int n)) (VStr h)) = Inr True \<Longrightarrow>
      sealed_text n h \<in> (\<lambda>(n, h). sealed_text n h) ` heads env (map entry_json es)"
  shows "(\<exists>n \<le> length es. same_content es' (map entry_json (take n es))) \<and>
    (seal_file d' \<noteq> seal_file d \<or> same_content es' (map entry_json es))"
proof -
  let ?es = "map entry_json es"
  obtain h where inv: "audit_inv env l d ?es h" and k: "sealKey l = Some (deriveSealKey env secret)"
    using life_inv [OF life(1,3)] life(2) by (auto simp: seal_key_def)
  have wf: "list_all wf_json ?es" "check_chain env GENESIS ?es = Inr (Some h)"
    using inv by (simp_all add: audit_inv_def log_ok_def)
  have wf': "list_all wf_json es'" by (rule readAll_wf [OF forged(1)])
  obtain g where g: "check_chain env GENESIS es' = Inr (Some g)"
    using forged by (auto simp: verifyChain_def split: sum.splits option.splits)
  obtain seal where seal: "readSeal d' = Inr seal"
    using forged g k by (auto simp: verifyChain_def split: sum.splits)
  show ?thesis
  proof (cases "js_truthy seal")
    case False
    then have "es' = []" using forged g k seal by (simp add: verifyChain_def)
    moreover have "seal_file d' \<noteq> seal_file d"
      using False seal inv k by (auto simp: audit_inv_def readSeal_def seal_text_parses)
    ultimately show ?thesis by (auto simp: same_content_def)
  next
    case True
    then have m: "macEqual env (seal_prop ''mac'' seal) (sealMac env (deriveSealKey env secret) (VNum (int (length es'))) (VStr g)) = Inr True"
      and c: "seal_prop ''count'' seal = Some (JNum (int (length es')))" "seal_prop ''headHash'' seal = Some (JStr g)"
      using forged g k seal by (auto simp: verifyChain_def opt_val_def split: sum.splits)
    obtain n x where nx: "(n, x) \<in> heads env ?es" "sealed_text (length es') g = sealed_text n x"
      using unforgeable [OF seal m] by auto
    then have n: "length es' = n" "x = g" using sealed_text_inj by blast+
    then have head: "n \<le> length es" "check_chain env GENESIS (take n ?es) = Inr (Some g)"
      using nx(1) by (auto simp: heads_def)
    have sub: "set (take n ?es) \<subseteq> set ?es" by (rule set_take_subset)
    then have "list_all wf_json (take n ?es)" using wf(1) unfolding list_all_iff by blast
    moreover have "length es' = length (take n ?es)" using n head by simp
    moreover have "hashed_text x = hashed_text y" if "x \<in> set es'" "y \<in> set (take n ?es)"
      "sha256_hex env (hashed_text x) = sha256_hex env (hashed_text y)" for x y
      using that sub no_collision by blast
    ultimately have "same_content es' (take n ?es)"
      using chain_unique [OF _ g head(2) wf'] by blast
    moreover have "n = length es" if "seal_file d' = seal_file d"
    proof -
      have "seal = JObj [(''count'', JNum (int (length ?es))), (''headHash'', JStr h),
          (''mac'', JStr (sealMac env (deriveSealKey env secret) (VNum (int (length ?es))) (VStr h)))]"
        using that inv k seal by (auto simp: audit_inv_def readSeal_def seal_text_parses)
      then show ?thesis using c n by (simp add: seal_prop_def)
    qed
    ultimately show ?thesis using head(1) by (auto simp: take_map)
  qed
qed

text \<open>A login was recorded, the pair of files copied, a second login recorded, the copy put back.\<close>

definition demo_life :: "audit_op list \<Rightarrow> audit_world" where
  "demo_life ops = (case audit_life audit_demo_env (Some ''s'') None ops of Inr w \<Rightarrow> w)"

theorem audit_tamper_evident_witness:
  "verifyChain audit_demo_env (fst (snd (demo_life [login ''a'', login ''b'']))) (snd (snd (demo_life [login ''a'']))) = Inr True \<and>
   (\<exists>n \<le> length (fst (demo_life [login ''a'', login ''b''])).
      same_content (map entry_json (fst (demo_life [login ''a''])))
        (map entry_json (take n (fst (demo_life [login ''a'', login ''b''])))))"
proof -
  let ?key = "deriveSealKey audit_demo_env ''s''"
  obtain es l d where two: "audit_life audit_demo_env (Some ''s'') None [login ''a'', login ''b''] = Inr (es, l, d)"
    using audit_life_total [of "[login ''a'', login ''b'']"] login_ok by fastforce
  obtain es1 l1 d1 where one: "audit_life audit_demo_env (Some ''s'') None [login ''a''] = Inr (es1, l1, d1)"
    using audit_life_total [of "[login ''a'']"] login_ok by fastforce
  have d: "demo_life [login ''a'', login ''b''] = (es, l, d)" "demo_life [login ''a''] = (es1, l1, d1)"
    by (simp_all add: demo_life_def two one)
  have v: "verifyChain audit_demo_env (fst (snd (demo_life [login ''a'', login ''b'']))) (snd (snd (demo_life [login ''a'']))) = Inr True"
    by code_simp
  have "fst (demo_life [login ''a'']) = take 1 (fst (demo_life [login ''a'', login ''b'']))" by code_simp
  then have es1: "es1 = take 1 es" by (simp add: d)
  have "length (fst (demo_life [login ''a''])) = 1" by code_simp
  then have len: "length es1 = 1" by (simp add: d)
  obtain h1 where inv: "audit_inv audit_demo_env l1 d1 (map entry_json es1) h1" and k: "sealKey l1 = seal_key audit_demo_env (Some ''s'')"
    using life_inv [OF one] login_ok by auto
  have ok1: "log_ok audit_demo_env d1 (map entry_json es1) h1" using inv by (simp add: audit_inv_def)
  have "(1, h1) \<in> heads audit_demo_env (map entry_json es)"
    using ok1 len es1 by (auto simp: heads_def log_ok_def take_map)
  then have issued: "sealed_text 1 h1 \<in> (\<lambda>(n, h). sealed_text n h) ` heads audit_demo_env (map entry_json es)" by force
  have mac: "seal_prop ''mac'' seal = Some (JStr (?key @ sealed_text 1 h1))" if "readSeal d1 = Inr seal" for seal
    using that inv k len
    by (auto simp: audit_inv_def seal_key_def readSeal_def seal_text_parses seal_prop_def sealMac_def audit_demo_env_def
        template_text_def sealed_text_def)
  have macs: "sealMac audit_demo_env ?key (VNum (int n)) (VStr h) = ?key @ sealed_text n h" for n h
    by (simp add: sealMac_def audit_demo_env_def template_text_def sealed_text_def)
  have u: "sealed_text n h \<in> (\<lambda>(n, h). sealed_text n h) ` heads audit_demo_env (map entry_json es)"
    if "readSeal d1 = Inr seal" "macEqual audit_demo_env (seal_prop ''mac'' seal) (sealMac audit_demo_env ?key (VNum (int n)) (VStr h)) = Inr True"
    for seal n h
    using that(2) issued unfolding mac [OF that(1)] macs by (auto simp: macEqual_def split: if_splits)
  have "\<exists>n \<le> length es. same_content (map entry_json es1) (map entry_json (take n es))"
    by (rule audit_tamper_evident [OF two _ _ readAll_ok [OF ok1], THEN conjunct1])
      (use v d login_ok u in \<open>auto simp: audit_demo_env_def\<close>)
  then show ?thesis using v d by simp
qed

text \<open>A truncated log is reported only until the next append: reopening the log keeps the old seal and so the
  alarm, but the first entry appended then writes a seal for the truncated log, and from then on the
  chain verifies as if nothing had been removed.
\<close>

theorem audit_truncation_healed:
  assumes "audit_life env (Some secret) keys ops = Inr (es, l, d)" "secret \<noteq> []" "list_all op_ok ops"
    and "n < length es" "input_ok inp"
    and "d1 = d\<lparr>log_file := Some (log_text (map entry_json (take n es)))\<rparr>"
  shows "verifyChain env l d1 = Inr False \<and>
    (\<exists>l1. createFileAuditLog env keys (Some secret) d1 = Inr (l1, d1) \<and> verifyChain env l1 d1 = Inr False \<and>
      (case appendLocked env inp uuid time (l1, d1) of (e, l2, d2) \<Rightarrow>
         verifyChain env l2 d2 = Inr True \<and>
         query None None None d2 = Inr (map entry_json (take n es) @ [entry_json e])))"
proof -
  let ?key = "deriveSealKey env secret" and ?es = "map entry_json es"
  obtain h where inv: "audit_inv env l d ?es h" and k: "sealKey l = Some ?key"
    using life_inv [OF assms(1,3)] assms(2) by (auto simp: seal_key_def)
  have key: "seal_key env (Some secret) = Some ?key" using assms(2) by (simp add: seal_key_def)
  obtain g where g: "check_chain env GENESIS (take n ?es) = Inr (Some g)"
    using inv check_chain_append [of env GENESIS "take n ?es" "drop n ?es"]
    by (auto simp: audit_inv_def log_ok_def split: sum.splits option.splits)
  have "list_all wf_json (take n ?es)"
    using inv set_take_subset [of n ?es] by (auto simp: audit_inv_def log_ok_def list_all_iff)
  then have ok: "log_ok env d1 (map entry_json (take n es)) g"
    using g by (simp add: log_ok_def assms(6) take_map)
  have seal: "seal_file d1 = Some (seal_text env ?key (length es) h)"
    using inv k by (simp add: assms(6) audit_inv_def)
  have bad: "verifyChain env x d1 = Inr False" if "sealKey x = Some ?key" for x
    using readAll_ok [OF ok] ok seal that assms(4)
    by (simp add: verifyChain_def log_ok_def readSeal_def seal_text_parses seal_prop_def opt_val_def macEqual_def)
  obtain l1 d2 where o: "createFileAuditLog env keys (Some secret) d1 = Inr (l1, d2)"
    using open_total [OF ok, of "Some secret" keys] seal by blast
  have r: "readSeal d1 \<noteq> Inr JNull" using seal by (simp add: readSeal_def seal_text_parses)
  have l1: "lastHash l1 = VStr g" "log_count l1 = length (map entry_json (take n es))" "sealKey l1 = Some ?key" "d2 = d1"
    using open_ok [OF ok o] seal r key by auto
  obtain e l2 d2 where a: "appendLocked env inp uuid time (l1, d1) = (e, l2, d2)" by (metis prod.collapse)
  have inv2: "audit_inv env l2 d2 (map entry_json (take n es) @ [entry_json e]) (computeHash env (entry_base l1 inp uuid time))"
    using append_seals [OF ok l1(1,2) assms(5) a] unfolding entry_json_def by blast
  then have "log_ok env d2 (map entry_json (take n es) @ [entry_json e]) (computeHash env (entry_base l1 inp uuid time))"
    by (simp add: audit_inv_def)
  from readAll_ok [OF this] have "query None None None d2 = Inr (map entry_json (take n es) @ [entry_json e])"
    by (simp add: query_def)
  then show ?thesis using bad [OF k] bad [OF l1(3)] o l1(4) a verify_ok [OF inv2] by auto
qed

lemma undefined_lost:
  assumes "wf_val (VObj kvs)" "(k, VUndef) \<in> set kvs"
  shows "canon (VObj kvs) \<noteq> canon (js_val_of (plain_json (VObj kvs)))"
proof
  let ?kept = "map (\<lambda>(k, v). (k, js_val_of v)) (map (\<lambda>(k, v). (k, plain_json v)) (filter (\<lambda>(k, v). v \<noteq> VUndef) kvs))"
  assume eq: "canon (VObj kvs) = canon (js_val_of (plain_json (VObj kvs)))"
  have d: "distinct (map fst kvs)" using assms(1) by simp
  then have "map_of kvs k = Some VUndef" using assms(2) by (rule map_of_is_SomeI)
  then have l: "map_of (sort_key fst (map (\<lambda>(k, v). (k, canon v)) kvs)) k = Some JNull" by (simp add: canon_field [OF d])
  have "map fst ?kept = map fst (filter (\<lambda>(k, v). v \<noteq> VUndef) kvs)" by (simp only: map_fst_vals)
  moreover from this have "distinct (map fst ?kept)" using d by (simp add: distinct_map_filter del: map_map)
  moreover have "k \<notin> fst ` set (filter (\<lambda>(k, v). v \<noteq> VUndef) kvs)"
  proof
    assume "k \<in> fst ` set (filter (\<lambda>(k, v). v \<noteq> VUndef) kvs)"
    then obtain v where "(k, v) \<in> set kvs" "v \<noteq> VUndef" by auto
    then show False using d assms(2) eq_key_imp_eq_value by metis
  qed
  ultimately have "map_of (sort_key fst (map (\<lambda>(k, v). (k, canon v)) ?kept)) k = None"
    by (simp only: canon_field) (simp add: map_of_eq_None_iff image_image case_prod_beta')
  moreover have "sort_key fst (map (\<lambda>(k, v). (k, canon v)) kvs) = sort_key fst (map (\<lambda>(k, v). (k, canon v)) ?kept)"
    using eq by (simp only: canon.simps plain_json.simps js_val_of.simps json.inject)
  ultimately show False using l by simp
qed

text \<open>A detail with an undefined value is logged as an entry that does not verify: the hash covers the key with
  null, the line in the file leaves it out, so the chain is broken from then on.
\<close>

theorem audit_undefined_breaks:
  assumes "audit_life env secret keys ops = Inr (es, l, d)" "list_all op_ok ops"
    and "in_detail inp = Some kvs" "wf_val (VObj kvs)" "(k, VUndef) \<in> set kvs" "js_lower k \<notin> set (sensitive l)"
    and "appendLocked env inp uuid time (l, d) = (e, l', d')" "inj (sha256_hex env)"
  shows "verifyChain env l' d' = Inr False"
proof -
  let ?b = "entry_base l inp uuid time" and ?x = "computeHash env (entry_base l inp uuid time)"
  let ?D = "map (\<lambda>(key, val). (key, if js_lower key \<in> set (sensitive l) then VStr REDACTED else redactDeep (sensitive l) val)) kvs"
  obtain h where inv: "audit_inv env l d (map entry_json es) h" using life_inv [OF assms(1,2)] by blast
  then have lh: "lastHash l = VStr h" by (simp add: audit_inv_def)
  have b: "?b = [(''id'', VStr uuid), (''at'', VStr time), (''action'', VStr (in_action inp)),
      (''actorId'', opt_text (in_actorId inp)), (''detail'', VObj ?D), (''prevHash'', VStr h)]"
    using assms(3) lh by (simp add: entry_base_def)
  have e: "e = ?b @ [(''hash'', VStr ?x)]"
    and d': "log_file d' = Some (log_text (map entry_json es @ [plain_json (VObj e)]))"
    using assms(7) inv by (auto simp: appendLocked_def Let_def append_line_def log_line_def audit_inv_def log_ok_def simp del: plain_json.simps)
  have top: "plain_json (VObj e) = JObj (map (\<lambda>(k, v). (k, plain_json v)) ?b @ [(''hash'', JStr ?x)])"
    unfolding e b by (auto simp: opt_text_def split: option.splits)
  have wfD: "wf_val (VObj ?D)" using wf_redact [OF assms(4), of "sensitive l"] by simp
  then have wfb: "wf_val (VObj ?b)" unfolding b by (simp add: opt_text_def split: option.split)
  let ?r = "map (\<lambda>(k, v). (k, js_val_of v)) (map (\<lambda>(k, v). (k, plain_json v)) ?b)"
  have rb: "?r = map (\<lambda>(k, v). (k, js_val_of (plain_json v))) ?b" by (simp add: case_prod_beta' comp_def)
  have "list_all (\<lambda>(k, v). wf_val (js_val_of (plain_json v))) ?b"
    using wfb by (auto simp: list_all_iff intro!: wf_js_val_of wf_plain)
  then have wfr: "wf_val (VObj ?r)"
    using wfb unfolding rb by (auto simp: list_all_iff simp del: map_map)
  have "canon (VObj ?b) \<noteq> canon (VObj ?r)"
  proof
    assume "canon (VObj ?b) = canon (VObj ?r)"
    then have eq: "map_of (sort_key fst (map (\<lambda>(k, v). (k, canon v)) ?b)) ''detail''
        = map_of (sort_key fst (map (\<lambda>(k, v). (k, canon v)) ?r)) ''detail''"
      by (simp only: canon.simps json.inject)
    have "distinct (map fst ?b)" "distinct (map fst ?r)" using wfb wfr by (simp_all only: wf_val.simps)
    then have "canon (VObj ?D) = canon (js_val_of (plain_json (VObj ?D)))"
      using eq by (simp only: canon_field) (simp add: b)
    moreover have "(k, VUndef) \<in> set ?D" using assms(5,6) by force
    ultimately show False using undefined_lost [OF wfD] by blast
  qed
  then have differ: "computeHash env ?r \<noteq> ?x"
    using stable_inj [OF wfb wfr] injD [OF assms(8)] unfolding computeHash_def by metis
  have "filter (\<lambda>(k, v). k \<noteq> ''hash'') (map (\<lambda>(k, v). (k, plain_json v)) ?b @ [(''hash'', JStr ?x)]) = map (\<lambda>(k, v). (k, plain_json v)) ?b"
    by (simp add: b)
  moreover have "map_of (map (\<lambda>(k, v). (k, plain_json v)) ?b @ [(''hash'', JStr ?x)]) ''hash'' = Some (JStr ?x)" by (simp add: b)
  ultimately have "check_chain env h [plain_json (VObj e)] = Inr None"
    using differ unfolding top by (simp only: check_chain.simps js_prop_def json.case sum.case Let_def) (simp add: b)
  moreover have "wf_json (plain_json (VObj e))"
    using wfb unfolding e by (intro wf_plain) (simp add: b)
  ultimately have "check_chain env GENESIS (map entry_json es @ [plain_json (VObj e)]) = Inr None"
      "list_all wf_json (map entry_json es @ [plain_json (VObj e)])"
    using inv by (simp_all add: check_chain_append audit_inv_def log_ok_def del: check_chain.simps plain_json.simps)
  moreover from this(2) have "readAll d' = Inr (map entry_json es @ [plain_json (VObj e)])"
    by (simp only: readAll_def d' option.case parseLines_text)
  ultimately show ?thesis by (simp add: verifyChain_def del: plain_json.simps)
qed

section \<open>Redaction\<close>

text \<open>Some object entry under a sensitive key shows another value than the marker.\<close>

fun leaks :: "string list \<Rightarrow> json \<Rightarrow> bool" where
  "leaks sens (JArr vs) = list_ex (leaks sens) vs"
| "leaks sens (JObj kvs) = list_ex (\<lambda>(k, v). (js_lower k \<in> set sens \<and> v \<noteq> JStr REDACTED) \<or> leaks sens v) kvs"
| "leaks sens v = False"

lemma redact_clean: "\<not> leaks sens (plain_json (redactDeep sens v))"
proof (induction sens v rule: redactDeep.induct)
  case (1 sens vs)
  then show ?case by (simp add: list_ex_iff)
next
  case (2 sens kvs)
  then show ?case by (auto simp: list_ex_iff split: if_splits)
qed auto

text \<open>Whatever detail is appended, nested as it may be, the line that reaches the file shows under every
  sensitive key, in any case of its letters, only the marker.
\<close>

theorem audit_redacted:
  "case appendLocked env inp uuid time (l, d) of (e, l', d') \<Rightarrow>
     (\<exists>kvs detail. log_file d' = Some ((case log_file d of None \<Rightarrow> [] | Some raw \<Rightarrow> raw) @ log_line (JObj kvs)) \<and>
        map_of kvs ''detail'' = Some detail \<and> \<not> leaks (sensitive l) detail)"
proof -
  let ?D = "redactDeep (sensitive l) (VObj (case in_detail inp of None \<Rightarrow> [] | Some kvs \<Rightarrow> kvs))"
  have "?D \<noteq> VUndef" by simp
  then have "map_of (map (\<lambda>(k, v). (k, plain_json v)) (filter (\<lambda>(k, v). v \<noteq> VUndef)
      (entry_base l inp uuid time @ [(''hash'', VStr x)]))) ''detail'' = Some (plain_json ?D)" for x
    by (simp add: entry_base_def del: redactDeep.simps)
  note field = this
  let ?e = "entry_base l inp uuid time @ [(''hash'', VStr (computeHash env (entry_base l inp uuid time)))]"
  obtain kvs where kvs: "plain_json (VObj ?e) = JObj kvs" "map_of kvs ''detail'' = Some (plain_json ?D)"
    using field by (simp only: plain_json.simps json.inject)
  obtain l' d' where a: "appendLocked env inp uuid time (l, d) = (?e, l', d')"
    and f: "log_file d' = Some ((case log_file d of None \<Rightarrow> [] | Some raw \<Rightarrow> raw) @ log_line (JObj kvs))"
    by (simp add: appendLocked_def Let_def append_line_def log_line_def flip: kvs(1) del: plain_json.simps json_text.simps)
  show ?thesis unfolding a prod.case using f kvs(2) redact_clean by blast
qed

end
