(* ===== verification/Scheduler.thy ===== *)
theory Scheduler
  imports Services Json
begin

text \<open>
  The persisted job scheduler of \<open>packages/core/src/scheduler.ts\<close>.  The state is the jobs collection and
  the audit trail; it is extensible, because a handler may change whatever else its process shares.  A
  handler is a function of the payload and the state that tells the message it throws, if it does.
\<close>

section \<open>Jobs and state\<close>

datatype job_status = Pending | Running | Done | Failed

text \<open>\<open>runAt\<close> is null for a time that was not a number: JSON has no NaN.\<close>

record job_record =
  job_id :: string
  job_type :: string
  runAt :: "int option"
  payload :: json
  job_status :: job_status
  attempts :: nat
  job_createdAt :: string
  lastError :: "string option"

record sched_state =
  jobs :: "job_record coll"
  sched_audit :: "audit_event list"

type_synonym 'a job_handler = "json \<Rightarrow> 'a sched_state_scheme \<Rightarrow> string option \<times> 'a sched_state_scheme"

text \<open>The handlers registered by type, the attempts a job gets, and what \<open>audit.append\<close> throws, if anything.\<close>

record 'a sched_env =
  handlers :: "(string \<times> 'a job_handler) list"
  maxAttempts :: nat
  audit_throws :: "audit_event \<Rightarrow> string option"

section \<open>Operations\<close>

definition put_job :: "job_record \<Rightarrow> 'a sched_state_scheme \<Rightarrow> 'a sched_state_scheme" where
  "put_job j st = st\<lparr>jobs := tab_put (job_id j) j (jobs st)\<rparr>"

definition log_job :: "audit_event \<Rightarrow> 'a sched_state_scheme \<Rightarrow> 'a sched_state_scheme" where
  "log_job e st = st\<lparr>sched_audit := sched_audit st @ [e]\<rparr>"

definition register_handler :: "string \<Rightarrow> 'a job_handler \<Rightarrow> 'a sched_env \<Rightarrow> 'a sched_env" where
  "register_handler type h env = env\<lparr>handlers := obj_set type h (handlers env)\<rparr>"

definition loadPending :: "'a sched_state_scheme \<Rightarrow> job_record list option" where
  "loadPending st = read_pages (\<lambda>j. job_status j = Pending) (Some 500) (jobs st) None []"

text \<open>\<open>when\<close> is None for an absent \<open>runAt\<close>, \<open>Some None\<close> for NaN.\<close>

definition schedule ::
  "'a sched_env \<Rightarrow> string \<Rightarrow> int option option \<Rightarrow> json option \<Rightarrow> string \<Rightarrow> int \<Rightarrow> int \<Rightarrow>
   ('a sched_state_scheme, job_record) action" where
  "schedule env type when pl uuid now now' st =
     (let job = \<lparr>job_id = uuid, job_type = type, runAt = (case when of None \<Rightarrow> Some now | Some r \<Rightarrow> r),
            payload = (case pl of None \<Rightarrow> JNull | Some v \<Rightarrow> v), job_status = Pending, attempts = 0,
            job_createdAt = iso_string now', lastError = None\<rparr>;
          st = put_job job st;
          e = event ''job.schedule'' None
            [(''jobId'', DStr uuid), (''type'', DStr type), (''runAt'', case runAt job of None \<Rightarrow> DNull | Some r \<Rightarrow> DNum r)]
      in case audit_throws env e of Some m \<Rightarrow> (Inl (js_error m), st) | None \<Rightarrow> (Inr job, log_job e st))"

text \<open>null counts as 0 in a comparison and in a difference.\<close>

definition due_at :: "job_record \<Rightarrow> int" where
  "due_at j = (case runAt j of None \<Rightarrow> 0 | Some r \<Rightarrow> r)"

definition due_jobs :: "int \<Rightarrow> job_record list \<Rightarrow> job_record list" where
  "due_jobs t js = js_sort (\<lambda>a b. due_at a - due_at b) (filter (\<lambda>j. due_at j \<le> t) js)"

text \<open>The catch block: \<open>ran\<close> is what the try block has counted before it threw \<open>msg\<close>.\<close>

definition catch_job ::
  "'a sched_env \<Rightarrow> nat \<Rightarrow> job_record \<Rightarrow> string \<Rightarrow> ('a sched_state_scheme, nat \<times> nat) action" where
  "catch_job env ran_n job msg st =
     (let n = attempts job + 1;
          status = (if maxAttempts env \<le> n then Failed else Pending);
          job = job\<lparr>attempts := n, lastError := Some msg, job_status := status\<rparr>;
          st = put_job job st;
          e = event ''job.failed'' None
            [(''jobId'', DStr (job_id job)), (''type'', DStr (job_type job)), (''attempts'', DNum (int n))]
      in case audit_throws env e of Some m \<Rightarrow> (Inl (js_error m), st)
         | None \<Rightarrow> (Inr (ran_n, if status = Failed then 1 else 0), log_job e st))"

text \<open>The body of the loop of \<open>tick\<close> for a job that is still pending: what it adds to \<open>ran\<close> and \<open>failed\<close>.\<close>

definition run_job :: "'a sched_env \<Rightarrow> job_record \<Rightarrow> ('a sched_state_scheme, nat \<times> nat) action" where
  "run_job env job st =
     (let job = job\<lparr>job_status := Running\<rparr>; st = put_job job st in
      case map_of (handlers env) (job_type job) of
        None \<Rightarrow>
          (let job = job\<lparr>job_status := Failed, lastError := Some (''No handler for job type: '' @ job_type job)\<rparr>
           in (Inr (0, 1), put_job job st))
      | Some handler \<Rightarrow>
          (case handler (payload job) st of
             (Some msg, st) \<Rightarrow> catch_job env 0 job msg st
           | (None, st) \<Rightarrow>
               let job = job\<lparr>job_status := Done, lastError := None\<rparr>;
                   st = put_job job st;
                   e = event ''job.done'' None [(''jobId'', DStr (job_id job)), (''type'', DStr (job_type job))]
               in case audit_throws env e of Some m \<Rightarrow> catch_job env 1 job m st
                  | None \<Rightarrow> (Inr (1, 0), log_job e st)))"

fun run_due :: "'a sched_env \<Rightarrow> job_record list \<Rightarrow> nat \<times> nat \<Rightarrow> ('a sched_state_scheme, nat \<times> nat) action" where
  "run_due env [] rf st = (Inr rf, st)"
| "run_due env (queued # due) (ran_n, failed_n) st =
     (case c_get (job_id queued) (jobs st) of
        Inl e \<Rightarrow> (Inl e, st)
      | Inr None \<Rightarrow> run_due env due (ran_n, failed_n) st
      | Inr (Some job) \<Rightarrow>
          if job_status job \<noteq> Pending then run_due env due (ran_n, failed_n) st
          else (case run_job env job st of
              (Inl e, st) \<Rightarrow> (Inl e, st)
            | (Inr (r, f), st) \<Rightarrow> run_due env due (ran_n + r, failed_n + f) st))"

definition tick :: "'a sched_env \<Rightarrow> int \<Rightarrow> 'a sched_state_scheme \<Rightarrow> ((nat \<times> nat) result \<times> 'a sched_state_scheme) option" where
  "tick env t st =
     (case loadPending st of None \<Rightarrow> None | Some js \<Rightarrow> Some (run_due env (due_jobs t js) (0, 0) st))"

text \<open>The timer: one tick after the other, at the given times.\<close>

fun ticks :: "'a sched_env \<Rightarrow> int list \<Rightarrow> 'a sched_state_scheme \<Rightarrow> 'a sched_state_scheme option" where
  "ticks env [] st = Some st"
| "ticks env (t # ts) st = (case tick env t st of None \<Rightarrow> None | Some (r, st) \<Rightarrow> ticks env ts st)"

section \<open>What holds of the jobs\<close>

definition jobs_ok :: "'a sched_env \<Rightarrow> 'a sched_state_scheme \<Rightarrow> bool" where
  "jobs_ok env st \<longleftrightarrow> keyed job_id (jobs st) \<and> (\<forall>j \<in> vals (jobs st). is_ok (assertSegment (job_id j) ''id'')) \<and>
     (\<forall>j \<in> vals (jobs st). attempts j \<le> max 1 (maxAttempts env) \<and> (job_status j = Pending \<longrightarrow> attempts j < max 1 (maxAttempts env)))"

text \<open>
  The contract of the handlers: whatever else they do, the jobs that exist are left as they are; new ones may be added.
\<close>

locale job_handlers =
  fixes env :: "'a sched_env"
  assumes handler_ok: "map_of (handlers env) ty = Some h \<Longrightarrow> jobs_ok env st \<Longrightarrow> h p st = (r, st') \<Longrightarrow>
    jobs_ok env st' \<and> map_of (jobs st) \<subseteq>\<^sub>m map_of (jobs st')"
    and audit_ok: "audit_throws env e = None"

lemma distinct_js_sort: "distinct (map f (js_sort cmp xs)) = distinct (map f xs)"
  by (metis card_distinct distinct_card length_js_sort length_map list.set_map set_js_sort)

lemma loadPending_all:
  assumes "keyed job_id (jobs st)"
  shows "loadPending st = Some (map snd (filter (\<lambda>(k, j). job_status j = Pending) (jobs st)))"
  using read_pages_all [OF keyed_ok [OF assms]] by (simp add: loadPending_def matching_None)

lemma due_jobs_pending:
  assumes "keyed job_id (jobs st)" "loadPending st = Some js"
  shows "distinct (map job_id (due_jobs t js)) \<and>
    set (due_jobs t js) = {j \<in> vals (jobs st). job_status j = Pending \<and> due_at j \<le> t}"
proof -
  have js: "js = map snd (filter (\<lambda>(k, j). job_status j = Pending) (jobs st))"
    using assms(2) by (simp add: loadPending_all [OF assms(1)])
  have "map job_id (map snd (jobs st)) = map fst (jobs st)"
    using assms(1) by (auto simp: keyed_def)
  then have "distinct (map job_id (map snd (jobs st)))"
    using tab_ok_distinct [OF keyed_ok [OF assms(1)]] by metis
  then have "distinct (map job_id (filter Q (map snd (jobs st))))" for Q by (rule distinct_map_filter)
  moreover have "filter (\<lambda>j. due_at j \<le> t) js = filter (\<lambda>j. due_at j \<le> t \<and> job_status j = Pending) (map snd (jobs st))"
    by (simp add: js filter_map comp_def case_prod_beta' conj_commute)
  ultimately have "distinct (map job_id (due_jobs t js))" by (simp add: due_jobs_def distinct_js_sort)
  moreover have "set js = {j \<in> vals (jobs st). job_status j = Pending}"
    by (force simp: js vals_def)
  then have "set (due_jobs t js) = {j \<in> vals (jobs st). job_status j = Pending \<and> due_at j \<le> t}"
    by (auto simp: due_jobs_def)
  ultimately show ?thesis by blast
qed

text \<open>What one run does to its job: it is settled, or has used up one more attempt.\<close>

definition progressed :: "job_record \<Rightarrow> job_record \<Rightarrow> bool" where
  "progressed j j' \<longleftrightarrow> job_type j' = job_type j \<and> runAt j' = runAt j \<and> payload j' = payload j \<and>
     (job_status j' = Done \<or> job_status j' = Failed \<or> (job_status j' = Pending \<and> attempts j' = attempts j + 1))"

lemma put_job_ok:
  assumes "jobs_ok env st" "is_ok (assertSegment (job_id j) ''id'')"
    and "attempts j \<le> max 1 (maxAttempts env)" "job_status j = Pending \<Longrightarrow> attempts j < max 1 (maxAttempts env)"
  shows "jobs_ok env (put_job j st)"
  using assms by (auto simp: jobs_ok_def put_job_def values_put)

lemma jobs_log [simp]: "jobs (log_job e st) = jobs st" "jobs_ok env (log_job e st) = jobs_ok env st"
  by (simp_all add: log_job_def jobs_ok_def)

context job_handlers
begin

lemma catch_job_progress:
  assumes "jobs_ok env st" "is_ok (assertSegment (job_id j) ''id'')" "attempts j < max 1 (maxAttempts env)"
  shows "\<exists>r st' j'. catch_job env n j m st = (Inr r, st') \<and> jobs_ok env st' \<and> progressed j j' \<and>
    map_of (jobs st') = (map_of (jobs st))(job_id j \<mapsto> j')"
proof -
  let ?n = "attempts j + 1"
  let ?j = "j\<lparr>attempts := ?n, lastError := Some m, job_status := if maxAttempts env \<le> ?n then Failed else Pending\<rparr>"
  have "jobs_ok env (put_job ?j st)" using assms by (intro put_job_ok) (auto split: if_splits)
  moreover have "progressed j ?j" by (simp add: progressed_def)
  moreover have "map_of (jobs (put_job ?j st)) = (map_of (jobs st))(job_id j \<mapsto> ?j)" by (simp add: put_job_def)
  ultimately show ?thesis by (auto simp: catch_job_def Let_def audit_ok)
qed

lemma run_job_progress:
  assumes "jobs_ok env st" "map_of (jobs st) i = Some j" "job_status j = Pending"
  shows "\<exists>r st' j'. run_job env j st = (Inr r, st') \<and> jobs_ok env st' \<and> map_of (jobs st') i = Some j' \<and>
    progressed j j' \<and> (\<forall>k x. k \<noteq> i \<longrightarrow> map_of (jobs st) k = Some x \<longrightarrow> map_of (jobs st') k = Some x)"
proof -
  have k: "keyed job_id (jobs st)" using assms(1) by (simp add: jobs_ok_def)
  have i: "job_id j = i" using keyed_id [OF k assms(2)] .
  then have v: "j \<in> vals (jobs st)" using assms(2) keyed_value [OF k] by simp
  then have a: "attempts j < max 1 (maxAttempts env)" and s: "is_ok (assertSegment (job_id j) ''id'')"
    using assms(1,3) by (auto simp: jobs_ok_def)
  let ?j = "j\<lparr>job_status := Running\<rparr>" and ?st = "put_job (j\<lparr>job_status := Running\<rparr>) st"
  have ok: "jobs_ok env ?st" by (rule put_job_ok [OF assms(1)]) (use s a in auto)
  have row: "map_of (jobs ?st) = (map_of (jobs st))(i \<mapsto> ?j)" by (simp add: put_job_def i)
  show ?thesis
  proof (cases "map_of (handlers env) (job_type j)")
    case None
    let ?f = "?j\<lparr>job_status := Failed, lastError := Some (''No handler for job type: '' @ job_type j)\<rparr>"
    have "jobs_ok env (put_job ?f ?st)" by (rule put_job_ok [OF ok]) (use s a in auto)
    moreover have "map_of (jobs (put_job ?f ?st)) = (map_of (jobs st))(i \<mapsto> ?f)" by (simp add: put_job_def i)
    moreover have "progressed j ?f" by (simp add: progressed_def)
    ultimately show ?thesis using None by (simp add: run_job_def Let_def)
  next
    case (Some h)
    obtain m st1 where h: "h (payload j) ?st = (m, st1)" by force
    have st1: "jobs_ok env st1" "map_of (jobs ?st) \<subseteq>\<^sub>m map_of (jobs st1)" using handler_ok [OF Some ok h] by blast+
    have keep: "map_of (jobs st1) k = Some x" if "map_of (jobs ?st) k = Some x" for k x
      using st1(2) that by (metis domI map_le_def)
    have prog: "progressed j j'" if "progressed ?j j'" for j' using that by (simp add: progressed_def)
    show ?thesis
    proof (cases m)
      case (Some msg)
      obtain r st2 j' where "catch_job env 0 ?j msg st1 = (Inr r, st2)" "jobs_ok env st2" "progressed ?j j'"
          "map_of (jobs st2) = (map_of (jobs st1))(job_id ?j \<mapsto> j')"
        using catch_job_progress [OF st1(1), of ?j 0 msg] s a by auto
      then show ?thesis using \<open>map_of (handlers env) (job_type j) = Some h\<close> h Some prog keep row i
        by (auto simp: run_job_def Let_def)
    next
      case None
      let ?d = "?j\<lparr>job_status := Done, lastError := None\<rparr>"
      have "jobs_ok env (put_job ?d st1)" by (rule put_job_ok [OF st1(1)]) (use s a in auto)
      moreover have "map_of (jobs (put_job ?d st1)) = (map_of (jobs st1))(i \<mapsto> ?d)" by (simp add: put_job_def i)
      moreover have "progressed j ?d" by (simp add: progressed_def)
      ultimately show ?thesis using \<open>map_of (handlers env) (job_type j) = Some h\<close> h None keep row
        by (auto simp: run_job_def Let_def audit_ok)
    qed
  qed
qed

lemma run_due_progress:
  assumes "jobs_ok env st" "distinct (map job_id due)" "\<forall>q \<in> set due. is_ok (assertSegment (job_id q) ''id'')"
  shows "\<exists>r st'. run_due env due rf st = (Inr r, st') \<and> jobs_ok env st' \<and>
    (\<forall>i j. map_of (jobs st) i = Some j \<longrightarrow> (\<exists>j'. map_of (jobs st') i = Some j' \<and>
       (if i \<in> job_id ` set due \<and> job_status j = Pending then progressed j j' else j' = j)))"
  using assms
proof (induction due arbitrary: rf st)
  case (Cons q due)
  obtain n f' where rf: "rf = (n, f')" by force
  have k: "keyed job_id (jobs st)" using Cons.prems(1) by (simp add: jobs_ok_def)
  have d: "distinct (map job_id due)" "job_id q \<notin> job_id ` set due" using Cons.prems(2) by simp_all
  show ?case
  proof (cases "c_get (job_id q) (jobs st)")
    case (Inl e)
    then show ?thesis using Cons.prems(3) by (auto simp: c_get_def is_ok_def split: sum.splits)
  next
    case (Inr row)
    show ?thesis
    proof (cases "\<exists>j. row = Some j \<and> job_status j = Pending")
      case False
      then have "run_due env (q # due) rf st = run_due env due rf st"
        using Inr by (auto simp: rf split: option.split)
      note e = this
      have c: "(i \<in> job_id ` set (q # due) \<and> job_status j = Pending) = (i \<in> job_id ` set due \<and> job_status j = Pending)"
        if "map_of (jobs st) i = Some j" for i j
        using False Inr that by (auto simp: c_get_def split: sum.splits)
      have "\<forall>q \<in> set due. is_ok (assertSegment (job_id q) ''id'')" using Cons.prems(3) by simp
      from Cons.IH [OF Cons.prems(1) d(1) this, of rf] obtain r st' where
        r: "run_due env due rf st = (Inr r, st')" "jobs_ok env st'" and
        rows: "\<forall>i j. map_of (jobs st) i = Some j \<longrightarrow> (\<exists>j'. map_of (jobs st') i = Some j' \<and>
          (if i \<in> job_id ` set due \<and> job_status j = Pending then progressed j j' else j' = j))" by blast
      show ?thesis
        unfolding e
      proof (rule exI [of _ r], rule exI [of _ st'], intro conjI allI impI)
        show "run_due env due rf st = (Inr r, st')" by (rule r(1))
        show "jobs_ok env st'" by (rule r(2))
        fix i j assume m: "map_of (jobs st) i = Some j"
        show "\<exists>j'. map_of (jobs st') i = Some j' \<and>
          (if i \<in> job_id ` set (q # due) \<and> job_status j = Pending then progressed j j' else j' = j)"
          unfolding c [OF m] using rows m by blast
      qed
    next
      case True
      then obtain j where j: "row = Some j" "job_status j = Pending" by blast
      then have m: "map_of (jobs st) (job_id q) = Some j" using Inr by (auto simp: c_get_def split: sum.splits)
      obtain r f st1 j1 where st1: "run_job env j st = (Inr (r, f), st1)" "jobs_ok env st1" "map_of (jobs st1) (job_id q) = Some j1"
          "progressed j j1" "\<forall>k x. k \<noteq> job_id q \<longrightarrow> map_of (jobs st) k = Some x \<longrightarrow> map_of (jobs st1) k = Some x"
        using run_job_progress [OF Cons.prems(1) m j(2)] by auto
      then have e: "run_due env (q # due) rf st = run_due env due (n + r, f' + f) st1"
        using Inr j by (simp add: rf)
      obtain r2 st2 where st2: "run_due env (q # due) rf st = (Inr r2, st2)" "jobs_ok env st2"
        "\<forall>i j. map_of (jobs st1) i = Some j \<longrightarrow> (\<exists>j'. map_of (jobs st2) i = Some j' \<and>
           (if i \<in> job_id ` set due \<and> job_status j = Pending then progressed j j' else j' = j))"
      proof -
        have "\<forall>q \<in> set due. is_ok (assertSegment (job_id q) ''id'')" using Cons.prems(3) by simp
        from Cons.IH [OF st1(2) d(1) this, of "(n + r, f' + f)"] that show thesis unfolding e by blast
      qed
      have "\<exists>j'. map_of (jobs st2) i = Some j' \<and>
          (if i \<in> job_id ` set (q # due) \<and> job_status x = Pending then progressed x j' else j' = x)"
        if x: "map_of (jobs st) i = Some x" for i x
      proof (cases "i = job_id q")
        case True
        then have "x = j" using x m by simp
        then show ?thesis using st2(3) st1(3,4) d(2) j(2) True by fastforce
      next
        case False
        then show ?thesis using st2(3) st1(5) x by auto
      qed
      then show ?thesis using st2(1,2) by blast
    qed
  qed
qed simp

lemma tick_progress:
  assumes "jobs_ok env st"
  shows "\<exists>r st'. tick env t st = Some (Inr r, st') \<and> jobs_ok env st' \<and>
    (\<forall>i j. map_of (jobs st) i = Some j \<longrightarrow> (\<exists>j'. map_of (jobs st') i = Some j' \<and>
       (if job_status j = Pending \<and> due_at j \<le> t then progressed j j' else j' = j)))"
proof -
  have k: "keyed job_id (jobs st)" using assms by (simp add: jobs_ok_def)
  obtain js where js: "loadPending st = Some js" using loadPending_all [OF k] by blast
  note due = due_jobs_pending [OF k js, of t]
  have "\<forall>q \<in> set (due_jobs t js). is_ok (assertSegment (job_id q) ''id'')"
    using due assms by (auto simp: jobs_ok_def)
  from run_due_progress [OF assms conjunct1 [OF due] this, of "(0, 0)"] obtain r st' where
    r: "run_due env (due_jobs t js) (0, 0) st = (Inr r, st')" "jobs_ok env st'" and
    rows: "\<And>i j. map_of (jobs st) i = Some j \<Longrightarrow> \<exists>j'. map_of (jobs st') i = Some j' \<and>
      (if i \<in> job_id ` set (due_jobs t js) \<and> job_status j = Pending then progressed j j' else j' = j)" by blast
  have c: "(i \<in> job_id ` set (due_jobs t js) \<and> job_status j = Pending) = (job_status j = Pending \<and> due_at j \<le> t)"
    if "map_of (jobs st) i = Some j" for i j
  proof -
    have i: "job_id j = i" "j \<in> vals (jobs st)" using keyed_id [OF k that] keyed_value [OF k] that by auto
    have "x = j" if "x \<in> vals (jobs st)" "job_id x = i" for x
      using that keyed_value [OF k, of x] \<open>map_of (jobs st) i = Some j\<close> by simp
    then have "i \<in> job_id ` set (due_jobs t js) \<longleftrightarrow> j \<in> set (due_jobs t js)" using i due by blast
    then show ?thesis using i(2) due by blast
  qed
  have "\<exists>j'. map_of (jobs st') i = Some j' \<and> (if job_status j = Pending \<and> due_at j \<le> t then progressed j j' else j' = j)"
    if "map_of (jobs st) i = Some j" for i j
    using rows [OF that] unfolding c [OF that] .
  note all = this
  have "tick env t st = Some (Inr r, st')" using r(1) by (simp add: tick_def js)
  then show ?thesis using r(2) all by blast
qed

lemma ticks_settled:
  assumes "jobs_ok env st" "map_of (jobs st) i = Some j" "job_status j \<noteq> Pending"
  shows "\<exists>st'. ticks env ts st = Some st' \<and> jobs_ok env st' \<and> map_of (jobs st') i = Some j"
  using assms
proof (induction ts arbitrary: st)
  case (Cons t ts)
  obtain r st1 where st1: "tick env t st = Some (Inr r, st1)" "jobs_ok env st1" and
    rows: "\<forall>i j. map_of (jobs st) i = Some j \<longrightarrow> (\<exists>j'. map_of (jobs st1) i = Some j' \<and>
       (if job_status j = Pending \<and> due_at j \<le> t then progressed j j' else j' = j))"
    using tick_progress [OF Cons.prems(1), of t] by blast
  have "map_of (jobs st1) i = Some j" using rows [rule_format, OF Cons.prems(2)] Cons.prems(3) by simp
  with st1 show ?case using Cons.IH [of st1] assms(3) by simp
qed simp

lemma ticks_progress:
  assumes "jobs_ok env st" "map_of (jobs st) i = Some j" "\<forall>t \<in> set ts. due_at j \<le> t"
  shows "\<exists>st' j'. ticks env ts st = Some st' \<and> jobs_ok env st' \<and> map_of (jobs st') i = Some j' \<and>
    (job_status j' \<noteq> Pending \<or> attempts j' = attempts j + length ts)"
  using assms
proof (induction ts arbitrary: st j)
  case (Cons t ts)
  show ?case
  proof (cases "job_status j = Pending")
    case False
    then show ?thesis using ticks_settled [OF Cons.prems(1,2), of "t # ts"] by blast
  next
    case True
    obtain r st1 where t1: "tick env t st = Some (Inr r, st1)" "jobs_ok env st1" and
      rows: "\<forall>i j. map_of (jobs st) i = Some j \<longrightarrow> (\<exists>j'. map_of (jobs st1) i = Some j' \<and>
         (if job_status j = Pending \<and> due_at j \<le> t then progressed j j' else j' = j))"
      using tick_progress [OF Cons.prems(1), of t] by blast
    then obtain j1 where "map_of (jobs st1) i = Some j1" "progressed j j1"
      using rows [rule_format, OF Cons.prems(2)] True Cons.prems(3) by auto
    note st1 = t1 this
    have due: "due_at j1 = due_at j" using st1(4) by (simp add: progressed_def due_at_def)
    show ?thesis
    proof (cases "job_status j1 = Pending")
      case False
      then show ?thesis using ticks_settled [OF st1(2,3), of ts] st1(1) by auto
    next
      case True
      then have "attempts j1 = attempts j + 1" using st1(4) by (auto simp: progressed_def)
      then show ?thesis using Cons.IH [OF st1(2,3)] Cons.prems(3) st1(1) due by auto
    qed
  qed
qed simp

text \<open>A due job is settled after as many ticks as it has attempts.\<close>

lemma job_settles:
  assumes "jobs_ok env st" "map_of (jobs st) i = Some j" "\<forall>t \<in> set ts. due_at j \<le> t" "max 1 (maxAttempts env) \<le> length ts"
  shows "\<exists>st' j'. ticks env ts st = Some st' \<and> map_of (jobs st') i = Some j' \<and> job_status j' \<noteq> Pending"
proof -
  obtain st' j' where s: "ticks env ts st = Some st'" "jobs_ok env st'" "map_of (jobs st') i = Some j'"
      "job_status j' \<noteq> Pending \<or> attempts j' = attempts j + length ts"
    using ticks_progress [OF assms(1-3)] by blast
  have "j' \<in> vals (jobs st')" using s(2,3) keyed_value [of job_id "jobs st'" j'] keyed_id [of job_id "jobs st'" i j'] by (simp add: jobs_ok_def)
  then have "job_status j' = Pending \<longrightarrow> attempts j' < max 1 (maxAttempts env)" using s(2) by (auto simp: jobs_ok_def)
  then show ?thesis using s assms(4) by fastforce
qed

end

end
