(* ===== verification/Secrets.thy ===== *)
theory Secrets
  imports Services Json
begin

text \<open>
  The sealed secrets vault of \<open>packages/core/src/secrets.ts\<close>: secrets encrypted one by one under a
  master key in one file, each backend with its own copy in memory.  AES-256-GCM, scrypt and the random
  values are parameters; base64 and hex are defined here.  Texts stand for their UTF-8 bytes.
\<close>

section \<open>Base64 and hex\<close>

definition b64_char :: "nat \<Rightarrow> char" where
  "b64_char n =
     (if n < 26 then char_of (n + 65) else if n < 52 then char_of (n + 71)
      else if n < 62 then char_of (n - 4) else if n = 62 then CHR ''+'' else CHR ''/'')"

text \<open>The decoder also knows the two characters of the URL alphabet.\<close>

definition b64_val :: "char \<Rightarrow> nat option" where
  "b64_val c =
     (let n = (of_char c :: nat) in
      if 65 \<le> n \<and> n \<le> 90 then Some (n - 65)
      else if 97 \<le> n \<and> n \<le> 122 then Some (n - 71)
      else if 48 \<le> n \<and> n \<le> 57 then Some (n + 4)
      else if n = 43 \<or> n = 45 then Some 62
      else if n = 47 \<or> n = 95 then Some 63 else None)"

fun b64 :: "string \<Rightarrow> string" where
  "b64 [] = []"
| "b64 [x] = (let a = of_char x in [b64_char (a div 4), b64_char (a mod 4 * 16), CHR ''='', CHR ''=''])"
| "b64 [x, y] =
     (let a = of_char x; b = of_char y
      in [b64_char (a div 4), b64_char (a mod 4 * 16 + b div 16), b64_char (b mod 16 * 4), CHR ''=''])"
| "b64 (x # y # z # s) =
     (let a = of_char x; b = of_char y; c = of_char z
      in b64_char (a div 4) # b64_char (a mod 4 * 16 + b div 16) # b64_char (b mod 16 * 4 + c div 64) #
         b64_char (c mod 64) # b64 s)"

fun sextets :: "nat list \<Rightarrow> string" where
  "sextets (p # q # r # s # ns) =
     char_of (p * 4 + q div 16) # char_of (q mod 16 * 16 + r div 4) # char_of (r mod 4 * 64 + s) # sextets ns"
| "sextets [p, q, r] = [char_of (p * 4 + q div 16), char_of (q mod 16 * 16 + r div 4)]"
| "sextets [p, q] = [char_of (p * 4 + q div 16)]"
| "sextets _ = []"

text \<open>\<open>Buffer.from(s, "base64")\<close> stops at the padding and skips what is not of the alphabet.\<close>

definition unb64 :: "string \<Rightarrow> string" where
  "unb64 s = sextets (List.map_filter b64_val (takeWhile (\<lambda>c. c \<noteq> CHR ''='') s))"

lemma b64_val_char: "n < 64 \<Longrightarrow> b64_val (b64_char n) = Some n \<and> b64_char n \<noteq> CHR ''=''"
proof -
  assume n: "n < 64"
  have c: "b64_char n \<noteq> CHR ''=''" if "b64_val (b64_char n) = Some n"
    using that by (auto simp: b64_val_def)
  have "b64_val (b64_char n) = Some n"
    using n by (auto simp: b64_char_def b64_val_def Let_def)
  with c show ?thesis by blast
qed

lemma sextet_bounds:
  fixes a b :: nat
  assumes "a < 256" "b < 256"
  shows "a div 4 < 64" "a mod 4 * 16 < 64" "a mod 4 * 16 + b div 16 < 64"
    "a mod 16 * 4 < 64" "a mod 16 * 4 + b div 64 < 64" "a mod 64 < 64"
  using assms by auto

lemma unb64_step:
  assumes "p < 64" "q < 64" "r < 64" "s < 64"
  shows "unb64 (b64_char p # b64_char q # b64_char r # b64_char s # t) =
    char_of (p * 4 + q div 16) # char_of (q mod 16 * 16 + r div 4) # char_of (r mod 4 * 64 + s) # unb64 t"
  using assms b64_val_char by (simp add: unb64_def map_filter_simps)

lemma byte_parts:
  fixes a b c :: nat
  assumes "b < 256" "c < 256"
  shows "a div 4 * 4 + (a mod 4 * 16 + b div 16) div 16 = a"
    "(a mod 4 * 16 + b div 16) mod 16 * 16 + (b mod 16 * 4 + c div 64) div 4 = b"
    "(b mod 16 * 4 + c div 64) mod 4 * 64 + c mod 64 = c"
proof -
  have b: "b div 16 < 16" and c: "c div 64 < 4" using assms by auto
  then have "(a mod 4 * 16 + b div 16) div 16 = a mod 4" "(a mod 4 * 16 + b div 16) mod 16 = b div 16"
    "(b mod 16 * 4 + c div 64) div 4 = b mod 16" "(b mod 16 * 4 + c div 64) mod 4 = c div 64" by simp_all
  then show "a div 4 * 4 + (a mod 4 * 16 + b div 16) div 16 = a"
    "(a mod 4 * 16 + b div 16) mod 16 * 16 + (b mod 16 * 4 + c div 64) div 4 = b"
    "(b mod 16 * 4 + c div 64) mod 4 * 64 + c mod 64 = c" by simp_all
qed

lemma of_char_byte [simp]: "(of_char c :: nat) < 256"
  by (simp add: nat_of_char_less_256)

lemma base64_roundtrip [simp]: "unb64 (b64 s) = s"
proof (induction s rule: b64.induct)
  case (2 x)
  show ?case using b64_val_char sextet_bounds [OF of_char_byte [of x], of 0] byte_parts(1) [of 0 0 "of_char x"]
    by (simp add: unb64_def map_filter_simps Let_def)
next
  case (3 x y)
  show ?case using b64_val_char sextet_bounds [OF of_char_byte [of x] of_char_byte [of y]]
      sextet_bounds [OF of_char_byte [of y], of 0] byte_parts(1,2) [OF of_char_byte [of y], of 0 "of_char x"]
    by (simp add: unb64_def map_filter_simps Let_def)
next
  case (4 x y z s)
  show ?case using 4 sextet_bounds [OF of_char_byte [of x] of_char_byte [of y]]
      sextet_bounds [OF of_char_byte [of y] of_char_byte [of z]] sextet_bounds [OF of_char_byte [of z], of 0]
      byte_parts(1,2) [OF of_char_byte [of y] of_char_byte [of z], of "of_char x"]
      byte_parts(3) [OF of_char_byte [of y] of_char_byte [of z]]
    by (simp add: Let_def unb64_step)
qed (simp add: unb64_def map_filter_simps)

definition is_hex_digit :: "char \<Rightarrow> bool" where
  "is_hex_digit c = (hex_val c \<noteq> None)"

fun unhex :: "string \<Rightarrow> string" where
  "unhex (h # l # s) =
     (case (hex_val h, hex_val l) of (Some a, Some b) \<Rightarrow> char_of (16 * a + b) # unhex s | _ \<Rightarrow> [])"
| "unhex _ = []"

section \<open>Vault and backend\<close>

text \<open>
  \<open>gcm_seal key iv plaintext\<close> gives the ciphertext and the tag, \<open>gcm_open key iv ct tag\<close> the plaintext if the
  tag authenticates; \<open>scrypt pass salt N maxmem\<close> gives 32 bytes, or nothing when Node refuses the parameters.
\<close>

record crypto_env =
  gcm_seal :: "string \<Rightarrow> string \<Rightarrow> string \<Rightarrow> string \<times> string"
  gcm_open :: "string \<Rightarrow> string \<Rightarrow> string \<Rightarrow> string \<Rightarrow> string option"
  scrypt :: "string \<Rightarrow> string \<Rightarrow> int \<Rightarrow> int option \<Rightarrow> string option"

definition MASTER_KEY_BYTES :: nat where "MASTER_KEY_BYTES = 32"
definition LEGACY_MASTER_KEY_SALT :: string where "LEGACY_MASTER_KEY_SALT = ''pressh.secrets.v1''"
definition KDF_VERSION :: int where "KDF_VERSION = 2"
definition KDF_N :: int where "KDF_N = 65536"
definition KDF_MAXMEM :: int where "KDF_MAXMEM = 192 * 1024 * 1024"

record kdf_params =
  kdf_v :: int
  kdf_salt :: string
  kdf_n :: int

record secret_record =
  sr_iv :: string
  sr_ct :: string
  sr_tag :: string
  sr_scope :: "string option"

record vault_file =
  vault_version :: int
  vault_kdf :: "kdf_params option"
  vault_secrets :: "(string \<times> secret_record) list"

text \<open>What is at the path: nothing, a file that cannot be read or parsed, an object without secrets, or a vault.\<close>

datatype vault_disk = NoVault | UnreadableVault | MalformedVault | VaultText vault_file

text \<open>A backend, with the file as its writes leave it.\<close>

record secrets_backend =
  sb_key :: string
  sb_vault :: vault_file
  sb_disk :: vault_disk

definition newKdfParams :: "string \<Rightarrow> kdf_params" where
  "newKdfParams salt = \<lparr>kdf_v = KDF_VERSION, kdf_salt = b64 salt, kdf_n = KDF_N\<rparr>"

definition deriveKey :: "crypto_env \<Rightarrow> string \<Rightarrow> kdf_params \<Rightarrow> string result" where
  "deriveKey env passphrase params =
     (case scrypt env passphrase (unb64 (kdf_salt params)) (kdf_n params) (Some KDF_MAXMEM) of
        None \<Rightarrow> Inl (js_error ''scrypt'') | Some k \<Rightarrow> Inr k)"

definition deriveMasterKey :: "crypto_env \<Rightarrow> string \<Rightarrow> string \<Rightarrow> string result" where
  "deriveMasterKey env passphrase salt =
     (case scrypt env passphrase salt 16384 None of None \<Rightarrow> Inl (js_error ''scrypt'') | Some k \<Rightarrow> Inr k)"

definition readVaultKdf :: "vault_disk \<Rightarrow> kdf_params option" where
  "readVaultKdf disk = (case disk of VaultText v \<Rightarrow> vault_kdf v | _ \<Rightarrow> None)"

definition vault_encrypt :: "crypto_env \<Rightarrow> string \<Rightarrow> string \<Rightarrow> string \<Rightarrow> string option \<Rightarrow> secret_record" where
  "vault_encrypt env key iv plaintext scope =
     (case gcm_seal env key iv plaintext of (ct, tag) \<Rightarrow>
        \<lparr>sr_iv = b64 iv, sr_ct = b64 ct, sr_tag = b64 tag, sr_scope = scope\<rparr>)"

definition unseal_error :: press_error where
  "unseal_error = PressError Unauthorized ''Secret decryption failed - wrong master key or tampered vault''"

definition vault_decrypt :: "crypto_env \<Rightarrow> string \<Rightarrow> secret_record \<Rightarrow> string result" where
  "vault_decrypt env key r =
     (case gcm_open env key (unb64 (sr_iv r)) (unb64 (sr_ct r)) (unb64 (sr_tag r)) of
        None \<Rightarrow> Inl unseal_error
      | Some p \<Rightarrow> Inr p)"

definition persistVault :: "secrets_backend \<Rightarrow> secrets_backend" where
  "persistVault b = b\<lparr>sb_disk := VaultText (sb_vault b)\<rparr>"

definition setSecret :: "crypto_env \<Rightarrow> string \<Rightarrow> string \<Rightarrow> string \<Rightarrow> string option \<Rightarrow> secrets_backend \<Rightarrow> secrets_backend" where
  "setSecret env iv name value scope b =
     persistVault (b\<lparr>sb_vault := (sb_vault b)\<lparr>vault_secrets :=
       obj_set name (vault_encrypt env (sb_key b) iv value scope) (vault_secrets (sb_vault b))\<rparr>\<rparr>)"

definition getSecret :: "crypto_env \<Rightarrow> string \<Rightarrow> secrets_backend \<Rightarrow> string result" where
  "getSecret env name b =
     (case map_of (vault_secrets (sb_vault b)) name of
        None \<Rightarrow> Inl (PressError Not_found (''Secret not found: '' @ name))
      | Some r \<Rightarrow> vault_decrypt env (sb_key b) r)"

definition hasSecret :: "string \<Rightarrow> secrets_backend \<Rightarrow> bool" where
  "hasSecret name b \<longleftrightarrow> name \<in> fst ` set (vault_secrets (sb_vault b))"

definition deleteSecret :: "string \<Rightarrow> secrets_backend \<Rightarrow> secrets_backend" where
  "deleteSecret name b =
     persistVault (b\<lparr>sb_vault := (sb_vault b)\<lparr>vault_secrets := filter (\<lambda>(n, _). n \<noteq> name) (vault_secrets (sb_vault b))\<rparr>\<rparr>)"

definition listNames :: "secrets_backend \<Rightarrow> string list" where
  "listNames b = map fst (vault_secrets (sb_vault b))"

text \<open>The loop of \<open>rotate\<close> and of the migration; each record takes the next random value.\<close>

fun reencrypt ::
  "crypto_env \<Rightarrow> string \<Rightarrow> string \<Rightarrow> (nat \<Rightarrow> string) \<Rightarrow> nat \<Rightarrow> (string \<times> secret_record) list \<Rightarrow>
   (string \<times> secret_record) list result" where
  "reencrypt env old new ivs i [] = Inr []"
| "reencrypt env old new ivs i ((name, r) # rs) =
     (case vault_decrypt env old r of Inl e \<Rightarrow> Inl e
      | Inr plain \<Rightarrow>
          (case reencrypt env old new ivs (Suc i) rs of Inl e \<Rightarrow> Inl e
           | Inr next \<Rightarrow> Inr ((name, vault_encrypt env new (ivs i) plain (sr_scope r)) # next)))"

definition key_error :: press_error where
  "key_error = PressError Validation (''Master key must be '' @ nat_digits MASTER_KEY_BYTES @ '' bytes'')"

definition rotate_key :: "crypto_env \<Rightarrow> (nat \<Rightarrow> string) \<Rightarrow> string \<Rightarrow> (secrets_backend, unit) action" where
  "rotate_key env ivs newKey b =
     (if length newKey \<noteq> MASTER_KEY_BYTES then (Inl key_error, b)
      else case reencrypt env (sb_key b) newKey ivs 0 (vault_secrets (sb_vault b)) of Inl e \<Rightarrow> (Inl e, b)
        | Inr next \<Rightarrow> (Inr (), persistVault (b\<lparr>sb_vault := (sb_vault b)\<lparr>vault_secrets := next\<rparr>, sb_key := newKey\<rparr>)))"

definition createFileSecretsBackend ::
  "crypto_env \<Rightarrow> (nat \<Rightarrow> string) \<Rightarrow> string \<Rightarrow> string option \<Rightarrow> kdf_params option \<Rightarrow> vault_disk \<Rightarrow> secrets_backend result" where
  "createFileSecretsBackend env ivs key migrateFrom kdf disk =
     (if length key \<noteq> MASTER_KEY_BYTES then Inl key_error
      else case (case disk of NoVault \<Rightarrow> Inr \<lparr>vault_version = 1, vault_kdf = None, vault_secrets = []\<rparr>
          | UnreadableVault \<Rightarrow> Inl (PressError Internal ''Failed to read vault file'')
          | MalformedVault \<Rightarrow> Inl (PressError Internal ''Vault file is malformed'')
          | VaultText v \<Rightarrow> Inr v) of
        Inl e \<Rightarrow> Inl e
      | Inr vault \<Rightarrow>
          (case kdf of
             Some k \<Rightarrow>
               if vault_kdf vault = None
               then (case (case migrateFrom of
                         Some old \<Rightarrow> if vault_secrets vault \<noteq> [] then reencrypt env old key ivs 0 (vault_secrets vault)
                                    else Inr (vault_secrets vault)
                       | None \<Rightarrow> Inr (vault_secrets vault)) of
                     Inl e \<Rightarrow> Inl e
                   | Inr secrets \<Rightarrow>
                       Inr (persistVault \<lparr>sb_key = key, sb_vault = vault\<lparr>vault_secrets := secrets, vault_kdf := Some k\<rparr>,
                          sb_disk = disk\<rparr>))
               else Inr \<lparr>sb_key = key, sb_vault = vault, sb_disk = disk\<rparr>
           | None \<Rightarrow> Inr \<lparr>sb_key = key, sb_vault = vault, sb_disk = disk\<rparr>))"

definition openSecretsVault ::
  "crypto_env \<Rightarrow> string \<Rightarrow> (nat \<Rightarrow> string) \<Rightarrow> string option \<Rightarrow> vault_disk \<Rightarrow> secrets_backend option result" where
  "openSecretsVault env salt ivs secret disk =
     (case secret of None \<Rightarrow> Inr None
      | Some raw \<Rightarrow>
          (let value = js_trim raw in
           if value = [] then Inr None
           else if length value = 64 \<and> list_all is_hex_digit value
           then map_sum id Some (createFileSecretsBackend env ivs (unhex value) None None disk)
           else if length (unb64 value) = MASTER_KEY_BYTES
           then map_sum id Some (createFileSecretsBackend env ivs (unb64 value) None None disk)
           else (case readVaultKdf disk of
               Some existing \<Rightarrow>
                 (case deriveKey env value existing of Inl e \<Rightarrow> Inl e
                  | Inr key \<Rightarrow> map_sum id Some (createFileSecretsBackend env ivs key None None disk))
             | None \<Rightarrow>
                 (let kdf = newKdfParams salt in
                  case deriveKey env value kdf of Inl e \<Rightarrow> Inl e
                  | Inr key \<Rightarrow>
                    (case deriveMasterKey env value LEGACY_MASTER_KEY_SALT of Inl e \<Rightarrow> Inl e
                     | Inr legacyKey \<Rightarrow>
                         map_sum id Some (createFileSecretsBackend env ivs key (Some legacyKey) (Some kdf) disk))))))"

section \<open>What the vault promises\<close>

text \<open>The documented behaviour of AES-256-GCM: a key opens what it sealed, and nothing sealed under another key.\<close>

definition gcm_ok :: "crypto_env \<Rightarrow> bool" where
  "gcm_ok env \<longleftrightarrow> (\<forall>k k' iv p. case gcm_seal env k iv p of (ct, tag) \<Rightarrow>
     gcm_open env k' iv ct tag = (if k' = k then Some p else None))"

lemma decrypt_encrypt:
  "gcm_ok env \<Longrightarrow> vault_decrypt env k' (vault_encrypt env k iv p sc) =
     (if k' = k then Inr p else Inl unseal_error)"
proof -
  assume "gcm_ok env"
  then have "case gcm_seal env k iv p of (ct, tag) \<Rightarrow> gcm_open env k' iv ct tag = (if k' = k then Some p else None)"
    by (simp only: gcm_ok_def)
  then show ?thesis by (cases "gcm_seal env k iv p") (simp add: vault_decrypt_def vault_encrypt_def)
qed

text \<open>The secrets of a backend as a map, and the invariant: every record was sealed under its key.\<close>

definition sealed_under :: "crypto_env \<Rightarrow> string \<Rightarrow> (string \<times> secret_record) list \<Rightarrow> bool" where
  "sealed_under env key rs \<longleftrightarrow> distinct (map fst rs) \<and>
     (\<forall>(n, r) \<in> set rs. \<exists>iv p sc. r = vault_encrypt env key iv p sc)"

definition plain :: "crypto_env \<Rightarrow> string \<Rightarrow> (string \<times> secret_record) list \<Rightarrow> string \<Rightarrow> string option" where
  "plain env key rs n = (case map_of rs n of None \<Rightarrow> None
     | Some r \<Rightarrow> (case vault_decrypt env key r of Inl _ \<Rightarrow> None | Inr p \<Rightarrow> Some p))"

lemma sealed_set:
  "sealed_under env k rs \<Longrightarrow> sealed_under env k (obj_set n (vault_encrypt env k iv p sc) rs)"
proof -
  let ?r = "vault_encrypt env k iv p sc"
  have s: "set (obj_set n ?r rs) \<subseteq> insert (n, ?r) (set rs)" by (induction rs) (auto split: if_splits)
  assume a: "sealed_under env k rs"
  have "\<exists>iv p sc. snd x = vault_encrypt env k iv p sc" if "x \<in> set (obj_set n ?r rs)" for x
  proof (cases "x = (n, ?r)")
    case True
    then have "snd x = ?r" by simp
    then show ?thesis by blast
  next
    case False
    then have "x \<in> set rs" using subsetD [OF s that] by blast
    then show ?thesis using a unfolding sealed_under_def case_prod_beta by blast
  qed
  then show "sealed_under env k (obj_set n ?r rs)"
    using a distinct_obj_set [of rs n ?r] unfolding sealed_under_def case_prod_beta by blast
qed

lemma plain_set:
  "gcm_ok env \<Longrightarrow> plain env k (obj_set n (vault_encrypt env k iv p sc) rs) = (plain env k rs)(n \<mapsto> p)"
  by (auto simp: plain_def map_of_obj_set decrypt_encrypt fun_eq_iff)

lemma sealed_del: "sealed_under env k rs \<Longrightarrow> sealed_under env k (filter (\<lambda>(m, _). m \<noteq> n) rs)"
  by (auto simp: sealed_under_def distinct_map_filter)

lemma plain_del: "plain env k (filter (\<lambda>(m, _). m \<noteq> n) rs) = (plain env k rs)(n := None)"
proof -
  have "map_of (filter (\<lambda>(m, _). m \<noteq> n) rs) = (map_of rs)(n := None)" by (induction rs) (auto simp: fun_eq_iff)
  then show ?thesis by (auto simp: plain_def fun_eq_iff)
qed

lemma sealed_decrypts:
  assumes "gcm_ok env" "sealed_under env k rs" "map_of rs n = Some r"
  shows "vault_decrypt env k r = Inr (the (plain env k rs n)) \<and> plain env k rs n \<noteq> None"
proof -
  obtain iv p sc where "r = vault_encrypt env k iv p sc"
    using assms(2) map_of_SomeD [OF assms(3)] unfolding sealed_under_def by fast
  then have "vault_decrypt env k r = Inr p" by (simp add: decrypt_encrypt assms(1))
  then show ?thesis using assms(3) by (simp add: plain_def)
qed

lemma reencrypt_ok:
  assumes "gcm_ok env" "sealed_under env k rs"
  shows "\<exists>rs'. reencrypt env k k' ivs i rs = Inr rs' \<and> sealed_under env k' rs' \<and> plain env k' rs' = plain env k rs \<and>
    map fst rs' = map fst rs"
  using assms(2)
proof (induction rs arbitrary: i)
  case (Cons nr rs)
  obtain n r where nr: "nr = (n, r)" by force
  obtain iv p sc where r: "r = vault_encrypt env k iv p sc" using Cons.prems unfolding sealed_under_def nr by auto
  have "sealed_under env k rs" using Cons.prems by (simp add: sealed_under_def)
  from Cons.IH [OF this, of "Suc i"] obtain rs' where
    rs': "reencrypt env k k' ivs (Suc i) rs = Inr rs'" "sealed_under env k' rs'" "plain env k' rs' = plain env k rs"
      "map fst rs' = map fst rs" by blast
  let ?r = "vault_encrypt env k' (ivs i) p (sr_scope r)"
  have "reencrypt env k k' ivs i (nr # rs) = Inr ((n, ?r) # rs')"
    using rs'(1) by (simp add: nr r decrypt_encrypt assms(1))
  moreover have "sealed_under env k' ((n, ?r) # rs')"
  proof -
    have "n \<notin> set (map fst rs')" using Cons.prems unfolding rs'(4) sealed_under_def nr by simp
    then show ?thesis using rs'(2) unfolding sealed_under_def by auto
  qed
  moreover have "plain env k' ((n, ?r) # rs') = plain env k (nr # rs)"
  proof
    fix m
    have "plain env k' rs' m = plain env k rs m" using rs'(3) by simp
    then show "plain env k' ((n, ?r) # rs') m = plain env k (nr # rs) m"
      by (simp add: plain_def nr r decrypt_encrypt assms(1))
  qed
  ultimately show ?case using rs'(4) by (auto simp: nr)
qed (auto simp: sealed_under_def plain_def fun_eq_iff)

lemma reencrypt_wrong:
  assumes "gcm_ok env" "sealed_under env k rs" "k' \<noteq> k" "rs \<noteq> []"
  shows "reencrypt env k' new ivs i rs = Inl unseal_error"
proof -
  obtain n r rs' where rs: "rs = (n, r) # rs'" using assms(4) by (cases rs) auto
  then obtain iv p sc where "r = vault_encrypt env k iv p sc" using assms(2) unfolding sealed_under_def by auto
  then show ?thesis using assms(1,3) by (simp add: rs decrypt_encrypt)
qed

definition backend_ok :: "crypto_env \<Rightarrow> secrets_backend \<Rightarrow> bool" where
  "backend_ok env b \<longleftrightarrow> length (sb_key b) = MASTER_KEY_BYTES \<and>
     sealed_under env (sb_key b) (vault_secrets (sb_vault b)) \<and>
     (sb_disk b = VaultText (sb_vault b) \<or> (sb_disk b = NoVault \<and> vault_secrets (sb_vault b) = []))"

text \<open>The operations of a life of the vault; a restart opens the file again under the key of the moment.\<close>

datatype vault_op =
    VSet string string string "string option"
  | VDelete string
  | VRotate "nat \<Rightarrow> string" string
  | VRestart

fun vault_step :: "crypto_env \<Rightarrow> vault_op \<Rightarrow> secrets_backend \<Rightarrow> secrets_backend" where
  "vault_step env (VSet iv n v sc) b = setSecret env iv n v sc b"
| "vault_step env (VDelete n) b = deleteSecret n b"
| "vault_step env (VRotate ivs k) b = snd (rotate_key env ivs k b)"
| "vault_step env VRestart b =
     (case createFileSecretsBackend env (\<lambda>_. []) (sb_key b) None None (sb_disk b) of Inl e \<Rightarrow> b | Inr b' \<Rightarrow> b')"

text \<open>The specification: a map from names to plaintexts, which rotation and restart do not touch.\<close>

fun vault_spec_step :: "vault_op \<Rightarrow> (string \<rightharpoonup> string) \<Rightarrow> string \<rightharpoonup> string" where
  "vault_spec_step (VSet iv n v sc) m = m(n \<mapsto> v)"
| "vault_spec_step (VDelete n) m = m(n := None)"
| "vault_spec_step (VRotate ivs k) m = m"
| "vault_spec_step VRestart m = m"

abbreviation backend_map :: "crypto_env \<Rightarrow> secrets_backend \<Rightarrow> string \<Rightarrow> string option" where
  "backend_map env b \<equiv> plain env (sb_key b) (vault_secrets (sb_vault b))"

lemma vault_step_refines:
  assumes "gcm_ok env" "backend_ok env b"
  shows "backend_ok env (vault_step env op b) \<and> backend_map env (vault_step env op b) = vault_spec_step op (backend_map env b)"
proof (cases op)
  case (VSet iv n v sc)
  then show ?thesis using assms sealed_set
    by (simp add: setSecret_def persistVault_def backend_ok_def plain_set)
next
  case (VDelete n)
  then show ?thesis using assms sealed_del
    by (simp add: deleteSecret_def persistVault_def backend_ok_def plain_del)
next
  case (VRotate ivs k)
  obtain rs where "reencrypt env (sb_key b) k ivs 0 (vault_secrets (sb_vault b)) = Inr rs" "sealed_under env k rs"
      "plain env k rs = backend_map env b"
    using reencrypt_ok [OF assms(1), of "sb_key b" "vault_secrets (sb_vault b)" k ivs 0] assms(2)
    by (auto simp: backend_ok_def)
  then show ?thesis using assms(2) VRotate
    by (auto simp: rotate_key_def persistVault_def backend_ok_def)
next
  case VRestart
  show ?thesis
  proof (cases "sb_disk b = NoVault")
    case True
    then have "vault_step env op b = \<lparr>sb_key = sb_key b, sb_vault = \<lparr>vault_version = 1, vault_kdf = None, vault_secrets = []\<rparr>,
        sb_disk = NoVault\<rparr>" "vault_secrets (sb_vault b) = []"
      using assms(2) VRestart by (simp_all add: createFileSecretsBackend_def backend_ok_def)
    then show ?thesis using assms(2) VRestart by (simp add: backend_ok_def sealed_under_def)
  next
    case False
    then have d: "sb_disk b = VaultText (sb_vault b)" "length (sb_key b) = MASTER_KEY_BYTES"
      using assms(2) by (auto simp: backend_ok_def)
    then have "vault_step env op b = b" by (simp add: createFileSecretsBackend_def VRestart)
    then show ?thesis using assms(2) VRestart by simp
  qed
qed

definition vault_run :: "crypto_env \<Rightarrow> vault_op list \<Rightarrow> secrets_backend \<Rightarrow> secrets_backend" where
  "vault_run env ops b = foldl (\<lambda>b op. vault_step env op b) b ops"

lemma vault_run_refines:
  assumes "gcm_ok env"
  shows "backend_ok env b \<Longrightarrow> backend_ok env (vault_run env ops b) \<and>
    backend_map env (vault_run env ops b) = foldl (\<lambda>m op. vault_spec_step op m) (backend_map env b) ops"
proof (induction ops arbitrary: b)
  case (Cons op ops)
  then show ?case using vault_step_refines [OF assms Cons.prems, of op] by (simp add: vault_run_def)
qed (simp add: vault_run_def)

section \<open>Properties\<close>

definition fresh_backend :: "string \<Rightarrow> secrets_backend" where
  "fresh_backend key =
     \<lparr>sb_key = key, sb_vault = \<lparr>vault_version = 1, vault_kdf = None, vault_secrets = []\<rparr>, sb_disk = NoVault\<rparr>"

lemma fresh_ok: "length key = MASTER_KEY_BYTES \<Longrightarrow> backend_ok env (fresh_backend key)"
  by (simp add: backend_ok_def sealed_under_def fresh_backend_def)

lemma create_fresh:
  "length key = MASTER_KEY_BYTES \<Longrightarrow> createFileSecretsBackend env ivs key None None NoVault = Inr (fresh_backend key)"
  by (simp add: createFileSecretsBackend_def fresh_backend_def)

lemma setSecret_ok: "gcm_ok env \<Longrightarrow> backend_ok env b \<Longrightarrow> backend_ok env (setSecret env iv n v sc b)"
  using vault_step_refines [of env b "VSet iv n v sc"] unfolding vault_step.simps by blast

lemma setSecret_simps [simp]:
  "sb_key (setSecret env iv n v sc b) = sb_key b"
  "sb_disk (setSecret env iv n v sc b) = VaultText (sb_vault (setSecret env iv n v sc b))"
  "hasSecret m (setSecret env iv n v sc b) \<longleftrightarrow> m = n \<or> hasSecret m b"
  by (simp_all add: setSecret_def persistVault_def hasSecret_def keys_obj_set)

lemma hasSecret_nonempty: "hasSecret n b \<Longrightarrow> vault_secrets (sb_vault b) \<noteq> []"
  by (auto simp: hasSecret_def)

lemma fresh_simps [simp]: "sb_key (fresh_backend k) = k" "\<not> hasSecret n (fresh_backend k)"
  by (simp_all add: fresh_backend_def hasSecret_def)

text \<open>A cipher that is simple enough to compute with.\<close>

definition toy_key :: "char \<Rightarrow> string" where "toy_key c = replicate 32 c"

lemma toy_key_length [simp]: "length (toy_key c) = MASTER_KEY_BYTES"
  by (simp add: toy_key_def MASTER_KEY_BYTES_def)

definition toy_crypto :: crypto_env where
  "toy_crypto = \<lparr>gcm_seal = \<lambda>k iv p. (p, k), gcm_open = \<lambda>k iv ct tag. if tag = k then Some ct else None,
     scrypt = \<lambda>pass salt n m. Some (toy_key (case m of None \<Rightarrow> CHR ''l'' | Some _ \<Rightarrow> CHR ''n''))\<rparr>"

lemma toy_gcm [simp]: "gcm_ok toy_crypto"
  by (auto simp: gcm_ok_def toy_crypto_def)

text \<open>C11: A vault is a map from names to plaintexts. From a fresh file, after any sequence of writes, deletions, key
  rotations and restarts, a read returns exactly what the same sequence does on a plain map (not_found for a name it does
  not hold), and the names listed are those of the map.\<close>

theorem vault_is_map:
  assumes "gcm_ok env" "createFileSecretsBackend env ivs key None None NoVault = Inr b0"
  shows "let b = vault_run env ops b0; m = foldl (\<lambda>m op. vault_spec_step op m) Map.empty ops in
    getSecret env n b = (case m n of None \<Rightarrow> Inl (PressError Not_found (''Secret not found: '' @ n)) | Some v \<Rightarrow> Inr v) \<and>
    hasSecret n b = (m n \<noteq> None) \<and> set (listNames b) = dom m \<and> distinct (listNames b)"
proof -
  let ?b = "vault_run env ops b0" and ?m = "foldl (\<lambda>m op. vault_spec_step op m) Map.empty ops"
  have l: "length key = MASTER_KEY_BYTES" using assms(2) by (auto simp: createFileSecretsBackend_def split: if_splits)
  then have b0: "b0 = fresh_backend key" using assms(2) create_fresh by (metis Inr_inject)
  have ok: "backend_ok env b0" "backend_map env b0 = Map.empty"
    using fresh_ok [OF l] by (simp_all add: b0 fresh_backend_def plain_def fun_eq_iff)
  have r: "backend_ok env ?b" "backend_map env ?b = ?m" using vault_run_refines [OF assms(1) ok(1)] ok(2) by auto
  then have s: "sealed_under env (sb_key ?b) (vault_secrets (sb_vault ?b))" by (simp add: backend_ok_def)
  have dom: "?m i \<noteq> None \<longleftrightarrow> map_of (vault_secrets (sb_vault ?b)) i \<noteq> None" for i
  proof (cases "map_of (vault_secrets (sb_vault ?b)) i")
    case None
    then show ?thesis unfolding r(2) [symmetric] plain_def by simp
  next
    case (Some x)
    then show ?thesis using sealed_decrypts [OF assms(1) s Some] unfolding r(2) [symmetric] by simp
  qed
  have "getSecret env n ?b = (case ?m n of None \<Rightarrow> Inl (PressError Not_found (''Secret not found: '' @ n)) | Some v \<Rightarrow> Inr v)"
  proof (cases "map_of (vault_secrets (sb_vault ?b)) n")
    case None
    then have "?m n = None" using dom by blast
    then show ?thesis using None by (simp add: getSecret_def)
  next
    case (Some x)
    then obtain v where v: "?m n = Some v" using dom by blast
    then have "plain env (sb_key ?b) (vault_secrets (sb_vault ?b)) n = Some v" using r(2) by simp
    then show ?thesis using sealed_decrypts [OF assms(1) s Some] Some v by (simp add: getSecret_def)
  qed
  moreover have "hasSecret n ?b = (?m n \<noteq> None)" using dom [of n] by (auto simp: hasSecret_def map_of_eq_None_iff)
  moreover have "set (listNames ?b) = dom ?m"
    using dom by (auto simp: listNames_def dom_def map_of_eq_None_iff)
  ultimately show ?thesis using s by (simp add: listNames_def sealed_under_def Let_def)
qed

lemma vault_is_map_witness:
  "getSecret toy_crypto ''a'' (vault_run toy_crypto
     [VSet [] ''a'' ''secret'' None, VSet [] ''b'' ''x'' None, VRotate (\<lambda>_. []) (toy_key CHR ''q''), VDelete ''b'', VRestart]
     (fresh_backend (toy_key CHR ''k''))) = Inr ''secret''"
proof -
  from vault_is_map [OF toy_gcm create_fresh [OF toy_key_length [of "CHR ''k''"]], of "[VSet [] ''a'' ''secret'' None, VSet [] ''b'' ''x'' None,
      VRotate (\<lambda>_. []) (toy_key CHR ''q''), VDelete ''b'', VRestart]" "''a''"]
  show ?thesis by (simp add: Let_def)
qed

text \<open>The vault fails closed. Opened under a key that is not the one its secrets are sealed under, the backend opens, but
  every read of a held name is an unauthorized error and a rotation fails and leaves vault, key and file unchanged.\<close>

theorem vault_wrong_key:
  assumes "gcm_ok env" "backend_ok env b" "sb_disk b = VaultText (sb_vault b)" "k' \<noteq> sb_key b" "length k' = MASTER_KEY_BYTES"
    and "vault_secrets (sb_vault b) \<noteq> []" "length newKey = MASTER_KEY_BYTES"
  shows "case createFileSecretsBackend env ivs k' None None (sb_disk b) of Inl e \<Rightarrow> False
    | Inr b' \<Rightarrow> (hasSecret n b' \<longrightarrow> getSecret env n b' = Inl unseal_error) \<and>
        rotate_key env ivs newKey b' = (Inl unseal_error, b')"
proof -
  let ?b = "\<lparr>sb_key = k', sb_vault = sb_vault b, sb_disk = sb_disk b\<rparr>" and ?rs = "vault_secrets (sb_vault b)"
  have c: "createFileSecretsBackend env ivs k' None None (sb_disk b) = Inr ?b"
    using assms(3,5) by (simp add: createFileSecretsBackend_def)
  have s: "sealed_under env (sb_key b) ?rs" using assms(2) by (simp add: backend_ok_def)
  have "getSecret env n ?b = Inl unseal_error" if "hasSecret n ?b"
  proof -
    have "map_of ?rs n \<noteq> None" using that by (simp add: hasSecret_def map_of_eq_None_iff)
    then obtain r where r: "map_of ?rs n = Some r" by blast
    obtain iv p sc where "r = vault_encrypt env (sb_key b) iv p sc"
      using s map_of_SomeD [OF r] unfolding sealed_under_def by fast
    then show ?thesis using r assms(1,4) by (simp add: getSecret_def decrypt_encrypt)
  qed
  then show ?thesis using c reencrypt_wrong [OF assms(1) s assms(4,6), of newKey ivs 0] assms(7)
    by (simp add: rotate_key_def)
qed

lemma vault_wrong_key_witness:
  "\<exists>b'. createFileSecretsBackend toy_crypto (\<lambda>_. []) (toy_key CHR ''z'') None None
      (sb_disk (setSecret toy_crypto [] ''a'' ''secret'' None (fresh_backend (toy_key CHR ''k'')))) = Inr b' \<and>
    getSecret toy_crypto ''a'' b' = Inl unseal_error"
proof -
  define b where "b = setSecret toy_crypto [] ''a'' ''secret'' None (fresh_backend (toy_key CHR ''k''))"
  have ok: "backend_ok toy_crypto b" unfolding b_def by (intro setSecret_ok toy_gcm fresh_ok toy_key_length)
  have d: "sb_disk b = VaultText (sb_vault b)" "hasSecret ''a'' b" "toy_key CHR ''z'' \<noteq> sb_key b"
    by (simp_all add: b_def toy_key_def)
  from vault_wrong_key [where ivs = "\<lambda>_. []" and n = "''a''" and newKey = "toy_key CHR ''q''",
      OF toy_gcm ok d(1,3) toy_key_length hasSecret_nonempty [OF d(2)] toy_key_length]
  have w: "case createFileSecretsBackend toy_crypto (\<lambda>_. []) (toy_key CHR ''z'') None None (sb_disk b) of Inl e \<Rightarrow> False
    | Inr b' \<Rightarrow> (hasSecret ''a'' b' \<longrightarrow> getSecret toy_crypto ''a'' b' = Inl unseal_error) \<and>
        rotate_key toy_crypto (\<lambda>_. []) (toy_key CHR ''q'') b' = (Inl unseal_error, b')" .
  have c: "createFileSecretsBackend toy_crypto (\<lambda>_. []) (toy_key CHR ''z'') None None (sb_disk b) =
      Inr \<lparr>sb_key = toy_key CHR ''z'', sb_vault = sb_vault b, sb_disk = sb_disk b\<rparr>"
    by (simp add: createFileSecretsBackend_def d(1))
  moreover have "hasSecret ''a'' \<lparr>sb_key = toy_key CHR ''z'', sb_vault = sb_vault b, sb_disk = sb_disk b\<rparr>"
    using d(2) by (simp add: hasSecret_def)
  ultimately show ?thesis using w unfolding b_def [symmetric] by simp
qed

text \<open>A secret text that is neither 64 hex digits nor the base64 of 32 bytes.\<close>

definition is_passphrase :: "string \<Rightarrow> bool" where
  "is_passphrase value \<longleftrightarrow> value \<noteq> [] \<and> js_trim value = value \<and>
     \<not> (length value = 64 \<and> list_all is_hex_digit value) \<and> length (unb64 value) \<noteq> MASTER_KEY_BYTES"

text \<open>A legacy vault (no salt of its own, sealed under the key of the fixed salt) is migrated by the first open with its
  passphrase: every read gives what it gave before, the random salt is on disk with the new ciphertext, and every later open
  with the passphrase, whatever salt is drawn then, gives the same backend.\<close>

theorem vault_migration:
  assumes "gcm_ok env" "is_passphrase value" "vault_kdf v = None"
    and "deriveMasterKey env value LEGACY_MASTER_KEY_SALT = Inr old" "sealed_under env old (vault_secrets v)"
    and "deriveKey env value (newKdfParams salt) = Inr key" "length key = MASTER_KEY_BYTES"
  shows "\<exists>b. openSecretsVault env salt ivs (Some value) (VaultText v) = Inr (Some b) \<and>
    openSecretsVault env salt' ivs' (Some value) (sb_disk b) = Inr (Some b) \<and>
    readVaultKdf (sb_disk b) = Some (newKdfParams salt) \<and>
    getSecret env n b = getSecret env n \<lparr>sb_key = old, sb_vault = v, sb_disk = VaultText v\<rparr>"
proof -
  obtain rs where rs: "reencrypt env old key ivs 0 (vault_secrets v) = Inr rs" "sealed_under env key rs"
      "plain env key rs = plain env old (vault_secrets v)" "map fst rs = map fst (vault_secrets v)"
    using reencrypt_ok [OF assms(1,5)] by blast
  let ?v = "v\<lparr>vault_secrets := rs, vault_kdf := Some (newKdfParams salt)\<rparr>"
  let ?b = "\<lparr>sb_key = key, sb_vault = ?v, sb_disk = VaultText ?v\<rparr>"
  have p: "value \<noteq> []" "js_trim value = value" "\<not> (length value = 64 \<and> list_all is_hex_digit value)"
    "length (unb64 value) \<noteq> MASTER_KEY_BYTES" using assms(2) by (auto simp: is_passphrase_def)
  have c: "createFileSecretsBackend env ivs key (Some old) (Some (newKdfParams salt)) (VaultText v) = Inr ?b"
    using rs(1) assms(3,7) by (auto simp: createFileSecretsBackend_def persistVault_def)
  have "openSecretsVault env salt ivs (Some value) (VaultText v) = Inr (Some ?b)"
    unfolding openSecretsVault_def option.case Let_def p(2) if_not_P [OF p(1)] if_not_P [OF p(3)] if_not_P [OF p(4)]
    using c assms(3,4,6) by (simp add: readVaultKdf_def)
  moreover have "openSecretsVault env salt' ivs' (Some value) (sb_disk ?b) = Inr (Some ?b)"
    unfolding openSecretsVault_def option.case Let_def p(2) if_not_P [OF p(1)] if_not_P [OF p(3)] if_not_P [OF p(4)]
    using assms(6,7) by (simp add: readVaultKdf_def createFileSecretsBackend_def)
  moreover have keys: "fst ` set rs = fst ` set (vault_secrets v)" using rs(4) by (metis list.set_map)
  moreover have "getSecret env n ?b = getSecret env n \<lparr>sb_key = old, sb_vault = v, sb_disk = VaultText v\<rparr>"
  proof (cases "map_of rs n")
    case None
    then have "map_of (vault_secrets v) n = None" using keys by (simp add: map_of_eq_None_iff)
    with None show ?thesis by (simp add: getSecret_def)
  next
    case (Some r)
    then have "map_of (vault_secrets v) n \<noteq> None"
      using keys map_of_eq_None_iff [of rs n] map_of_eq_None_iff [of "vault_secrets v" n] by simp
    then obtain r0 where "map_of (vault_secrets v) n = Some r0" by blast
    then show ?thesis
      using Some sealed_decrypts [OF assms(1) rs(2) Some] sealed_decrypts [OF assms(1,5), of n r0] rs(3)
      by (simp add: getSecret_def)
  qed
  ultimately show ?thesis by (auto simp: readVaultKdf_def)
qed

lemma vault_migration_witness:
  "\<exists>b. openSecretsVault toy_crypto ''salt'' (\<lambda>_. []) (Some ''pass'')
      (VaultText \<lparr>vault_version = 1, vault_kdf = None, vault_secrets =
        [(''a'', vault_encrypt toy_crypto (toy_key CHR ''l'') [] ''secret'' None)]\<rparr>) = Inr (Some b) \<and>
    getSecret toy_crypto ''a'' b = Inr ''secret''"
proof -
  let ?v = "\<lparr>vault_version = 1, vault_kdf = None, vault_secrets =
    [(''a'', vault_encrypt toy_crypto (toy_key CHR ''l'') [] ''secret'' None)]\<rparr>"
  have p: "is_passphrase ''pass''" by code_simp
  have o: "deriveMasterKey toy_crypto ''pass'' LEGACY_MASTER_KEY_SALT = Inr (toy_key CHR ''l'')"
    by (simp add: deriveMasterKey_def toy_crypto_def)
  have s: "sealed_under toy_crypto (toy_key CHR ''l'') (vault_secrets ?v)" by (auto simp: sealed_under_def)
  have k: "deriveKey toy_crypto ''pass'' (newKdfParams ''salt'') = Inr (toy_key CHR ''n'')"
    by (simp add: deriveKey_def toy_crypto_def)
  have "vault_kdf ?v = None" by simp
  from vault_migration [OF toy_gcm p this o s k toy_key_length, of "\<lambda>_. []" "[]" "\<lambda>_. []" "''a''"]
  show ?thesis by (auto simp: getSecret_def decrypt_encrypt)
qed

text \<open>Two processes that hold the vault of one file lose each other's writes: when one has sealed a new secret and deleted
  another, the next write of the other puts its own copy over both. After a restart the new secret is gone and the deleted
  one can be read again.\<close>

theorem vault_lost_update:
  assumes "gcm_ok env" "backend_ok env b" "hasSecret d b" "\<not> hasSecret n b" "w \<noteq> n" "w \<noteq> d"
  shows "let first = deleteSecret d (setSecret env iv n v sc b);
      other = setSecret env iv' w x sc' (b\<lparr>sb_disk := sb_disk first\<rparr>);
      restarted = vault_step env VRestart (first\<lparr>sb_disk := sb_disk other\<rparr>) in
    \<not> hasSecret n restarted \<and> hasSecret d restarted \<and> getSecret env d restarted = getSecret env d b"
proof -
  let ?first = "deleteSecret d (setSecret env iv n v sc b)"
  let ?other = "setSecret env iv' w x sc' (b\<lparr>sb_disk := sb_disk ?first\<rparr>)"
  let ?r = "vault_step env VRestart (?first\<lparr>sb_disk := sb_disk ?other\<rparr>)"
  let ?rs = "vault_secrets (sb_vault b)"
  have k: "length (sb_key b) = MASTER_KEY_BYTES" using assms(2) by (simp add: backend_ok_def)
  have r: "sb_key ?r = sb_key b" "vault_secrets (sb_vault ?r) = obj_set w (vault_encrypt env (sb_key b) iv' x sc') ?rs"
    using k by (simp_all add: deleteSecret_def setSecret_def persistVault_def createFileSecretsBackend_def)
  have "\<not> hasSecret n ?r" "hasSecret d ?r"
    using assms(3-6) unfolding hasSecret_def r(2) keys_obj_set by auto
  moreover have "getSecret env d ?r = getSecret env d b"
    using assms(6) unfolding getSecret_def r by (simp add: map_of_obj_set)
  ultimately show ?thesis unfolding Let_def by blast
qed

lemma vault_lost_update_witness:
  "let b = setSecret toy_crypto [] ''old'' ''o'' None (fresh_backend (toy_key CHR ''k''));
    first = deleteSecret ''old'' (setSecret toy_crypto [] ''new'' ''n'' None b);
    other = setSecret toy_crypto [] ''w'' ''x'' None (b\<lparr>sb_disk := sb_disk first\<rparr>);
    restarted = vault_step toy_crypto VRestart (first\<lparr>sb_disk := sb_disk other\<rparr>) in
   \<not> hasSecret ''new'' restarted \<and> hasSecret ''old'' restarted"
proof -
  have ok: "backend_ok toy_crypto (setSecret toy_crypto [] ''old'' ''o'' None (fresh_backend (toy_key CHR ''k'')))"
    by (intro setSecret_ok toy_gcm fresh_ok toy_key_length)
  have h: "hasSecret ''old'' (setSecret toy_crypto [] ''old'' ''o'' None (fresh_backend (toy_key CHR ''k'')))"
    "\<not> hasSecret ''new'' (setSecret toy_crypto [] ''old'' ''o'' None (fresh_backend (toy_key CHR ''k'')))" by simp_all
  have "''w'' \<noteq> ''new''" "''w'' \<noteq> ''old''" by simp_all
  from vault_lost_update [OF toy_gcm ok h this, of "[]" "''n''" None "[]" "''x''" None]
  show ?thesis unfolding Let_def by blast
qed

end
