(* ===== verification/Sensitive.thy ===== *)
theory Sensitive
  imports Secrets
begin

text \<open>
  Sensitive content fields, \<open>packages/engine/src/sensitive.ts\<close>, with the field definitions of
  \<open>types.ts\<close>: values sealed into the vault on write, references revealed or masked on read.  The mask
  (six bullets, outside Latin-1) is a parameter.
\<close>

section \<open>Fields and references\<close>

datatype field_type = FText | FRichtext | FNumber | FBoolean | FDate | FSelect

record field_def =
  fd_id :: string
  fd_name :: string
  fd_type :: field_type
  fd_required :: bool
  fd_options :: "string list option"
  fd_sensitive :: bool

type_synonym obj = "(string \<times> json) list"

definition REVEAL_CAPABILITY :: string where "REVEAL_CAPABILITY = ''content.reveal''"
definition SECRET_PREFIX :: string where "SECRET_PREFIX = ''field:''"

text \<open>\<open>isEncRef\<close>, giving the name the reference holds.\<close>

definition isEncRef :: "json \<Rightarrow> string option" where
  "isEncRef v = (case v of JObj kvs \<Rightarrow> (case map_of kvs ''$enc'' of Some (JStr s) \<Rightarrow> Some s | _ \<Rightarrow> None) | _ \<Rightarrow> None)"

definition enc_ref :: "string \<Rightarrow> json" where
  "enc_ref name = JObj [(''$enc'', JStr name)]"

definition plaintext_of :: "json \<Rightarrow> string" where
  "plaintext_of v = (case v of JStr s \<Rightarrow> s | _ \<Rightarrow> json_text v)"

section \<open>Protecting\<close>

text \<open>The loop over the sensitive names; each sealed value takes the next random pair of UUID and IV.\<close>

fun protect_loop ::
  "crypto_env \<Rightarrow> string \<Rightarrow> (nat \<Rightarrow> string \<times> string) \<Rightarrow> obj option \<Rightarrow> string list \<Rightarrow> nat \<Rightarrow>
   obj \<Rightarrow> secrets_backend \<Rightarrow> obj \<times> secrets_backend" where
  "protect_loop env msk rnd prior [] i out b = (out, b)"
| "protect_loop env msk rnd prior (name # names) i out b =
     (case map_of out name of
        None \<Rightarrow> protect_loop env msk rnd prior names i out b
      | Some value \<Rightarrow>
          if isEncRef value \<noteq> None then protect_loop env msk rnd prior names i out b
          else if value = JStr msk
          then protect_loop env msk rnd prior names i
            (obj_set name
              (case (case prior of None \<Rightarrow> None | Some p \<Rightarrow> map_of p name) of
                 Some priorVal \<Rightarrow> if isEncRef priorVal \<noteq> None then priorVal else JNull | None \<Rightarrow> JNull) out) b
          else if value = JNull \<or> value = JStr [] then protect_loop env msk rnd prior names i out b
          else (let secretName = SECRET_PREFIX @ fst (rnd i)
                in protect_loop env msk rnd prior names (Suc i) (obj_set name (enc_ref secretName) out)
                     (setSecret env (snd (rnd i)) secretName (plaintext_of value) None b)))"

definition sensitiveNames :: "field_def list \<Rightarrow> string list" where
  "sensitiveNames defs = map fd_name (filter fd_sensitive defs)"

definition protectSensitive ::
  "crypto_env \<Rightarrow> string \<Rightarrow> (nat \<Rightarrow> string \<times> string) \<Rightarrow> obj \<Rightarrow> field_def list \<Rightarrow> obj option \<Rightarrow>
   (secrets_backend option, obj) action" where
  "protectSensitive env msk rnd data defs prior secrets =
     (if sensitiveNames defs = [] then (Inr data, secrets)
      else (case secrets of
          None \<Rightarrow> (Inl (PressError Validation ''This content type has sensitive fields but no secrets vault is configured. Set PRESSH_MASTER_KEY to store encrypted values.''), secrets)
        | Some b \<Rightarrow>
            (case protect_loop env msk rnd prior (sensitiveNames defs) 0 data b of (out, b) \<Rightarrow> (Inr out, Some b))))"

section \<open>Reading\<close>

text \<open>Only an object can be a reference.\<close>

fun revealEncRefs :: "crypto_env \<Rightarrow> string \<Rightarrow> secrets_backend option \<Rightarrow> json \<Rightarrow> json" where
  "revealEncRefs env msk secrets (JObj kvs) =
     (case isEncRef (JObj kvs) of
        Some name \<Rightarrow>
          (case secrets of None \<Rightarrow> JStr msk
           | Some b \<Rightarrow> (case getSecret env name b of Inl _ \<Rightarrow> JStr msk | Inr s \<Rightarrow> JStr s))
      | None \<Rightarrow> JObj (map (\<lambda>(k, v). (k, revealEncRefs env msk secrets v)) kvs))"
| "revealEncRefs env msk secrets (JArr vs) = JArr (map (revealEncRefs env msk secrets) vs)"
| "revealEncRefs env msk secrets v = v"

fun redactEncRefs :: "string \<Rightarrow> json \<Rightarrow> json" where
  "redactEncRefs msk (JObj kvs) =
     (if isEncRef (JObj kvs) \<noteq> None then JStr msk else JObj (map (\<lambda>(k, v). (k, redactEncRefs msk v)) kvs))"
| "redactEncRefs msk (JArr vs) = JArr (map (redactEncRefs msk) vs)"
| "redactEncRefs msk v = v"

section \<open>What protection promises\<close>

text \<open>The names in all references of a value, at any depth.\<close>

fun ref_names :: "json \<Rightarrow> string list" where
  "ref_names (JObj kvs) = (case isEncRef (JObj kvs) of None \<Rightarrow> [] | Some n \<Rightarrow> [n]) @ concat (map (\<lambda>(k, v). ref_names v) kvs)"
| "ref_names (JArr vs) = concat (map ref_names vs)"
| "ref_names v = []"

lemma map_of_map_vals: "map_of (map (\<lambda>(k, v). (k, f v)) kvs) k = map_option f (map_of kvs k)"
  by (induction kvs) auto

lemma redact_str: "redactEncRefs msk v = JStr s \<Longrightarrow> v = JStr s \<or> s = msk"
  by (cases v) (auto split: if_splits)

lemma redact_ref_names: "set (ref_names (redactEncRefs msk v)) \<subseteq> {msk}"
proof (induction msk v rule: redactEncRefs.induct)
  case (1 msk kvs)
  show ?case
  proof (cases "isEncRef (JObj kvs)")
    case None
    let ?kvs = "map (\<lambda>(k, v). (k, redactEncRefs msk v)) kvs"
    have "isEncRef (JObj ?kvs) = None \<or> isEncRef (JObj ?kvs) = Some msk"
    proof (cases "map_of kvs ''$enc''")
      case (Some v)
      have "v \<noteq> JStr t" for t using \<open>isEncRef (JObj kvs) = None\<close> Some by (auto simp: isEncRef_def)
      then have "redactEncRefs msk v \<noteq> JStr t \<or> t = msk" for t using redact_str by blast
      then show ?thesis using Some by (auto simp: isEncRef_def map_of_map_vals split: json.split)
    qed (simp add: isEncRef_def map_of_map_vals)
    then have "set (case isEncRef (JObj ?kvs) of None \<Rightarrow> [] | Some n \<Rightarrow> [n]) \<subseteq> {msk}" by auto
    moreover have "set (ref_names (redactEncRefs msk v)) \<subseteq> {msk}" if "(k, v) \<in> set kvs" for k v
      using 1 None that by auto
    then have "set (concat (map (\<lambda>(k, v). ref_names v) ?kvs)) \<subseteq> {msk}" by fastforce
    moreover have "redactEncRefs msk (JObj kvs) = JObj ?kvs" using None by simp
    ultimately show ?thesis unfolding ref_names.simps(1) set_append by (simp only: Un_subset_iff ref_names.simps set_append simp_thms)
  qed simp
next
  case (2 msk vs)
  then show ?case by fastforce
qed simp_all

text \<open>A value with no reference in it is read as it is.\<close>

lemma redact_id: "ref_names v = [] \<Longrightarrow> redactEncRefs msk v = v"
proof (induction v)
  case (JObj kvs)
  have n: "isEncRef (JObj kvs) = None" using JObj.prems by (cases "isEncRef (JObj kvs)") simp_all
  have "map (\<lambda>(k, v). (k, redactEncRefs msk v)) kvs = kvs"
  proof (rule map_idI)
    fix kv assume kv: "kv \<in> set kvs"
    have "ref_names (snd kv) = []" using JObj.prems kv by (cases kv) (auto simp: n)
    then have "redactEncRefs msk (snd kv) = snd kv" using JObj.IH [OF kv] by (cases kv) simp
    then show "(\<lambda>(k, v). (k, redactEncRefs msk v)) kv = kv" by (cases kv) simp
  qed
  then show ?case using n by simp
qed (simp_all add: map_idI)

definition sealed_value :: "json option \<Rightarrow> bool" where
  "sealed_value v = (case v of None \<Rightarrow> True | Some x \<Rightarrow> x = JNull \<or> x = JStr [] \<or> isEncRef x \<noteq> None)"

lemma isEncRef_enc [simp]: "isEncRef (enc_ref n) = Some n"
  by (simp add: isEncRef_def enc_ref_def)

lemma protect_loop_other:
  "m \<notin> set names \<Longrightarrow> map_of (fst (protect_loop env msk rnd prior names i out b)) m = map_of out m"
  by (induction env msk rnd prior names i out b rule: protect_loop.induct)
     (auto simp: map_of_obj_set Let_def split: option.split)

lemma protect_loop_sealed:
  "m \<in> set names \<Longrightarrow> sealed_value (map_of (fst (protect_loop env msk rnd prior names i out b)) m)"
proof (induction env msk rnd prior names i out b rule: protect_loop.induct)
  case (2 env msk rnd prior name names i out b)
  show ?case
  proof (cases "m \<in> set names")
    case True
    then show ?thesis using 2 by (auto simp: Let_def split: option.split)
  next
    case False
    then have m: "m = name" using 2 by simp
    show ?thesis
      using False unfolding m protect_loop.simps
      by (auto simp: Let_def protect_loop_other map_of_obj_set sealed_value_def split: option.split)
  qed
qed simp

text \<open>Names that are drawn are fresh: distinct, and no secret has one of them.\<close>

definition fresh_names :: "(nat \<Rightarrow> string \<times> string) \<Rightarrow> nat \<Rightarrow> secrets_backend \<Rightarrow> bool" where
  "fresh_names rnd i b \<longleftrightarrow> inj (\<lambda>j. fst (rnd j)) \<and> (\<forall>j \<ge> i. \<not> hasSecret (SECRET_PREFIX @ fst (rnd j)) b)"

lemma fresh_next:
  assumes "fresh_names rnd i b"
  shows "fresh_names rnd (Suc i) (setSecret env iv (SECRET_PREFIX @ fst (rnd i)) v sc b)"
proof -
  have "fst (rnd j) \<noteq> fst (rnd i)" if "Suc i \<le> j" for j
    using assms that by (metis fresh_names_def inj_eq not_less_eq_eq order_refl)
  then show ?thesis using assms by (auto simp: fresh_names_def)
qed

lemma getSecret_set: "gcm_ok env \<Longrightarrow> getSecret env n (setSecret env iv n v sc b) = Inr v"
  by (simp add: getSecret_def setSecret_def persistVault_def map_of_obj_set decrypt_encrypt)

lemma getSecret_set_other: "m \<noteq> n \<Longrightarrow> getSecret env m (setSecret env iv n v sc b) = getSecret env m b"
  by (simp add: getSecret_def setSecret_def persistVault_def map_of_obj_set split: option.split)

lemma protect_loop_keeps:
  "fresh_names rnd i b \<Longrightarrow> hasSecret m b \<Longrightarrow>
   getSecret env m (snd (protect_loop env msk rnd prior names i out b)) = getSecret env m b \<and>
   hasSecret m (snd (protect_loop env msk rnd prior names i out b))"
proof (induction env msk rnd prior names i out b rule: protect_loop.induct)
  case (2 env msk rnd prior name names i out b)
  have "m \<noteq> SECRET_PREFIX @ fst (rnd i)" using 2(6,7) by (auto simp: fresh_names_def)
  note g = getSecret_set_other [OF this]
  show ?case
    using 2 fresh_next [OF 2(6)] by (auto simp: Let_def g split: option.split)
qed simp

text \<open>A plaintext that is sealed can be read back through its reference.\<close>

lemma protect_loop_reads:
  assumes "gcm_ok env"
  shows "fresh_names rnd i b \<Longrightarrow> distinct names \<Longrightarrow> m \<in> set names \<Longrightarrow> map_of out m = Some v \<Longrightarrow>
   isEncRef v = None \<Longrightarrow> v \<noteq> JStr msk \<Longrightarrow> v \<noteq> JNull \<Longrightarrow> v \<noteq> JStr [] \<Longrightarrow>
   (case protect_loop env msk rnd prior names i out b of (out', b') \<Rightarrow>
     \<exists>ref. map_of out' m = Some (enc_ref ref) \<and> getSecret env ref b' = Inr (plaintext_of v))"
proof (induction names arbitrary: i out b)
  case (Cons name names)
  let ?ref = "SECRET_PREFIX @ fst (rnd i)"
  let ?set = "setSecret env (snd (rnd i)) ?ref"
  show ?case
  proof (cases "m = name")
    case True
    let ?b = "?set (plaintext_of v) None b" and ?out = "obj_set name (enc_ref ?ref) out"
    have e: "protect_loop env msk rnd prior (name # names) i out b = protect_loop env msk rnd prior names (Suc i) ?out ?b"
      using Cons.prems(4-8) by (simp add: True Let_def)
    have "map_of (fst (protect_loop env msk rnd prior names (Suc i) ?out ?b)) m = Some (enc_ref ?ref)"
      using Cons.prems(2) by (subst protect_loop_other) (auto simp: True map_of_obj_set)
    moreover have "getSecret env ?ref (snd (protect_loop env msk rnd prior names (Suc i) ?out ?b)) = Inr (plaintext_of v)"
      using protect_loop_keeps [OF fresh_next [OF Cons.prems(1)], of ?ref] by (simp add: getSecret_set assms)
    ultimately show ?thesis unfolding e by (auto simp: case_prod_beta)
  next
    case False
    then have m: "m \<in> set names" "distinct names" using Cons.prems(2,3) by auto
    note ih = Cons.IH [OF _ m(2,1) _ Cons.prems(5-8)]
    note ih1 = ih [OF Cons.prems(1,4)]
    have ih2: "map_of (obj_set name x out) m = Some v" for x using False Cons.prems(4) by (simp add: map_of_obj_set)
    note ih3 = ih [OF Cons.prems(1) ih2] and ih4 = ih [OF fresh_next [OF Cons.prems(1)] ih2]
    show ?thesis
      unfolding protect_loop.simps
      using ih1 ih3 ih4 by (auto simp: Let_def split: option.split)
  qed
qed simp

lemma protect_loop_mask:
  "distinct names \<Longrightarrow> m \<in> set names \<Longrightarrow> map_of out m = Some (JStr msk) \<Longrightarrow>
   map_of (fst (protect_loop env msk rnd prior names i out b)) m =
     Some (case prior of None \<Rightarrow> JNull | Some p \<Rightarrow>
       (case map_of p m of None \<Rightarrow> JNull | Some x \<Rightarrow> if isEncRef x \<noteq> None then x else JNull))"
proof (induction env msk rnd prior names i out b rule: protect_loop.induct)
  case (2 env msk rnd prior name names i out b)
  have e: "isEncRef (JStr msk) = None" by (simp add: isEncRef_def)
  show ?case
  proof (cases "m = name")
    case True
    then have "m \<notin> set names" using 2(6) by simp
    then show ?thesis using 2(8) e unfolding True
      by (simp add: protect_loop_other map_of_obj_set split: option.split)
  next
    case False
    then show ?thesis using 2 by (auto simp: Let_def map_of_obj_set split: option.split)
  qed
qed simp

section \<open>Properties\<close>

text \<open>C21: Sensitive fields are stored sealed or not at all. Without a vault a type that has one refuses every write. With a
  vault, after protecting, each sensitive field is absent, null, empty or a reference, and the other fields are unchanged;
  a plaintext that was there is exactly what its reference reads back from the vault, reveals to an admin, and shows to
  everybody else as the mask; a field that comes back as the mask keeps the reference it had; no earlier secret is touched.\<close>

theorem sensitive_sealed:
  assumes "gcm_ok env" "distinct (map fd_name defs)" "fd \<in> set defs" "fd_sensitive fd" "fresh_names rnd 0 b"
  shows "(\<exists>e. protectSensitive env msk rnd data defs prior None = (Inl (PressError Validation e), None)) \<and>
    (\<exists>out b'. protectSensitive env msk rnd data defs prior (Some b) = (Inr out, Some b') \<and>
       sealed_value (map_of out (fd_name fd)) \<and>
       map_of out = (\<lambda>m. if m \<in> set (sensitiveNames defs) then map_of out m else map_of data m) \<and>
       (case map_of data (fd_name fd) of Some (JStr v) \<Rightarrow> v = [] \<or> v = msk \<or>
           (\<exists>ref. map_of out (fd_name fd) = Some ref \<and> revealEncRefs env msk (Some b') ref = JStr v \<and>
              redactEncRefs msk ref = JStr msk)
         | _ \<Rightarrow> True) \<and>
       (map_of data (fd_name fd) = Some (JStr msk) \<and> isEncRef ref0 \<noteq> None \<longrightarrow>
          (\<forall>p. prior = Some p \<and> map_of p (fd_name fd) = Some ref0 \<longrightarrow> map_of out (fd_name fd) = Some ref0)) \<and>
       (hasSecret old b = False \<or> getSecret env old b' = getSecret env old b))"
proof -
  have n: "fd_name fd \<in> set (sensitiveNames defs)" "sensitiveNames defs \<noteq> []"
    using assms(3,4) by (auto simp: sensitiveNames_def filter_empty_conv)
  have d: "distinct (sensitiveNames defs)"
    using assms(2) unfolding sensitiveNames_def by (rule distinct_map_filter)
  obtain out b' where l: "protect_loop env msk rnd prior (sensitiveNames defs) 0 data b = (out, b')" by force
  have e: "protectSensitive env msk rnd data defs prior (Some b) = (Inr out, Some b')"
    using n(2) l by (simp add: protectSensitive_def)
  have s: "sealed_value (map_of out (fd_name fd))" using protect_loop_sealed [OF n(1)] l by (metis fst_conv)
  have o: "map_of out m = map_of data m" if "m \<notin> set (sensitiveNames defs)" for m
    using protect_loop_other [OF that] l by (metis fst_conv)
  have r: "\<exists>ref. map_of out (fd_name fd) = Some ref \<and> revealEncRefs env msk (Some b') ref = JStr v \<and>
      redactEncRefs msk ref = JStr msk"
    if "map_of data (fd_name fd) = Some (JStr v)" "v \<noteq> []" "v \<noteq> msk" for v
  proof -
    note v = that
    have "isEncRef (JStr v) = None" by (simp add: isEncRef_def)
    then obtain ref where ref: "map_of out (fd_name fd) = Some (enc_ref ref)" "getSecret env ref b' = Inr v"
      using protect_loop_reads [OF assms(1,5) d n(1) v(1), of msk prior] v(2,3) l by (auto simp: plaintext_of_def)
    have "isEncRef (JObj [(''$enc'', JStr ref)]) = Some ref" using isEncRef_enc by (simp add: enc_ref_def)
    then have "revealEncRefs env msk (Some b') (enc_ref ref) = JStr v" "redactEncRefs msk (enc_ref ref) = JStr msk"
      using ref(2) by (simp_all add: enc_ref_def)
    then show ?thesis using ref(1) by blast
  qed
  have k: "getSecret env old b' = getSecret env old b" if "hasSecret old b"
    using protect_loop_keeps [OF assms(5) that] l by (metis snd_conv)
  have "\<exists>e. protectSensitive env msk rnd data defs prior None = (Inl (PressError Validation e), None)"
    using n(2) by (simp add: protectSensitive_def)
  moreover have "map_of out = (\<lambda>m. if m \<in> set (sensitiveNames defs) then map_of out m else map_of data m)"
    using o by auto
  moreover have "case map_of data (fd_name fd) of Some (JStr v) \<Rightarrow> v = [] \<or> v = msk \<or>
           (\<exists>ref. map_of out (fd_name fd) = Some ref \<and> revealEncRefs env msk (Some b') ref = JStr v \<and>
              redactEncRefs msk ref = JStr msk) | _ \<Rightarrow> True"
    using r by (auto split: option.split json.split)
  moreover have "map_of data (fd_name fd) = Some (JStr msk) \<and> isEncRef ref0 \<noteq> None \<longrightarrow>
      (\<forall>p. prior = Some p \<and> map_of p (fd_name fd) = Some ref0 \<longrightarrow> map_of out (fd_name fd) = Some ref0)"
    using protect_loop_mask [OF d n(1), of data msk env rnd prior 0 b] l by auto
  ultimately show ?thesis using e s k by blast
qed

lemma sensitive_sealed_witness:
  "\<exists>out b'. protectSensitive toy_crypto ''***'' (\<lambda>i. (replicate i CHR ''u'', []))
      [(''name'', JStr ''ann''), (''iban'', JStr ''DE1'')]
      [\<lparr>fd_id = ''f1'', fd_name = ''iban'', fd_type = FText, fd_required = True, fd_options = None, fd_sensitive = True\<rparr>] None
      (Some (fresh_backend (toy_key CHR ''k''))) = (Inr out, Some b') \<and>
    sealed_value (map_of out ''iban'')"
proof -
  let ?fd = "\<lparr>fd_id = ''f1'', fd_name = ''iban'', fd_type = FText, fd_required = True, fd_options = None, fd_sensitive = True\<rparr>"
  have i: "fresh_names (\<lambda>i. (replicate i CHR ''u'', [])) 0 (fresh_backend (toy_key CHR ''k''))"
    by (auto simp: fresh_names_def inj_def replicate_eq_replicate)
  have "distinct (map fd_name [?fd])" "?fd \<in> set [?fd]" "fd_sensitive ?fd" by simp_all
  from sensitive_sealed [OF toy_gcm this i, of "''***''" "[(''name'', JStr ''ann''), (''iban'', JStr ''DE1'')]" None JNull "[]"]
  show ?thesis unfolding field_def.simps by blast
qed

text \<open>What a reader who may not reveal gets holds no reference to a secret, whatever the stored value is: every name in a
  reference of the redacted value is the mask itself. A value with no reference is read unchanged.\<close>

theorem redaction_hides_refs:
  "set (ref_names (redactEncRefs msk v)) \<subseteq> {msk} \<and> (ref_names v \<noteq> [] \<or> redactEncRefs msk v = v)"
  using redact_ref_names redact_id by blast

end
