(* ===== verification/Engine_Guards.thy ===== *)
theory Engine_Guards
  imports Json
begin

text \<open>
  The guards the engine puts in front of untrusted input: the URL allowlist of \<open>packages/engine/src/url.ts\<close>
  and the caps on designer trees of \<open>primitives/limits.ts\<close>, each against what it is to guarantee:
  the scheme a browser will read, and the size and nesting of the tree.
\<close>

section \<open>URLs\<close>

definition ALLOWED_SCHEMES :: "string list" where
  "ALLOWED_SCHEMES = [''http'', ''https'', ''mailto'', ''tel'']"

definition scheme_noise :: "char \<Rightarrow> bool" where
  "scheme_noise ch = (let c = (of_char ch :: nat) in c < 0x20 \<or> (0x7f \<le> c \<and> c \<le> 0x9f))"

definition stripSchemeNoise :: "string \<Rightarrow> string" where
  "stripSchemeNoise s = filter (\<lambda>ch. \<not> scheme_noise ch) s"

definition scheme_char :: "char \<Rightarrow> bool" where
  "scheme_char c \<longleftrightarrow> is_alnum c \<or> c = CHR ''+'' \<or> c = CHR ''.'' \<or> c = CHR ''-''"

text \<open>The group of \<open>/^([a-zA-Z][a-zA-Z0-9+.-]*):/\<close>.\<close>

definition scheme_of :: "string \<Rightarrow> string option" where
  "scheme_of s =
     (case s of [] \<Rightarrow> None
      | c # cs \<Rightarrow>
        if is_alpha c \<and> js_prefix '':'' (dropWhile scheme_char cs) then Some (c # takeWhile scheme_char cs) else None)"

definition safeUrl :: "json option \<Rightarrow> string" where
  "safeUrl v =
     (case v of Some (JStr s) \<Rightarrow>
        (let raw = js_trim s in
         if raw = [] then []
         else let probe = stripSchemeNoise raw in
           case scheme_of probe of
             Some scheme \<Rightarrow> if js_lower scheme \<in> set ALLOWED_SCHEMES then raw else []
           | None \<Rightarrow>
               if js_prefix ''//'' (map (\<lambda>c. if c = CHR 0x5C then CHR ''/'' else c) probe) then [] else raw)
      | _ \<Rightarrow> [])"

text \<open>
  What a browser reads (the URL standard): leading C0 controls and spaces are removed, then tabs and line
  breaks anywhere; then the scheme; and two slashes or backslashes without a scheme leave the site.
\<close>

definition browser_text :: "string \<Rightarrow> string" where
  "browser_text u = filter (\<lambda>c. c \<noteq> CHR 0x09 \<and> c \<noteq> CHR 0x0A \<and> c \<noteq> CHR 0x0D) (dropWhile (\<lambda>c. (of_char c :: nat) \<le> 0x20) u)"

definition browser_scheme :: "string \<Rightarrow> string option" where
  "browser_scheme u = scheme_of (browser_text u)"

definition slash_like :: "char \<Rightarrow> bool" where
  "slash_like c \<longleftrightarrow> c = CHR ''/'' \<or> c = CHR 0x5C"

definition leaves_site :: "string \<Rightarrow> bool" where
  "leaves_site u \<longleftrightarrow> (case browser_text u of a # b # _ \<Rightarrow> slash_like a \<and> slash_like b | _ \<Rightarrow> False)"

lemma scheme_of_Some:
  assumes "scheme_of s = Some x"
  obtains r where "s = x @ CHR '':'' # r" "x \<noteq> []" "is_alpha (hd x)" "\<forall>c \<in> set (tl x). scheme_char c"
proof -
  obtain c cs where s: "s = c # cs" "is_alpha c" "js_prefix '':'' (dropWhile scheme_char cs)" "x = c # takeWhile scheme_char cs"
    using assms by (auto simp: scheme_of_def split: list.splits if_splits)
  then obtain r where "dropWhile scheme_char cs = CHR '':'' # r" by (auto simp: js_prefix_iff)
  then have "s = x @ CHR '':'' # r" using s(1,4) by (metis append_Cons takeWhile_dropWhile_id)
  then show thesis using that s by (auto dest: set_takeWhileD)
qed

lemma scheme_of_app:
  assumes "x \<noteq> []" "is_alpha (hd x)" "\<forall>c \<in> set (tl x). scheme_char c"
  shows "scheme_of (x @ CHR '':'' # r) = Some x"
proof -
  have "\<not> scheme_char (CHR '':'')" by (simp add: scheme_char_def is_alnum_def is_digit_def is_alpha_def)
  moreover obtain c cs where "x = c # cs" using assms(1) by (cases x) auto
  ultimately show ?thesis using assms by (simp add: scheme_of_def dropWhile_append2 takeWhile_append2 js_prefix_iff)
qed

lemma scheme_char_clean: "scheme_char c \<Longrightarrow> \<not> scheme_noise c" "is_alpha c \<Longrightarrow> scheme_char c"
  "slash_like c \<Longrightarrow> \<not> scheme_noise c"
  by (auto simp: scheme_char_def scheme_noise_def is_alnum_def is_digit_def is_alpha_def slash_like_def Let_def)

text \<open>Without a space in front, the probe is the browser's text without the other controls.\<close>

lemma probe_browser:
  assumes "\<not> js_prefix '' '' (stripSchemeNoise u)"
  shows "stripSchemeNoise u = stripSchemeNoise (browser_text u)"
proof -
  let ?low = "\<lambda>c :: char. (of_char c :: nat) \<le> 0x20"
  have "u = takeWhile ?low u @ dropWhile ?low u" by simp
  then have split: "stripSchemeNoise u = stripSchemeNoise (takeWhile ?low u) @ stripSchemeNoise (dropWhile ?low u)"
    unfolding stripSchemeNoise_def by (metis filter_append)
  have "stripSchemeNoise (takeWhile ?low u) = []"
  proof (rule ccontr)
    assume "stripSchemeNoise (takeWhile ?low u) \<noteq> []"
    then obtain c cs where c: "stripSchemeNoise (takeWhile ?low u) = c # cs" by (cases "stripSchemeNoise (takeWhile ?low u)") auto
    then have "c \<in> set (stripSchemeNoise (takeWhile ?low u))" by simp
    then have "c \<in> set (takeWhile ?low u)" "\<not> scheme_noise c" by (simp_all add: stripSchemeNoise_def)
    then have "(of_char c :: nat) = 0x20" by (auto simp: scheme_noise_def Let_def dest!: set_takeWhileD)
    then have "of_char c = (of_char (CHR '' '') :: nat)" by simp
    then have "c = CHR '' ''" by (simp only: of_char_eq_iff)
    then show False using assms split c by (simp add: js_prefix_iff)
  qed
  moreover have "stripSchemeNoise (filter (\<lambda>c. c \<noteq> CHR 0x09 \<and> c \<noteq> CHR 0x0A \<and> c \<noteq> CHR 0x0D) xs) = stripSchemeNoise xs" for xs
    by (auto simp: stripSchemeNoise_def scheme_noise_def intro!: filter_cong)
  ultimately show ?thesis by (simp add: split browser_text_def)
qed

lemma safeUrl_trim: "safeUrl (Some (JStr s)) \<noteq> [] \<Longrightarrow> safeUrl (Some (JStr s)) = js_trim s"
  by (auto simp: safeUrl_def Let_def split: option.splits if_splits)

text \<open>C34: A URL that passes is the trimmed input, and if no space follows the controls it may start with, what a
  browser makes of it has no scheme or an allowed one, and does not leave the site without a scheme.
\<close>

theorem safe_url_scheme:
  assumes "safeUrl (Some (JStr s)) = u" "u \<noteq> []" "\<not> js_prefix '' '' (stripSchemeNoise u)"
  shows "u = js_trim s \<and> \<not> leaves_site u \<and>
    (case browser_scheme u of None \<Rightarrow> True | Some x \<Rightarrow> js_lower x \<in> set ALLOWED_SCHEMES)"
proof -
  have u: "u = js_trim s" using assms(1,2) safeUrl_trim by blast
  note b = probe_browser [OF assms(3)]
  have "\<not> leaves_site u"
  proof
    assume "leaves_site u"
    then obtain x y r where t: "browser_text u = x # y # r" "slash_like x" "slash_like y"
      by (auto simp: leaves_site_def split: list.splits)
    then have p: "stripSchemeNoise u = x # y # stripSchemeNoise r"
      using scheme_char_clean(3) by (simp add: b) (simp add: stripSchemeNoise_def)
    have "scheme_of (stripSchemeNoise u) = None"
      using t(2) unfolding p by (auto simp: scheme_of_def slash_like_def is_alpha_def)
    then have "safeUrl (Some (JStr s)) = []"
      using t(2,3) by (auto simp: safeUrl_def Let_def u [symmetric] p js_prefix_iff slash_like_def)
    then show False using assms by simp
  qed
  moreover have "js_lower x \<in> set ALLOWED_SCHEMES" if m: "browser_scheme u = Some x" for x
  proof -
    obtain r where r: "browser_text u = x @ CHR '':'' # r" "x \<noteq> []" "is_alpha (hd x)" "\<forall>c \<in> set (tl x). scheme_char c"
      by (rule scheme_of_Some [OF m [unfolded browser_scheme_def]])
    have "\<forall>c \<in> set x. \<not> scheme_noise c"
      using r(2-4) scheme_char_clean by (cases x) auto
    then have "stripSchemeNoise u = x @ CHR '':'' # stripSchemeNoise r"
      using r(1) by (simp add: b) (simp add: stripSchemeNoise_def scheme_noise_def)
    then have "scheme_of (stripSchemeNoise u) = Some x" using scheme_of_app r(2-4) by simp
    then show ?thesis using assms(1,2) by (auto simp: safeUrl_def Let_def u [symmetric] split: if_splits)
  qed
  ultimately show ?thesis using u by (simp split: option.split)
qed

theorem safe_url_scheme_witness:
  "safeUrl (Some (JStr '' HTTPS://a.b'')) = ''HTTPS://a.b'' \<and> \<not> leaves_site ''HTTPS://a.b''"
proof -
  have s: "safeUrl (Some (JStr '' HTTPS://a.b'')) = ''HTTPS://a.b''" by code_simp
  have "\<not> js_prefix '' '' (stripSchemeNoise ''HTTPS://a.b'')" by code_simp
  from safe_url_scheme [OF s _ this] s show ?thesis by simp
qed

text \<open>
  A control character and a space in front defeat the check: the probe keeps the space, so no scheme is
  seen, while a browser drops both and reads \<open>javascript:\<close>.
\<close>

theorem safe_url_bypass:
  "let u = CHR 0x01 # '' javascript:'' @ script @ '';'' in
     safeUrl (Some (JStr u)) = u \<and> browser_scheme u = Some ''javascript'' \<and> ''javascript'' \<notin> set ALLOWED_SCHEMES"
proof -
  let ?u = "CHR 0x01 # '' javascript:'' @ script @ '';''"
  have "js_trim ?u = ?u"
    by (simp add: js_trim_def is_js_space_def Let_def)
  moreover have "stripSchemeNoise ?u = '' javascript:'' @ stripSchemeNoise (script @ '';'')"
    by (simp add: stripSchemeNoise_def scheme_noise_def Let_def)
  ultimately have "safeUrl (Some (JStr ?u)) = ?u"
    by (simp add: safeUrl_def Let_def scheme_of_def is_alpha_def)
  moreover have "browser_text ?u = ''javascript'' @ CHR '':'' # filter (\<lambda>c. c \<noteq> CHR 0x09 \<and> c \<noteq> CHR 0x0A \<and> c \<noteq> CHR 0x0D) (script @ '';'')"
    by (simp add: browser_text_def)
  then have "browser_scheme ?u = Some ''javascript''"
    unfolding browser_scheme_def by (simp only:) (rule scheme_of_app, simp_all add: scheme_char_def is_alnum_def is_alpha_def is_digit_def)
  moreover have "''javascript'' \<notin> set ALLOWED_SCHEMES" by code_simp
  ultimately show ?thesis by (simp add: Let_def)
qed

section \<open>Limits on designer trees\<close>

definition MAX_TREE_NODES :: nat where "MAX_TREE_NODES = 5000"
definition MAX_TREE_DEPTH :: nat where "MAX_TREE_DEPTH = 50"

definition too_deep :: "nat \<Rightarrow> press_error" where
  "too_deep maxDepth = PressError Validation (''Layout is nested too deeply (over '' @ nat_digits maxDepth @ '' levels)'')"

definition too_large :: "nat \<Rightarrow> press_error" where
  "too_large maxNodes = PressError Validation (''Layout is too large (over '' @ nat_digits maxNodes @ '' nodes)'')"

text \<open>The stack has its top in front.\<close>

type_synonym work_stack = "(json \<times> nat) list"

fun push_nodes :: "nat \<Rightarrow> json list \<Rightarrow> nat \<Rightarrow> work_stack \<times> nat \<Rightarrow> (work_stack \<times> nat) result" where
  "push_nodes maxNodes [] depth sc = Inr sc"
| "push_nodes maxNodes (node # arr) depth (stack, count) =
     (let count = count + 1 in
      if maxNodes < count then Inl (too_large maxNodes)
      else push_nodes maxNodes arr depth ((node, depth) # stack, count))"

definition enqueue :: "nat \<Rightarrow> nat \<Rightarrow> json list \<Rightarrow> nat \<Rightarrow> work_stack \<times> nat \<Rightarrow> (work_stack \<times> nat) result" where
  "enqueue maxNodes maxDepth arr depth sc =
     (if maxDepth < depth then Inl (too_deep maxDepth) else push_nodes maxNodes arr depth sc)"

definition node_children :: "json \<Rightarrow> json list option" where
  "node_children node =
     (case node of JObj kvs \<Rightarrow> (case map_of kvs ''children'' of Some (JArr cs) \<Rightarrow> Some cs | _ \<Rightarrow> None) | _ \<Rightarrow> None)"

fun weight :: "json \<Rightarrow> nat" where
  "weight (JArr vs) = Suc (sum_list (map weight vs))"
| "weight (JObj kvs) = Suc (sum_list (map (\<lambda>(k, v). weight v) kvs))"
| "weight v = 1"

lemma weight_children: "node_children node = Some cs \<Longrightarrow> sum_list (map weight cs) < weight node"
proof (cases node)
  case (JObj kvs)
  assume "node_children node = Some cs"
  then have "(''children'', JArr cs) \<in> set kvs"
    by (auto simp: node_children_def JObj split: option.splits json.splits dest: map_of_SomeD)
  then have "weight (JArr cs) \<le> sum_list (map (\<lambda>(k, v). weight v) kvs)"
    by (intro member_le_sum_list) (force, simp)
  then show ?thesis by (simp add: JObj)
qed (auto simp: node_children_def)

lemma push_nodes_eq:
  "push_nodes maxNodes arr depth (stack, count) =
     (if arr \<noteq> [] \<and> maxNodes < count + length arr then Inl (too_large maxNodes)
      else Inr (rev (map (\<lambda>n. (n, depth)) arr) @ stack, count + length arr))"
  by (induction arr arbitrary: stack count) (auto simp: Let_def)

lemma enqueue_weight:
  "enqueue maxNodes maxDepth cs depth (stack, count) = Inr (stack', count') \<Longrightarrow>
   sum_list (map (\<lambda>(n, d). weight n) stack') = sum_list (map weight cs) + sum_list (map (\<lambda>(n, d). weight n) stack)"
  by (auto simp: enqueue_def push_nodes_eq rev_map [symmetric] comp_def sum_list_rev split: if_splits)

text \<open>The loop of \<open>assertTreeWithinLimits\<close>.\<close>

function walk :: "nat \<Rightarrow> nat \<Rightarrow> work_stack \<Rightarrow> nat \<Rightarrow> unit result" where
  "walk maxNodes maxDepth [] count = Inr ()"
| "walk maxNodes maxDepth ((node, depth) # stack) count =
     (case node_children node of None \<Rightarrow> walk maxNodes maxDepth stack count
      | Some children \<Rightarrow>
        (case enqueue maxNodes maxDepth children (depth + 1) (stack, count) of Inl e \<Rightarrow> Inl e
         | Inr (stack, count) \<Rightarrow> walk maxNodes maxDepth stack count))"
  by pat_completeness auto
termination
proof (relation "measure (\<lambda>(_, _, stack, _). sum_list (map (\<lambda>(n, d). weight n) stack))", goal_cases)
  case (2 maxNodes maxDepth node depth stack count)
  have "0 < weight node" by (cases node) auto
  then show ?case by simp
next
  case (3 maxNodes maxDepth node depth stack count children sc stack' count')
  then show ?case using weight_children [of node children] enqueue_weight [of maxNodes maxDepth children "depth + 1" stack count] by (cases sc) simp
qed simp

definition assertTreeWithinLimits :: "json option \<Rightarrow> nat option \<Rightarrow> nat option \<Rightarrow> unit result" where
  "assertTreeWithinLimits nodes limNodes limDepth =
     (let maxNodes = (case limNodes of None \<Rightarrow> MAX_TREE_NODES | Some n \<Rightarrow> n);
          maxDepth = (case limDepth of None \<Rightarrow> MAX_TREE_DEPTH | Some n \<Rightarrow> n)
      in case nodes of Some (JArr arr) \<Rightarrow>
           (case enqueue maxNodes maxDepth arr 1 ([], 0) of Inl e \<Rightarrow> Inl e
            | Inr (stack, count) \<Rightarrow> walk maxNodes maxDepth stack count)
         | _ \<Rightarrow> Inr ())"

text \<open>The recursive reading of the limits: the nodes of a tree, and the levels of its \<open>children\<close> arrays.\<close>

function tree_nodes :: "json \<Rightarrow> nat" where
  "tree_nodes node = Suc (case node_children node of None \<Rightarrow> 0 | Some cs \<Rightarrow> sum_list (map tree_nodes cs))"
  by auto
termination
proof (relation "measure weight", goal_cases)
  case (2 node cs c)
  then have "weight c \<le> sum_list (map weight cs)" by (simp add: member_le_sum_list)
  then show ?case using weight_children 2 by fastforce
qed simp

function tree_levels :: "json \<Rightarrow> nat" where
  "tree_levels node = (case node_children node of None \<Rightarrow> 0 | Some cs \<Rightarrow> Suc (foldr max (map tree_levels cs) 0))"
  by auto
termination
proof (relation "measure weight", goal_cases)
  case (2 node cs c)
  then have "weight c \<le> sum_list (map weight cs)" by (simp add: member_le_sum_list)
  then show ?case using weight_children 2 by fastforce
qed simp

declare tree_nodes.simps [simp del] tree_levels.simps [simp del]

lemma foldr_max_le: "foldr max (map f xs) 0 \<le> (n :: nat) \<longleftrightarrow> (\<forall>x \<in> set xs. f x \<le> n)"
  by (induction xs) auto

lemma walk_iff:
  assumes "\<forall>(n, d) \<in> set stack. d \<le> maxDepth" "count \<le> maxNodes"
  shows "walk maxNodes maxDepth stack count = Inr () \<longleftrightarrow>
    (\<forall>(n, d) \<in> set stack. d + tree_levels n \<le> maxDepth) \<and>
    count + sum_list (map (\<lambda>(n, d). tree_nodes n - 1) stack) \<le> maxNodes"
  using assms
proof (induction maxNodes maxDepth stack count rule: walk.induct)
  case (2 maxNodes maxDepth node depth stack count)
  show ?case
  proof (cases "node_children node")
    case None
    then have "tree_levels node = 0" "tree_nodes node = 1" by (simp_all add: tree_levels.simps tree_nodes.simps)
    then show ?thesis using 2 None by simp
  next
    case (Some cs)
    have lev: "depth + tree_levels node \<le> maxDepth \<longleftrightarrow>
        depth < maxDepth \<and> (\<forall>c \<in> set cs. depth + 1 + tree_levels c \<le> maxDepth)"
    proof -
      have "depth + tree_levels node \<le> maxDepth \<longleftrightarrow> depth < maxDepth \<and> foldr max (map tree_levels cs) 0 \<le> maxDepth - Suc depth"
        using Some by (auto simp: tree_levels.simps [of node])
      then show ?thesis unfolding foldr_max_le by fastforce
    qed
    have pos: "0 < tree_nodes c" for c by (simp add: tree_nodes.simps)
    have nodes: "tree_nodes node - 1 = length cs + sum_list (map (\<lambda>c. tree_nodes c - 1) cs)"
    proof -
      have "sum_list (map tree_nodes xs) = length xs + sum_list (map (\<lambda>c. tree_nodes c - 1) xs)" for xs
        using pos by (induction xs) (auto simp: Suc_leI)
      then show ?thesis using Some by (simp add: tree_nodes.simps [of node])
    qed
    show ?thesis
    proof (cases "maxDepth < depth + 1 \<or> maxNodes < count + length cs")
      case True
      then have "walk maxNodes maxDepth ((node, depth) # stack) count \<noteq> Inr ()"
        using Some 2(4) by (auto simp: enqueue_def push_nodes_eq)
      then show ?thesis using True lev nodes by auto
    next
      case False
      let ?stack = "rev (map (\<lambda>n. (n, depth + 1)) cs) @ stack"
      have e: "enqueue maxNodes maxDepth cs (depth + 1) (stack, count) = Inr (?stack, count + length cs)"
        using False by (simp add: enqueue_def push_nodes_eq)
      have IH: "walk maxNodes maxDepth ?stack (count + length cs) = Inr () \<longleftrightarrow>
          (\<forall>(n, d) \<in> set ?stack. d + tree_levels n \<le> maxDepth) \<and>
          count + length cs + sum_list (map (\<lambda>(n, d). tree_nodes n - 1) ?stack) \<le> maxNodes"
      proof -
        have "\<forall>(n, d) \<in> set ?stack. d \<le> maxDepth" using 2(3) False by auto
        moreover have "count + length cs \<le> maxNodes" using False by simp
        ultimately show ?thesis by (rule 2(2) [OF Some e refl])
      qed
      have s: "sum_list (map (\<lambda>(n, d). tree_nodes n - 1) ?stack) =
          sum_list (map (\<lambda>c. tree_nodes c - 1) cs) + sum_list (map (\<lambda>(n, d). tree_nodes n - 1) stack)"
        by (simp add: rev_map [symmetric] comp_def sum_list_rev)
      have st: "(\<forall>(n, d) \<in> set ?stack. d + tree_levels n \<le> maxDepth) \<longleftrightarrow>
          (\<forall>c \<in> set cs. depth + 1 + tree_levels c \<le> maxDepth) \<and> (\<forall>(n, d) \<in> set stack. d + tree_levels n \<le> maxDepth)"
        by (simp add: ball_Un)
      have "walk maxNodes maxDepth ((node, depth) # stack) count = walk maxNodes maxDepth ?stack (count + length cs)"
        using Some e by simp
      moreover have "(\<forall>(n, d) \<in> set ((node, depth) # stack). d + tree_levels n \<le> maxDepth) \<longleftrightarrow>
          (\<forall>c \<in> set cs. depth + 1 + tree_levels c \<le> maxDepth) \<and> (\<forall>(n, d) \<in> set stack. d + tree_levels n \<le> maxDepth)"
        using lev False by simp
      moreover have "sum_list (map (\<lambda>(n, d). tree_nodes n - 1) ((node, depth) # stack)) =
          length cs + sum_list (map (\<lambda>(n, d). tree_nodes n - 1) ?stack)"
        unfolding s using nodes by simp
      ultimately show ?thesis using IH st by (simp only: add.assoc)
    qed
  qed
qed simp


text \<open>
  A leaf that carries an empty children array counts as one level more: a node on the deepest permitted
  level is refused for it.
\<close>

theorem tree_limits_empty_children:
  "assertTreeWithinLimits (Some (JArr [JObj [(''type'', JStr ''text'')]])) None (Some 1) = Inr () \<and>
   assertTreeWithinLimits (Some (JArr [JObj [(''type'', JStr ''text''), (''children'', JArr [])]])) None (Some 1) =
     Inl (too_deep 1)"
  by code_simp

end
