(* ===== verification/Blocks.thy ===== *)
theory Blocks
  imports Engine_Guards Access
begin

text \<open>
  Content blocks: the registry and the built-in block types of \<open>packages/engine/src/blocks/registry.ts\<close> and
  the sanitizer of \<open>blocks/sanitize.ts\<close>.  The sanitize-html package and the coercions \<open>String\<close> and \<open>Number\<close>
  of foreign values are the environment; a block is the JSON object that is stored.
\<close>

section \<open>Blocks and the registry\<close>

text \<open>The three option sets given to sanitize-html.\<close>

datatype html_policy = STRICT | RICH | TextOnly

record block_env =
  sanitizeHtml :: "html_policy \<Rightarrow> string \<Rightarrow> string"
  string_coerce :: "json \<Rightarrow> string"
  number_coerce :: "json option \<Rightarrow> int option"

text \<open>A block as \<open>asBlockNode\<close> reads it; children stay raw.\<close>

record raw_block =
  bl_type :: string
  bl_content :: "string option"
  bl_props :: "json option"
  bl_children :: "json list option"

record block_def =
  requiredCapability :: "string option"
  sanitize :: "raw_block \<Rightarrow> (string \<times> json) list result"

record block_registry =
  block_defs :: "(string \<times> block_def) list"
  block_disabled :: "string list"

definition register_block :: "string \<Rightarrow> block_def \<Rightarrow> block_registry \<Rightarrow> block_registry" where
  "register_block type d reg = reg\<lparr>block_defs := obj_set type d (block_defs reg)\<rparr>"

definition disable_block :: "string \<Rightarrow> block_registry \<Rightarrow> block_registry" where
  "disable_block type reg =
     reg\<lparr>block_disabled := (if type \<in> set (block_disabled reg) then block_disabled reg else block_disabled reg @ [type])\<rparr>"

definition enable_block :: "string \<Rightarrow> block_registry \<Rightarrow> block_registry" where
  "enable_block type reg = reg\<lparr>block_disabled := filter (\<lambda>t. t \<noteq> type) (block_disabled reg)\<rparr>"

definition isDisabled :: "string \<Rightarrow> block_registry \<Rightarrow> bool" where
  "isDisabled type reg \<longleftrightarrow> type \<in> set (block_disabled reg)"

definition textOnly :: "block_env \<Rightarrow> json option \<Rightarrow> string" where
  "textOnly env v = sanitizeHtml env TextOnly
     (case v of None \<Rightarrow> [] | Some JNull \<Rightarrow> [] | Some (JStr s) \<Rightarrow> s | Some x \<Rightarrow> string_coerce env x)"

text \<open>None for a number that is not finite; the model's numbers are integers, so \<open>Math.floor\<close> keeps them.\<close>

definition clampLevel :: "block_env \<Rightarrow> json option \<Rightarrow> int" where
  "clampLevel env v =
     (case (case v of Some (JNum n) \<Rightarrow> Some n | _ \<Rightarrow> number_coerce env v) of
        None \<Rightarrow> 2 | Some n \<Rightarrow> min 6 (max 1 n))"

text \<open>\<open>b.props?.["name"]\<close>; an array has no property of these names.\<close>

definition block_prop :: "string \<Rightarrow> raw_block \<Rightarrow> json option" where
  "block_prop name b = (case bl_props b of Some (JObj kvs) \<Rightarrow> map_of kvs name | _ \<Rightarrow> None)"

definition block_text :: "raw_block \<Rightarrow> string" where
  "block_text b = (case bl_content b of None \<Rightarrow> [] | Some s \<Rightarrow> s)"

definition html_block :: "block_env \<Rightarrow> string \<Rightarrow> html_policy \<Rightarrow> raw_block \<Rightarrow> (string \<times> json) list result" where
  "html_block env type policy b =
     Inr [(''type'', JStr type), (''content'', JStr (sanitizeHtml env policy (block_text b)))]"

definition builtinBlocks :: "block_env \<Rightarrow> (string \<times> block_def) list" where
  "builtinBlocks env =
     [(''paragraph'', \<lparr>requiredCapability = None, sanitize = html_block env ''paragraph'' STRICT\<rparr>),
      (''quote'', \<lparr>requiredCapability = None, sanitize = html_block env ''quote'' STRICT\<rparr>),
      (''heading'', \<lparr>requiredCapability = None, sanitize = \<lambda>b.
         Inr [(''type'', JStr ''heading''), (''props'', JObj [(''level'', JNum (clampLevel env (block_prop ''level'' b)))]),
              (''content'', JStr (textOnly env (map_option JStr (bl_content b))))]\<rparr>),
      (''image'', \<lparr>requiredCapability = None, sanitize = \<lambda>b.
         Inr [(''type'', JStr ''image''),
              (''props'', JObj [(''src'', JStr (safeUrl (block_prop ''src'' b))), (''alt'', JStr (textOnly env (block_prop ''alt'' b)))])]\<rparr>),
      (''code'', \<lparr>requiredCapability = None, sanitize = \<lambda>b.
         Inr [(''type'', JStr ''code''), (''props'', JObj [(''lang'', JStr (textOnly env (block_prop ''lang'' b)))]),
              (''content'', JStr (block_text b))]\<rparr>),
      (''html'', \<lparr>requiredCapability = Some ''content.rawhtml'', sanitize = html_block env ''html'' RICH\<rparr>),
      (''designer-layout'', \<lparr>requiredCapability = None, sanitize = \<lambda>b.
         let nodes = (case block_prop ''nodes'' b of Some (JArr ns) \<Rightarrow> ns | _ \<Rightarrow> []) in
         (case assertTreeWithinLimits (Some (JArr nodes)) None None of Inl e \<Rightarrow> Inl e
          | Inr _ \<Rightarrow> Inr [(''type'', JStr ''designer-layout''), (''props'', JObj [(''nodes'', JArr nodes)])])\<rparr>)]"

definition createBlockRegistry :: "(string \<times> block_def) list \<Rightarrow> block_registry" where
  "createBlockRegistry defs =
     foldl (\<lambda>reg (t, d). register_block t d reg) \<lparr>block_defs = [], block_disabled = []\<rparr> defs"

section \<open>Sanitizing\<close>

definition FALLBACK_BLOCK_TYPE :: string where "FALLBACK_BLOCK_TYPE = ''unsupported''"

definition asBlockNode :: "json \<Rightarrow> raw_block option" where
  "asBlockNode raw =
     (case raw of JObj obj \<Rightarrow>
        (case map_of obj ''type'' of Some (JStr t) \<Rightarrow>
           Some \<lparr>bl_type = t,
             bl_content = (case map_of obj ''content'' of Some (JStr s) \<Rightarrow> Some s | _ \<Rightarrow> None),
             bl_props = (case map_of obj ''props'' of Some (JObj p) \<Rightarrow> Some (JObj p) | Some (JArr p) \<Rightarrow> Some (JArr p) | _ \<Rightarrow> None),
             bl_children = (case map_of obj ''children'' of Some (JArr cs) \<Rightarrow> Some cs | _ \<Rightarrow> None)\<rparr>
         | _ \<Rightarrow> None)
      | _ \<Rightarrow> None)"

lemma asBlockNode_children: "asBlockNode raw = Some b \<Longrightarrow> bl_children b = node_children raw"
proof (cases raw)
  case (JObj obj)
  assume a: "asBlockNode raw = Some b"
  then obtain v where v: "map_of obj ''type'' = Some v" unfolding asBlockNode_def JObj json.case
    by (cases "map_of obj ''type''") simp_all
  then obtain t where "v = JStr t" using a unfolding asBlockNode_def JObj json.case v option.case by (cases v) simp_all
  then have "bl_children b = (case map_of obj ''children'' of Some (JArr cs) \<Rightarrow> Some cs | _ \<Rightarrow> None)"
    using a unfolding asBlockNode_def JObj json.case v option.case by auto
  then show ?thesis unfolding JObj node_children_def json.case .
qed (simp_all add: asBlockNode_def)

definition fallback :: "(string \<times> json) list \<Rightarrow> json" where
  "fallback props = JObj [(''type'', JStr FALLBACK_BLOCK_TYPE), (''props'', JObj props)]"

function sanitizeBlocks :: "block_registry \<Rightarrow> string list \<Rightarrow> json list \<Rightarrow> json list result" where
  "sanitizeBlocks reg caps [] = Inr []"
| "sanitizeBlocks reg caps (raw # blocks) =
     (case (case asBlockNode raw of
          None \<Rightarrow> Inr (fallback [(''reason'', JStr ''malformed'')])
        | Some block \<Rightarrow>
          (case map_of (block_defs reg) (bl_type block) of
             None \<Rightarrow> Inr (fallback [(''originalType'', JStr (bl_type block))])
           | Some d \<Rightarrow>
             if isDisabled (bl_type block) reg then Inr (fallback [(''originalType'', JStr (bl_type block))])
             else if (case requiredCapability d of None \<Rightarrow> False | Some c \<Rightarrow> c \<noteq> [] \<and> \<not> gate_check caps c)
             then Inl (PressError Capability_denied
                    (''Block '' @ [CHR 0x22] @ bl_type block @ [CHR 0x22] @ '' requires capability '' @ the (requiredCapability d)))
             else (case sanitize d block of Inl e \<Rightarrow> Inl e
               | Inr out \<Rightarrow>
                 (case bl_children block of None \<Rightarrow> Inr (JObj out)
                  | Some children \<Rightarrow>
                    (case sanitizeBlocks reg caps children of Inl e \<Rightarrow> Inl e
                     | Inr cs \<Rightarrow> Inr (JObj (obj_set ''children'' (JArr cs) out))))))) of
        Inl e \<Rightarrow> Inl e
      | Inr b \<Rightarrow> (case sanitizeBlocks reg caps blocks of Inl e \<Rightarrow> Inl e | Inr bs \<Rightarrow> Inr (b # bs)))"
  by pat_completeness auto
termination
proof (relation "measure (\<lambda>(_, _, blocks). sum_list (map weight blocks))", goal_cases)
  case (2 reg caps raw blocks block d out children)
  then have "node_children raw = Some children" using asBlockNode_children by metis
  then show ?case using weight_children [of raw children] by simp
next
  case (3 reg caps raw blocks b)
  have "0 < weight raw" by (cases raw) auto
  then show ?case by simp
qed simp

section \<open>What sanitized blocks are\<close>

text \<open>A property of the fields of a block, for a whole tree of blocks.\<close>

function block_tree :: "((string \<times> json) list \<Rightarrow> bool) \<Rightarrow> json \<Rightarrow> bool" where
  "block_tree P v =
     ((case v of JObj kvs \<Rightarrow> P kvs | _ \<Rightarrow> False) \<and>
      (case node_children v of None \<Rightarrow> True | Some cs \<Rightarrow> list_all (block_tree P) cs))"
  by auto
termination
proof (relation "measure (\<lambda>(_, v). weight v)", goal_cases)
  case (2 P v cs c)
  then have "weight c \<le> sum_list (map weight cs)" by (simp add: member_le_sum_list)
  then show ?case using weight_children 2 by fastforce
qed simp

declare block_tree.simps [simp del]

definition field_of :: "(string \<times> json) list \<Rightarrow> string \<Rightarrow> string \<Rightarrow> json option" where
  "field_of kvs p k = (case map_of kvs p of Some (JObj ps) \<Rightarrow> map_of ps k | _ \<Rightarrow> None)"

text \<open>
  A stored block is the fallback, or of a built-in type that is not disabled, with what its type promises:
  text through the strict policy, raw HTML only for a holder of the capability and through the broad
  policy, an image source that passed \<open>safeUrl\<close>, designer nodes within the limits.
\<close>

definition block_safe :: "block_env \<Rightarrow> string list \<Rightarrow> string list \<Rightarrow> (string \<times> json) list \<Rightarrow> bool" where
  "block_safe env disabled caps kvs =
     (case map_of kvs ''type'' of Some (JStr t) \<Rightarrow>
        t = FALLBACK_BLOCK_TYPE \<or>
        (t \<notin> set disabled \<and>
         (t = ''heading'' \<or> t = ''code'' \<or>
          ((t = ''paragraph'' \<or> t = ''quote'') \<and> map_of kvs ''content'' \<in> range (\<lambda>x. Some (JStr (sanitizeHtml env STRICT x)))) \<or>
          (t = ''html'' \<and> gate_check caps ''content.rawhtml'' \<and> map_of kvs ''content'' \<in> range (\<lambda>x. Some (JStr (sanitizeHtml env RICH x)))) \<or>
          (t = ''image'' \<and> field_of kvs ''props'' ''src'' \<in> range (\<lambda>x. Some (JStr (safeUrl x)))) \<or>
          (t = ''designer-layout'' \<and> assertTreeWithinLimits (field_of kvs ''props'' ''nodes'') None None = Inr ())))
      | _ \<Rightarrow> False)"

lemma block_safe_children: "block_safe env dis caps (obj_set ''children'' v kvs) = block_safe env dis caps kvs"
proof -
  have "map_of (obj_set ''children'' v kvs) k = map_of kvs k" if "k \<noteq> ''children''" for k
    using that by (simp add: map_of_obj_set)
  then have "map_of (obj_set ''children'' v kvs) ''type'' = map_of kvs ''type''"
    "map_of (obj_set ''children'' v kvs) ''content'' = map_of kvs ''content''"
    "map_of (obj_set ''children'' v kvs) ''props'' = map_of kvs ''props''" by simp_all
  then show ?thesis unfolding block_safe_def field_of_def by (simp only:)
qed

lemma builtin_capability:
  "map_of (builtinBlocks env) t = Some d \<Longrightarrow> requiredCapability d = None \<or> requiredCapability d = Some ''content.rawhtml''"
  by (drule map_of_SomeD) (auto simp: builtinBlocks_def)

lemma builtin_safe:
  assumes "map_of (builtinBlocks env) t = Some d" "sanitize d b = Inr kvs" "t \<notin> set dis"
    and "requiredCapability d = None \<or> (\<exists>c. requiredCapability d = Some c \<and> gate_check caps c)"
  shows "block_safe env dis caps kvs \<and> map_of kvs ''children'' = None"
proof -
  have types: "map fst (builtinBlocks env) =
      [''paragraph'', ''quote'', ''heading'', ''image'', ''code'', ''html'', ''designer-layout'']"
    unfolding builtinBlocks_def list.map fst_conv ..
  have "t \<in> set (map fst (builtinBlocks env))"
    using map_of_SomeD [OF assms(1)] by (metis fst_conv image_eqI list.set_map)
  then have "t = ''paragraph'' \<or> t = ''quote'' \<or> t = ''heading'' \<or> t = ''image'' \<or> t = ''code'' \<or> t = ''html'' \<or> t = ''designer-layout''"
    unfolding types list.set insert_iff empty_iff by (simp only: simp_thms)
  then show ?thesis
  proof (elim disjE)
    assume t1: "t = ''paragraph''"
    then have "sanitize d = html_block env ''paragraph'' STRICT" using assms(1) by (auto simp: builtinBlocks_def)
    then have "kvs = [(''type'', JStr ''paragraph''), (''content'', JStr (sanitizeHtml env STRICT (block_text b)))]"
      using assms(2) by (simp add: html_block_def)
    then show ?thesis using assms(3) t1 by (simp add: block_safe_def)
  next
    assume t2: "t = ''quote''"
    then have "sanitize d = html_block env ''quote'' STRICT" using assms(1) by (auto simp: builtinBlocks_def)
    then have "kvs = [(''type'', JStr ''quote''), (''content'', JStr (sanitizeHtml env STRICT (block_text b)))]"
      using assms(2) by (simp add: html_block_def)
    then show ?thesis using assms(3) t2 by (simp add: block_safe_def)
  next
    assume t3: "t = ''heading''"
    then have "map_of kvs ''type'' = Some (JStr ''heading'') \<and> map_of kvs ''children'' = None"
      using assms(1,2) by (auto simp: builtinBlocks_def)
    then show ?thesis using assms(3) t3 by (simp add: block_safe_def)
  next
    assume t4: "t = ''image''"
    then have "kvs = [(''type'', JStr ''image''), (''props'', JObj [(''src'', JStr (safeUrl (block_prop ''src'' b))),
        (''alt'', JStr (textOnly env (block_prop ''alt'' b)))])]"
      using assms(1,2) by (auto simp: builtinBlocks_def)
    then show ?thesis using assms(3) t4 by (simp add: block_safe_def field_of_def)
  next
    assume t5: "t = ''code''"
    then have "map_of kvs ''type'' = Some (JStr ''code'') \<and> map_of kvs ''children'' = None"
      using assms(1,2) by (auto simp: builtinBlocks_def)
    then show ?thesis using assms(3) t5 by (simp add: block_safe_def)
  next
    assume t6: "t = ''html''"
    then have d: "sanitize d = html_block env ''html'' RICH" "requiredCapability d = Some ''content.rawhtml''"
      using assms(1) by (auto simp: builtinBlocks_def)
    then have "kvs = [(''type'', JStr ''html''), (''content'', JStr (sanitizeHtml env RICH (block_text b)))]"
      using assms(2) by (simp add: html_block_def)
    then show ?thesis using assms(3,4) t6 d(2) by (simp add: block_safe_def)
  next
    assume t7: "t = ''designer-layout''"
    then obtain nodes where "assertTreeWithinLimits (Some (JArr nodes)) None None = Inr ()"
      "kvs = [(''type'', JStr ''designer-layout''), (''props'', JObj [(''nodes'', JArr nodes)])]"
      using assms(1,2) by (auto simp: builtinBlocks_def Let_def split: sum.splits)
    then show ?thesis using assms(3) t7 by (simp add: block_safe_def field_of_def)
  qed
qed

lemma block_tree_obj:
  "block_tree P (JObj kvs) \<longleftrightarrow> P kvs \<and>
     (case map_of kvs ''children'' of Some (JArr cs) \<Rightarrow> list_all (block_tree P) cs | _ \<Rightarrow> True)"
  by (subst block_tree.simps) (simp add: node_children_def split: option.split json.split)

lemma fallback_safe: "block_tree (block_safe env dis caps) (fallback props)"
  unfolding fallback_def block_tree_obj by (simp add: block_safe_def)

text \<open>One element of the list that is sanitized.\<close>

definition sanitize_one :: "block_registry \<Rightarrow> string list \<Rightarrow> json \<Rightarrow> json result" where
  "sanitize_one reg caps raw =
     (case sanitizeBlocks reg caps [raw] of Inl e \<Rightarrow> Inl e | Inr bs \<Rightarrow> Inr (hd bs))"

lemma sanitizeBlocks_Cons_iff:
  "sanitizeBlocks reg caps (raw # blocks) = Inr out \<longleftrightarrow>
     (\<exists>b bs. out = b # bs \<and> sanitize_one reg caps raw = Inr b \<and> sanitizeBlocks reg caps blocks = Inr bs)"
  unfolding sanitize_one_def sanitizeBlocks.simps by (auto split: sum.splits)

lemma sanitize_one_cases:
  assumes "sanitize_one reg caps raw = Inr b"
  obtains (Fallback) props where "b = fallback props"
  | (Block) block d kvs where "asBlockNode raw = Some block" "map_of (block_defs reg) (bl_type block) = Some d"
      "bl_type block \<notin> set (block_disabled reg)" "\<And>c. requiredCapability d = Some c \<Longrightarrow> c = [] \<or> gate_check caps c"
      "sanitize d block = Inr kvs"
      "case bl_children block of None \<Rightarrow> b = JObj kvs
       | Some cs \<Rightarrow> \<exists>out. sanitizeBlocks reg caps cs = Inr out \<and> b = JObj (obj_set ''children'' (JArr out) kvs)"
proof (cases "asBlockNode raw")
  case None
  then have "b = fallback [(''reason'', JStr ''malformed'')]" using assms by (simp add: sanitize_one_def)
  then show ?thesis by (rule Fallback)
next
  case (Some block)
  note n = this
  show ?thesis
  proof (cases "map_of (block_defs reg) (bl_type block)")
    case None
    then have "b = fallback [(''originalType'', JStr (bl_type block))]" using assms n by (simp add: sanitize_one_def)
    then show ?thesis by (rule Fallback)
  next
    case (Some d)
    show ?thesis
    proof (cases "isDisabled (bl_type block) reg")
      case True
      then have "b = fallback [(''originalType'', JStr (bl_type block))]" using assms n Some by (simp add: sanitize_one_def)
      then show ?thesis by (rule Fallback)
    next
      case False
      then show ?thesis using assms Block [OF n Some] n Some
        by (auto simp: sanitize_one_def isDisabled_def split: sum.splits option.splits if_splits)
    qed
  qed
qed

lemma sanitize_safe:
  assumes "block_defs reg = builtinBlocks env"
  shows "sanitizeBlocks reg caps blocks = Inr out \<Longrightarrow>
    length out = length blocks \<and> list_all (block_tree (block_safe env (block_disabled reg) caps)) out"
proof (induction "sum_list (map weight blocks)" arbitrary: blocks out rule: less_induct)
  case less
  let ?P = "block_safe env (block_disabled reg) caps"
  show ?case
  proof (cases blocks)
    case (Cons raw rest)
    obtain b bs where out: "out = b # bs" "sanitize_one reg caps raw = Inr b" "sanitizeBlocks reg caps rest = Inr bs"
      using less.prems unfolding Cons sanitizeBlocks_Cons_iff by blast
    have "0 < weight raw" by (cases raw) auto
    then have rest: "length bs = length rest \<and> list_all (block_tree ?P) bs"
      using less.hyps [OF _ out(3)] Cons by simp
    from out(2) have "block_tree ?P b"
    proof (cases rule: sanitize_one_cases)
      case (Fallback props)
      then show ?thesis by (simp add: fallback_safe)
    next
      case (Block block d kvs)
      have "requiredCapability d = None \<or> (\<exists>c. requiredCapability d = Some c \<and> gate_check caps c)"
        using Block(4) builtin_capability [OF Block(2) [unfolded assms]] by blast
      then have safe: "?P kvs" "map_of kvs ''children'' = None"
        using builtin_safe [OF Block(2) [unfolded assms] Block(5,3)] by blast+
      show ?thesis
      proof (cases "bl_children block")
        case None
        then show ?thesis using Block(6) safe by (simp add: block_tree_obj)
      next
        case (Some cs)
        then obtain cs' where cs: "sanitizeBlocks reg caps cs = Inr cs'" "b = JObj (obj_set ''children'' (JArr cs') kvs)"
          using Block(6) by auto
        have "node_children raw = Some cs" using asBlockNode_children [OF Block(1)] Some by simp
        then have "sum_list (map weight cs) < sum_list (map weight blocks)"
          using weight_children [of raw cs] Cons by simp
        from less.hyps [OF this cs(1)] have l: "list_all (block_tree ?P) cs'" ..
        have c: "map_of (obj_set ''children'' (JArr cs') kvs) ''children'' = Some (JArr cs')" by (simp only: map_of_obj_set fun_upd_same)
        show ?thesis unfolding cs(2) block_tree_obj block_safe_children c option.case json.case
          using safe(1) l by blast
      qed
    qed
    then show ?thesis using rest Cons out(1) by simp
  qed (use less.prems in simp)
qed

lemma foldl_register:
  "block_defs (foldl (\<lambda>reg (t, d). register_block t d reg) reg ds) = foldl (\<lambda>m (t, d). obj_set t d m) (block_defs reg) ds"
  "block_disabled (foldl (\<lambda>reg (t, d). register_block t d reg) reg ds) = block_disabled reg"
  by (induction ds arbitrary: reg) (auto simp: register_block_def)

lemma foldl_obj_set:
  "distinct (map fst m @ map fst ds) \<Longrightarrow> foldl (\<lambda>m (t, d). obj_set t d m) m ds = m @ ds"
proof (induction ds arbitrary: m)
  case (Cons td ds)
  obtain t d where td: "td = (t, d)" by force
  have "obj_set t d m = m @ [(t, d)]" using Cons.prems by (intro obj_set_new) (auto simp: td)
  then show ?case using Cons by (simp add: td)
qed simp

lemma builtin_registry:
  "block_defs (createBlockRegistry (builtinBlocks env)) = builtinBlocks env"
proof -
  have "map fst (builtinBlocks env) = [''paragraph'', ''quote'', ''heading'', ''image'', ''code'', ''html'', ''designer-layout'']"
    unfolding builtinBlocks_def list.map fst_conv ..
  then have "distinct (map fst (builtinBlocks env))" by simp
  then show ?thesis by (simp add: createBlockRegistry_def foldl_register foldl_obj_set)
qed

lemma disable_defs [simp]: "block_defs (disable_block t reg) = block_defs reg" "block_defs (enable_block t reg) = block_defs reg"
  by (simp_all add: disable_block_def enable_block_def)


definition toy_blocks :: block_env where
  "toy_blocks = \<lparr>sanitizeHtml = \<lambda>p s. filter (\<lambda>c. c \<noteq> CHR ''<'') s, string_coerce = \<lambda>_. [], number_coerce = \<lambda>_. None\<rparr>"


end
