(* ===== verification/Content.thy ===== *)
theory Content
  imports Scheduler Sensitive Blocks
begin

text \<open>
  The content service, \<open>packages/engine/src/content-service.ts\<close>, with its state machine
  (\<open>state-machine.ts\<close>) and field schemas (\<open>schema.ts\<close>): types, entries and their revisions.  The state
  extends that of the scheduler, which shares the storage and the audit trail; the vault is part of it.
  The zod package, \<open>Date.parse\<close>, the prebuilt pages and characters outside Latin-1 are the environment.
  A call takes its random values and clock readings as sequences.
\<close>

section \<open>Records\<close>

datatype content_status = Draft | In_review | Scheduled | Published | Archived

record content_type =
  ct_id :: string
  ct_name :: string
  ct_slug :: string
  ct_fields :: "field_def list"
  ct_createdAt :: string

record content_entry =
  ce_id :: string
  typeId :: string
  slug :: string
  ce_locale :: string
  status :: content_status
  authorId :: string
  currentRevision :: int
  publishedAt :: "string option"
  scheduledFor :: "string option"
  ce_createdAt :: string
  ce_updatedAt :: string
  system :: bool
  requiresMembership :: bool

record revision =
  rev_id :: string
  entryId :: string
  version :: int
  rev_fields :: obj
  rev_blocks :: "json list"
  editorId :: string
  rev_createdAt :: string

record content_state = sched_state +
  ctypes :: "content_type coll"
  entries :: "content_entry coll"
  revisions :: "revision coll"
  secrets :: "secrets_backend option"

text \<open>The schemas that are built, and what a parse gives: the data it keeps, or nothing.\<close>

datatype zod_base = ZNumber | ZBoolean | ZEnum "string list" | ZString

type_synonym zod_shape = "(string \<times> zod_base \<times> bool) list"

record content_env =
  crypto :: crypto_env
  secret_mask :: string
  ellipsis :: string
  safeParse :: "zod_shape \<Rightarrow> json \<Rightarrow> obj option"
  date_parse :: "string \<Rightarrow> int option"
  prebuilt :: "string \<Rightarrow> (string \<times> json list) option"
  blocks :: block_registry
  has_scheduler :: bool

definition DEFAULT_LOCALE :: string where "DEFAULT_LOCALE = ''en''"

text \<open>\<open>/^[a-z0-9]+(?:-[a-z0-9]+)*$/\<close>: parts between dashes, none of them empty.\<close>

definition SLUG_RE :: "string \<Rightarrow> bool" where
  "SLUG_RE s = list_all (\<lambda>part. part \<noteq> [] \<and> list_all (\<lambda>c. is_digit c \<or> (is_alpha c \<and> char_lower c = c)) part)
     (js_split (CHR ''-'') s)"

definition revisionId :: "string \<Rightarrow> int \<Rightarrow> string" where
  "revisionId i v = i @ ''.'' @ int_string v"

section \<open>The state machine\<close>

fun TRANSITIONS :: "content_status \<Rightarrow> content_status list" where
  "TRANSITIONS Draft = [In_review, Scheduled, Published]"
| "TRANSITIONS In_review = [Draft, Scheduled, Published]"
| "TRANSITIONS Scheduled = [Published, Draft]"
| "TRANSITIONS Published = [Draft, Archived]"
| "TRANSITIONS Archived = [Draft]"

definition isAllowedTransition :: "content_status \<Rightarrow> content_status \<Rightarrow> bool" where
  "isAllowedTransition f t \<longleftrightarrow> t \<in> set (TRANSITIONS f)"

fun capabilityForTransition :: "content_status \<Rightarrow> string" where
  "capabilityForTransition In_review = ''content.submit''"
| "capabilityForTransition Scheduled = ''content.publish''"
| "capabilityForTransition Published = ''content.publish''"
| "capabilityForTransition Archived = ''content.publish''"
| "capabilityForTransition Draft = ''content.update''"

fun status_text :: "content_status \<Rightarrow> string" where
  "status_text Draft = ''draft''" | "status_text In_review = ''in_review''" | "status_text Scheduled = ''scheduled''"
| "status_text Published = ''published''" | "status_text Archived = ''archived''"

section \<open>Schemas\<close>

definition fieldToZod :: "field_def \<Rightarrow> zod_base \<times> bool" where
  "fieldToZod fd =
     ((case fd_type fd of FNumber \<Rightarrow> ZNumber | FBoolean \<Rightarrow> ZBoolean
       | FSelect \<Rightarrow> (let options = (case fd_options fd of None \<Rightarrow> [] | Some os \<Rightarrow> os) in
           if 0 < length options then ZEnum options else ZString)
       | _ \<Rightarrow> ZString), \<not> fd_required fd)"

definition buildSchema :: "field_def list \<Rightarrow> zod_shape" where
  "buildSchema defs = foldl (\<lambda>shape fd. obj_set (fd_name fd) (fieldToZod fd) shape) [] defs"

definition validateFields :: "content_env \<Rightarrow> field_def list \<Rightarrow> json \<Rightarrow> obj result" where
  "validateFields env defs data =
     (case safeParse env (buildSchema defs) data of
        None \<Rightarrow> Inl (PressError Validation ''Field validation failed'') | Some d \<Rightarrow> Inr d)"

section \<open>Rows\<close>

definition put_type :: "content_type \<Rightarrow> content_state \<Rightarrow> content_state" where
  "put_type t st = st\<lparr>ctypes := tab_put (ct_id t) t (ctypes st)\<rparr>"

definition put_entry :: "content_entry \<Rightarrow> content_state \<Rightarrow> content_state" where
  "put_entry e st = st\<lparr>entries := tab_put (ce_id e) e (entries st)\<rparr>"

definition put_revision :: "revision \<Rightarrow> content_state \<Rightarrow> content_state" where
  "put_revision r st = st\<lparr>revisions := tab_put (rev_id r) r (revisions st)\<rparr>"

definition requireType :: "string \<Rightarrow> content_state \<Rightarrow> content_type result" where
  "requireType i st =
     (case c_get i (ctypes st) of Inl e \<Rightarrow> Inl e
      | Inr None \<Rightarrow> Inl (PressError Not_found (''Content type not found: '' @ i)) | Inr (Some t) \<Rightarrow> Inr t)"

definition requireEntry :: "string \<Rightarrow> content_state \<Rightarrow> content_entry result" where
  "requireEntry i st =
     (case c_get i (entries st) of Inl e \<Rightarrow> Inl e
      | Inr None \<Rightarrow> Inl (PressError Not_found (''Content entry not found: '' @ i)) | Inr (Some e) \<Rightarrow> Inr e)"

definition addRevision :: "string \<Rightarrow> obj \<Rightarrow> json list \<Rightarrow> string \<Rightarrow> int \<Rightarrow> int \<Rightarrow> content_state \<Rightarrow> content_state" where
  "addRevision i data bs editor v now st =
     put_revision \<lparr>rev_id = revisionId i v, entryId = i, version = v, rev_fields = data, rev_blocks = bs,
       editorId = editor, rev_createdAt = iso_string now\<rparr> st"

definition getEntry :: "string \<Rightarrow> content_state \<Rightarrow> content_entry option result" where
  "getEntry i st = c_get i (entries st)"

definition getType :: "string \<Rightarrow> content_state \<Rightarrow> content_type option result" where
  "getType i st = c_get i (ctypes st)"

definition getRevision :: "string \<Rightarrow> int \<Rightarrow> content_state \<Rightarrow> revision option result" where
  "getRevision i v st = c_get (revisionId i v) (revisions st)"

text \<open>One page only, of the default size.\<close>

definition listRevisions :: "string \<Rightarrow> content_state \<Rightarrow> revision list" where
  "listRevisions i st = js_sort (\<lambda>a b. version a - version b) (c_query (\<lambda>r. entryId r = i) None (revisions st))"

definition resolveBySlug :: "string \<Rightarrow> string \<Rightarrow> bool \<Rightarrow> content_state \<Rightarrow> content_entry option" where
  "resolveBySlug s loc publicOnly st =
     (case first_item (c_query (\<lambda>e. slug e = s \<and> ce_locale e = loc) None (entries st)) of
        None \<Rightarrow> None
      | Some e \<Rightarrow> if publicOnly \<and> status e \<noteq> Published then None else Some e)"

definition publishedLocalesForSlug :: "string \<Rightarrow> content_state \<Rightarrow> string list" where
  "publishedLocalesForSlug s st =
     sort (js_unique (map ce_locale (filter (\<lambda>e. status e = Published \<and> \<not> system e)
       (c_query (\<lambda>e. slug e = s) None (entries st)))))"

section \<open>Operations\<close>

definition quoted :: "string \<Rightarrow> string" where
  "quoted s = [CHR 0x22] @ s @ [CHR 0x22]"

fun check_type_fields :: "string list \<Rightarrow> field_def list \<Rightarrow> unit result" where
  "check_type_fields names [] = Inr ()"
| "check_type_fields names (fd # fds) =
     (if fd_name fd \<in> set names then Inl (PressError Validation (''Duplicate field name: '' @ fd_name fd))
      else if fd_type fd = FSelect \<and> length (case fd_options fd of None \<Rightarrow> [] | Some os \<Rightarrow> os) = 0
      then Inl (PressError Validation (''Select field '' @ quoted (fd_name fd) @ '' requires options''))
      else check_type_fields (fd_name fd # names) fds)"

definition createType ::
  "string list \<Rightarrow> string \<Rightarrow> string \<Rightarrow> field_def list \<Rightarrow> string \<Rightarrow> int \<Rightarrow> (content_state, content_type) action" where
  "createType caps name s fds uuid now st =
     (case gate_assert caps ''types.manage'' of Inl e \<Rightarrow> (Inl e, st)
      | Inr _ \<Rightarrow>
        if \<not> SLUG_RE s then (Inl (PressError Validation (''Invalid type slug: '' @ s)), st)
        else (case check_type_fields [] fds of Inl e \<Rightarrow> (Inl e, st)
          | Inr _ \<Rightarrow>
            let t = \<lparr>ct_id = uuid, ct_name = name, ct_slug = s, ct_fields = fds, ct_createdAt = iso_string now\<rparr>
            in (Inr t, log_job (event ''type.create'' None [(''typeId'', DStr uuid), (''slug'', DStr s)]) (put_type t st))))"

definition protect_fields ::
  "content_env \<Rightarrow> (nat \<Rightarrow> string \<times> string) \<Rightarrow> content_type \<Rightarrow> obj \<Rightarrow> obj option \<Rightarrow> (content_state, obj) action" where
  "protect_fields env rnd type validated prior st =
     (case protectSensitive (crypto env) (secret_mask env) rnd validated (ct_fields type) prior (secrets st) of
        (r, sec) \<Rightarrow> (r, st\<lparr>secrets := sec\<rparr>))"

record create_input =
  in_typeId :: string
  in_slug :: string
  in_authorId :: string
  in_fields :: json
  in_blocks :: "json list option"
  in_locale :: "string option"

definition createEntry ::
  "content_env \<Rightarrow> string list \<Rightarrow> create_input \<Rightarrow> string \<Rightarrow> (nat \<Rightarrow> string \<times> string) \<Rightarrow> (nat \<Rightarrow> int) \<Rightarrow>
   (content_state, content_entry) action" where
  "createEntry env caps inp uuid rnd clk st =
     (case gate_assert caps ''content.create'' of Inl e \<Rightarrow> (Inl e, st)
      | Inr _ \<Rightarrow>
        if \<not> SLUG_RE (in_slug inp) then (Inl (PressError Validation (''Invalid slug: '' @ in_slug inp)), st)
        else let loc = (case in_locale inp of None \<Rightarrow> DEFAULT_LOCALE | Some l \<Rightarrow> l) in
        case requireType (in_typeId inp) st of Inl e \<Rightarrow> (Inl e, st)
        | Inr type \<Rightarrow>
          (case validateFields env (ct_fields type) (in_fields inp) of Inl e \<Rightarrow> (Inl e, st)
           | Inr validated \<Rightarrow>
          (case protect_fields env rnd type validated None st of (Inl e, st) \<Rightarrow> (Inl e, st)
           | (Inr data, st) \<Rightarrow>
             (case sanitizeBlocks (blocks env) caps (case in_blocks inp of None \<Rightarrow> [] | Some bs \<Rightarrow> bs) of
                Inl e \<Rightarrow> (Inl e, st)
              | Inr bs \<Rightarrow>
                if c_query (\<lambda>e. slug e = in_slug inp \<and> ce_locale e = loc) None (entries st) \<noteq> []
                then (Inl (PressError Conflict (''Slug '' @ quoted (in_slug inp) @ '' already exists for locale '' @ loc)), st)
                else let e = \<lparr>ce_id = uuid, typeId = in_typeId inp, slug = in_slug inp, ce_locale = loc, status = Draft,
                         authorId = in_authorId inp, currentRevision = 1, publishedAt = None, scheduledFor = None,
                         ce_createdAt = iso_string (clk 0), ce_updatedAt = iso_string (clk 1), system = False,
                         requiresMembership = False\<rparr>;
                       st = put_entry e st;
                       st = addRevision uuid data bs (in_authorId inp) 1 (clk 2) st
                     in (Inr e, log_job (event ''content.create'' (Some (in_authorId inp))
                          [(''entryId'', DStr uuid), (''typeId'', DStr (typeId e)), (''slug'', DStr (slug e)), (''locale'', DStr loc)]) st)))))"

definition saveEntry ::
  "content_env \<Rightarrow> string list \<Rightarrow> string \<Rightarrow> json \<Rightarrow> json list option \<Rightarrow> string \<Rightarrow> (nat \<Rightarrow> string \<times> string) \<Rightarrow> (nat \<Rightarrow> int) \<Rightarrow>
   (content_state, content_entry) action" where
  "saveEntry env caps i data inp_blocks editor rnd clk st =
     (case gate_assert caps ''content.update'' of Inl e \<Rightarrow> (Inl e, st)
      | Inr _ \<Rightarrow>
        (case requireEntry i st of Inl e \<Rightarrow> (Inl e, st)
         | Inr e \<Rightarrow>
           (case requireType (typeId e) st of Inl er \<Rightarrow> (Inl er, st)
            | Inr type \<Rightarrow>
              (case validateFields env (ct_fields type) data of Inl er \<Rightarrow> (Inl er, st)
               | Inr validated \<Rightarrow>
              (case getRevision i (currentRevision e) st of Inl er \<Rightarrow> (Inl er, st)
               | Inr prior \<Rightarrow>
                 (case protect_fields env rnd type validated (map_option rev_fields prior) st of (Inl er, st) \<Rightarrow> (Inl er, st)
                  | (Inr data, st) \<Rightarrow>
                    (case sanitizeBlocks (blocks env) caps (case inp_blocks of None \<Rightarrow> [] | Some bs \<Rightarrow> bs) of
                       Inl er \<Rightarrow> (Inl er, st)
                     | Inr bs \<Rightarrow>
                       let v = currentRevision e + 1;
                           st = addRevision (ce_id e) data bs editor v (clk 0) st;
                           e = e\<lparr>currentRevision := v, ce_updatedAt := iso_string (clk 1)\<rparr>
                       in (Inr e, log_job (event ''content.update'' (Some editor)
                            [(''entryId'', DStr (ce_id e)), (''version'', DNum v)]) (put_entry e st)))))))))"

definition quiet_env :: "'a sched_env" where
  "quiet_env = \<lparr>handlers = [], maxAttempts = 3, audit_throws = \<lambda>_. None\<rparr>"

definition PUBLISH_JOB_TYPE :: string where "PUBLISH_JOB_TYPE = ''content.publish''"

definition transition ::
  "content_env \<Rightarrow> string list \<Rightarrow> string \<Rightarrow> content_status \<Rightarrow> string option \<Rightarrow> string \<Rightarrow> (nat \<Rightarrow> int) \<Rightarrow>
   (content_state, content_entry) action" where
  "transition env caps i to opt uuid clk st =
     (case gate_assert caps (capabilityForTransition to) of Inl e \<Rightarrow> (Inl e, st)
      | Inr _ \<Rightarrow>
        (case requireEntry i st of Inl er \<Rightarrow> (Inl er, st)
         | Inr e \<Rightarrow>
           if system e \<and> to \<noteq> Published
           then (Inl (PressError Conflict ''System layout pages cannot be unpublished or archived''), st)
           else if \<not> isAllowedTransition (status e) to
           then (Inl (PressError Conflict (''Illegal transition: '' @ status_text (status e) @ '' -> '' @ status_text to)), st)
           else if to = Scheduled \<and> (case opt of None \<Rightarrow> True | Some s \<Rightarrow> s = [])
           then (Inl (PressError Validation ''Scheduling requires a scheduledFor timestamp''), st)
           else let from = status e;
                    e = e\<lparr>status := to\<rparr>;
                    e = (case to of
                           Published \<Rightarrow> e\<lparr>publishedAt := Some (iso_string (clk 0)), scheduledFor := None\<rparr>
                         | Scheduled \<Rightarrow> e\<lparr>scheduledFor := opt\<rparr>
                         | Draft \<Rightarrow> e\<lparr>publishedAt := None\<rparr>
                         | _ \<Rightarrow> e);
                    e = e\<lparr>ce_updatedAt := iso_string (clk 1)\<rparr>;
                    st = put_entry e st;
                    st = (if to = Scheduled \<and> has_scheduler env
                          then snd (schedule quiet_env PUBLISH_JOB_TYPE (Some (date_parse env (the opt)))
                                 (Some (JObj [(''entryId'', JStr (ce_id e))])) uuid (clk 2) (clk 3) st)
                          else st)
                in (Inr e, log_job (event ''content.transition'' None
                     [(''entryId'', DStr (ce_id e)), (''from'', DStr (status_text from)), (''to'', DStr (status_text to))]) st)))"

definition restoreRevision ::
  "string list \<Rightarrow> string \<Rightarrow> int \<Rightarrow> string \<Rightarrow> (nat \<Rightarrow> int) \<Rightarrow> (content_state, content_entry) action" where
  "restoreRevision caps i v editor clk st =
     (case gate_assert caps ''content.update'' of Inl e \<Rightarrow> (Inl e, st)
      | Inr _ \<Rightarrow>
        (case requireEntry i st of Inl er \<Rightarrow> (Inl er, st)
         | Inr e \<Rightarrow>
           (case getRevision i v st of Inl er \<Rightarrow> (Inl er, st)
            | Inr None \<Rightarrow> (Inl (PressError Not_found (''Revision not found: '' @ int_string v)), st)
            | Inr (Some source) \<Rightarrow>
              let newVersion = currentRevision e + 1;
                  st = addRevision (ce_id e) (rev_fields source) (rev_blocks source) editor newVersion (clk 0) st;
                  e = e\<lparr>currentRevision := newVersion, ce_updatedAt := iso_string (clk 1)\<rparr>
              in (Inr e, log_job (event ''content.restore'' (Some editor)
                   [(''entryId'', DStr (ce_id e)), (''fromVersion'', DNum v), (''newVersion'', DNum newVersion)])
                   (put_entry e st)))))"

section \<open>Search\<close>

definition SEARCH_SCAN_CAP :: int where "SEARCH_SCAN_CAP = 500"
definition EXCERPT_RADIUS :: nat where "EXCERPT_RADIUS = 80"

record search_hit =
  hit_slug :: string
  hit_title :: string
  hit_excerpt :: string
  hit_locale :: string

fun collectText :: "nat \<Rightarrow> json \<Rightarrow> string list" where
  "collectText depth (JStr s) = (if 6 < depth then [] else [s])"
| "collectText depth (JArr vs) = (if 6 < depth then [] else concat (map (collectText (Suc depth)) vs))"
| "collectText depth (JObj kvs) =
     (if 6 < depth then [] else if ''$enc'' \<in> fst ` set kvs then []
      else concat (map (\<lambda>(k, v). collectText (Suc depth) v) kvs))"
| "collectText depth v = []"

text \<open>\<open>replace(/<[^>]*>/g, " ")\<close>: from a \<open><\<close> to the next \<open>>\<close>, if there is one.\<close>

function strip_tags :: "string \<Rightarrow> string" where
  "strip_tags [] = []"
| "strip_tags (c # s) =
     (if c = CHR ''<''
      then (case dropWhile (\<lambda>d. d \<noteq> CHR ''>'') s of [] \<Rightarrow> c # strip_tags s | _ # r \<Rightarrow> CHR '' '' # strip_tags r)
      else c # strip_tags s)"
  by pat_completeness auto
termination
proof (relation "measure length", goal_cases)
  case (3 c s d r)
  have "length (dropWhile (\<lambda>d. d \<noteq> CHR ''>'') s) \<le> length s" by (rule length_dropWhile_le)
  then show ?case using 3(2) by simp
qed simp_all

function squash_spaces :: "string \<Rightarrow> string" where
  "squash_spaces [] = []"
| "squash_spaces (c # s) =
     (if is_js_space c then CHR '' '' # squash_spaces (dropWhile is_js_space s) else c # squash_spaces s)"
  by pat_completeness auto
termination by (relation "measure length") (simp_all add: le_imp_less_Suc length_dropWhile_le)

definition buildSearchText :: "string \<Rightarrow> obj \<Rightarrow> json list \<Rightarrow> string" where
  "buildSearchText title data bs =
     js_trim (squash_spaces (strip_tags (js_join '' '' ([title] @ collectText 0 (JObj data) @ collectText 0 (JArr bs)))))"

fun text_index :: "string \<Rightarrow> string \<Rightarrow> nat option" where
  "text_index [] q = (if q = [] then Some 0 else None)"
| "text_index (c # s) q = (if js_prefix q (c # s) then Some 0 else map_option Suc (text_index s q))"

definition makeExcerpt :: "string \<Rightarrow> string \<Rightarrow> nat \<Rightarrow> nat \<Rightarrow> string" where
  "makeExcerpt dots text at_ix len =
     (let start = at_ix - EXCERPT_RADIUS; stop = min (length text) (at_ix + len + EXCERPT_RADIUS)
      in (if 0 < start then dots else []) @ js_trim (take (stop - start) (drop start text)) @
         (if stop < length text then dots else []))"

definition entry_title :: "content_entry \<Rightarrow> revision \<Rightarrow> string" where
  "entry_title e r = (case map_of (rev_fields r) ''title'' of Some (JStr t) \<Rightarrow> t | _ \<Rightarrow> slug e)"

fun search_loop ::
  "content_env \<Rightarrow> string \<Rightarrow> nat \<Rightarrow> content_state \<Rightarrow> content_entry list \<Rightarrow> search_hit list \<Rightarrow> search_hit list result" where
  "search_loop env q limit st [] hits = Inr hits"
| "search_loop env q limit st (e # es) hits =
     (if system e then search_loop env q limit st es hits
      else case getRevision (ce_id e) (currentRevision e) st of Inl er \<Rightarrow> Inl er
      | Inr None \<Rightarrow> search_loop env q limit st es hits
      | Inr (Some r) \<Rightarrow>
          (let title = entry_title e r; text = buildSearchText title (rev_fields r) (rev_blocks r) in
           case text_index (js_lower text) q of None \<Rightarrow> search_loop env q limit st es hits
           | Some ix \<Rightarrow>
               (let hits = hits @ [\<lparr>hit_slug = slug e, hit_title = title,
                      hit_excerpt = makeExcerpt (ellipsis env) text ix (length q), hit_locale = ce_locale e\<rparr>]
                in if limit \<le> length hits then Inr hits else search_loop env q limit st es hits)))"

definition searchPublished ::
  "content_env \<Rightarrow> string \<Rightarrow> int option \<Rightarrow> string option \<Rightarrow> content_state \<Rightarrow> search_hit list result" where
  "searchPublished env query lm loc st =
     (let q = js_lower (js_trim query) in
      if q = [] then Inr []
      else let limit = min (max 1 (case lm of None \<Rightarrow> 20 | Some n \<Rightarrow> n)) 50 in
        search_loop env q (nat limit) st
          (c_query (\<lambda>e. status e = Published \<and> (case loc of None \<Rightarrow> True | Some l \<Rightarrow> l = [] \<or> ce_locale e = l))
             (Some SEARCH_SCAN_CAP) (entries st)) [])"

section \<open>System pages\<close>

definition system_slugs :: "string list" where
  "system_slugs = [''header'', ''footer'', ''home'', ''404'', ''500'', ''maintenance'']"

text \<open>One round of the loop; its random value is the id of a page that is created.\<close>

definition ensure_page ::
  "content_env \<Rightarrow> string \<Rightarrow> string \<Rightarrow> string \<Rightarrow> string \<Rightarrow> (nat \<Rightarrow> int) \<Rightarrow> content_state \<Rightarrow> content_state" where
  "ensure_page env owner tid s uuid clk st =
     (case resolveBySlug s DEFAULT_LOCALE False st of
        Some e \<Rightarrow>
          if system e then st
          else let e = e\<lparr>system := True, ce_updatedAt := iso_string (clk 0)\<rparr>
            in log_job (event ''content.system.adopt'' (Some owner) [(''slug'', DStr s), (''entryId'', DStr (ce_id e))]) (put_entry e st)
      | None \<Rightarrow>
          let e = \<lparr>ce_id = uuid, typeId = tid, slug = s, ce_locale = DEFAULT_LOCALE, status = Published, authorId = owner,
                currentRevision = 1, publishedAt = Some (iso_string (clk 0)), scheduledFor = None,
                ce_createdAt = iso_string (clk 1), ce_updatedAt = iso_string (clk 2), system = True, requiresMembership = False\<rparr>;
              label = (case prebuilt env s of None \<Rightarrow> s | Some (title, _) \<Rightarrow> title);
              bs = (case prebuilt env s of None \<Rightarrow> []
                    | Some (_, nodes) \<Rightarrow> [JObj [(''type'', JStr ''designer-layout''), (''props'', JObj [(''nodes'', JArr nodes)])]]);
              st = put_entry e st;
              st = addRevision uuid [(''title'', JStr label)] bs owner 1 (clk 3) st
          in log_job (event ''content.system.ensure'' (Some owner) [(''slug'', DStr s), (''entryId'', DStr uuid)]) st)"

fun ensure_pages ::
  "content_env \<Rightarrow> string \<Rightarrow> string \<Rightarrow> (nat \<Rightarrow> string) \<Rightarrow> (nat \<Rightarrow> nat \<Rightarrow> int) \<Rightarrow> nat \<Rightarrow> string list \<Rightarrow> content_state \<Rightarrow> content_state" where
  "ensure_pages env owner tid uuids clk n [] st = st"
| "ensure_pages env owner tid uuids clk n (s # ss) st =
     ensure_pages env owner tid uuids clk (Suc n) ss (ensure_page env owner tid s (uuids n) (clk n) st)"

definition page_type :: "string \<Rightarrow> int \<Rightarrow> content_type" where
  "page_type uuid now =
     \<lparr>ct_id = uuid, ct_name = ''Page'', ct_slug = ''page'',
      ct_fields = [\<lparr>fd_id = ''f0'', fd_name = ''title'', fd_type = FText, fd_required = True, fd_options = None, fd_sensitive = False\<rparr>],
      ct_createdAt = iso_string now\<rparr>"

definition ensureSystemPages ::
  "content_env \<Rightarrow> string \<Rightarrow> (nat \<Rightarrow> string) \<Rightarrow> (nat \<Rightarrow> nat \<Rightarrow> int) \<Rightarrow> content_state \<Rightarrow> content_state" where
  "ensureSystemPages env owner uuids clk st =
     (case first_item (c_query (\<lambda>t. ct_slug t = ''page'') None (ctypes st)) of
        Some t \<Rightarrow> ensure_pages env owner (ct_id t) uuids clk 0 system_slugs st
      | None \<Rightarrow>
          let t = page_type (uuids 6) (clk 6 0)
          in ensure_pages env owner (ct_id t) uuids clk 0 system_slugs (put_type t st))"

section \<open>Publishing at the scheduled time\<close>

text \<open>
  The handler that \<open>apps/studio/src/server.ts\<close> registers: a failed transition is swallowed; the empty id is falsy.
  The clock readings of the transition are those of a fixed sequence.
\<close>

definition publish_handler :: "content_env \<Rightarrow> (nat \<Rightarrow> int) \<Rightarrow> json \<Rightarrow> content_state \<Rightarrow> string option \<times> content_state" where
  "publish_handler env clk pl st =
     (case pl of
        JNull \<Rightarrow> (Some ''Cannot read properties of null'', st)
      | JObj kvs \<Rightarrow>
          (case map_of kvs ''entryId'' of
             Some (JStr i) \<Rightarrow>
               if i = [] then (None, st)
               else (None, snd (transition env [''content.publish''] i Published None [] clk st))
           | _ \<Rightarrow> (None, st))
      | _ \<Rightarrow> (None, st))"

definition studio_jobs :: "content_env \<Rightarrow> (nat \<Rightarrow> int) \<Rightarrow> unit content_state_ext sched_env" where
  "studio_jobs env clk = register_handler PUBLISH_JOB_TYPE (publish_handler env clk)
     \<lparr>handlers = [], maxAttempts = 3, audit_throws = \<lambda>_. None\<rparr>"

end
