(* ===== verification/Content_Facts.thy ===== *)
theory Content_Facts
  imports Content
begin

text \<open>
  The invariant of the content service, its steps and what every run of them keeps: numbered histories that
  only grow, unique addresses, publication dates that agree with the status, sensitive fields sealed.
\<close>

section \<open>Revision ids\<close>

lemma int_string_inj: "int_string v = int_string w \<Longrightarrow> v = w"
  using json_text_inj [of "JNum v" "JNum w"] by simp

lemma no_dot: "CHR ''.'' \<notin> set (int_string v)"
proof -
  have d: "CHR ''.'' \<notin> set (nat_digits n)" for n
  proof
    assume "CHR ''.'' \<in> set (nat_digits n)"
    then have "is_digit (CHR ''.'')" by (rule nat_digits_digit)
    then show False by (simp add: is_digit_def)
  qed
  then show ?thesis by (simp add: int_string_def)
qed

lemma split_last:
  assumes "xs @ d # as = ys @ d # bs" "d \<notin> set as" "d \<notin> set bs"
  shows "xs = ys \<and> as = bs"
proof -
  from assms(1) consider us where "xs = ys @ us" "us @ d # as = d # bs" | us where "xs @ us = ys" "d # as = us @ d # bs"
    unfolding append_eq_append_conv2 by blast
  then show ?thesis
  proof cases
    case 1
    with assms(3) show ?thesis by (cases us) auto
  next
    case 2
    with assms(2) show ?thesis by (cases us) auto
  qed
qed

lemma revisionId_inj: "revisionId i v = revisionId j w \<longleftrightarrow> i = j \<and> v = w"
proof
  assume "revisionId i v = revisionId j w"
  then have "i @ CHR ''.'' # int_string v = j @ CHR ''.'' # int_string w" by (simp add: revisionId_def)
  from split_last [OF this no_dot no_dot] show "i = j \<and> v = w" using int_string_inj by blast
qed simp

section \<open>The invariant\<close>

definition row_ok :: "content_entry \<Rightarrow> bool" where
  "row_ok e \<longleftrightarrow> is_ok (assertSegment (ce_id e) ''id'') \<and> 1 \<le> currentRevision e \<and>
     (publishedAt e \<noteq> None \<longleftrightarrow> status e = Published \<or> status e = Archived) \<and>
     (status e = Scheduled \<longrightarrow> scheduledFor e \<noteq> None)"

text \<open>The sensitive fields of a type are sealed; the title that a system page is made with is not looked at.\<close>

definition fields_sealed :: "content_type \<Rightarrow> bool \<Rightarrow> obj \<Rightarrow> bool" where
  "fields_sealed t sys data \<longleftrightarrow> (\<forall>fd \<in> set (ct_fields t).
     fd_sensitive fd \<and> \<not> (sys \<and> fd_name fd = ''title'') \<longrightarrow> sealed_value (map_of data (fd_name fd)))"

definition content_inv ::
  "(string \<rightharpoonup> content_type) \<Rightarrow> (string \<rightharpoonup> content_entry) \<Rightarrow> (string \<rightharpoonup> revision) \<Rightarrow> bool" where
  "content_inv T E R \<longleftrightarrow>
     (\<forall>i t. T i = Some t \<longrightarrow> ct_id t = i) \<and>
     (\<forall>i e. E i = Some e \<longrightarrow> ce_id e = i \<and> row_ok e \<and> T (typeId e) \<noteq> None \<and>
        (\<forall>v. R (revisionId i v) \<noteq> None \<longleftrightarrow> 1 \<le> v \<and> v \<le> currentRevision e)) \<and>
     (\<forall>k r. R k = Some r \<longrightarrow> k = revisionId (entryId r) (version r) \<and> rev_id r = k \<and>
        (\<exists>e. E (entryId r) = Some e \<and> (\<forall>t. T (typeId e) = Some t \<longrightarrow> fields_sealed t (system e) (rev_fields r)))) \<and>
     (\<forall>i j e f. E i = Some e \<and> E j = Some f \<and> slug e = slug f \<and> ce_locale e = ce_locale f \<longrightarrow> i = j)"

lemma inv_type:
  assumes "content_inv T E R" "T (ct_id t) = None"
  shows "content_inv (T(ct_id t \<mapsto> t)) E R"
proof -
  have old: "(T(ct_id t \<mapsto> t)) (typeId e) = T (typeId e)" if "E i = Some e" for i e
    using assms that unfolding content_inv_def by (metis fun_upd_other)
  have T: "\<And>i t. T i = Some t \<Longrightarrow> ct_id t = i"
    and E: "\<And>k x. E k = Some x \<Longrightarrow> ce_id x = k \<and> row_ok x \<and> T (typeId x) \<noteq> None \<and>
        (\<forall>v. R (revisionId k v) \<noteq> None \<longleftrightarrow> 1 \<le> v \<and> v \<le> currentRevision x)"
    and R: "\<And>k x. R k = Some x \<Longrightarrow> k = revisionId (entryId x) (version x) \<and> rev_id x = k \<and>
        (\<exists>e. E (entryId x) = Some e \<and> (\<forall>t. T (typeId e) = Some t \<longrightarrow> fields_sealed t (system e) (rev_fields x)))"
    and u: "\<forall>i j e f. E i = Some e \<and> E j = Some f \<and> slug e = slug f \<and> ce_locale e = ce_locale f \<longrightarrow> i = j"
    using assms(1) unfolding content_inv_def by blast+
  show ?thesis
    unfolding content_inv_def
  proof (intro conjI)
    show "\<forall>i x. (T(ct_id t \<mapsto> t)) i = Some x \<longrightarrow> ct_id x = i" using T by auto
    show "\<forall>i e. E i = Some e \<longrightarrow> ce_id e = i \<and> row_ok e \<and> (T(ct_id t \<mapsto> t)) (typeId e) \<noteq> None \<and>
        (\<forall>v. R (revisionId i v) \<noteq> None \<longleftrightarrow> 1 \<le> v \<and> v \<le> currentRevision e)" using E old by metis
    show "\<forall>k r. R k = Some r \<longrightarrow> k = revisionId (entryId r) (version r) \<and> rev_id r = k \<and>
        (\<exists>e. E (entryId r) = Some e \<and> (\<forall>x. (T(ct_id t \<mapsto> t)) (typeId e) = Some x \<longrightarrow> fields_sealed x (system e) (rev_fields r)))"
      using R old by metis
  qed (rule u)
qed

lemma inv_entry:
  assumes "content_inv T E R" "E i = Some e" "row_ok e'"
    and "ce_id e' = ce_id e" "slug e' = slug e" "ce_locale e' = ce_locale e" "typeId e' = typeId e"
    and "currentRevision e' = currentRevision e" "system e \<longrightarrow> system e'"
  shows "content_inv T (E(i \<mapsto> e')) R"
proof -
  have s: "fields_sealed t (system e) d \<Longrightarrow> fields_sealed t (system e') d" for t d
    using assms(9) by (auto simp: fields_sealed_def)
  have u: "\<And>a b c d. E a = Some c \<Longrightarrow> E b = Some d \<Longrightarrow> slug c = slug d \<Longrightarrow> ce_locale c = ce_locale d \<Longrightarrow> a = b"
    and r: "\<And>k x. R k = Some x \<Longrightarrow> k = revisionId (entryId x) (version x) \<and> rev_id x = k \<and>
        (\<exists>e. E (entryId x) = Some e \<and> (\<forall>t. T (typeId e) = Some t \<longrightarrow> fields_sealed t (system e) (rev_fields x)))"
    and e: "\<And>k x. E k = Some x \<Longrightarrow> ce_id x = k \<and> row_ok x \<and> T (typeId x) \<noteq> None \<and>
        (\<forall>v. R (revisionId k v) \<noteq> None \<longleftrightarrow> 1 \<le> v \<and> v \<le> currentRevision x)"
    and t: "\<forall>i t. T i = Some t \<longrightarrow> ct_id t = i"
    using assms(1) unfolding content_inv_def by blast+
  show ?thesis
    unfolding content_inv_def
  proof (intro conjI allI impI; (elim conjE)?)
    fix i t show "T i = Some t \<Longrightarrow> ct_id t = i" using t by blast
  next
    fix k x assume "(E(i \<mapsto> e')) k = Some x"
    then have "(k = i \<and> x = e') \<or> E k = Some x" by (auto split: if_splits)
    then have h: "ce_id x = k \<and> row_ok x \<and> T (typeId x) \<noteq> None \<and>
        (\<forall>v. R (revisionId k v) \<noteq> None \<longleftrightarrow> 1 \<le> v \<and> v \<le> currentRevision x)"
      using e [OF assms(2)] e assms(3,4,7,8) by auto
    then show "ce_id x = k" "row_ok x" "T (typeId x) \<noteq> None" by blast+
    fix v show "(R (revisionId k v) \<noteq> None) = (1 \<le> v \<and> v \<le> currentRevision x)" using h by blast
  next
    fix k x assume k: "R k = Some x"
    then show "k = revisionId (entryId x) (version x)" "rev_id x = k" using r by blast+
    obtain f where f: "E (entryId x) = Some f" "\<forall>t. T (typeId f) = Some t \<longrightarrow> fields_sealed t (system f) (rev_fields x)"
      using r [OF k] by blast
    show "\<exists>e. (E(i \<mapsto> e')) (entryId x) = Some e \<and> (\<forall>t. T (typeId e) = Some t \<longrightarrow> fields_sealed t (system e) (rev_fields x))"
    proof (cases "entryId x = i")
      case True
      then show ?thesis using f assms(2,7) s by auto
    qed (use f in auto)
  next
    fix a b c d assume "(E(i \<mapsto> e')) a = Some c" "(E(i \<mapsto> e')) b = Some d" "slug c = slug d" "ce_locale c = ce_locale d"
    then show "a = b" using u assms(2,5,6) by (auto split: if_splits)
  qed
qed

text \<open>One more revision of an entry, and the entry that points to it.\<close>

lemma inv_revision:
  assumes inv: "content_inv T E R" and i: "E i = Some e"
    and r: "entryId r = i" "version r = currentRevision e + 1" "rev_id r = revisionId i (currentRevision e + 1)"
    and sealed: "\<And>t. T (typeId e) = Some t \<Longrightarrow> fields_sealed t (system e) (rev_fields r)"
    and e': "e' = e\<lparr>currentRevision := currentRevision e + 1, ce_updatedAt := u\<rparr>"
  shows "content_inv T (E(i \<mapsto> e')) (R(rev_id r \<mapsto> r))" "R (rev_id r) = None"
proof -
  have u: "\<And>a b c d. E a = Some c \<Longrightarrow> E b = Some d \<Longrightarrow> slug c = slug d \<Longrightarrow> ce_locale c = ce_locale d \<Longrightarrow> a = b"
    and R: "\<And>k x. R k = Some x \<Longrightarrow> k = revisionId (entryId x) (version x) \<and> rev_id x = k \<and>
        (\<exists>e. E (entryId x) = Some e \<and> (\<forall>t. T (typeId e) = Some t \<longrightarrow> fields_sealed t (system e) (rev_fields x)))"
    and E: "\<And>k x. E k = Some x \<Longrightarrow> ce_id x = k \<and> row_ok x \<and> T (typeId x) \<noteq> None \<and>
        (\<forall>v. R (revisionId k v) \<noteq> None \<longleftrightarrow> 1 \<le> v \<and> v \<le> currentRevision x)"
    and t: "\<And>i t. T i = Some t \<Longrightarrow> ct_id t = i"
    using inv unfolding content_inv_def by blast+
  show new: "R (rev_id r) = None" using E [OF i] unfolding r(3) by (metis add_le_same_cancel1 not_one_le_zero)
  have ok: "row_ok e'" using E [OF i] by (auto simp: e' row_ok_def)
  show "content_inv T (E(i \<mapsto> e')) (R(rev_id r \<mapsto> r))"
    unfolding content_inv_def
  proof (intro conjI allI impI; (elim conjE)?)
    fix i x show "T i = Some x \<Longrightarrow> ct_id x = i" using t by blast
  next
    fix k x assume k: "(E(i \<mapsto> e')) k = Some x"
    show "ce_id x = k" "row_ok x" "T (typeId x) \<noteq> None"
      using k E [OF i] E [of k x] ok by (auto simp: e' split: if_splits)
    fix v
    show "((R(rev_id r \<mapsto> r)) (revisionId k v) \<noteq> None) = (1 \<le> v \<and> v \<le> currentRevision x)"
    proof (cases "k = i")
      case True
      then have "x = e'" using k by simp
      moreover have "1 \<le> currentRevision e" "(R (revisionId i v) \<noteq> None) = (1 \<le> v \<and> v \<le> currentRevision e)"
        using E [OF i] by (auto simp: row_ok_def)
      ultimately show ?thesis using True by (auto simp: e' r(3) revisionId_inj)
    next
      case False
      then show ?thesis using k E [of k x] by (simp add: r(3) revisionId_inj)
    qed
  next
    fix k x assume "(R(rev_id r \<mapsto> r)) k = Some x"
    then have k: "(k = rev_id r \<and> x = r) \<or> R k = Some x" by (auto split: if_splits)
    then show "k = revisionId (entryId x) (version x)" "rev_id x = k" using R [of k x] r by auto
    show "\<exists>e. (E(i \<mapsto> e')) (entryId x) = Some e \<and> (\<forall>t. T (typeId e) = Some t \<longrightarrow> fields_sealed t (system e) (rev_fields x))"
    proof (cases "entryId x = i")
      case True
      have "\<forall>t. T (typeId e) = Some t \<longrightarrow> fields_sealed t (system e) (rev_fields x)"
        using k R [of k x] sealed i True by auto
      then show ?thesis using True by (simp add: e')
    next
      case False
      then show ?thesis using k R [of k x] r(1) by auto
    qed
  next
    fix a b c d assume "(E(i \<mapsto> e')) a = Some c" "(E(i \<mapsto> e')) b = Some d" "slug c = slug d" "ce_locale c = ce_locale d"
    then show "a = b" using u i by (auto simp: e' split: if_splits)
  qed
qed

text \<open>A new entry with its first revision.\<close>

lemma inv_new_entry:
  assumes inv: "content_inv T E R" and i: "E i = None"
    and e: "ce_id e = i" "row_ok e" "currentRevision e = 1" "T (typeId e) \<noteq> None"
    and fresh: "\<And>k f. E k = Some f \<Longrightarrow> slug f = slug e \<Longrightarrow> ce_locale f = ce_locale e \<Longrightarrow> False"
    and r: "entryId r = i" "version r = 1" "rev_id r = revisionId i 1"
    and sealed: "\<And>t. T (typeId e) = Some t \<Longrightarrow> fields_sealed t (system e) (rev_fields r)"
  shows "content_inv T (E(i \<mapsto> e)) (R(rev_id r \<mapsto> r))" "R (rev_id r) = None"
proof -
  have u: "\<And>a b c d. E a = Some c \<Longrightarrow> E b = Some d \<Longrightarrow> slug c = slug d \<Longrightarrow> ce_locale c = ce_locale d \<Longrightarrow> a = b"
    and R: "\<And>k x. R k = Some x \<Longrightarrow> k = revisionId (entryId x) (version x) \<and> rev_id x = k \<and>
        (\<exists>e. E (entryId x) = Some e \<and> (\<forall>t. T (typeId e) = Some t \<longrightarrow> fields_sealed t (system e) (rev_fields x)))"
    and E: "\<And>k x. E k = Some x \<Longrightarrow> ce_id x = k \<and> row_ok x \<and> T (typeId x) \<noteq> None \<and>
        (\<forall>v. R (revisionId k v) \<noteq> None \<longleftrightarrow> 1 \<le> v \<and> v \<le> currentRevision x)"
    and t: "\<And>i t. T i = Some t \<Longrightarrow> ct_id t = i"
    using inv unfolding content_inv_def by blast+
  have none: "R (revisionId i v) = None" for v
  proof (rule ccontr)
    assume "R (revisionId i v) \<noteq> None"
    then obtain x where x: "R (revisionId i v) = Some x" by blast
    show False using R [OF x] i by (auto simp: revisionId_inj)
  qed
  then show "R (rev_id r) = None" by (simp add: r(3))
  show "content_inv T (E(i \<mapsto> e)) (R(rev_id r \<mapsto> r))"
    unfolding content_inv_def
  proof (intro conjI allI impI; (elim conjE)?)
    fix i x show "T i = Some x \<Longrightarrow> ct_id x = i" using t by blast
  next
    fix k x assume k: "(E(i \<mapsto> e)) k = Some x"
    show "ce_id x = k" "row_ok x" "T (typeId x) \<noteq> None" using k E [of k x] e by (auto split: if_splits)
    fix v
    show "((R(rev_id r \<mapsto> r)) (revisionId k v) \<noteq> None) = (1 \<le> v \<and> v \<le> currentRevision x)"
    proof (cases "k = i")
      case True
      then show ?thesis using k none e(3) by (auto simp: r(3) revisionId_inj)
    next
      case False
      then show ?thesis using k E [of k x] by (simp add: r(3) revisionId_inj)
    qed
  next
    fix k x assume "(R(rev_id r \<mapsto> r)) k = Some x"
    then have k: "(k = rev_id r \<and> x = r) \<or> R k = Some x" by (auto split: if_splits)
    then show "k = revisionId (entryId x) (version x)" "rev_id x = k" using R [of k x] r by auto
    show "\<exists>e'. (E(i \<mapsto> e)) (entryId x) = Some e' \<and> (\<forall>t. T (typeId e') = Some t \<longrightarrow> fields_sealed t (system e') (rev_fields x))"
      using k R [of k x] r(1) sealed i by auto
  next
    fix a b c d assume "(E(i \<mapsto> e)) a = Some c" "(E(i \<mapsto> e)) b = Some d" "slug c = slug d" "ce_locale c = ce_locale d"
    note m = this
    show "a = b"
    proof (cases "a = i"; cases "b = i")
      assume "a = i" "b \<noteq> i"
      then show ?thesis using m fresh [of b d] by simp
    next
      assume "a \<noteq> i" "b = i"
      then show ?thesis using m fresh [of a c] by simp
    next
      assume "a \<noteq> i" "b \<noteq> i"
      then show ?thesis using m u [of a c b d] by simp
    qed simp
  qed
qed

section \<open>What the operations keep\<close>

definition content_ok :: "content_state \<Rightarrow> bool" where
  "content_ok st \<longleftrightarrow> tab_ok (ctypes st) \<and> tab_ok (entries st) \<and> tab_ok (revisions st) \<and>
     content_inv (map_of (ctypes st)) (map_of (entries st)) (map_of (revisions st))"

text \<open>A step keeps the invariant, every revision as it is, and every type.\<close>

definition kept :: "content_state \<Rightarrow> content_state \<Rightarrow> bool" where
  "kept st st' \<longleftrightarrow> content_ok st' \<and> map_of (revisions st) \<subseteq>\<^sub>m map_of (revisions st') \<and> map_of (ctypes st) \<subseteq>\<^sub>m map_of (ctypes st')"

lemma kept_refl: "content_ok st \<Longrightarrow> kept st st"
  by (simp add: kept_def)

lemma kept_trans: "kept a b \<Longrightarrow> kept b c \<Longrightarrow> kept a c"
  by (auto simp: kept_def intro: map_le_trans)

lemma content_ok_tables:
  "ctypes st' = ctypes st \<Longrightarrow> entries st' = entries st \<Longrightarrow> revisions st' = revisions st \<Longrightarrow> content_ok st' = content_ok st"
  by (simp add: content_ok_def)

lemma kept_tables:
  "content_ok st \<Longrightarrow> ctypes st' = ctypes st \<Longrightarrow> entries st' = entries st \<Longrightarrow> revisions st' = revisions st \<Longrightarrow> kept st st'"
  by (simp add: kept_def content_ok_def)

lemma kept_tables_right:
  "kept st st' \<Longrightarrow> ctypes st'' = ctypes st' \<Longrightarrow> entries st'' = entries st' \<Longrightarrow> revisions st'' = revisions st' \<Longrightarrow> kept st st''"
  by (simp add: kept_def content_ok_def)

lemma tables_simps [simp]:
  "ctypes (log_job a st) = ctypes st" "entries (log_job a st) = entries st" "revisions (log_job a st) = revisions st"
  "ctypes (put_job j st) = ctypes st" "entries (put_job j st) = entries st" "revisions (put_job j st) = revisions st"
  "ctypes (put_entry e st) = ctypes st" "entries (put_entry e st) = tab_put (ce_id e) e (entries st)"
  "revisions (put_entry e st) = revisions st"
  "ctypes (put_revision r st) = ctypes st" "entries (put_revision r st) = entries st"
  "revisions (put_revision r st) = tab_put (rev_id r) r (revisions st)"
  "ctypes (put_type t st) = tab_put (ct_id t) t (ctypes st)" "entries (put_type t st) = entries st"
  "revisions (put_type t st) = revisions st"
  by (simp_all add: log_job_def put_job_def put_entry_def put_revision_def put_type_def)

lemma c_get_Some: "c_get i t = Inr (Some v) \<Longrightarrow> map_of t i = Some v"
  by (simp add: c_get_def split: sum.splits)

lemma requireEntry_row: "requireEntry i st = Inr e \<Longrightarrow> map_of (entries st) i = Some e"
  unfolding requireEntry_def by (rule c_get_Some) (auto split: sum.splits option.splits)

lemma requireType_row: "requireType i st = Inr t \<Longrightarrow> map_of (ctypes st) i = Some t"
  unfolding requireType_def by (rule c_get_Some) (auto split: sum.splits option.splits)

lemma row_entry:
  assumes "content_ok st" "map_of (entries st) i = Some e"
  shows "ce_id e = i" "row_ok e" "map_of (ctypes st) (typeId e) \<noteq> None"
    "map_of (revisions st) (revisionId i v) \<noteq> None \<longleftrightarrow> 1 \<le> v \<and> v \<le> currentRevision e"
  using assms unfolding content_ok_def content_inv_def by blast+

lemma row_revision:
  assumes "content_ok st" "map_of (revisions st) k = Some r"
  shows "k = revisionId (entryId r) (version r)" "rev_id r = k"
    "\<exists>e. map_of (entries st) (entryId r) = Some e \<and>
       (\<forall>t. map_of (ctypes st) (typeId e) = Some t \<longrightarrow> fields_sealed t (system e) (rev_fields r))"
  using assms unfolding content_ok_def content_inv_def by blast+

lemma put_type_kept:
  "content_ok st \<Longrightarrow> map_of (ctypes st) (ct_id t) = None \<Longrightarrow> kept st (put_type t st)"
  using inv_type by (auto simp: kept_def content_ok_def map_le_def)

lemma put_entry_kept:
  assumes "content_ok st" "map_of (entries st) i = Some e" "row_ok e'"
    and "ce_id e' = ce_id e" "slug e' = slug e" "ce_locale e' = ce_locale e" "typeId e' = typeId e"
    and "currentRevision e' = currentRevision e" "system e \<longrightarrow> system e'"
  shows "kept st (put_entry e' st)"
proof -
  have inv: "content_inv (map_of (ctypes st)) (map_of (entries st)) (map_of (revisions st))" using assms(1) by (simp add: content_ok_def)
  have "ce_id e' = i" using row_entry [OF assms(1,2)] assms(4) by simp
  then show ?thesis
    using inv_entry [OF inv assms(2-)] assms(1) by (simp add: kept_def content_ok_def)
qed

lemma add_revision_kept:
  assumes ok: "content_ok st" and e: "map_of (entries st) i = Some e"
    and sealed: "\<And>t. map_of (ctypes st) (typeId e) = Some t \<Longrightarrow> fields_sealed t (system e) data"
    and e': "e' = e\<lparr>currentRevision := currentRevision e + 1, ce_updatedAt := u\<rparr>"
  shows "kept st (put_entry e' (addRevision i data bs ed (currentRevision e + 1) now st))"
proof -
  let ?r = "\<lparr>rev_id = revisionId i (currentRevision e + 1), entryId = i, version = currentRevision e + 1, rev_fields = data,
    rev_blocks = bs, editorId = ed, rev_createdAt = iso_string now\<rparr>"
  have i: "ce_id e' = i" using row_entry [OF ok e] e' by simp
  have inv: "content_inv (map_of (ctypes st)) (map_of (entries st)) (map_of (revisions st))" using ok by (simp add: content_ok_def)
  have "content_inv (map_of (ctypes st)) ((map_of (entries st))(i \<mapsto> e')) ((map_of (revisions st))(rev_id ?r \<mapsto> ?r)) \<and>
      map_of (revisions st) (rev_id ?r) = None"
    using inv_revision [OF inv e, of ?r e' u] sealed e' by simp
  then show ?thesis using ok i by (auto simp: kept_def content_ok_def addRevision_def map_le_def)
qed

lemma new_entry_kept:
  assumes ok: "content_ok st" and i: "map_of (entries st) (ce_id e) = None"
    and e: "row_ok e" "currentRevision e = 1" "map_of (ctypes st) (typeId e) = Some t"
    and fresh: "\<And>k f. map_of (entries st) k = Some f \<Longrightarrow> slug f = slug e \<Longrightarrow> ce_locale f = ce_locale e \<Longrightarrow> False"
    and sealed: "fields_sealed t (system e) data"
  shows "kept st (addRevision (ce_id e) data bs ed 1 now (put_entry e st))"
proof -
  let ?r = "\<lparr>rev_id = revisionId (ce_id e) 1, entryId = ce_id e, version = 1, rev_fields = data,
    rev_blocks = bs, editorId = ed, rev_createdAt = iso_string now\<rparr>"
  have inv: "content_inv (map_of (ctypes st)) (map_of (entries st)) (map_of (revisions st))" using ok by (simp add: content_ok_def)
  have t: "map_of (ctypes st) (typeId e) \<noteq> None" "\<And>x. map_of (ctypes st) (typeId e) = Some x \<Longrightarrow> fields_sealed x (system e) (rev_fields ?r)"
    using e(3) sealed by auto
  have r: "entryId ?r = ce_id e" "version ?r = 1" "rev_id ?r = revisionId (ce_id e) 1" by simp_all
  have "content_inv (map_of (ctypes st)) ((map_of (entries st))(ce_id e \<mapsto> e)) ((map_of (revisions st))(rev_id ?r \<mapsto> ?r))"
    "map_of (revisions st) (rev_id ?r) = None"
    by (rule inv_new_entry [OF inv i refl e(1,2) t(1) fresh r t(2)]; assumption)+
  then show ?thesis using ok by (auto simp: kept_def content_ok_def addRevision_def map_le_def)
qed

lemma kept_log [simp]: "kept st (log_job a st') = kept st st'"
  by (simp add: kept_def content_ok_def)

lemma createType_kept:
  assumes "content_ok st" "map_of (ctypes st) uuid = None"
  shows "kept st (snd (createType caps name s fds uuid now st))"
  using kept_refl [OF assms(1)] put_type_kept [OF assms(1)] assms(2)
  by (auto simp: createType_def Let_def split: sum.split)

lemma protect_fields_sealed:
  assumes "protect_fields env rnd type data prior st = (r, st')"
  shows "ctypes st' = ctypes st \<and> entries st' = entries st \<and> revisions st' = revisions st \<and>
    jobs st' = jobs st \<and> (\<forall>out. r = Inr out \<longrightarrow> fields_sealed type sys out)"
proof -
  have "fields_sealed type sys out"
    if "protectSensitive (crypto env) (secret_mask env) rnd data (ct_fields type) prior (secrets st) = (Inr out, sec)" for out sec
  proof (cases "sensitiveNames (ct_fields type) = []")
    case True
    then show ?thesis using that by (auto simp: fields_sealed_def sensitiveNames_def filter_empty_conv)
  next
    case False
    note p = that
    obtain b where b: "secrets st = Some b"
      "fst (protect_loop (crypto env) (secret_mask env) rnd prior (sensitiveNames (ct_fields type)) 0 data b) = out"
      using False p by (auto simp: protectSensitive_def split: option.splits prod.splits)
    have "sealed_value (map_of out (fd_name fd))" if "fd \<in> set (ct_fields type)" "fd_sensitive fd" for fd
      using protect_loop_sealed [of "fd_name fd" "sensitiveNames (ct_fields type)"] that b(2) by (auto simp: sensitiveNames_def)
    then show ?thesis by (simp add: fields_sealed_def)
  qed
  then show ?thesis using assms by (auto simp: protect_fields_def split: prod.splits)
qed

lemma requireType_tables: "ctypes st' = ctypes st \<Longrightarrow> requireType i st' = requireType i st"
  by (simp add: requireType_def)

lemma createEntry_kept:
  assumes ok: "content_ok st" and fresh: "map_of (entries st) uuid = None" "is_ok (assertSegment uuid ''id'')"
  shows "kept st (snd (createEntry env caps inp uuid rnd clk st))"
proof -
  let ?loc = "case in_locale inp of None \<Rightarrow> DEFAULT_LOCALE | Some l \<Rightarrow> l"
  have new: "kept st (addRevision uuid data bs (in_authorId inp) 1 (clk 2) (put_entry
      \<lparr>ce_id = uuid, typeId = in_typeId inp, slug = in_slug inp, ce_locale = ?loc, status = Draft,
        authorId = in_authorId inp, currentRevision = 1, publishedAt = None, scheduledFor = None,
        ce_createdAt = iso_string (clk 0), ce_updatedAt = iso_string (clk 1), system = False, requiresMembership = False\<rparr> st1))"
    if p: "protect_fields env rnd t v None st = (Inr data, st1)" and t: "requireType (in_typeId inp) st = Inr t"
      and c: "c_query (\<lambda>e. slug e = in_slug inp \<and> ce_locale e = ?loc) None (entries st1) = []" for t v data st1 bs
  proof -
    note tab = protect_fields_sealed [OF p, of False]
    have ok1: "content_ok st1" using ok tab content_ok_tables by blast
    have "first_item (c_query (\<lambda>e. slug e = in_slug inp \<and> ce_locale e = ?loc) None (entries st1)) = None"
      using c by (simp add: first_item_def)
    then have f: "\<forall>f \<in> vals (entries st1). \<not> (slug f = in_slug inp \<and> ce_locale f = ?loc)"
      unfolding first_query_None .
    have "kept st1 (addRevision uuid data bs (in_authorId inp) 1 (clk 2) (put_entry
      \<lparr>ce_id = uuid, typeId = in_typeId inp, slug = in_slug inp, ce_locale = ?loc, status = Draft,
        authorId = in_authorId inp, currentRevision = 1, publishedAt = None, scheduledFor = None,
        ce_createdAt = iso_string (clk 0), ce_updatedAt = iso_string (clk 1), system = False, requiresMembership = False\<rparr> st1))"
      (is "kept st1 (addRevision uuid data bs _ 1 _ (put_entry ?e st1))")
    proof -
      have "map_of (entries st1) (ce_id ?e) = None" "row_ok ?e" "currentRevision ?e = 1"
        using fresh tab by (simp_all add: row_ok_def)
      moreover have "map_of (ctypes st1) (typeId ?e) = Some t" using requireType_row [OF t] tab by simp
      moreover have False if "map_of (entries st1) k = Some g" "slug g = slug ?e" "ce_locale g = ce_locale ?e" for k g
        using f map_of_SomeD [OF that(1)] that(2,3) by (auto simp: vals_def)
      moreover have "fields_sealed t (system ?e) data" using tab by simp
      ultimately have "kept st1 (addRevision (ce_id ?e) data bs (in_authorId inp) 1 (clk 2) (put_entry ?e st1))"
        by (intro new_entry_kept [OF ok1]) blast+
      then show ?thesis by simp
    qed
    then show ?thesis using tab by (simp add: kept_def)
  qed
  have st1: "kept st st1" if "protect_fields env rnd t v None st = (r, st1)" for t v r st1
    using protect_fields_sealed [OF that] kept_tables [OF ok] by blast
  show ?thesis
    unfolding createEntry_def Let_def
    by (auto simp: kept_refl [OF ok] st1 new [simplified] split: sum.split prod.split)
qed

lemma saveEntry_kept:
  assumes ok: "content_ok st"
  shows "kept st (snd (saveEntry env caps i data bs ed rnd clk st))"
proof -
  have new: "kept st (put_entry (e\<lparr>currentRevision := currentRevision e + 1, ce_updatedAt := iso_string (clk 1)\<rparr>)
      (addRevision (ce_id e) out bs' ed (currentRevision e + 1) (clk 0) st1))"
    if p: "protect_fields env rnd t v prior st = (Inr out, st1)" and e: "requireEntry i st = Inr e"
      and t: "requireType (typeId e) st = Inr t" for e t v prior out st1 bs'
  proof -
    note tab = protect_fields_sealed [OF p]
    have ok1: "content_ok st1" using ok tab content_ok_tables by blast
    have e1: "map_of (entries st1) i = Some e" using requireEntry_row [OF e] tab by simp
    have "fields_sealed x (system e) out" if "map_of (ctypes st1) (typeId e) = Some x" for x
      using tab requireType_row [OF t] that by simp
    from add_revision_kept [OF ok1 e1 this refl] have
      "kept st1 (put_entry (e\<lparr>currentRevision := currentRevision e + 1, ce_updatedAt := iso_string (clk 1)\<rparr>)
        (addRevision (ce_id e) out bs' ed (currentRevision e + 1) (clk 0) st1))"
      using row_entry(1) [OF ok1 e1] by simp
    then show ?thesis using tab by (simp add: kept_def)
  qed
  have st1: "kept st st1" if "protect_fields env rnd t v prior st = (r, st1)" for t v prior r st1
    using protect_fields_sealed [OF that] kept_tables [OF ok] by blast
  show ?thesis
    unfolding saveEntry_def Let_def
    by (auto simp: kept_refl [OF ok] st1 new [simplified] split: sum.split prod.split)
qed

lemma restoreRevision_kept:
  assumes ok: "content_ok st"
  shows "kept st (snd (restoreRevision caps i v ed clk st))"
proof -
  have new: "kept st (put_entry (e\<lparr>currentRevision := currentRevision e + 1, ce_updatedAt := iso_string (clk 1)\<rparr>)
      (addRevision (ce_id e) (rev_fields r) (rev_blocks r) ed (currentRevision e + 1) (clk 0) st))"
    if e: "requireEntry i st = Inr e" and r: "getRevision i v st = Inr (Some r)" for e r
  proof -
    have e1: "map_of (entries st) i = Some e" using requireEntry_row [OF e] .
    have "map_of (revisions st) (revisionId i v) = Some r" using r unfolding getRevision_def by (rule c_get_Some)
    note r1 = row_revision [OF ok this]
    then have "entryId r = i" by (simp add: revisionId_inj)
    then have "fields_sealed x (system e) (rev_fields r)" if "map_of (ctypes st) (typeId e) = Some x" for x
      using r1(3) e1 that by auto
    from add_revision_kept [OF ok e1 this refl] show ?thesis using row_entry(1) [OF ok e1] by simp
  qed
  show ?thesis
    unfolding restoreRevision_def Let_def
    by (auto simp: kept_refl [OF ok] new [simplified] split: sum.split prod.split option.split)
qed

text \<open>A transition fails and changes nothing, or moves the entry, and enqueues a job when it schedules.\<close>

definition moved_entry :: "content_status \<Rightarrow> string option \<Rightarrow> (nat \<Rightarrow> int) \<Rightarrow> content_entry \<Rightarrow> content_entry" where
  "moved_entry to opt clk e =
     (case to of
        Published \<Rightarrow> e\<lparr>status := to, publishedAt := Some (iso_string (clk 0)), scheduledFor := None\<rparr>
      | Scheduled \<Rightarrow> e\<lparr>status := to, scheduledFor := opt\<rparr>
      | Draft \<Rightarrow> e\<lparr>status := to, publishedAt := None\<rparr>
      | _ \<Rightarrow> e\<lparr>status := to\<rparr>)\<lparr>ce_updatedAt := iso_string (clk 1)\<rparr>"

definition publish_job :: "content_env \<Rightarrow> string \<Rightarrow> string \<Rightarrow> string \<Rightarrow> (nat \<Rightarrow> int) \<Rightarrow> job_record" where
  "publish_job env i date uuid clk =
     \<lparr>job_id = uuid, job_type = PUBLISH_JOB_TYPE, runAt = date_parse env date, payload = JObj [(''entryId'', JStr i)],
      job_status = Pending, attempts = 0, job_createdAt = iso_string (clk 3), lastError = None\<rparr>"

lemma publish_job_facts:
  "job_status (publish_job env i date uuid clk) = Pending" "job_type (publish_job env i date uuid clk) = PUBLISH_JOB_TYPE"
  "payload (publish_job env i date uuid clk) = JObj [(''entryId'', JStr i)]"
  "due_at (publish_job env i date uuid clk) = (case date_parse env date of None \<Rightarrow> 0 | Some d \<Rightarrow> d)"
  by (simp_all add: publish_job_def due_at_def split: option.split)

lemma transition_cases:
  assumes "transition env caps i to opt uuid clk st = (r, st')"
  obtains (Fails) er where "r = Inl er" "st' = st"
  | (Moves) e where "map_of (entries st) i = Some e" "gate_check caps (capabilityForTransition to)"
      "isAllowedTransition (status e) to" "system e \<longrightarrow> to = Published"
      "to = Scheduled \<longrightarrow> (\<exists>s. opt = Some s \<and> s \<noteq> [])"
      "r = Inr (moved_entry to opt clk e)" "entries st' = tab_put (ce_id e) (moved_entry to opt clk e) (entries st)"
      "ctypes st' = ctypes st" "revisions st' = revisions st" "secrets st' = secrets st"
      "jobs st' = (if to = Scheduled \<and> has_scheduler env
         then tab_put uuid (publish_job env (ce_id e) (the opt) uuid clk) (jobs st) else jobs st)"
proof (cases "gate_assert caps (capabilityForTransition to)")
  case (Inl er)
  then have "r = Inl er \<and> st' = st" using assms by (simp add: transition_def)
  then show ?thesis using Fails by blast
next
  case g: (Inr u)
  show ?thesis
  proof (cases "requireEntry i st")
    case (Inl er)
    then have "r = Inl er \<and> st' = st" using assms g by (simp add: transition_def)
    then show ?thesis using Fails by blast
  next
    case (Inr e)
    note row = requireEntry_row [OF Inr]
    show ?thesis
    proof (cases "(system e \<and> to \<noteq> Published) \<or> \<not> isAllowedTransition (status e) to \<or>
        (to = Scheduled \<and> (case opt of None \<Rightarrow> True | Some s \<Rightarrow> s = []))")
      case True
      then show ?thesis using assms Fails g Inr by (auto simp: transition_def split: if_splits)
    next
      case False
      have cap: "gate_check caps (capabilityForTransition to)" using g by (simp add: gate_assert_def split: if_splits)
      have opt: "to = Scheduled \<longrightarrow> (\<exists>s. opt = Some s \<and> s \<noteq> [])" using False by (auto split: option.splits)
      have tr: "transition env caps i to opt uuid clk st = (r, st')" by (rule assms)
      show ?thesis
      proof (rule Moves [OF row cap _ _ opt])
        show "isAllowedTransition (status e) to" "system e \<longrightarrow> to = Published" using False by auto
        show "r = Inr (moved_entry to opt clk e)" "entries st' = tab_put (ce_id e) (moved_entry to opt clk e) (entries st)"
          "ctypes st' = ctypes st" "revisions st' = revisions st" "secrets st' = secrets st"
          "jobs st' = (if to = Scheduled \<and> has_scheduler env
             then tab_put uuid (publish_job env (ce_id e) (the opt) uuid clk) (jobs st) else jobs st)"
          using tr False g Inr unfolding transition_def moved_entry_def publish_job_def
          by (cases to; auto simp: Let_def schedule_def quiet_env_def put_entry_def put_job_def log_job_def)+
      qed
    qed
  qed
qed

lemma moved_entry_simps [simp]:
  "ce_id (moved_entry to opt clk e) = ce_id e" "slug (moved_entry to opt clk e) = slug e" "ce_locale (moved_entry to opt clk e) = ce_locale e"
  "typeId (moved_entry to opt clk e) = typeId e" "currentRevision (moved_entry to opt clk e) = currentRevision e"
  "system (moved_entry to opt clk e) = system e" "status (moved_entry to opt clk e) = to"
  by (cases to; simp add: moved_entry_def)+

lemma moved_ok:
  assumes "row_ok e" "isAllowedTransition (status e) to" "to = Scheduled \<longrightarrow> opt \<noteq> None"
  shows "row_ok (moved_entry to opt clk e)"
  using assms by (cases to; cases "status e") (auto simp: moved_entry_def row_ok_def isAllowedTransition_def)

lemma transition_kept:
  assumes ok: "content_ok st" and t: "transition env caps i to opt uuid clk st = (r, st')"
  shows "kept st st'"
  using t
proof (cases rule: transition_cases)
  case Fails
  then show ?thesis by (simp add: kept_refl ok)
next
  case (Moves e)
  have "row_ok (moved_entry to opt clk e)" using moved_ok row_entry(2) [OF ok Moves(1)] Moves(3,5) by blast
  from put_entry_kept [OF ok Moves(1) this] have "kept st (put_entry (moved_entry to opt clk e) st)" by simp
  then show ?thesis using Moves by (simp add: kept_def content_ok_def)
qed

lemma resolve_row:
  assumes "content_ok st" "resolveBySlug s loc p st = Some e"
  shows "map_of (entries st) (ce_id e) = Some e" "slug e = s" "ce_locale e = loc" "p \<longrightarrow> status e = Published"
proof -
  have "first_item (c_query (\<lambda>e. slug e = s \<and> ce_locale e = loc) None (entries st)) = Some e" and p: "p \<longrightarrow> status e = Published"
    using assms(2) by (auto simp: resolveBySlug_def split: option.splits if_splits)
  from first_query_Some [OF this(1)] have e: "e \<in> vals (entries st) \<and> slug e = s \<and> ce_locale e = loc" .
  then obtain k where k: "(k, e) \<in> set (entries st)" unfolding in_values by blast
  have "tab_ok (entries st)" using assms(1) by (simp add: content_ok_def)
  then have "map_of (entries st) k = Some e" by (rule iffD1 [OF map_of_in_set k])
  then show "map_of (entries st) (ce_id e) = Some e" using row_entry(1) [OF assms(1)] by simp
  show "slug e = s" "ce_locale e = loc" "p \<longrightarrow> status e = Published" using e p by auto
qed

lemma ensure_page_kept:
  assumes ok: "content_ok st" and t: "map_of (ctypes st) tid \<noteq> None"
    and fresh: "map_of (entries st) uuid = None" "is_ok (assertSegment uuid ''id'')"
  shows "kept st (ensure_page env owner tid s uuid clk st)"
proof (cases "resolveBySlug s DEFAULT_LOCALE False st")
  case (Some e)
  note e = resolve_row(1) [OF ok Some]
  have "row_ok (e\<lparr>system := True, ce_updatedAt := iso_string (clk 0)\<rparr>)"
    using row_entry(2) [OF ok e] by (simp add: row_ok_def)
  from put_entry_kept [OF ok e this] show ?thesis
    using Some by (simp add: ensure_page_def Let_def kept_refl ok)
next
  case None
  obtain t' where t': "map_of (ctypes st) tid = Some t'" using t by blast
  have "first_item (c_query (\<lambda>e. slug e = s \<and> ce_locale e = DEFAULT_LOCALE) None (entries st)) = None"
    using None by (simp add: resolveBySlug_def split: option.splits)
  then have f: "\<forall>f \<in> vals (entries st). \<not> (slug f = s \<and> ce_locale f = DEFAULT_LOCALE)"
    unfolding first_query_None .
  let ?e = "\<lparr>ce_id = uuid, typeId = tid, slug = s, ce_locale = DEFAULT_LOCALE, status = Published, authorId = owner,
    currentRevision = 1, publishedAt = Some (iso_string (clk 0)), scheduledFor = None,
    ce_createdAt = iso_string (clk 1), ce_updatedAt = iso_string (clk 2), system = True, requiresMembership = False\<rparr>"
  have 1: "map_of (entries st) (ce_id ?e) = None" "row_ok ?e" "currentRevision ?e = 1" "map_of (ctypes st) (typeId ?e) = Some t'"
    using fresh t' by (simp_all add: row_ok_def)
  have 2: False if "map_of (entries st) k = Some g" "slug g = slug ?e" "ce_locale g = ce_locale ?e" for k g
    using f map_of_SomeD [OF that(1)] that(2,3) by (auto simp: vals_def)
  have 3: "fields_sealed t' (system ?e) [(''title'', JStr l)]" for l by (simp add: fields_sealed_def sealed_value_def)
  have "kept st (addRevision (ce_id ?e) [(''title'', JStr l)] bs owner 1 (clk 3) (put_entry ?e st))" for l bs
    by (rule new_entry_kept [OF ok 1 2 3])
  then show ?thesis using None by (simp add: ensure_page_def Let_def)
qed

lemma ensure_page_entries:
  "dom (map_of (entries (ensure_page env owner tid s uuid clk st))) \<subseteq>
     insert uuid (insert (case resolveBySlug s DEFAULT_LOCALE False st of None \<Rightarrow> uuid | Some e \<Rightarrow> ce_id e) (dom (map_of (entries st))))"
  by (auto simp: ensure_page_def Let_def addRevision_def split: option.splits)

lemma ensure_page_fresh:
  assumes ok: "content_ok st" and "inj uuids" "map_of (entries st) (uuids m) = None" "Suc n \<le> m"
  shows "map_of (entries (ensure_page env owner tid s (uuids n) clk st)) (uuids m) = None"
proof -
  have "uuids m \<noteq> uuids n" using assms(2,4) by (metis inj_eq not_less_eq_eq order_refl)
  moreover have "ce_id e \<noteq> uuids m" if "resolveBySlug s DEFAULT_LOCALE False st = Some e" for e
    using resolve_row(1) [OF ok that] assms(3) by auto
  ultimately show ?thesis
    using ensure_page_entries [of env owner tid s "uuids n" clk st] assms(3) by (auto split: option.splits)
qed

lemma first_type_row:
  assumes "content_ok st" "first_item (c_query P None (ctypes st)) = Some t"
  shows "map_of (ctypes st) (ct_id t) \<noteq> None"
proof -
  have "t \<in> vals (ctypes st)" using first_query_Some [OF assms(2)] by blast
  then obtain k where k: "(k, t) \<in> set (ctypes st)" unfolding in_values by blast
  have "tab_ok (ctypes st)" using assms(1) by (simp add: content_ok_def)
  then have row: "map_of (ctypes st) k = Some t" by (rule iffD1 [OF map_of_in_set k])
  then have "ct_id t = k" using assms(1) unfolding content_ok_def content_inv_def by blast
  then show ?thesis using row by simp
qed

lemma ensure_pages_kept:
  assumes "content_ok st" "map_of (ctypes st) tid \<noteq> None" "inj uuids"
    and "\<And>k. n \<le> k \<Longrightarrow> map_of (entries st) (uuids k) = None \<and> is_ok (assertSegment (uuids k) ''id'')"
  shows "kept st (ensure_pages env owner tid uuids clk n ss st)"
  using assms
proof (induction ss arbitrary: n st)
  case (Cons s ss)
  let ?st = "ensure_page env owner tid s (uuids n) (clk n) st"
  have k: "kept st ?st" using ensure_page_kept [OF Cons.prems(1,2)] Cons.prems(4) [of n] by simp
  then have ok: "content_ok ?st" "map_of (ctypes ?st) tid \<noteq> None"
    using Cons.prems(2) by (auto simp: kept_def map_le_def dom_def)
  have "map_of (entries ?st) (uuids m) = None" if "Suc n \<le> m" for m
    by (rule ensure_page_fresh [OF Cons.prems(1,3)]) (use Cons.prems(4) that in auto)
  then have "kept ?st (ensure_pages env owner tid uuids clk (Suc n) ss ?st)"
    using Cons.IH [OF ok Cons.prems(3), of "Suc n"] Cons.prems(4) by auto
  then show ?case using kept_trans [OF k] by simp
qed (simp add: kept_refl)

lemma ensureSystemPages_kept:
  assumes "content_ok st" "inj uuids"
    and "\<And>k. map_of (entries st) (uuids k) = None \<and> map_of (ctypes st) (uuids k) = None \<and> is_ok (assertSegment (uuids k) ''id'')"
  shows "kept st (ensureSystemPages env owner uuids clk st)"
proof (cases "first_item (c_query (\<lambda>t. ct_slug t = ''page'') None (ctypes st))")
  case (Some t)
  have "map_of (ctypes st) (ct_id t) \<noteq> None" by (rule first_type_row [OF assms(1) Some])
  from ensure_pages_kept [OF assms(1) this assms(2), of 0] show ?thesis
    using assms(3) Some by (simp add: ensureSystemPages_def)
next
  case None
  let ?t = "page_type (uuids 6) (clk 6 0)"
  have id: "ct_id ?t = uuids 6" by (simp add: page_type_def)
  have k: "kept st (put_type ?t st)" using put_type_kept [OF assms(1), of ?t] assms(3) id by simp
  then have "content_ok (put_type ?t st)" "map_of (ctypes (put_type ?t st)) (ct_id ?t) \<noteq> None" by (auto simp: kept_def)
  from ensure_pages_kept [OF this assms(2), of 0] have
    "kept (put_type ?t st) (ensure_pages env owner (ct_id ?t) uuids clk 0 system_slugs (put_type ?t st))"
    using assms(3) by simp
  from kept_trans [OF k this] show ?thesis using None by (simp add: ensureSystemPages_def Let_def)
qed

end
