(* ===== verification/Publishing.thy ===== *)
theory Publishing
  imports Content_Facts
begin

text \<open>
  The scheduler and the content service together: the publish handler meets the contract of the job
  handlers, and the runs of the content service with its ticks.
\<close>

section \<open>What every tick keeps\<close>

lemma catch_job_inv:
  assumes "\<And>j s. Q s \<Longrightarrow> Q (put_job j s)" "\<And>a s. Q s \<Longrightarrow> Q (log_job a s)" "Q st"
  shows "Q (snd (catch_job env n j m st))"
  using assms by (auto simp: catch_job_def Let_def split: option.split)

lemma run_job_inv:
  assumes put: "\<And>j s. Q s \<Longrightarrow> Q (put_job j s)" and log: "\<And>a s. Q s \<Longrightarrow> Q (log_job a s)"
    and handler: "\<And>ty h p s r s'. map_of (handlers env) ty = Some h \<Longrightarrow> Q s \<Longrightarrow> h p s = (r, s') \<Longrightarrow> Q s'"
    and Q: "Q st"
  shows "Q (snd (run_job env job st))"
proof (cases "map_of (handlers env) (job_type job)")
  case None
  then show ?thesis using put Q by (simp add: run_job_def Let_def)
next
  case (Some h)
  obtain m st1 where h: "h (payload job) (put_job (job\<lparr>job_status := Running\<rparr>) st) = (m, st1)" by force
  have "Q st1" using handler [OF Some put [OF Q] h] .
  then show ?thesis using Some h put log catch_job_inv [OF put log]
    by (auto simp: run_job_def Let_def split: option.split)
qed

lemma run_due_inv:
  assumes put: "\<And>j s. Q s \<Longrightarrow> Q (put_job j s)" and log: "\<And>a s. Q s \<Longrightarrow> Q (log_job a s)"
    and handler: "\<And>ty h p s r s'. map_of (handlers env) ty = Some h \<Longrightarrow> Q s \<Longrightarrow> h p s = (r, s') \<Longrightarrow> Q s'"
  shows "Q st \<Longrightarrow> Q (snd (run_due env due rf st))"
proof (induction due arbitrary: rf st)
  case (Cons q due)
  obtain n f where rf: "rf = (n, f)" by force
  have inv: "Q (snd (run_job env job st))" for job
    by (rule run_job_inv [where Q = Q]) (use put log handler Cons.prems in blast)+
  have run: "Q s" if "run_job env job st = (r, s)" for job r s using inv [of job] that by simp
  show ?case
    using Cons.IH Cons.prems run by (auto simp: rf split: sum.split option.split prod.split)
qed simp

lemma tick_inv:
  assumes "\<And>j s. Q s \<Longrightarrow> Q (put_job j s)" "\<And>a s. Q s \<Longrightarrow> Q (log_job a s)"
    and "\<And>ty h p s r s'. map_of (handlers env) ty = Some h \<Longrightarrow> Q s \<Longrightarrow> h p s = (r, s') \<Longrightarrow> Q s'"
    and "Q st" "tick env t st = Some (r, st')"
  shows "Q st'"
proof -
  obtain js where "run_due env (due_jobs t js) (0, 0) st = (r, st')"
    using assms(5) by (auto simp: tick_def split: option.splits)
  moreover have "Q (snd (run_due env (due_jobs t js) (0, 0) st))"
    by (rule run_due_inv [where Q = Q]) (use assms(1-4) in blast)+
  ultimately show ?thesis by simp
qed

section \<open>The publish handler\<close>

lemma studio_handler:
  "map_of (handlers (studio_jobs env clk)) ty = Some h \<longleftrightarrow> ty = PUBLISH_JOB_TYPE \<and> h = publish_handler env clk"
  by (auto simp: studio_jobs_def register_handler_def)

lemma studio_jobs_simps [simp]: "maxAttempts (studio_jobs env clk) = 3" "audit_throws (studio_jobs env clk) e = None"
  by (simp_all add: studio_jobs_def register_handler_def)

text \<open>The handler does nothing, or one transition to published.\<close>

lemma publish_handler_cases:
  assumes "publish_handler env clk p st = (r, st')"
  obtains (Nothing) "st' = st"
  | (Publishes) i res where "r = None" "transition env [''content.publish''] i Published None [] clk st = (res, st')"
proof -
  have "st' = st \<or> (\<exists>i. r = None \<and> st' = snd (transition env [''content.publish''] i Published None [] clk st))"
    using assms by (auto simp: publish_handler_def split: json.splits option.splits if_splits)
  then show ?thesis using Nothing Publishes by (metis prod.collapse)
qed

lemma publish_handler_jobs:
  assumes "publish_handler env clk p st = (r, st')"
  shows "jobs st' = jobs st"
  using assms
proof (cases rule: publish_handler_cases)
  case (Publishes i res)
  from Publishes(2) show ?thesis by (cases rule: transition_cases) simp_all
qed simp_all

interpretation publish: job_handlers "studio_jobs env clk" for env clk
proof
  fix ty h p r and st st' :: content_state
  assume "map_of (handlers (studio_jobs env clk)) ty = Some h" "jobs_ok (studio_jobs env clk) st" "h p st = (r, st')"
  then have "jobs st' = jobs st" "jobs_ok (studio_jobs env clk) st" using publish_handler_jobs by (auto simp: studio_handler)
  then show "jobs_ok (studio_jobs env clk) st' \<and> map_of (jobs st) \<subseteq>\<^sub>m map_of (jobs st')" by (simp add: jobs_ok_def)
qed simp

text \<open>An entry that can be published, and one that is, stay so under the handler.\<close>

definition publishable :: "string \<Rightarrow> bool \<Rightarrow> content_state \<Rightarrow> bool" where
  "publishable i strict st \<longleftrightarrow> content_ok st \<and> (\<exists>e. map_of (entries st) i = Some e \<and>
     (status e = Published \<or> (\<not> strict \<and> isAllowedTransition (status e) Published)))"

lemma publishable_tables:
  "publishable i s (put_job j st) = publishable i s st" "publishable i s (log_job a st) = publishable i s st"
  by (simp_all add: publishable_def content_ok_def)

lemma publish_keeps:
  assumes "publishable i s st" "publish_handler env clk p st = (r, st')"
  shows "publishable i s st'"
  using assms(2)
proof (cases rule: publish_handler_cases)
  case Nothing
  then show ?thesis using assms(1) by simp
next
  case (Publishes k res)
  have ok: "content_ok st'" using transition_kept [OF _ Publishes(2)] assms(1) by (simp add: publishable_def kept_def)
  from Publishes(2) show ?thesis
  proof (cases rule: transition_cases)
    case Fails
    then show ?thesis using assms(1) by simp
  next
    case (Moves e)
    then show ?thesis using assms(1) ok by (auto simp: publishable_def)
  qed
qed

lemma cap_publish: "gate_check [''content.publish''] ''content.publish''"
  by code_simp

lemma publish_handler_publishes:
  assumes "publishable i False st" "i \<noteq> []" "publish_handler env clk (JObj [(''entryId'', JStr i)]) st = (r, st')"
  shows "r = None" "publishable i True st'"
proof -
  have t: "publish_handler env clk (JObj [(''entryId'', JStr i)]) st =
      (None, snd (transition env [''content.publish''] i Published None [] clk st))"
    using assms(2) by (simp add: publish_handler_def)
  then show "r = None" using assms(3) by simp
  obtain res where tr: "transition env [''content.publish''] i Published None [] clk st = (res, st')"
    using t assms(3) by (metis prod.collapse prod.inject)
  have ok: "content_ok st" "content_ok st'" using assms(1) transition_kept [OF _ tr] by (auto simp: publishable_def kept_def)
  obtain e where e: "map_of (entries st) i = Some e" "status e = Published \<or> isAllowedTransition (status e) Published"
    using assms(1) by (auto simp: publishable_def)
  have seg: "is_ok (assertSegment i ''id'')" using row_entry(1,2) [OF ok(1) e(1)] by (simp add: row_ok_def)
  then have g: "requireEntry i st = Inr e" using e(1) by (auto simp: requireEntry_def c_get_def is_ok_def split: sum.splits)
  show "publishable i True st'"
    using tr
  proof (cases rule: transition_cases)
    case (Fails er)
    then have "\<not> isAllowedTransition (status e) Published"
      using tr g cap_publish by (auto simp: transition_def gate_assert_def Let_def split: if_splits)
    then show ?thesis using e ok Fails(2) by (auto simp: publishable_def)
  next
    case (Moves f)
    then show ?thesis using ok(2) row_entry(1) [OF ok(1) Moves(1)] by (auto simp: publishable_def)
  qed
qed

lemma run_due_publishes:
  assumes "publishable i False st" "i \<noteq> []" "jobs_ok (studio_jobs env clk) st" "distinct (map job_id due)"
    and "\<forall>q \<in> set due. is_ok (assertSegment (job_id q) ''id'')" "k \<in> job_id ` set due"
    and "map_of (jobs st) k = Some j" "job_status j = Pending" "job_type j = PUBLISH_JOB_TYPE" "payload j = JObj [(''entryId'', JStr i)]"
  shows "publishable i True (snd (run_due (studio_jobs env clk) due rf st))"
  using assms
proof (induction due arbitrary: rf st)
  case (Cons q due)
  let ?env = "studio_jobs env clk"
  obtain n f where rf: "rf = (n, f)" by force
  have seg: "is_ok (assertSegment (job_id q) ''id'')" using Cons.prems(5) by simp
  then have get: "c_get (job_id q) (jobs st) = Inr (map_of (jobs st) (job_id q))"
    by (auto simp: c_get_def is_ok_def split: sum.splits)
  have inv: "publishable i s (snd (run_due ?env due rf' st'))" if "publishable i s st'" for s rf' st'
    by (rule run_due_inv [where Q = "publishable i s"])
       (use that publish_keeps in \<open>auto simp: publishable_tables studio_handler\<close>)
  show ?case
  proof (cases "job_id q = k")
    case True
    let ?run = "put_job (j\<lparr>job_status := Running\<rparr>) st"
    obtain r st1 where h: "publish_handler env clk (payload j) ?run = (r, st1)" by force
    have "publishable i False ?run" using Cons.prems(1) by (simp add: publishable_tables)
    from publish_handler_publishes [OF this Cons.prems(2) h [unfolded Cons.prems(10)]]
    have p: "r = None" "publishable i True st1" .
    have hs: "map_of (handlers ?env) (job_type j) = Some (publish_handler env clk)"
      unfolding studio_handler using Cons.prems(9) by simp
    have "run_job ?env j st = (Inr (1, 0), log_job (event ''job.done'' None [(''jobId'', DStr (job_id j)), (''type'', DStr (job_type j))])
        (put_job (j\<lparr>job_status := Done, lastError := None\<rparr>) st1))"
      using hs h p(1) by (simp add: run_job_def Let_def)
    then show ?thesis
      using get True Cons.prems(7,8) inv [of True] p(2) by (simp add: rf publishable_tables)
  next
    case False
    then have k: "k \<in> job_id ` set due" using Cons.prems(6) by auto
    have d: "distinct (map job_id due)" "\<forall>q \<in> set due. is_ok (assertSegment (job_id q) ''id'')" using Cons.prems(4,5) by auto
    show ?thesis
    proof (cases "\<exists>x. map_of (jobs st) (job_id q) = Some x \<and> job_status x = Pending")
      case True
      then obtain x where x: "map_of (jobs st) (job_id q) = Some x" "job_status x = Pending" by blast
      obtain r1 r2 st1 x' where run: "run_job ?env x st = (Inr (r1, r2), st1)" "jobs_ok ?env st1"
        and keep: "\<And>m y. m \<noteq> job_id q \<Longrightarrow> map_of (jobs st) m = Some y \<Longrightarrow> map_of (jobs st1) m = Some y"
        using publish.run_job_progress [OF Cons.prems(3) x] by force
      have "publishable i False (snd (run_job ?env x st))"
        by (rule run_job_inv [where Q = "publishable i False"])
           (use Cons.prems(1) publish_keeps in \<open>auto simp: publishable_tables studio_handler\<close>)
      then have p: "publishable i False st1" by (simp add: run)
      have "map_of (jobs st1) k = Some j" using keep [OF _ Cons.prems(7)] False by simp
      from Cons.IH [OF p Cons.prems(2) run(2) d k this Cons.prems(8-10)] show ?thesis
        using get x run by (simp add: rf)
    next
      case no: False
      have "run_due ?env (q # due) rf st = run_due ?env due rf st"
        using get no by (auto simp: rf split: option.split)
      then show ?thesis using Cons.IH [OF Cons.prems(1-3) d k Cons.prems(7-10)] by simp
    qed
  qed
qed simp

text \<open>A due publish job of an entry that can be published is done after the next tick, and the entry is public.\<close>

lemma tick_publishes:
  assumes "publishable i False st" "i \<noteq> []" "jobs_ok (studio_jobs env clk) st"
    and "map_of (jobs st) k = Some j" "job_status j = Pending" "job_type j = PUBLISH_JOB_TYPE"
    and "payload j = JObj [(''entryId'', JStr i)]" "due_at j \<le> t"
  shows "\<exists>r st'. tick (studio_jobs env clk) t st = Some (Inr r, st') \<and> publishable i True st'"
proof -
  let ?env = "studio_jobs env clk"
  have kd: "keyed job_id (jobs st)" using assms(3) by (simp add: jobs_ok_def)
  obtain r st' where tick: "tick ?env t st = Some (Inr r, st')" using publish.tick_progress [OF assms(3)] by blast
  then obtain js where js: "loadPending st = Some js" "run_due ?env (due_jobs t js) (0, 0) st = (Inr r, st')"
    by (auto simp: tick_def split: option.splits)
  note due = due_jobs_pending [OF kd js(1), of t]
  have id: "job_id j = k" using keyed_id [OF kd assms(4)] .
  have "j \<in> vals (jobs st)" using keyed_value [OF kd, of j] assms(4) id by simp
  then have "j \<in> set (due_jobs t js)" using due assms(5,8) by blast
  then have k: "k \<in> job_id ` set (due_jobs t js)" using id by blast
  have "\<forall>q \<in> set (due_jobs t js). is_ok (assertSegment (job_id q) ''id'')" using due assms(3) by (auto simp: jobs_ok_def)
  from run_due_publishes [OF assms(1-3) conjunct1 [OF due] this k assms(4-7), of "(0, 0)"] js(2)
  show ?thesis using tick by simp
qed

section \<open>Properties of the scheduler\<close>

text \<open>C28: A due job comes to an end. Whatever its type, payload and failures so far, after three ticks at or after its time
  it is no longer pending; and a job that is done, failed or running is never touched by a tick again, so a finished job is
  not repeated, and one whose process died while it was running stays running for ever.\<close>

theorem jobs_settle:
  assumes "jobs_ok (studio_jobs env clk) st" "map_of (jobs st) k = Some j" "\<forall>t \<in> set ts. due_at j \<le> t" "3 \<le> length ts"
  shows "(\<exists>st' j'. ticks (studio_jobs env clk) ts st = Some st' \<and> map_of (jobs st') k = Some j' \<and> job_status j' \<noteq> Pending) \<and>
    (job_status j \<noteq> Pending \<longrightarrow> (\<exists>st'. ticks (studio_jobs env clk) ts st = Some st' \<and> map_of (jobs st') k = Some j))"
proof -
  have "max 1 (maxAttempts (studio_jobs env clk)) \<le> length ts" using assms(4) by simp
  then show ?thesis using publish.job_settles [OF assms(1-3)] publish.ticks_settled [OF assms(1,2)] by blast
qed

definition demo_env :: content_env where
  "demo_env = \<lparr>crypto = toy_crypto, secret_mask = ''***'', ellipsis = ''...'',
     safeParse = \<lambda>shape v. (case v of JObj d \<Rightarrow> Some d | _ \<Rightarrow> None), date_parse = \<lambda>s. Some 1000,
     prebuilt = \<lambda>_. None, blocks = createBlockRegistry [], has_scheduler = True\<rparr>"

definition toy_state :: "job_record \<Rightarrow> content_state" where
  "toy_state j = \<lparr>jobs = [(job_id j, j)], sched_audit = [], ctypes = [], entries = [], revisions = [], secrets = None\<rparr>"

definition toy_job :: "job_status \<Rightarrow> job_record" where
  "toy_job s = \<lparr>job_id = ''j1'', job_type = ''cve.sync'', runAt = Some 10, payload = JNull, job_status = s, attempts = 0,
     job_createdAt = [], lastError = None\<rparr>"

lemma toy_state_ok: "jobs_ok (studio_jobs env clk) (toy_state (toy_job s))"
proof -
  have "is_ok (assertSegment ''j1'' ''id'')" by code_simp
  then show ?thesis by (auto simp: jobs_ok_def toy_state_def toy_job_def keyed_def tab_ok_def vals_def)
qed

lemma jobs_settle_witness:
  "\<exists>st' j'. ticks (studio_jobs demo_env (\<lambda>_. 0)) [10, 20, 30] (toy_state (toy_job Pending)) = Some st' \<and>
     map_of (jobs st') ''j1'' = Some j' \<and> job_status j' \<noteq> Pending"
proof -
  have "map_of (jobs (toy_state (toy_job Pending))) ''j1'' = Some (toy_job Pending)" by (simp add: toy_state_def toy_job_def)
  moreover have "\<forall>t \<in> set [10, 20, 30]. due_at (toy_job Pending) \<le> t" by (simp add: due_at_def toy_job_def)
  ultimately show ?thesis using jobs_settle [OF toy_state_ok, of _ "''j1''" "toy_job Pending" "[10, 20, 30]"] by auto
qed

text \<open>When the audit log refuses the entry that a job is done, the job that has just succeeded is put back as pending,
  with a failed attempt counted and the message as its last error: its handler will run a second time.\<close>

theorem done_job_runs_again:
  assumes "map_of (handlers env) (job_type j) = Some h" "h (payload j) (put_job (j\<lparr>job_status := Running\<rparr>) st) = (None, st1)"
    and "audit_throws env (event ''job.done'' None [(''jobId'', DStr (job_id j)), (''type'', DStr (job_type j))]) = Some m"
    and "audit_throws env (event ''job.failed'' None
      [(''jobId'', DStr (job_id j)), (''type'', DStr (job_type j)), (''attempts'', DNum (int (attempts j + 1)))]) = None"
    and "attempts j + 1 < maxAttempts env"
  shows "\<exists>st' j'. run_job env j st = (Inr (1, 0), st') \<and> map_of (jobs st') (job_id j) = Some j' \<and>
    job_status j' = Pending \<and> attempts j' = attempts j + 1 \<and> lastError j' = Some m"
  using assms by (simp add: run_job_def catch_job_def Let_def) (simp add: put_job_def)

lemma done_job_runs_again_witness:
  "\<exists>st' j'. run_job \<lparr>handlers = [(''cve.sync'', \<lambda>p s. (None, s))], maxAttempts = 3,
       audit_throws = \<lambda>e. if ev_action e = ''job.done'' then Some ''disk full'' else None\<rparr>
     (toy_job Pending) (toy_state (toy_job Pending)) = (Inr (1, 0), st') \<and>
     map_of (jobs st') ''j1'' = Some j' \<and> job_status j' = Pending \<and> attempts j' = 1 \<and> lastError j' = Some ''disk full''"
proof -
  let ?env = "\<lparr>handlers = [(''cve.sync'', \<lambda>p s. (None, s))], maxAttempts = 3,
    audit_throws = \<lambda>e. if ev_action e = ''job.done'' then Some ''disk full'' else None\<rparr> :: unit content_state_ext sched_env"
  have "map_of (handlers ?env) (job_type (toy_job Pending)) = Some (\<lambda>p s. (None, s))" by (simp add: toy_job_def)
  then have "\<exists>st' j'. run_job ?env (toy_job Pending) (toy_state (toy_job Pending)) = (Inr (1, 0), st') \<and>
     map_of (jobs st') (job_id (toy_job Pending)) = Some j' \<and> job_status j' = Pending \<and>
     attempts j' = attempts (toy_job Pending) + 1 \<and> lastError j' = Some ''disk full''"
    by (rule done_job_runs_again [OF _ refl]) (simp_all add: event_def toy_job_def)
  then show ?thesis by (simp add: toy_job_def)
qed

end
