(* ===== verification/Resolver.thy ===== *)
theory Resolver
  imports Content
begin

text \<open>
  Reads of content for a page or for the admin, \<open>packages/engine/src/resolver.ts\<close>.  The vault is an argument:
  the site and the studio each have their own backend.
\<close>

record parsed_route =
  pr_slug :: string
  pr_locale :: string

definition parsePath :: "string \<Rightarrow> string list option \<Rightarrow> string option \<Rightarrow> string option \<Rightarrow> parsed_route" where
  "parsePath path locales defaultLocale homeSlug =
     (let locales = (case locales of None \<Rightarrow> [] | Some ls \<Rightarrow> ls);
          defaultLocale = (case defaultLocale of None \<Rightarrow> ''en'' | Some l \<Rightarrow> l);
          homeSlug = (case homeSlug of None \<Rightarrow> ''home'' | Some h \<Rightarrow> h);
          segments = filter (\<lambda>s. 0 < length s) (map js_trim (js_split (CHR ''/'') path));
          (loc, segments) = (case segments of
              first # rest \<Rightarrow> if first \<in> set locales then (first, rest) else (defaultLocale, segments)
            | [] \<Rightarrow> (defaultLocale, []));
          joined = js_join ''/'' segments
      in \<lparr>pr_slug = (if joined = [] then homeSlug else joined), pr_locale = loc\<rparr>)"

datatype resolve_scope = Public | Admin

record resolved_content =
  rc_id :: string
  rc_typeId :: string
  rc_slug :: string
  rc_locale :: string
  rc_status :: content_status
  rc_fields :: json
  rc_blocks :: "json list"
  rc_authorId :: "string option"
  rc_publishedAt :: "string option"
  rc_updatedAt :: string
  rc_revision :: int
  rc_requiresMembership :: bool

record resolver_opts =
  ro_defaultLocale :: "string option"
  ro_homeSlug :: "string option"
  ro_locales :: "string list option"
  ro_secrets :: "secrets_backend option"

definition not_found :: press_error where
  "not_found = PressError Not_found ''Not found''"

definition resolve ::
  "content_env \<Rightarrow> resolver_opts \<Rightarrow> string \<Rightarrow> string option \<Rightarrow> resolve_scope \<Rightarrow> string list option \<Rightarrow> content_state \<Rightarrow>
   resolved_content result" where
  "resolve env opts s loc scope caps st =
     (let defaultLocale = (case ro_defaultLocale opts of None \<Rightarrow> ''en'' | Some l \<Rightarrow> l);
          loc = (case loc of None \<Rightarrow> defaultLocale | Some l \<Rightarrow> l);
          capabilities = (case caps of None \<Rightarrow> [] | Some cs \<Rightarrow> cs) in
      if scope = Admin \<and> \<not> gate_check capabilities ''content.read'' then Inl not_found
      else (case resolveBySlug s loc (scope = Public) st of None \<Rightarrow> Inl not_found
        | Some e \<Rightarrow>
          (case getRevision (ce_id e) (currentRevision e) st of Inl er \<Rightarrow> Inl er
           | Inr None \<Rightarrow> Inl not_found
           | Inr (Some r) \<Rightarrow>
             (let canReveal = (scope = Admin \<and> gate_check capabilities REVEAL_CAPABILITY);
                  data = (if canReveal then revealEncRefs (crypto env) (secret_mask env) (ro_secrets opts) (JObj (rev_fields r))
                          else redactEncRefs (secret_mask env) (JObj (rev_fields r)))
              in Inr \<lparr>rc_id = ce_id e, rc_typeId = typeId e, rc_slug = slug e, rc_locale = ce_locale e, rc_status = status e,
                   rc_fields = data, rc_blocks = rev_blocks r, rc_authorId = (if scope = Admin then Some (authorId e) else None),
                   rc_publishedAt = publishedAt e, rc_updatedAt = ce_updatedAt e, rc_revision = currentRevision e,
                   rc_requiresMembership = requiresMembership e\<rparr>))))"

definition resolvePath ::
  "content_env \<Rightarrow> resolver_opts \<Rightarrow> string \<Rightarrow> resolve_scope \<Rightarrow> string list option \<Rightarrow> content_state \<Rightarrow> resolved_content result" where
  "resolvePath env opts path scope caps st =
     (let defaultLocale = (case ro_defaultLocale opts of None \<Rightarrow> ''en'' | Some l \<Rightarrow> l);
          route = parsePath path (Some (case ro_locales opts of None \<Rightarrow> [] | Some ls \<Rightarrow> ls)) (Some defaultLocale)
            (Some (case ro_homeSlug opts of None \<Rightarrow> ''home'' | Some h \<Rightarrow> h))
      in resolve env opts (pr_slug route) (Some (pr_locale route)) scope (Some (case caps of None \<Rightarrow> [] | Some cs \<Rightarrow> cs)) st)"

text \<open>A path is read back as the address it spells: the locale prefix, where it is a known one, and the segments of the
  slug. The slug segments are not empty, have no slash and no space at their ends.\<close>

theorem parsePath_address:
  assumes "segs \<noteq> []" "\<forall>s \<in> set (loc # segs). s \<noteq> [] \<and> CHR ''/'' \<notin> set s \<and> js_trim s = s" "loc \<in> set locales"
    and "hd segs \<notin> set locales"
  shows "parsePath (js_join ''/'' ([] # loc # segs)) (Some locales) dl hs = \<lparr>pr_slug = js_join ''/'' segs, pr_locale = loc\<rparr> \<and>
    parsePath (js_join ''/'' ([] # segs)) (Some locales) (Some d) hs = \<lparr>pr_slug = js_join ''/'' segs, pr_locale = d\<rparr>"
proof -
  have split: "filter (\<lambda>s. 0 < length s) (map js_trim (js_split (CHR ''/'') (js_join ''/'' ([] # ss)))) = ss"
    if "\<forall>s \<in> set ss. s \<noteq> [] \<and> CHR ''/'' \<notin> set s \<and> js_trim s = s" for ss
  proof -
    have "js_split (CHR ''/'') (js_join ''/'' ([] # ss)) = [] # ss"
      by (rule js_split_join) (use that in auto)
    moreover have "map js_trim ss = ss" using that by (intro map_idI) simp
    moreover have "js_trim [] = []" by (simp add: js_trim_def)
    ultimately show ?thesis using that by (auto intro!: filter_True)
  qed
  obtain s ss where segs: "segs = s # ss" using assms(1) by (cases segs) auto
  have "js_join ''/'' segs \<noteq> []" using assms(2) segs by (cases ss) auto
  moreover have "filter (\<lambda>s. 0 < length s) (map js_trim (js_split (CHR ''/'') (js_join ''/'' ([] # loc # segs)))) = loc # segs"
    using split [of "loc # segs"] assms(2) by simp
  moreover have "filter (\<lambda>s. 0 < length s) (map js_trim (js_split (CHR ''/'') (js_join ''/'' ([] # segs)))) = segs"
    using split [of segs] assms(2) by simp
  ultimately show ?thesis using assms(3,4) segs unfolding parsePath_def Let_def by (simp only: option.case list.case prod.case if_True if_False list.sel)
qed

lemma parsePath_address_witness:
  "parsePath ''/de/about/team'' (Some [''en'', ''de'']) None None = \<lparr>pr_slug = ''about/team'', pr_locale = ''de''\<rparr>"
proof -
  have "\<forall>s \<in> set (''de'' # [''about'', ''team'']). s \<noteq> [] \<and> CHR ''/'' \<notin> set s \<and> js_trim s = s" by code_simp
  from parsePath_address [OF _ this, of "[''en'', ''de'']"] show ?thesis by simp
qed

end

