(* ===== verification/Content_Props.thy ===== *)
theory Content_Props
  imports Publishing Resolver
begin

text \<open>
  Runs of the content service with the scheduler, and the properties of content: histories, the state
  machine, sealed fields at rest, scheduled publishing, what the public reads.
\<close>

section \<open>Runs\<close>

text \<open>
  One step: an operation of the service by anybody, a tick of the scheduler, another user of the scheduler or
  of the vault.  New ids are fresh and made of the characters of a UUID.
\<close>

inductive content_step :: "content_env \<Rightarrow> content_state \<Rightarrow> content_state \<Rightarrow> bool" for env where
  Create_type: "map_of (ctypes st) uuid = None \<Longrightarrow> content_step env st (snd (createType caps name s fds uuid now st))"
| Create_entry: "map_of (entries st) uuid = None \<Longrightarrow> is_ok (assertSegment uuid ''id'') \<Longrightarrow>
    content_step env st (snd (createEntry env caps inp uuid rnd clk st))"
| Save: "content_step env st (snd (saveEntry env caps i data bs ed rnd clk st))"
| Transition: "is_ok (assertSegment uuid ''id'') \<Longrightarrow> map_of (jobs st) uuid = None \<Longrightarrow>
    content_step env st (snd (transition env caps i to opt uuid clk st))"
| Restore: "content_step env st (snd (restoreRevision caps i v ed clk st))"
| Ensure: "inj uuids \<Longrightarrow>
    (\<And>k. map_of (entries st) (uuids k) = None \<and> map_of (ctypes st) (uuids k) = None \<and> is_ok (assertSegment (uuids k) ''id'')) \<Longrightarrow>
    content_step env st (ensureSystemPages env owner uuids clks st)"
| Tick: "tick (studio_jobs env clk) t st = Some (r, st') \<Longrightarrow> content_step env st st'"
| Schedule: "is_ok (assertSegment uuid ''id'') \<Longrightarrow> map_of (jobs st) uuid = None \<Longrightarrow> ty \<noteq> PUBLISH_JOB_TYPE \<Longrightarrow>
    content_step env st (snd (schedule quiet_env ty w p uuid n n' st))"
| Vault: "content_step env st (st\<lparr>secrets := sec\<rparr>)"

definition content_init :: "content_state \<Rightarrow> bool" where
  "content_init st \<longleftrightarrow> jobs st = [] \<and> ctypes st = [] \<and> entries st = [] \<and> revisions st = []"

inductive content_reach :: "content_env \<Rightarrow> content_state \<Rightarrow> bool" for env where
  Init: "content_init st \<Longrightarrow> content_reach env st"
| Step: "content_reach env st \<Longrightarrow> content_step env st st' \<Longrightarrow> content_reach env st'"

inductive content_steps :: "content_env \<Rightarrow> content_state \<Rightarrow> content_state \<Rightarrow> bool" for env where
  Here: "content_steps env st st"
| More: "content_steps env st st' \<Longrightarrow> content_step env st' st'' \<Longrightarrow> content_steps env st st''"

lemma schedule_tables:
  fixes st :: content_state
  shows
  "ctypes (snd (schedule e ty w p uuid n n' st)) = ctypes st" "entries (snd (schedule e ty w p uuid n n' st)) = entries st"
  "revisions (snd (schedule e ty w p uuid n n' st)) = revisions st"
  by (simp_all add: schedule_def Let_def split: option.split)

lemma kept_put_job: "kept st0 (put_job j st) = kept st0 st"
  by (simp add: kept_def content_ok_def)

lemma publish_handler_kept:
  assumes "kept st0 st" "publish_handler env clk p st = (r, st')"
  shows "kept st0 st'"
  using assms(2)
proof (cases rule: publish_handler_cases)
  case (Publishes i res)
  have "content_ok st" using assms(1) by (simp add: kept_def)
  from kept_trans [OF assms(1) transition_kept [OF this Publishes(2)]] show ?thesis .
qed (use assms(1) in simp)

lemma step_kept:
  assumes "content_step env st st'" "content_ok st"
  shows "kept st st'"
  using assms
proof (cases rule: content_step.cases)
  case (Create_type uuid caps name s fds now)
  then show ?thesis using createType_kept assms(2) by simp
next
  case (Create_entry uuid caps inp rnd clk)
  then show ?thesis using createEntry_kept assms(2) by simp
next
  case (Save caps i data bs ed rnd clk)
  then show ?thesis using saveEntry_kept assms(2) by simp
next
  case (Transition uuid caps i to opt clk)
  show ?thesis unfolding Transition(1) by (rule transition_kept [OF assms(2) prod.collapse [symmetric]])
next
  case (Restore caps i v ed clk)
  then show ?thesis using restoreRevision_kept assms(2) by simp
next
  case (Ensure uuids owner clks)
  show ?thesis unfolding Ensure(1) by (rule ensureSystemPages_kept [OF assms(2) Ensure(2,3)])
next
  case (Tick clk t r)
  show ?thesis
    by (rule tick_inv [where Q = "kept st", OF _ _ _ kept_refl [OF assms(2)] Tick])
       (auto simp: studio_handler kept_put_job intro: publish_handler_kept)
next
  case (Schedule uuid ty w p n n')
  show ?thesis unfolding Schedule(1) by (rule kept_tables [OF assms(2)]) (simp_all add: schedule_tables)
next
  case (Vault sec)
  then show ?thesis using kept_tables [OF assms(2)] by simp
qed

lemma reach_ok: "content_reach env st \<Longrightarrow> content_ok st"
proof (induction rule: content_reach.induct)
  case (Init st)
  then show ?case by (simp add: content_init_def content_ok_def content_inv_def)
next
  case (Step st st')
  then show ?case using step_kept kept_def by blast
qed

lemma steps_kept: "content_steps env st st' \<Longrightarrow> content_ok st \<Longrightarrow> kept st st'"
proof (induction rule: content_steps.induct)
  case (More st' st'')
  then show ?case using step_kept kept_trans kept_def by blast
qed (rule kept_refl)

section \<open>The jobs of a run\<close>

lemma jobs_simps [simp]:
  "jobs (put_entry e st) = jobs st" "jobs (put_revision r st) = jobs st" "jobs (put_type t st) = jobs st"
  "jobs (addRevision i d bs ed v now st) = jobs st" "jobs (st\<lparr>secrets := sec\<rparr>) = jobs st"
  by (simp_all add: put_entry_def put_revision_def put_type_def addRevision_def)

lemma createType_jobs: "jobs (snd (createType caps name s fds uuid now st)) = jobs st"
  by (simp add: createType_def Let_def split: sum.split)

lemma protect_fields_jobs: "protect_fields env rnd t d prior st = (r, st') \<Longrightarrow> jobs st' = jobs st"
  by (auto simp: protect_fields_def split: prod.splits)

lemma createEntry_jobs: "jobs (snd (createEntry env caps inp uuid rnd clk st)) = jobs st"
  unfolding createEntry_def Let_def by (auto dest: protect_fields_jobs split: sum.split prod.split)

lemma saveEntry_jobs: "jobs (snd (saveEntry env caps i d bs ed rnd clk st)) = jobs st"
  unfolding saveEntry_def Let_def by (auto dest: protect_fields_jobs split: sum.split prod.split)

lemma restoreRevision_jobs: "jobs (snd (restoreRevision caps i v ed clk st)) = jobs st"
  unfolding restoreRevision_def Let_def by (auto split: sum.split option.split)

lemma ensure_pages_jobs: "jobs (ensure_pages env owner tid uuids clk n ss st) = jobs st"
  by (induction env owner tid uuids clk n ss st rule: ensure_pages.induct)
     (auto simp: ensure_page_def Let_def split: option.split)

lemma ensureSystemPages_jobs: "jobs (ensureSystemPages env owner uuids clk st) = jobs st"
  by (simp add: ensureSystemPages_def Let_def ensure_pages_jobs split: option.split)

lemma jobs_ok_clk: "jobs_ok (studio_jobs env clk) st \<longleftrightarrow> jobs_ok (studio_jobs env clk') st"
  by (simp add: jobs_ok_def)

lemma jobs_ok_add:
  assumes "jobs_ok (studio_jobs env clk) st" "jobs st' = tab_put (job_id j) j (jobs st)"
    and "is_ok (assertSegment (job_id j) ''id'')" "attempts j = 0"
  shows "jobs_ok (studio_jobs env clk) st'"
proof -
  have "jobs_ok (studio_jobs env clk) (put_job j st)" by (rule put_job_ok [OF assms(1,3)]) (simp_all add: assms(4))
  moreover have "jobs (put_job j st) = jobs st'" by (simp add: put_job_def assms(2))
  ultimately show ?thesis unfolding jobs_ok_def by simp
qed

lemma step_jobs:
  assumes "content_step env st st'" "jobs_ok (studio_jobs env c) st"
  shows "jobs_ok (studio_jobs env c) st'"
  using assms
proof (cases rule: content_step.cases)
  case (Transition uuid caps i to opt clk)
  obtain r where t: "transition env caps i to opt uuid clk st = (r, st')" using Transition(1) by (metis prod.collapse)
  from t show ?thesis
  proof (cases rule: transition_cases)
    case (Moves e)
    show ?thesis
    proof (cases "to = Scheduled \<and> has_scheduler env")
      case True
      then have "jobs st' = tab_put (job_id (publish_job env (ce_id e) (the opt) uuid clk)) (publish_job env (ce_id e) (the opt) uuid clk) (jobs st)"
        using Moves by (simp add: publish_job_def)
      from jobs_ok_add [OF assms(2) this] show ?thesis using Transition(2) by (simp add: publish_job_def)
    next
      case False
      then have "jobs st' = jobs st" using Moves by auto
      then show ?thesis using assms(2) unfolding jobs_ok_def by simp
    qed
  qed (use assms(2) in simp)
next
  case (Tick clk t r)
  have "jobs_ok (studio_jobs env clk) st" using assms(2) jobs_ok_clk by blast
  from publish.tick_progress [OF this, of t] Tick show ?thesis using jobs_ok_clk by auto
next
  case (Schedule uuid ty w p n n')
  define j where "j = \<lparr>job_id = uuid, job_type = ty, runAt = (case w of None \<Rightarrow> Some n | Some r \<Rightarrow> r),
    payload = (case p of None \<Rightarrow> JNull | Some v \<Rightarrow> v), job_status = Pending, attempts = 0, job_createdAt = iso_string n', lastError = None\<rparr>"
  have "jobs st' = tab_put (job_id j) j (jobs st)"
    unfolding Schedule(1) by (simp add: schedule_def Let_def quiet_env_def j_def log_job_def put_job_def)
  from jobs_ok_add [OF assms(2) this] show ?thesis using Schedule(2) by (simp add: j_def)
qed (use assms(2) in \<open>simp_all add: jobs_ok_def createType_jobs createEntry_jobs saveEntry_jobs restoreRevision_jobs ensureSystemPages_jobs\<close>)

lemma reach_jobs: "content_reach env st \<Longrightarrow> jobs_ok (studio_jobs env c) st"
proof (induction rule: content_reach.induct)
  case (Init st)
  then show ?case by (simp add: content_init_def jobs_ok_def)
next
  case (Step st st')
  then show ?case using step_jobs by blast
qed

section \<open>The status of an entry\<close>

definition status_at :: "string \<Rightarrow> content_state \<Rightarrow> (content_status \<times> bool) option" where
  "status_at i st = map_option (\<lambda>e. (status e, system e)) (map_of (entries st) i)"

text \<open>One allowed move, or none; a system page only to published.\<close>

definition one_move :: "content_status \<times> bool \<Rightarrow> content_status \<times> bool \<Rightarrow> bool" where
  "one_move a b \<longleftrightarrow> (fst a = fst b \<or> isAllowedTransition (fst a) (fst b) \<and> (snd a \<longrightarrow> fst b = Published)) \<and> (snd a \<longrightarrow> snd b)"

lemma one_move_refl [simp]: "one_move a a"
  by (simp add: one_move_def)

lemma transition_status:
  assumes ok: "content_ok st" and t: "transition env caps i to opt uuid clk st = (r, st')" and a: "status_at k st = Some a"
  shows "\<exists>b. status_at k st' = Some b \<and> (b = a \<or> (fst b = to \<and> snd b = snd a \<and> isAllowedTransition (fst a) to \<and> (snd a \<longrightarrow> to = Published)))"
  using t
proof (cases rule: transition_cases)
  case (Moves e)
  have "ce_id e = i" using row_entry(1) [OF ok Moves(1)] .
  then show ?thesis using Moves a by (cases "k = i") (auto simp: status_at_def)
qed (use a in simp)

lemma protect_fields_status: "protect_fields env rnd t d prior st = (r, st') \<Longrightarrow> entries st' = entries st"
  by (auto simp: protect_fields_def split: prod.splits)

lemma createEntry_entries:
  "entries (snd (createEntry env caps inp uuid rnd clk st)) = entries st \<or>
   (\<exists>e. ce_id e = uuid \<and> entries (snd (createEntry env caps inp uuid rnd clk st)) = tab_put uuid e (entries st))"
  unfolding createEntry_def Let_def
  by (auto simp: addRevision_def dest: protect_fields_status split: sum.split prod.split intro!: exI)

lemma status_put:
  "map_of (entries st) (ce_id e') = Some e \<Longrightarrow> status e' = status e \<Longrightarrow> system e' = system e \<Longrightarrow>
   status_at k (put_entry e' st) = status_at k st"
  by (auto simp: status_at_def)

lemma status_simps [simp]:
  "status_at k (log_job a st) = status_at k st" "status_at k (put_job j st) = status_at k st"
  "status_at k (addRevision i d bs ed v now st) = status_at k st" "status_at k (put_type t st) = status_at k st"
  "status_at k (st\<lparr>secrets := sec\<rparr>) = status_at k st"
  by (simp_all add: status_at_def addRevision_def)

lemma addRevision_entries [simp]: "entries (addRevision i d bs ed v now st) = entries st"
  by (simp add: addRevision_def)

lemma required_status:
  assumes "content_ok st" "requireEntry i st = Inr e" "entries st' = entries st"
  shows "status_at k (put_entry (e\<lparr>currentRevision := v, ce_updatedAt := u\<rparr>)
     (addRevision (ce_id e) d bs ed w now st')) = status_at k st"
proof -
  have e: "map_of (entries st) i = Some e" using requireEntry_row [OF assms(2)] .
  then have "map_of (entries (addRevision (ce_id e) d bs ed w now st')) (ce_id e) = Some e"
    using row_entry(1) [OF assms(1) e] assms(3) by (simp add: addRevision_def)
  then have "status_at k (put_entry (e\<lparr>currentRevision := v, ce_updatedAt := u\<rparr>) (addRevision (ce_id e) d bs ed w now st')) =
      status_at k (addRevision (ce_id e) d bs ed w now st')" by (intro status_put) simp_all
  then show ?thesis using assms(3) by (simp add: status_at_def)
qed

lemma saveEntry_status:
  assumes "content_ok st" shows "status_at k (snd (saveEntry env caps i d bs ed rnd clk st)) = status_at k st"
proof -
  have s: "status_at k st1 = status_at k st" if "protect_fields env rnd t v p st = (r, st1)" for t v p r st1
    using protect_fields_status [OF that] by (simp add: status_at_def)
  show ?thesis unfolding saveEntry_def Let_def
    by (auto simp: s required_status [OF assms] dest: protect_fields_status split: sum.split prod.split)
qed

lemma restoreRevision_status:
  assumes "content_ok st" shows "status_at k (snd (restoreRevision caps i v ed clk st)) = status_at k st"
  unfolding restoreRevision_def Let_def
  by (auto simp: required_status [OF assms] split: sum.split option.split)

lemma createType_status: "status_at k (snd (createType caps name s fds uuid now st)) = status_at k st"
  by (simp add: createType_def Let_def split: sum.split)

lemma createEntry_status:
  assumes "status_at k st = Some a" "map_of (entries st) uuid = None"
  shows "status_at k (snd (createEntry env caps inp uuid rnd clk st)) = Some a"
proof -
  have "k \<noteq> uuid" using assms by (auto simp: status_at_def)
  then show ?thesis
    using createEntry_entries [of env caps inp uuid rnd clk st] assms(1) by (auto simp: status_at_def)
qed

lemma ensure_page_status:
  assumes ok: "content_ok st" and a: "status_at k st = Some a" and f: "map_of (entries st) uuid = None"
  shows "\<exists>b. status_at k (ensure_page env owner tid s uuid clk st) = Some b \<and> fst b = fst a \<and> (snd a \<longrightarrow> snd b)"
proof (cases "resolveBySlug s DEFAULT_LOCALE False st")
  case None
  have "k \<noteq> uuid" using a f by (auto simp: status_at_def)
  then show ?thesis using None a by (cases a) (auto simp: ensure_page_def Let_def status_at_def)
next
  case (Some e)
  note row = resolve_row(1) [OF ok Some]
  show ?thesis
  proof (cases "system e")
    case False
    then show ?thesis using Some a row by (auto simp: ensure_page_def Let_def status_at_def)
  qed (use Some a in \<open>simp add: ensure_page_def\<close>)
qed

lemma ensure_pages_status:
  assumes "content_ok st" "map_of (ctypes st) tid \<noteq> None" "inj uuids" "status_at k st = Some a"
    and "\<And>m. n \<le> m \<Longrightarrow> map_of (entries st) (uuids m) = None \<and> is_ok (assertSegment (uuids m) ''id'')"
  shows "\<exists>b. status_at k (ensure_pages env owner tid uuids clk n ss st) = Some b \<and> fst b = fst a \<and> (snd a \<longrightarrow> snd b)"
  using assms
proof (induction ss arbitrary: n st a)
  case (Cons s ss)
  let ?st = "ensure_page env owner tid s (uuids n) (clk n) st"
  have k: "kept st ?st" using ensure_page_kept [OF Cons.prems(1,2)] Cons.prems(5) [of n] by simp
  then have ok: "content_ok ?st" "map_of (ctypes ?st) tid \<noteq> None"
    using Cons.prems(2) by (auto simp: kept_def map_le_def dom_def)
  obtain b where b: "status_at k ?st = Some b" "fst b = fst a" "snd a \<longrightarrow> snd b"
    using ensure_page_status [OF Cons.prems(1,4)] Cons.prems(5) [of n] by blast
  have "map_of (entries ?st) (uuids m) = None" if "Suc n \<le> m" for m
    by (rule ensure_page_fresh [OF Cons.prems(1,3)]) (use Cons.prems(5) that in auto)
  then obtain c where "status_at k (ensure_pages env owner tid uuids clk (Suc n) ss ?st) = Some c" "fst c = fst b" "snd b \<longrightarrow> snd c"
    using Cons.IH [OF ok Cons.prems(3) b(1), of "Suc n"] Cons.prems(5) by auto
  then show ?case using b by auto
qed auto

lemma ensureSystemPages_status:
  assumes "content_ok st" "inj uuids" "status_at k st = Some a"
    and "\<And>m. map_of (entries st) (uuids m) = None \<and> map_of (ctypes st) (uuids m) = None \<and> is_ok (assertSegment (uuids m) ''id'')"
  shows "\<exists>b. status_at k (ensureSystemPages env owner uuids clk st) = Some b \<and> fst b = fst a \<and> (snd a \<longrightarrow> snd b)"
proof (cases "first_item (c_query (\<lambda>t. ct_slug t = ''page'') None (ctypes st))")
  case (Some t)
  have "map_of (ctypes st) (ct_id t) \<noteq> None" by (rule first_type_row [OF assms(1) Some])
  from ensure_pages_status [OF assms(1) this assms(2,3), of 0] show ?thesis
    using assms(4) Some by (simp add: ensureSystemPages_def)
next
  case None
  let ?t = "page_type (uuids 6) (clk 6 0)"
  have id: "ct_id ?t = uuids 6" by (simp add: page_type_def)
  have k: "kept st (put_type ?t st)" using put_type_kept [OF assms(1), of ?t] assms(4) id by simp
  then have "content_ok (put_type ?t st)" "map_of (ctypes (put_type ?t st)) (ct_id ?t) \<noteq> None" by (auto simp: kept_def)
  from ensure_pages_status [OF this assms(2), of k a 0] show ?thesis
    using assms(3,4) None by (simp add: ensureSystemPages_def Let_def)
qed

lemma publish_status:
  assumes "content_ok s" "publish_handler env clk p s = (r, s')" "one_move a b" "status_at k s = Some b"
    and "fst b = fst a \<or> fst b = Published"
  shows "\<exists>c. status_at k s' = Some c \<and> one_move a c \<and> (fst c = fst a \<or> fst c = Published)"
  using assms(2)
proof (cases rule: publish_handler_cases)
  case (Publishes i res)
  from transition_status [OF assms(1) Publishes(2) assms(4)] obtain c where
    c: "status_at k s' = Some c" "c = b \<or> (fst c = Published \<and> snd c = snd b \<and> isAllowedTransition (fst b) Published)" by blast
  have "\<not> isAllowedTransition Published Published" by (simp add: isAllowedTransition_def)
  then have "one_move a c \<and> (fst c = fst a \<or> fst c = Published)"
    using c(2) assms(3,5) by (cases a; cases b; cases c) (auto simp: one_move_def)
  then show ?thesis using c(1) by blast
qed (use assms in auto)

lemma step_status:
  assumes "content_step env st st'" "content_ok st" "status_at k st = Some a"
  shows "\<exists>b. status_at k st' = Some b \<and> one_move a b"
  using assms(1)
proof (cases rule: content_step.cases)
  case (Transition uuid caps i to opt clk)
  obtain r where t: "transition env caps i to opt uuid clk st = (r, st')" using Transition(1) by (metis prod.collapse)
  from transition_status [OF assms(2) t assms(3)] show ?thesis by (auto simp: one_move_def)
next
  case (Ensure uuids owner clks)
  obtain b where "status_at k st' = Some b" "fst b = fst a" "snd a \<longrightarrow> snd b"
    using ensureSystemPages_status [OF assms(2) Ensure(2) assms(3) Ensure(3), of env owner clks] unfolding Ensure(1) by blast
  then show ?thesis by (auto simp: one_move_def)
next
  case (Tick clk t r)
  let ?Q = "\<lambda>s. content_ok s \<and> (\<exists>b. status_at k s = Some b \<and> one_move a b \<and> (fst b = fst a \<or> fst b = Published))"
  have "?Q st'"
  proof (rule tick_inv [where Q = ?Q, OF _ _ _ _ Tick])
    fix ty h p r' and s s' :: content_state
    assume h: "map_of (handlers (studio_jobs env clk)) ty = Some h" "?Q s" "h p s = (r', s')"
    then have p: "publish_handler env clk p s = (r', s')" by (simp add: studio_handler)
    have "content_ok s'" using publish_handler_kept [OF kept_refl p] h(2) by (simp add: kept_def)
    then show "?Q s'" using publish_status [OF _ p] h(2) by blast
  qed (use assms(2,3) in \<open>auto simp: content_ok_def\<close>)
  then show ?thesis by blast
next
  case (Schedule uuid ty w p n n')
  have "entries st' = entries st" unfolding Schedule(1) by (simp add: schedule_tables)
  then have "status_at k st' = Some a" using assms(3) by (simp add: status_at_def)
  then show ?thesis by simp
qed (use assms(2,3) in \<open>simp_all add: createType_status createEntry_status saveEntry_status restoreRevision_status\<close>)

section \<open>A small site\<close>

definition demo_entry :: content_entry where
  "demo_entry = \<lparr>ce_id = ''e1'', typeId = ''t1'', slug = ''about'', ce_locale = ''en'', status = Draft, authorId = ''ann'',
     currentRevision = 1, publishedAt = None, scheduledFor = None, ce_createdAt = iso_string 0, ce_updatedAt = iso_string 0,
     system = False, requiresMembership = False\<rparr>"

definition demo_type :: content_type where
  "demo_type = \<lparr>ct_id = ''t1'', ct_name = ''Page'', ct_slug = ''page'', ct_fields =
     [\<lparr>fd_id = ''f0'', fd_name = ''title'', fd_type = FText, fd_required = True, fd_options = None, fd_sensitive = False\<rparr>],
     ct_createdAt = iso_string 0\<rparr>"

definition demo0 :: content_state where
  "demo0 = \<lparr>jobs = [], sched_audit = [], ctypes = [], entries = [], revisions = [], secrets = None\<rparr>"

definition demo1 :: content_state where
  "demo1 = snd (createType [''types.manage''] ''Page'' ''page'' (ct_fields demo_type) ''t1'' 0 demo0)"

definition demo2 :: content_state where
  "demo2 = snd (createEntry demo_env [''content.create'']
     \<lparr>in_typeId = ''t1'', in_slug = ''about'', in_authorId = ''ann'', in_fields = JObj [(''title'', JStr ''Us'')],
      in_blocks = None, in_locale = None\<rparr> ''e1'' (\<lambda>_. ([], [])) (\<lambda>_. 0) demo1)"

lemma demo_ids: "assertSegment ''t1'' ''id'' = Inr ()" "assertSegment ''e1'' ''id'' = Inr ()" "assertSegment ''e1.1'' ''id'' = Inr ()"
  "assertSegment ''j1'' ''id'' = Inr ()"
  by code_simp+

lemma demo_caps: "gate_assert [''types.manage''] ''types.manage'' = Inr ()" "gate_assert [''content.create''] ''content.create'' = Inr ()"
  "gate_assert [''content.publish''] ''content.publish'' = Inr ()" "gate_assert [''content.update''] ''content.update'' = Inr ()"
  "SLUG_RE ''page''" "SLUG_RE ''about''"
  by code_simp+

lemma demo1_tables: "ctypes demo1 = [(''t1'', demo_type)]" "entries demo1 = []" "revisions demo1 = []" "jobs demo1 = []" "secrets demo1 = None"
  by (simp_all add: demo1_def createType_def demo_caps demo_type_def demo0_def put_type_def log_job_def Let_def)

definition demo_revision :: revision where
  "demo_revision = \<lparr>rev_id = ''e1.1'', entryId = ''e1'', version = 1, rev_fields = [(''title'', JStr ''Us'')], rev_blocks = [],
     editorId = ''ann'', rev_createdAt = iso_string 0\<rparr>"

lemma demo_rid: "revisionId ''e1'' 1 = ''e1.1''"
  by code_simp

lemma demo2_tables: "ctypes demo2 = [(''t1'', demo_type)]" "entries demo2 = [(''e1'', demo_entry)]"
  "revisions demo2 = [(''e1.1'', demo_revision)]" "jobs demo2 = []"
proof -
  have t: "requireType ''t1'' demo1 = Inr demo_type" by (simp add: requireType_def c_get_def demo_ids demo1_tables)
  have v: "validateFields demo_env (ct_fields demo_type) (JObj [(''title'', JStr ''Us'')]) = Inr [(''title'', JStr ''Us'')]"
    by (simp add: validateFields_def demo_env_def)
  have p: "protect_fields demo_env rnd demo_type d None demo1 = (Inr d, demo1)" for rnd d
    by (simp add: protect_fields_def protectSensitive_def sensitiveNames_def demo_type_def demo1_tables)
  have q: "c_query P None ([] :: content_entry coll) = []" for P by (simp add: c_query_take)
  show "ctypes demo2 = [(''t1'', demo_type)]" "entries demo2 = [(''e1'', demo_entry)]"
    "revisions demo2 = [(''e1.1'', demo_revision)]" "jobs demo2 = []"
    unfolding demo2_def createEntry_def
    by (simp_all add: demo_caps t v p q demo1_tables addRevision_def demo_entry_def DEFAULT_LOCALE_def Let_def demo_revision_def demo_rid)
qed

lemma demo2_reach: "content_reach demo_env demo2"
proof -
  have "content_reach demo_env demo0" by (rule Init) (simp add: content_init_def demo0_def)
  moreover have "content_step demo_env demo0 demo1" unfolding demo1_def by (rule Create_type) (simp add: demo0_def)
  moreover have "content_step demo_env demo1 demo2"
    unfolding demo2_def by (rule Create_entry) (simp_all add: demo1_tables demo_ids)
  ultimately show ?thesis using Step by blast
qed

section \<open>Properties\<close>

text \<open>C2: In every reachable state the revisions of an entry are exactly those numbered from 1 to its current one, every
  revision belongs to an entry, no two entries have the same slug in one locale, and an entry has a publication date
  exactly when it is published or archived, a scheduled date when it is scheduled.\<close>

theorem content_invariant:
  assumes "content_reach env st" "map_of (entries st) i = Some e"
  shows "(\<forall>v. map_of (revisions st) (revisionId i v) \<noteq> None \<longleftrightarrow> 1 \<le> v \<and> v \<le> currentRevision e) \<and>
    (map_of (revisions st) k = Some r \<longrightarrow> k = revisionId (entryId r) (version r) \<and> map_of (entries st) (entryId r) \<noteq> None) \<and>
    (map_of (entries st) j = Some f \<and> slug f = slug e \<and> ce_locale f = ce_locale e \<longrightarrow> j = i) \<and>
    (publishedAt e \<noteq> None \<longleftrightarrow> status e = Published \<or> status e = Archived) \<and>
    (status e = Scheduled \<longrightarrow> scheduledFor e \<noteq> None)"
proof -
  have ok: "content_ok st" using reach_ok [OF assms(1)] .
  have "k = revisionId (entryId r) (version r) \<and> map_of (entries st) (entryId r) \<noteq> None" if "map_of (revisions st) k = Some r"
    using row_revision(1,3) [OF ok that] by blast
  moreover have "map_of (entries st) j = Some f \<and> slug f = slug e \<and> ce_locale f = ce_locale e \<longrightarrow> j = i"
    using ok assms(2) unfolding content_ok_def content_inv_def by blast
  ultimately show ?thesis using row_entry(2,4) [OF ok assms(2)] unfolding row_ok_def by blast
qed

lemma content_invariant_witness:
  "map_of (revisions demo2) (revisionId ''e1'' 1) \<noteq> None \<and> map_of (revisions demo2) (revisionId ''e1'' 2) = None"
proof -
  have e: "map_of (entries demo2) ''e1'' = Some demo_entry" by (simp add: demo2_tables)
  have c: "currentRevision demo_entry = 1" by (simp add: demo_entry_def)
  have "(map_of (revisions demo2) (revisionId ''e1'' v) \<noteq> None) = (1 \<le> v \<and> v \<le> 1)" for v
    by (rule spec [OF conjunct1 [OF content_invariant [OF demo2_reach e, of "''e1.1''" demo_revision "''e1''" demo_entry], unfolded c]])
  from this [of 1] this [of 2] show ?thesis by simp
qed


text \<open>C12: History only grows. Over any further steps every revision stays as it is, an entry stays and its current revision
  never goes back, and no type changes.\<close>

theorem history_append_only:
  assumes "content_reach env st" "content_steps env st st'" "map_of (entries st) i = Some e"
  shows "map_of (revisions st) \<subseteq>\<^sub>m map_of (revisions st') \<and> map_of (ctypes st) \<subseteq>\<^sub>m map_of (ctypes st') \<and>
    (\<exists>e'. map_of (entries st') i = Some e' \<and> currentRevision e \<le> currentRevision e')"
proof -
  have ok: "content_ok st" using reach_ok [OF assms(1)] .
  have k: "kept st st'" using steps_kept [OF assms(2) ok] .
  then have ok': "content_ok st'" and m: "map_of (revisions st) \<subseteq>\<^sub>m map_of (revisions st')"
    "map_of (ctypes st) \<subseteq>\<^sub>m map_of (ctypes st')" by (simp_all add: kept_def)
  have "1 \<le> currentRevision e" using row_entry(2) [OF ok assms(3)] by (simp add: row_ok_def)
  then obtain r where "map_of (revisions st) (revisionId i (currentRevision e)) = Some r"
    using row_entry(4) [OF ok assms(3), of "currentRevision e"] by auto
  then have r: "map_of (revisions st') (revisionId i (currentRevision e)) = Some r" using m(1) by (metis domI map_le_def)
  then have "entryId r = i" using row_revision(1) [OF ok' r] by (simp add: revisionId_inj)
  then obtain e' where e': "map_of (entries st') i = Some e'" using row_revision(3) [OF ok' r] by blast
  then have "currentRevision e \<le> currentRevision e'" using row_entry(4) [OF ok' e', of "currentRevision e"] r by simp
  then show ?thesis using m e' by blast
qed

lemma history_append_only_witness:
  "\<exists>e'. map_of (entries (snd (saveEntry demo_env [''content.update''] ''e1'' (JObj []) None ''bob'' (\<lambda>_. ([], [])) (\<lambda>_. 5) demo2))) ''e1''
    = Some e' \<and> 1 \<le> currentRevision e'"
proof -
  have "content_steps demo_env demo2 (snd (saveEntry demo_env [''content.update''] ''e1'' (JObj []) None ''bob'' (\<lambda>_. ([], [])) (\<lambda>_. 5) demo2))"
    by (rule More [OF Here Save])
  moreover have "map_of (entries demo2) ''e1'' = Some demo_entry" by (simp add: demo2_tables)
  ultimately show ?thesis using history_append_only [OF demo2_reach, of _ "''e1''" demo_entry] by (auto simp: demo_entry_def)
qed

text \<open>C20: Statuses follow the state machine. In one step of the system, a tick that runs many jobs included, the status of an
  entry does not change or makes one move that the transition table allows, a system page moves to published only and stays
  one; a move that a caller asks for succeeds only with the capability of the target status.\<close>

theorem status_follows_machine:
  assumes "content_reach env st" "content_step env st st'" "map_of (entries st) i = Some e"
  shows "(\<exists>e'. map_of (entries st') i = Some e' \<and>
      (status e' = status e \<or> isAllowedTransition (status e) (status e') \<and> (system e \<longrightarrow> status e' = Published)) \<and>
      (system e \<longrightarrow> system e')) \<and>
    (case transition env caps i to opt uuid clk st of
       (Inl _, st'') \<Rightarrow> st'' = st
     | (Inr _, _) \<Rightarrow> gate_check caps (capabilityForTransition to) \<and> isAllowedTransition (status e) to)"
proof -
  have ok: "content_ok st" using reach_ok [OF assms(1)] .
  have a: "status_at i st = Some (status e, system e)" using assms(3) by (simp add: status_at_def)
  obtain b where "status_at i st' = Some b" "one_move (status e, system e) b" using step_status [OF assms(2) ok a] by blast
  then have 1: "\<exists>e'. map_of (entries st') i = Some e' \<and>
      (status e' = status e \<or> isAllowedTransition (status e) (status e') \<and> (system e \<longrightarrow> status e' = Published)) \<and>
      (system e \<longrightarrow> system e')" by (auto simp: status_at_def one_move_def)
  obtain r s where t: "transition env caps i to opt uuid clk st = (r, s)" by force
  from t have "case (r, s) of (Inl _, st'') \<Rightarrow> st'' = st
     | (Inr _, _) \<Rightarrow> gate_check caps (capabilityForTransition to) \<and> isAllowedTransition (status e) to"
  proof (cases rule: transition_cases)
    case (Moves f)
    then show ?thesis using assms(3) by simp
  qed simp
  then show ?thesis using 1 t by simp
qed

lemma status_follows_machine_witness:
  "\<exists>e'. map_of (entries (snd (transition demo_env [''content.publish''] ''e1'' Published None ''j1'' (\<lambda>_. 5) demo2))) ''e1'' = Some e' \<and>
    (status e' = Draft \<or> isAllowedTransition Draft (status e'))"
proof -
  have s: "content_step demo_env demo2 (snd (transition demo_env [''content.publish''] ''e1'' Published None ''j1'' (\<lambda>_. 5) demo2))"
    by (rule Transition) (simp_all add: demo_ids demo2_tables)
  have e: "map_of (entries demo2) ''e1'' = Some demo_entry" by (simp add: demo2_tables)
  have d: "status demo_entry = Draft" by (simp add: demo_entry_def)
  show ?thesis using status_follows_machine [OF demo2_reach s e] unfolding d by blast
qed


definition demo3 :: content_state where
  "demo3 = snd (transition demo_env [''content.publish''] ''e1'' Scheduled (Some ''2030'') ''j1'' (\<lambda>_. 0) demo2)"

lemma demo3_step:
  "transition demo_env [''content.publish''] ''e1'' Scheduled (Some ''2030'') ''j1'' (\<lambda>_. 0) demo2 =
     (Inr (moved_entry Scheduled (Some ''2030'') (\<lambda>_. 0) demo_entry), demo3)"
proof -
  have "requireEntry ''e1'' demo2 = Inr demo_entry" by (simp add: requireEntry_def c_get_def demo_ids demo2_tables)
  then have "fst (transition demo_env [''content.publish''] ''e1'' Scheduled (Some ''2030'') ''j1'' (\<lambda>_. 0) demo2) =
     Inr (moved_entry Scheduled (Some ''2030'') (\<lambda>_. 0) demo_entry)"
    by (simp add: transition_def demo_caps demo_entry_def isAllowedTransition_def moved_entry_def Let_def)
  then show ?thesis unfolding demo3_def by (metis prod.collapse)
qed


text \<open>C35: Taking a scheduled entry back to draft does not cancel its job: at the date of the old schedule the draft is
  published, though nobody asked for it since.\<close>

theorem stale_job_publishes_draft:
  assumes "content_reach env st" "has_scheduler env" "is_ok (assertSegment uuid ''id'')" "map_of (jobs st) uuid = None"
    and "transition env caps i Scheduled (Some date) uuid clk st = (Inr e, st1)"
    and "transition env caps' i Draft None uuid' clk2 st1 = (Inr e2, st2)" "status e2 = Draft"
    and "(case date_parse env date of None \<Rightarrow> 0 | Some d \<Rightarrow> d) \<le> t"
  shows "\<exists>n st3 e'. tick (studio_jobs env clk') t st2 = Some (Inr n, st3) \<and> map_of (entries st3) i = Some e' \<and> status e' = Published"
proof -
  have ok: "content_ok st" using reach_ok [OF assms(1)] .
  have s: "content_step env st st1" using Transition [OF assms(3,4), of env caps i Scheduled "Some date" clk] assms(5) by simp
  have ok1: "content_ok st1" "jobs_ok (studio_jobs env clk') st1"
    using step_kept [OF s ok] step_jobs [OF s reach_jobs [OF assms(1)]] by (simp_all add: kept_def)
  from assms(5) obtain f where f: "map_of (entries st) i = Some f"
    "jobs st1 = tab_put uuid (publish_job env (ce_id f) date uuid clk) (jobs st)"
    using assms(2) by (cases rule: transition_cases) auto
  have i: "ce_id f = i" "i \<noteq> []" using row_entry(1,2) [OF ok f(1)] by (auto simp: row_ok_def assertSegment_def SAFE_SEGMENT_def)
  from assms(6) obtain g where g: "map_of (entries st1) i = Some g" "entries st2 = tab_put (ce_id g) (moved_entry Draft None clk2 g) (entries st1)"
    "jobs st2 = jobs st1" by (cases rule: transition_cases) auto
  have gi: "ce_id g = i" using row_entry(1) [OF ok1(1) g(1)] .
  have ok2: "content_ok st2" using transition_kept [OF ok1(1) assms(6)] by (simp add: kept_def)
  have j2: "jobs_ok (studio_jobs env clk') st2" using ok1(2) unfolding jobs_ok_def g(3) .
  have p: "publishable i False st2" using ok2 g(2) gi by (simp add: publishable_def isAllowedTransition_def)
  have j: "map_of (jobs st2) uuid = Some (publish_job env i date uuid clk)" using f(2) g(3) i(1) by simp
  obtain n st3 where "tick (studio_jobs env clk') t st2 = Some (Inr n, st3)" "publishable i True st3"
    using tick_publishes [OF p i(2) j2 j publish_job_facts(1-3)] assms(8) unfolding publish_job_facts(4) by blast
  then show ?thesis by (auto simp: publishable_def)
qed

lemma stale_job_publishes_draft_witness:
  "\<exists>st2. (\<exists>e2. transition demo_env [''content.update''] ''e1'' Draft None ''j2'' (\<lambda>_. 1) demo3 = (Inr e2, st2) \<and> status e2 = Draft) \<and>
    (\<exists>n st3 e'. tick (studio_jobs demo_env (\<lambda>_. 0)) 1000 st2 = Some (Inr n, st3) \<and> map_of (entries st3) ''e1'' = Some e' \<and> status e' = Published)"
proof -
  have 1: "has_scheduler demo_env" "is_ok (assertSegment ''j1'' ''id'')" "map_of (jobs demo2) ''j1'' = None"
    "(case date_parse demo_env ''2030'' of None \<Rightarrow> 0 | Some d \<Rightarrow> d) \<le> 1000"
    by (simp_all add: demo_env_def demo_ids demo2_tables)
  let ?m = "moved_entry Scheduled (Some ''2030'') (\<lambda>_. 0) demo_entry"
  have "map_of (entries demo3) ''e1'' = Some ?m"
    using demo3_step by (cases rule: transition_cases) (auto simp: demo2_tables demo_entry_def)
  then have r: "requireEntry ''e1'' demo3 = Inr ?m" by (simp add: requireEntry_def c_get_def demo_ids)
  have sys: "system ?m = False" "status ?m = Scheduled" by (simp_all add: demo_entry_def)
  obtain e2 st2 where t: "transition demo_env [''content.update''] ''e1'' Draft None ''j2'' (\<lambda>_. 1) demo3 = (Inr e2, st2)" "status e2 = Draft"
    using r sys by (simp add: transition_def demo_caps isAllowedTransition_def Let_def)
  from stale_job_publishes_draft [OF demo2_reach 1(1-3) demo3_step t 1(4), of "\<lambda>_. 0"] t show ?thesis by blast
qed

definition secret_field :: field_def where
  "secret_field = \<lparr>fd_id = ''f1'', fd_name = ''iban'', fd_type = FText, fd_required = True, fd_options = None, fd_sensitive = True\<rparr>"

definition safe0 :: content_state where
  "safe0 = demo0\<lparr>secrets := Some (fresh_backend (toy_key CHR ''k''))\<rparr>"

definition safe1 :: content_state where
  "safe1 = snd (createType [''types.manage''] ''Page'' ''page'' [secret_field] ''t1'' 0 safe0)"

definition safe2 :: content_state where
  "safe2 = snd (createEntry demo_env [''content.create'']
     \<lparr>in_typeId = ''t1'', in_slug = ''about'', in_authorId = ''ann'', in_fields = JObj [(''iban'', JStr ''DE1'')],
      in_blocks = None, in_locale = None\<rparr> ''e1'' (\<lambda>_. (''u'', [])) (\<lambda>_. 0) safe1)"


section \<open>What is read\<close>

lemma slug_unique:
  assumes "content_ok st" "map_of (entries st) i = Some e" "map_of (entries st) j = Some f" "slug e = slug f" "ce_locale e = ce_locale f"
  shows "i = j"
proof -
  have "\<forall>i j e f. map_of (entries st) i = Some e \<and> map_of (entries st) j = Some f \<and> slug e = slug f \<and> ce_locale e = ce_locale f \<longrightarrow> i = j"
    using assms(1) unfolding content_ok_def content_inv_def by (elim conjE)
  then show ?thesis using assms(2-5) by blast
qed

text \<open>The entry that the public finds under an address.\<close>

lemma resolveBySlug_public:
  assumes "content_ok st" "map_of (entries st) i = Some e" "status e = Published"
  shows "resolveBySlug (slug e) (ce_locale e) True st = Some e"
proof -
  have v: "e \<in> vals (entries st)" using map_of_SomeD [OF assms(2)] by (force simp: vals_def)
  then have "first_item (c_query (\<lambda>x. slug x = slug e \<and> ce_locale x = ce_locale e) None (entries st)) \<noteq> None"
    unfolding first_query_None by blast
  then obtain f where f: "first_item (c_query (\<lambda>x. slug x = slug e \<and> ce_locale x = ce_locale e) None (entries st)) = Some f" by blast
  then have r: "resolveBySlug (slug e) (ce_locale e) False st = Some f" by (simp add: resolveBySlug_def)
  note row = resolve_row [OF assms(1) r]
  have "ce_id f = i" by (rule slug_unique [OF assms(1) row(1) assms(2) row(2,3)])
  then have "f = e" using row(1) assms(2) by simp
  then show ?thesis using f assms(3) by (simp add: resolveBySlug_def)
qed

text \<open>C4: The public reads published content only, and nothing that is not meant for it. A published entry is the one
  found under its address; whatever a public read of an address
  returns is the published entry with exactly that slug and locale, in its current revision, without its author, with the
  references to secrets replaced by the mask, and it is the same whatever the vault holds. An admin read without the
  capability to read content answers like one of a page that does not exist.\<close>

theorem public_read_safe:
  assumes "content_reach env st"
  shows "(\<forall>i e. map_of (entries st) i = Some e \<and> status e = Published \<longrightarrow> resolveBySlug (slug e) (ce_locale e) True st = Some e) \<and>
    (\<forall>rc. resolve env opts s (Some loc) Public caps st = Inr rc \<longrightarrow>
      (\<exists>e r. map_of (entries st) (rc_id rc) = Some e \<and> status e = Published \<and> slug e = s \<and> ce_locale e = loc \<and>
         map_of (revisions st) (revisionId (rc_id rc) (currentRevision e)) = Some r \<and>
         rc_fields rc = redactEncRefs (secret_mask env) (JObj (rev_fields r)) \<and>
         set (ref_names (rc_fields rc)) \<subseteq> {secret_mask env} \<and> rc_blocks rc = rev_blocks r \<and> rc_authorId rc = None)) \<and>
    resolve env (opts\<lparr>ro_secrets := other\<rparr>) s (Some loc) Public caps st = resolve env opts s (Some loc) Public caps st \<and>
    (gate_check (case caps of None \<Rightarrow> [] | Some cs \<Rightarrow> cs) ''content.read'' \<or> resolve env opts s (Some loc) Admin caps st = Inl not_found)"
proof (intro conjI allI impI; (elim conjE)?)
  fix i e assume "map_of (entries st) i = Some e" "status e = Published"
  then show "resolveBySlug (slug e) (ce_locale e) True st = Some e" by (rule resolveBySlug_public [OF reach_ok [OF assms]])
next
  have ok: "content_ok st" using reach_ok [OF assms] .
  fix rc assume res: "resolve env opts s (Some loc) Public caps st = Inr rc"
  obtain e where e: "resolveBySlug s loc True st = Some e" using res by (auto simp: resolve_def Let_def split: option.splits)
  note row = resolve_row [OF ok e]
  obtain r where r: "getRevision (ce_id e) (currentRevision e) st = Inr (Some r)"
    using res e by (auto simp: resolve_def Let_def split: option.splits sum.splits)
  then have rr: "map_of (revisions st) (revisionId (ce_id e) (currentRevision e)) = Some r"
    unfolding getRevision_def by (rule c_get_Some)
  have rc: "rc_id rc = ce_id e" "rc_fields rc = redactEncRefs (secret_mask env) (JObj (rev_fields r))"
    "rc_blocks rc = rev_blocks r" "rc_authorId rc = None"
    using res e r unfolding resolve_def Let_def by auto
  have "set (ref_names (rc_fields rc)) \<subseteq> {secret_mask env}" unfolding rc(2) by (rule redact_ref_names)
  then show "\<exists>e r. map_of (entries st) (rc_id rc) = Some e \<and> status e = Published \<and> slug e = s \<and> ce_locale e = loc \<and>
      map_of (revisions st) (revisionId (rc_id rc) (currentRevision e)) = Some r \<and>
      rc_fields rc = redactEncRefs (secret_mask env) (JObj (rev_fields r)) \<and>
      set (ref_names (rc_fields rc)) \<subseteq> {secret_mask env} \<and> rc_blocks rc = rev_blocks r \<and> rc_authorId rc = None"
    using row rr rc by auto
next
  show "resolve env (opts\<lparr>ro_secrets := other\<rparr>) s (Some loc) Public caps st = resolve env opts s (Some loc) Public caps st"
    unfolding resolve_def Let_def by (simp only: resolve_scope.distinct simp_thms if_False option.case)
  show "gate_check (case caps of None \<Rightarrow> [] | Some cs \<Rightarrow> cs) ''content.read'' \<or> resolve env opts s (Some loc) Admin caps st = Inl not_found"
    unfolding resolve_def Let_def by simp
qed

lemma public_read_safe_witness:
  "resolve demo_env \<lparr>ro_defaultLocale = None, ro_homeSlug = None, ro_locales = None, ro_secrets = None\<rparr> ''about'' (Some ''en'') Admin None demo2
     = Inl not_found \<and>
   (\<forall>rc. resolve demo_env \<lparr>ro_defaultLocale = None, ro_homeSlug = None, ro_locales = None, ro_secrets = None\<rparr> ''about'' (Some ''en'') Public None demo2
     \<noteq> Inr rc)"
proof -
  let ?o = "\<lparr>ro_defaultLocale = None, ro_homeSlug = None, ro_locales = None, ro_secrets = None\<rparr>"
  note p = public_read_safe [OF demo2_reach, of ?o "''about''" "''en''" None None]
  have "\<not> gate_check [] ''content.read''" by (simp add: gate_check_def)
  then have 1: "resolve demo_env ?o ''about'' (Some ''en'') Admin None demo2 = Inl not_found" using p by simp
  have "False" if "resolve demo_env ?o ''about'' (Some ''en'') Public None demo2 = Inr rc" for rc
  proof -
    note res = that
    obtain e where e: "map_of (entries demo2) (rc_id rc) = Some e" "status e = Published" using p res by blast
    then have "e = demo_entry" by (simp add: demo2_tables split: if_splits)
    then show False using e(2) by (simp add: demo_entry_def)
  qed
  with 1 show ?thesis by blast
qed

text \<open>A content type may have a field called \<open>$enc\<close>. The fields of its entries are then one object that looks like a
  reference: an admin read with the reveal capability returns in their place the secret of whatever name an editor typed,
  a secret of another purpose included, and every other reader sees the mask in place of all fields.\<close>

theorem enc_field_reads_any_secret:
  assumes "resolveBySlug s loc False st = Some e"
    and "getRevision (ce_id e) (currentRevision e) st = Inr (Some r)" "map_of (rev_fields r) ''$enc'' = Some (JStr name)"
    and "ro_secrets opts = Some b" "getSecret (crypto env) name b = Inr secret"
    and "gate_check caps ''content.read''" "gate_check caps REVEAL_CAPABILITY"
  shows "(\<exists>rc. resolve env opts s (Some loc) Admin (Some caps) st = Inr rc \<and> rc_fields rc = JStr secret) \<and>
    (resolveBySlug s loc True st = Some e \<longrightarrow>
       (\<exists>rc. resolve env opts s (Some loc) Public (Some caps) st = Inr rc \<and> rc_fields rc = JStr (secret_mask env)))"
proof -
  have "isEncRef (JObj (rev_fields r)) = Some name" using assms(3) by (simp add: isEncRef_def)
  then have "\<exists>rc. resolve env opts s (Some loc) Admin (Some caps) st = Inr rc \<and> rc_fields rc = JStr secret"
    "resolveBySlug s loc True st = Some e \<longrightarrow>
       (\<exists>rc. resolve env opts s (Some loc) Public (Some caps) st = Inr rc \<and> rc_fields rc = JStr (secret_mask env))"
    using assms(1,2,4-7) by (simp_all add: resolve_def Let_def)
  then show ?thesis by blast
qed

lemma enc_field_reads_any_secret_witness:
  "\<exists>rc. resolve demo_env
      \<lparr>ro_defaultLocale = None, ro_homeSlug = None, ro_locales = None,
        ro_secrets = Some (setSecret toy_crypto [] ''mfa:u1'' ''JBSW'' None (fresh_backend (toy_key CHR ''k'')))\<rparr>
      ''about'' (Some ''en'') Admin (Some [''content.read'', ''content.reveal''])
      (demo2\<lparr>revisions := [(''e1.1'', demo_revision\<lparr>rev_fields := [(''$enc'', JStr ''mfa:u1'')]\<rparr>)]\<rparr>) = Inr rc \<and>
    rc_fields rc = JStr ''JBSW''"
proof -
  let ?st = "demo2\<lparr>revisions := [(''e1.1'', demo_revision\<lparr>rev_fields := [(''$enc'', JStr ''mfa:u1'')]\<rparr>)]\<rparr>"
  let ?b = "setSecret toy_crypto [] ''mfa:u1'' ''JBSW'' None (fresh_backend (toy_key CHR ''k''))"
  let ?o = "\<lparr>ro_defaultLocale = None, ro_homeSlug = None, ro_locales = None, ro_secrets = Some ?b\<rparr>"
  have 1: "resolveBySlug ''about'' ''en'' False ?st = Some demo_entry"
    by (simp add: resolveBySlug_def first_item_def c_query_take demo2_tables demo_entry_def)
  have "ce_id demo_entry = ''e1''" "currentRevision demo_entry = 1" by (simp_all add: demo_entry_def)
  then have 2: "getRevision (ce_id demo_entry) (currentRevision demo_entry) ?st = Inr (Some (demo_revision\<lparr>rev_fields := [(''$enc'', JStr ''mfa:u1'')]\<rparr>))"
    by (simp only: getRevision_def demo_rid) (simp add: c_get_def demo_ids)
  have "crypto demo_env = toy_crypto" by (simp add: demo_env_def)
  then have 3: "getSecret (crypto demo_env) ''mfa:u1'' ?b = Inr ''JBSW''" by (simp add: getSecret_set)
  have 4: "gate_check [''content.read'', ''content.reveal''] ''content.read''"
    "gate_check [''content.read'', ''content.reveal''] REVEAL_CAPABILITY" by code_simp+
  have 5: "map_of (rev_fields (demo_revision\<lparr>rev_fields := [(''$enc'', JStr ''mfa:u1'')]\<rparr>)) ''$enc'' = Some (JStr ''mfa:u1'')" by simp
  have 6: "ro_secrets ?o = Some ?b" by simp
  show ?thesis by (rule conjunct1 [OF enc_field_reads_any_secret [OF 1 2 5 6 3 4]])
qed

section \<open>Search\<close>

lemma search_loop_hits:
  "search_loop env q limit st es hits = Inr out \<Longrightarrow> length hits < limit \<Longrightarrow>
   length out \<le> limit \<and> (\<forall>h \<in> set out. h \<in> set hits \<or>
     (\<exists>e \<in> set es. \<not> system e \<and> hit_slug h = slug e \<and> hit_locale h = ce_locale e))"
proof (induction es arbitrary: hits)
  case (Cons e es)
  have rest: ?case if "search_loop env q limit st es hits = Inr out"
    using Cons.IH [OF that Cons.prems(2)] by auto
  show ?case
  proof (cases "system e")
    case True
    then show ?thesis using Cons.prems(1) rest by simp
  next
    case False
    show ?thesis
    proof (cases "getRevision (ce_id e) (currentRevision e) st")
      case (Inl er)
      then show ?thesis using Cons.prems(1) False by simp
    next
      case (Inr ro)
      show ?thesis
      proof (cases ro)
        case None
        then show ?thesis using Cons.prems(1) False Inr rest by simp
      next
        case (Some r)
        define title where "title = entry_title e r"
        define words where "words = buildSearchText title (rev_fields r) (rev_blocks r)"
        show ?thesis
        proof (cases "text_index (js_lower words) q")
          case None
          then show ?thesis using Cons.prems(1) False Inr Some rest by (simp add: title_def words_def Let_def)
        next
          case (Some ix)
          define h where "h = \<lparr>hit_slug = slug e, hit_title = title, hit_excerpt = makeExcerpt (ellipsis env) words ix (length q),
            hit_locale = ce_locale e\<rparr>"
          have step: "search_loop env q limit st (e # es) hits =
              (if limit \<le> length (hits @ [h]) then Inr (hits @ [h]) else search_loop env q limit st es (hits @ [h]))"
            using False Inr \<open>ro = Some r\<close> Some by (simp add: title_def words_def h_def Let_def)
          have h: "\<not> system e \<and> hit_slug h = slug e \<and> hit_locale h = ce_locale e" using False by (simp add: h_def)
          show ?thesis
          proof (cases "limit \<le> length (hits @ [h])")
            case True
            then have "out = hits @ [h]" using Cons.prems(1) step by simp
            then show ?thesis using Cons.prems(2) h by auto
          next
            case False
            then have "search_loop env q limit st es (hits @ [h]) = Inr out" using Cons.prems(1) step by simp
            from Cons.IH [OF this] False h show ?thesis by auto
          qed
        qed
      qed
    qed
  qed
qed auto

text \<open>A search never returns more than 50 hits, nor more than asked for, and each hit is a published entry that is not a
  system page, in the locale that was asked for if one was.\<close>

theorem search_public:
  assumes "searchPublished env query lm loc st = Inr hits"
  shows "length hits \<le> 50 \<and> (\<forall>n. lm = Some n \<and> 1 \<le> n \<longrightarrow> int (length hits) \<le> n) \<and>
    (\<forall>h \<in> set hits. \<exists>e \<in> vals (entries st). status e = Published \<and> \<not> system e \<and> hit_slug h = slug e \<and>
       hit_locale h = ce_locale e \<and> (\<forall>l. loc = Some l \<and> l \<noteq> [] \<longrightarrow> ce_locale e = l))"
proof -
  let ?P = "\<lambda>e. status e = Published \<and> (case loc of None \<Rightarrow> True | Some l \<Rightarrow> l = [] \<or> ce_locale e = l)"
  let ?n = "nat (min (max 1 (case lm of None \<Rightarrow> 20 | Some n \<Rightarrow> n)) 50)"
  show ?thesis
  proof (cases "js_lower (js_trim query) = []")
    case True
    then show ?thesis using assms by (simp add: searchPublished_def Let_def)
  next
    case False
    then have "search_loop env (js_lower (js_trim query)) ?n st (c_query ?P (Some SEARCH_SCAN_CAP) (entries st)) [] = Inr hits"
      using assms by (simp add: searchPublished_def Let_def)
    from search_loop_hits [OF this] have
      l: "length hits \<le> ?n" and h: "\<forall>h \<in> set hits. \<exists>e \<in> set (c_query ?P (Some SEARCH_SCAN_CAP) (entries st)).
        \<not> system e \<and> hit_slug h = slug e \<and> hit_locale h = ce_locale e" by (auto simp: min_def max_def)
    have "length hits \<le> 50 \<and> (\<forall>n. lm = Some n \<and> 1 \<le> n \<longrightarrow> int (length hits) \<le> n)" using l by (cases lm) auto
    moreover have "\<exists>e \<in> vals (entries st). status e = Published \<and> \<not> system e \<and> hit_slug h = slug e \<and>
       hit_locale h = ce_locale e \<and> (\<forall>l. loc = Some l \<and> l \<noteq> [] \<longrightarrow> ce_locale e = l)" if h': "h \<in> set hits" for h
    proof -
      obtain e where e: "e \<in> set (c_query ?P (Some SEARCH_SCAN_CAP) (entries st))" "\<not> system e" "hit_slug h = slug e" "hit_locale h = ce_locale e"
        using h h' by blast
      have "e \<in> vals (entries st) \<and> ?P e" using subsetD [OF c_query_sub e(1)] by simp
      then show ?thesis using e(2-4) by (cases loc) auto
    qed
    ultimately show ?thesis by blast
  qed
qed

lemma search_public_witness:
  "\<exists>hits. searchPublished demo_env ''us'' None None demo2 = Inr hits \<and> length hits \<le> 50"
proof -
  have "searchPublished demo_env ''us'' None None demo2 = Inr []"
    by (simp add: searchPublished_def c_query_take demo2_tables demo_entry_def Let_def)
  then show ?thesis using search_public by blast
qed

end
