(* ===== verification/Plugin_Sign.thy ===== *)
theory Plugin_Sign
  imports Sensitive Access Storage
begin

text \<open>
  What decides whether a plugin may be loaded: the signature over every file of its directory
  (\<open>packages/runtime/src/plugin-signature.ts\<close>), the list of known vulnerabilities (\<open>cve.ts\<close>) and the
  stored set of enabled plugins (\<open>plugin-state.ts\<close>).  HMAC-SHA256 is a parameter.
\<close>

section \<open>Signatures\<close>

definition SIGNATURE_FILE :: string where "SIGNATURE_FILE = ''pressh.signature.json''"
definition SIGNATURE_ALGORITHM :: string where "SIGNATURE_ALGORITHM = ''hmac-sha256''"
definition KEY_DERIVATION_LABEL :: string where "KEY_DERIVATION_LABEL = ''pressh/plugin-signing/v1''"

text \<open>\<open>hmac key data\<close> is the digest in hexadecimal; \<open>hmac_raw\<close> the same digest as bytes.\<close>

record sign_env =
  hmac :: "string \<Rightarrow> string \<Rightarrow> string"
  hmac_raw :: "string \<Rightarrow> string \<Rightarrow> string"

definition derivePluginSigningKey :: "sign_env \<Rightarrow> string \<Rightarrow> string" where
  "derivePluginSigningKey env secret = hmac_raw env secret KEY_DERIVATION_LABEL"

definition computeFileHmac :: "sign_env \<Rightarrow> string \<Rightarrow> string \<Rightarrow> string" where
  "computeFileHmac env key content = hmac env key content"

text \<open>A directory entry is a directory, a file with its bytes, or something else (a symbolic link).\<close>

datatype fs_node = FFile string | FDir "(string \<times> fs_node) list" | FOther

fun walk_files :: "string \<Rightarrow> (string \<times> fs_node) list \<Rightarrow> (string \<times> string) list"
  and walk_file :: "string \<Rightarrow> fs_node \<Rightarrow> (string \<times> string) list" where
  "walk_files current [] = []"
| "walk_files current ((name, n) # rest) = walk_file (current @ name) n @ walk_files current rest"
| "walk_file path (FDir entries) = walk_files (path @ ''/'') entries"
| "walk_file path (FFile content) = (if path \<noteq> SIGNATURE_FILE then [(path, content)] else [])"
| "walk_file path FOther = []"

text \<open>The paths, relative to the directory, each with the bytes that \<open>readFile\<close> gives for it.\<close>

definition listPluginFiles :: "(string \<times> fs_node) list \<Rightarrow> (string \<times> string) list" where
  "listPluginFiles dir = sort_key fst (walk_files [] dir)"

record plugin_signature =
  sig_algorithm :: "json option"
  sig_files :: "json option"

definition buildSignature :: "sign_env \<Rightarrow> string \<Rightarrow> (string \<times> fs_node) list \<Rightarrow> plugin_signature" where
  "buildSignature env key dir =
     \<lparr>sig_algorithm = Some (JStr SIGNATURE_ALGORITHM),
      sig_files = Some (JObj (foldl (\<lambda>fs (rel, content). obj_set rel (JStr (computeFileHmac env key content)) fs) [] (listPluginFiles dir)))\<rparr>"

text \<open>\<open>Buffer.from(s, "hex")\<close> stops at the first pair that is not hexadecimal.\<close>

definition hex_digit_val :: "char \<Rightarrow> nat option" where
  "hex_digit_val c = (let n = (of_char c :: nat) in
     if 48 \<le> n \<and> n \<le> 57 then Some (n - 48) else if 97 \<le> n \<and> n \<le> 102 then Some (n - 87)
     else if 65 \<le> n \<and> n \<le> 70 then Some (n - 55) else None)"

fun hex_bytes :: "string \<Rightarrow> nat list" where
  "hex_bytes (a # b # s) =
     (case (hex_digit_val a, hex_digit_val b) of (Some x, Some y) \<Rightarrow> (16 * x + y) # hex_bytes s | _ \<Rightarrow> [])"
| "hex_bytes _ = []"

text \<open>\<open>timingSafeEqual\<close> throws on buffers of different lengths.\<close>

definition hmacEqual :: "string \<Rightarrow> string \<Rightarrow> bool result" where
  "hmacEqual a b =
     (if length a \<noteq> length b then Inr False
      else if length (hex_bytes a) \<noteq> length (hex_bytes b) then Inl (js_error ''Input buffers must have the same byte length'')
      else Inr (hex_bytes a = hex_bytes b))"

text \<open>The members of \<open>signature.files\<close> when it is an object or an array; nothing when the format check refuses it.\<close>

definition files_of :: "json option \<Rightarrow> (string \<times> json) list option" where
  "files_of v = (case v of
     Some (JObj kvs) \<Rightarrow> Some kvs | Some (JArr vs) \<Rightarrow> Some (zip (map nat_digits [0..<length vs]) vs) | _ \<Rightarrow> None)"

datatype verify_result = Verified | Rejected string

fun check_files :: "sign_env \<Rightarrow> string \<Rightarrow> (string \<times> json) list \<Rightarrow> (string \<times> string) list \<Rightarrow> verify_result result" where
  "check_files env key signed [] = Inr Verified"
| "check_files env key signed ((rel, content) # rest) =
     (let bad = Inr (Rejected (''file \"'' @ rel @ ''\" failed signature verification'')) in
      case map_of signed rel of
        Some (JStr expected) \<Rightarrow>
          (case hmacEqual (computeFileHmac env key content) expected of
             Inl e \<Rightarrow> Inl e | Inr eq \<Rightarrow> if \<not> eq then bad else check_files env key signed rest)
      | _ \<Rightarrow> bad)"

definition verifyPluginSignature ::
  "sign_env \<Rightarrow> (string \<times> fs_node) list \<Rightarrow> plugin_signature \<Rightarrow> string \<Rightarrow> verify_result result" where
  "verifyPluginSignature env dir sig key =
     (case (if sig_algorithm sig \<noteq> Some (JStr SIGNATURE_ALGORITHM) then None else files_of (sig_files sig)) of
        None \<Rightarrow> Inr (Rejected ''unrecognized signature format'')
      | Some fs \<Rightarrow>
          (let onDisk = listPluginFiles dir
           in if map fst onDisk \<noteq> sort (map fst fs)
              then Inr (Rejected ''file set does not match signature (a file was added or removed)'')
              else check_files env key fs onDisk))"

section \<open>Known vulnerabilities\<close>

record cve_entry =
  cve_name :: string
  cve_version :: string
  advisory :: string

definition cve_normalize :: "string \<Rightarrow> string" where
  "cve_normalize v = js_lower (js_trim v)"

definition cve_records :: "cve_entry coll \<Rightarrow> cve_entry list" where
  "cve_records t = (case read_pages (\<lambda>_. True) (Some 500) t None [] of None \<Rightarrow> [] | Some es \<Rightarrow> es)"

text \<open>One \<open>sync\<close>: \<open>fetched\<close> is nothing when the source throws, \<open>uuids\<close> are the ids of the new records.\<close>

record cve_state =
  cve_coll :: "cve_entry coll"
  cve_audit :: "audit_event list"

definition cve_sync :: "cve_entry list option \<Rightarrow> string list \<Rightarrow> cve_state \<Rightarrow> (nat \<times> bool) \<times> cve_state" where
  "cve_sync fetched uuids st =
     (case fetched of
        None \<Rightarrow> ((0, True), st\<lparr>cve_audit := cve_audit st @ [event ''cve.sync.failed'' None []]\<rparr>)
      | Some es \<Rightarrow>
          ((length es, False),
           \<lparr>cve_coll = put_all (zip uuids es) (del_all (map fst (cve_coll st)) (cve_coll st)),
            cve_audit = cve_audit st @ [event ''cve.sync'' None [(''synced'', DNum (int (length es)))]]\<rparr>))"

definition isFlagged :: "string \<Rightarrow> string \<Rightarrow> cve_state \<Rightarrow> bool" where
  "isFlagged name version st =
     list_ex (\<lambda>e. js_trim (cve_version e) = ''*'' \<or> cve_normalize (cve_version e) = cve_normalize version)
       (filter (\<lambda>e. cve_normalize (cve_name e) = cve_normalize name) (cve_records (cve_coll st)))"

section \<open>Enabled plugins\<close>

type_synonym plugin_state_coll = "(bool \<times> string) coll"

definition isEnabled :: "string \<Rightarrow> plugin_state_coll \<Rightarrow> bool" where
  "isEnabled name t =
     (case checkKey ''plugin_state'' name of Inl _ \<Rightarrow> False
      | Inr _ \<Rightarrow> (case map_of t name of None \<Rightarrow> False | Some (enabled, _) \<Rightarrow> enabled))"

definition setEnabled :: "string \<Rightarrow> bool \<Rightarrow> int \<Rightarrow> (plugin_state_coll, unit) action" where
  "setEnabled name enabled now t =
     (case checkKey ''plugin_state'' name of Inl e \<Rightarrow> (Inl e, t)
      | Inr _ \<Rightarrow> (Inr (), tab_put name (enabled, iso_string now) t))"

lemma isEnabled_setEnabled:
  "isEnabled n (snd (setEnabled m b now t)) =
     (if n = m then b \<and> is_ok (fst (setEnabled m b now t)) \<or> isEnabled n t \<and> \<not> is_ok (fst (setEnabled m b now t)) else isEnabled n t)"
  by (auto simp: isEnabled_def setEnabled_def is_ok_def split: sum.splits)

section \<open>Facts about signatures\<close>

text \<open>What is relied on of HMAC-SHA256 under a key: 64 lower case hexadecimal digits, and no collision among the contents at hand.\<close>

definition lower_hex :: "char \<Rightarrow> bool" where
  "lower_hex c \<longleftrightarrow> c \<in> set ''0123456789abcdef''"

definition hmac_ok :: "sign_env \<Rightarrow> string \<Rightarrow> string set \<Rightarrow> bool" where
  "hmac_ok env key contents \<longleftrightarrow>
     (\<forall>a. length (hmac env key a) = 64 \<and> (\<forall>c \<in> set (hmac env key a). lower_hex c)) \<and> inj_on (hmac env key) contents"

lemma lower_hex_val: "lower_hex c \<Longrightarrow> \<exists>n < 16. hex_digit_val c = Some n \<and> c = ''0123456789abcdef'' ! n"
  by (elim lower_hex_def [THEN iffD1, elim_format]) (auto simp: hex_digit_val_def)

lemma lower_hex_inj: "lower_hex c \<Longrightarrow> lower_hex d \<Longrightarrow> hex_digit_val c = hex_digit_val d \<Longrightarrow> c = d"
  using lower_hex_val [of c] lower_hex_val [of d] by force

lemma hex_bytes_inj:
  "length s = length t \<Longrightarrow> even (length s) \<Longrightarrow> \<forall>c \<in> set s \<union> set t. lower_hex c \<Longrightarrow>
    length (hex_bytes s) = length (hex_bytes t) \<and> (hex_bytes s = hex_bytes t \<longrightarrow> s = t)"
proof (induction s arbitrary: t rule: hex_bytes.induct)
  case (1 a b s)
  from "1.prems"(1) obtain a' b' t' where t: "t = a' # b' # t'" by (cases t; cases "tl t") auto
  have h: "lower_hex a" "lower_hex b" "lower_hex a'" "lower_hex b'" using "1.prems" t by simp_all
  obtain m n m' n' where v: "hex_digit_val a = Some m" "hex_digit_val b = Some n" "hex_digit_val a' = Some m'" "hex_digit_val b' = Some n'"
    and l: "n < 16" "n' < 16" using lower_hex_val [OF h(1)] lower_hex_val [OF h(2)] lower_hex_val [OF h(3)] lower_hex_val [OF h(4)] by blast
  have IH: "length (hex_bytes s) = length (hex_bytes t') \<and> (hex_bytes s = hex_bytes t' \<longrightarrow> s = t')"
    by (rule "1.IH" [OF refl v(1) v(2)]) (use "1.prems" t in \<open>simp_all\<close>)
  have "m = m' \<and> n = n'" if "16 * m + n = 16 * m' + n'" 
  proof -
    have "n = n'" using arg_cong [OF that, of "\<lambda>x. x mod 16"] l by simp
    then show ?thesis using that by simp
  qed
  then have "a = a' \<and> b = b'" if "16 * m + n = 16 * m' + n'"
    using that lower_hex_inj [OF h(1,3)] lower_hex_inj [OF h(2,4)] by (simp add: v)
  then show ?case using IH by (auto simp: t v)
qed auto

lemma hmacEqual_ok:
  assumes "hmac_ok env key C" "a \<in> C" "b \<in> C"
  shows "hmacEqual (computeFileHmac env key a) (computeFileHmac env key b) = Inr (a = b)"
proof -
  have "length (hex_bytes (hmac env key a)) = length (hex_bytes (hmac env key b)) \<and>
      (hex_bytes (hmac env key a) = hex_bytes (hmac env key b) \<longrightarrow> hmac env key a = hmac env key b)"
    by (rule hex_bytes_inj) (use assms in \<open>auto simp: hmac_ok_def\<close>)
  then show ?thesis using assms by (auto simp: hmacEqual_def computeFileHmac_def hmac_ok_def dest: inj_onD)
qed

lemma map_of_build:
  "distinct (map fst fs) \<Longrightarrow> fst ` set acc \<inter> fst ` set fs = {} \<Longrightarrow>
    (let r = foldl (\<lambda>fs (rel, content). obj_set rel (f content) fs) acc fs in
     map fst r = map fst acc @ map fst fs \<and> (\<forall>(rel, content) \<in> set fs. map_of r rel = Some (f content)) \<and>
     (\<forall>rel \<in> fst ` set acc. map_of r rel = map_of acc rel))"
proof (induction fs arbitrary: acc)
  case (Cons x fs)
  obtain rel content where x: "x = (rel, content)" by force
  have new: "rel \<notin> fst ` set acc" using Cons.prems x by auto
  have keys: "map fst (obj_set rel (f content) acc) = map fst acc @ [rel]" using new by (induction acc) auto
  have "fst ` set (obj_set rel (f content) acc) \<inter> fst ` set fs = {}" using Cons.prems x by (auto simp: keys_obj_set)
  from Cons.IH [OF _ this] Cons.prems(1) show ?case
    using new by (auto simp: x Let_def keys map_of_obj_set keys_obj_set)
qed simp

lemma check_files_build:
  assumes "hmac_ok env key C" "snd ` set fs \<union> snd ` set fs' \<subseteq> C" "\<And>rel c. (rel, c) \<in> set fs' \<Longrightarrow> \<exists>c'. (rel, c') \<in> set fs"
    "\<And>rel c. (rel, c) \<in> set fs \<Longrightarrow> map_of signed rel = Some (JStr (computeFileHmac env key c))" "distinct (map fst fs)"
  shows "\<exists>v. check_files env key signed fs' = Inr v \<and> (v = Verified \<longleftrightarrow> set fs' \<subseteq> set fs)"
  using assms(2,3)
proof (induction fs')
  case (Cons x fs')
  obtain rel c where x: "x = (rel, c)" by force
  obtain c' where c': "(rel, c') \<in> set fs" using Cons.prems(2) x by auto
  have C: "c \<in> C" "c' \<in> C" using Cons.prems(1) x c' by force+
  have "\<exists>v. check_files env key signed fs' = Inr v \<and> (v = Verified \<longleftrightarrow> set fs' \<subseteq> set fs)"
    by (rule Cons.IH) (use Cons.prems in auto)
  moreover have "c = c' \<longleftrightarrow> (rel, c) \<in> set fs" using c' assms(5) by (auto dest: eq_key_imp_eq_value)
  ultimately show ?case
    by (simp add: x Let_def assms(4) [OF c'] hmacEqual_ok [OF assms(1) C])
qed simp

section \<open>Properties\<close>

text \<open>C25: A signature built over a directory verifies for a directory exactly when this has the same files with the same
  bytes: a file changed, added, removed or renamed is rejected (with a reason, not an exception).\<close>

theorem signature_exact:
  assumes "hmac_ok env key (snd ` set (listPluginFiles dir) \<union> snd ` set (listPluginFiles dir'))" "distinct (map fst (walk_files [] dir))"
  shows "(verifyPluginSignature env dir' (buildSignature env key dir) key = Inr Verified \<longleftrightarrow>
      listPluginFiles dir' = listPluginFiles dir) \<and>
    (\<exists>v. verifyPluginSignature env dir' (buildSignature env key dir) key = Inr v)"
proof -
  let ?l = "listPluginFiles dir" and ?l' = "listPluginFiles dir'"
  define r where "r = foldl (\<lambda>fs (rel, content). obj_set rel (JStr (computeFileHmac env key content)) fs) [] ?l"
  have d: "distinct (map fst ?l)" using assms(2) by (simp add: listPluginFiles_def distinct_map inj_on_def)
  have r: "map fst r = map fst ?l" "\<And>rel c. (rel, c) \<in> set ?l \<Longrightarrow> map_of r rel = Some (JStr (computeFileHmac env key c))"
    using map_of_build [OF d, of "[]" "\<lambda>c. JStr (computeFileHmac env key c)"] by (auto simp: r_def Let_def)
  have so: "sort (map fst r) = map fst ?l"
    unfolding r(1) by (rule sorted_sort_id) (simp add: listPluginFiles_def)
  have v: "verifyPluginSignature env dir' (buildSignature env key dir) key =
      (if map fst ?l' \<noteq> map fst ?l then Inr (Rejected ''file set does not match signature (a file was added or removed)'')
       else check_files env key r ?l')"
    by (simp add: verifyPluginSignature_def buildSignature_def files_of_def so Let_def flip: r_def)
  show ?thesis
  proof (cases "map fst ?l' = map fst ?l")
    case False
    then show ?thesis unfolding v by auto
  next
    case True
    have keys: "\<exists>c'. (rel, c') \<in> set ?l" if "(rel, c) \<in> set ?l'" for rel c
      using arg_cong [OF True, of set] that by force
    have eq: "?l' = ?l" if "set ?l' \<subseteq> set ?l"
    proof (rule nth_equalityI)
      show len: "length ?l' = length ?l" using arg_cong [OF True, of length] by simp
      fix i assume i: "i < length ?l'"
      have "?l' ! i \<in> set ?l" "?l ! i \<in> set ?l" using that i len by (auto simp: set_conv_nth)
      moreover have "fst (?l' ! i) = fst (?l ! i)" using arg_cong [OF True, of "\<lambda>xs. xs ! i"] i len by simp
      ultimately show "?l' ! i = ?l ! i" using d by (metis eq_key_imp_eq_value prod.collapse)
    qed
    obtain w where "check_files env key r ?l' = Inr w" "w = Verified \<longleftrightarrow> set ?l' \<subseteq> set ?l"
      using check_files_build [OF assms(1) order_refl _ r(2) d] keys by fast
    then show ?thesis unfolding v using True eq by auto
  qed
qed

definition toy_sign :: sign_env where
  "toy_sign = \<lparr>hmac = (\<lambda>k s. if s = ''x'' then replicate 64 CHR ''a'' else replicate 64 CHR ''b''), hmac_raw = (\<lambda>k s. s)\<rparr>"

lemma signature_exact_witness:
  "verifyPluginSignature toy_sign [(''m'', FDir [(''i'', FFile ''y'')])] (buildSignature toy_sign ''k'' [(''m'', FDir [(''i'', FFile ''x'')])]) ''k''
     \<noteq> Inr Verified"
proof -
  let ?d = "[(''m'', FDir [(''i'', FFile ''x'')])]" and ?d' = "[(''m'', FDir [(''i'', FFile ''y'')])]"
  have l: "listPluginFiles ?d = [(''m/i'', ''x'')]" "listPluginFiles ?d' = [(''m/i'', ''y'')]"
    by (simp_all add: listPluginFiles_def SIGNATURE_FILE_def)
  have "hmac_ok toy_sign ''k'' (snd ` set (listPluginFiles ?d) \<union> snd ` set (listPluginFiles ?d'))"
    by (auto simp: hmac_ok_def toy_sign_def l lower_hex_def inj_on_def)
  moreover have "distinct (map fst (walk_files [] ?d))" by (simp add: SIGNATURE_FILE_def)
  ultimately show ?thesis using signature_exact [of toy_sign "''k''" ?d ?d'] l by simp
qed

text \<open>A symbolic link is no file to the walk_files: adding or removing one is not detected.\<close>

lemma links_unsigned: "listPluginFiles (a @ (name, FOther) # b) = listPluginFiles (a @ b)"
proof -
  have "walk_files p (a @ (name, FOther) # b) = walk_files p (a @ b)" for p by (induction a) auto
  then show ?thesis by (simp add: listPluginFiles_def)
qed

text \<open>The list of vulnerabilities is what the last successful fetch gave. After it a plugin is flagged exactly if an entry
  names it, in any case and with any blanks around it, for its version or for every version; a failed fetch changes no verdict
  and reports stale data; both are audited.\<close>

theorem cve_sync_verdicts:
  assumes "distinct uuids" "length uuids = length es"
  shows "fst (cve_sync (Some es) uuids st) = (length es, False) \<and>
    (isFlagged name version (snd (cve_sync (Some es) uuids st)) \<longleftrightarrow>
      (\<exists>e \<in> set es. cve_normalize (cve_name e) = cve_normalize name \<and>
         (js_trim (cve_version e) = ''*'' \<or> cve_normalize (cve_version e) = cve_normalize version))) \<and>
    fst (cve_sync None uuids st) = (0, True) \<and>
    isFlagged name version (snd (cve_sync None uuids st)) = isFlagged name version st \<and>
    length (cve_audit (snd (cve_sync fetched uuids st))) = length (cve_audit st) + 1"
proof -
  let ?t = "put_all (zip uuids es) []"
  have empty: "del_all (map fst t) t = []" for t :: "cve_entry coll" by (force simp: del_all_filter filter_empty_conv)
  have ok: "tab_ok ?t" by (rule tab_ok_put_all) (simp add: tab_ok_def)
  have m: "map_of ?t = map_of (zip uuids es)"
    unfolding map_of_put_all using assms by (simp add: map_of_rev_distinct)
  have "vals ?t = set es"
  proof -
    have "e \<in> vals ?t \<longleftrightarrow> e \<in> set es" for e
    proof -
      have "e \<in> vals ?t \<longleftrightarrow> (\<exists>k. map_of (zip uuids es) k = Some e)"
        unfolding vals_def using map_of_in_set [OF ok] m by force
      also have "\<dots> \<longleftrightarrow> (\<exists>k. (k, e) \<in> set (zip uuids es))"
        using assms by simp
      also have "\<dots> \<longleftrightarrow> e \<in> set es" using assms(2) by (auto simp: set_zip in_set_conv_nth)
      finally show ?thesis .
    qed
    then show ?thesis by blast
  qed
  then have "set (cve_records ?t) = set es"
    by (simp add: cve_records_def read_pages_all [OF ok] matching_None vals_def)
  then have "isFlagged name version (snd (cve_sync (Some es) uuids st)) \<longleftrightarrow>
      (\<exists>e \<in> set es. cve_normalize (cve_name e) = cve_normalize name \<and>
         (js_trim (cve_version e) = ''*'' \<or> cve_normalize (cve_version e) = cve_normalize version))"
    by (auto simp: isFlagged_def cve_sync_def empty list_ex_iff)
  then show ?thesis by (simp add: cve_sync_def isFlagged_def split: option.split)
qed

lemma cve_sync_verdicts_witness:
  "isFlagged '' Foo'' ''1.0'' (snd (cve_sync (Some [\<lparr>cve_name = ''FOO'', cve_version = ''*'', advisory = ''bad''\<rparr>]) [''u'']
     \<lparr>cve_coll = [], cve_audit = []\<rparr>))"
proof -
  let ?es = "[\<lparr>cve_name = ''FOO'', cve_version = ''*'', advisory = ''bad''\<rparr>]" and ?st = "\<lparr>cve_coll = [], cve_audit = []\<rparr>"
  have "cve_normalize ''FOO'' = cve_normalize '' Foo''" "js_trim ''*'' = ''*''" by code_simp+
  then show ?thesis
    using cve_sync_verdicts [of "[''u'']" ?es ?st "'' Foo''" "''1.0''" None] by simp
qed

end
