(* ===== verification/Gdpr.thy ===== *)
theory Gdpr
  imports Sensitive Access
begin

text \<open>
  The data-subject features of \<open>packages/engine/src/gdpr.ts\<close>: export, erasure with crypto-shredding, consent
  and retention over the collections that are linked to subjects.  Documents are JSON objects; SHA-256
  and \<open>Date.parse\<close> are parameters.
\<close>

section \<open>State\<close>

record subject_scope =
  sc_collection :: string
  subjectField :: string
  timestampField :: "string option"
  retentionMs :: "int option"

record gdpr_env =
  gd_crypto :: crypto_env
  sha256 :: "string \<Rightarrow> string"
  parse_date :: "string \<Rightarrow> int option"
  scopes :: "subject_scope list"

record gdpr_state =
  gd_store :: "string \<Rightarrow> obj coll"
  gd_secrets :: "secrets_backend option"
  gd_audit :: "audit_event list"

definition CONSENT_COLLECTION :: string where "CONSENT_COLLECTION = ''consent_records''"
definition TOMBSTONE_COLLECTION :: string where "TOMBSTONE_COLLECTION = ''gdpr_tombstones''"

definition subjectHash :: "gdpr_env \<Rightarrow> string \<Rightarrow> string" where
  "subjectHash env subjectRef = sha256 env subjectRef"

definition allScopes :: "gdpr_env \<Rightarrow> subject_scope list" where
  "allScopes env = scopes env @ [\<lparr>sc_collection = CONSENT_COLLECTION, subjectField = ''subjectRef'', timestampField = None, retentionMs = None\<rparr>]"

definition record_id :: "obj \<Rightarrow> string" where
  "record_id d = (case map_of d ''id'' of Some (JStr i) \<Rightarrow> i | _ \<Rightarrow> [])"

definition put_doc :: "string \<Rightarrow> obj \<Rightarrow> gdpr_state \<Rightarrow> gdpr_state" where
  "put_doc c d st = st\<lparr>gd_store := (gd_store st)(c := tab_put (record_id d) d (gd_store st c))\<rparr>"

definition delete_doc :: "string \<Rightarrow> string \<Rightarrow> gdpr_state \<Rightarrow> gdpr_state" where
  "delete_doc c i st = st\<lparr>gd_store := (gd_store st)(c := tab_del i (gd_store st c))\<rparr>"

definition log_gdpr :: "audit_event \<Rightarrow> gdpr_state \<Rightarrow> gdpr_state" where
  "log_gdpr e st = st\<lparr>gd_audit := gd_audit st @ [e]\<rparr>"

section \<open>Reading\<close>

definition reveal :: "gdpr_env \<Rightarrow> secrets_backend option \<Rightarrow> string \<Rightarrow> string result" where
  "reveal env secrets name =
     (case secrets of None \<Rightarrow> Inl (PressError Internal ''Secrets backend not configured'')
      | Some b \<Rightarrow> getSecret (gd_crypto env) name b)"

fun collect_results :: "'a result list \<Rightarrow> 'a list result" where
  "collect_results [] = Inr []"
| "collect_results (r # rs) =
     (case r of Inl e \<Rightarrow> Inl e | Inr x \<Rightarrow> (case collect_results rs of Inl e \<Rightarrow> Inl e | Inr xs \<Rightarrow> Inr (x # xs)))"

text \<open>A secret that cannot be read makes the whole reading fail; without a vault the reference stays.\<close>

fun revealDeep :: "gdpr_env \<Rightarrow> secrets_backend option \<Rightarrow> json \<Rightarrow> json result" where
  "revealDeep env secrets (JObj kvs) =
     (case isEncRef (JObj kvs) of
        Some name \<Rightarrow> (if secrets = None then Inr (JObj kvs) else map_sum id JStr (reveal env secrets name))
      | None \<Rightarrow> map_sum id JObj (collect_results (map (\<lambda>(k, v). map_sum id (Pair k) (revealDeep env secrets v)) kvs)))"
| "revealDeep env secrets (JArr vs) = map_sum id JArr (collect_results (map (revealDeep env secrets) vs))"
| "revealDeep env secrets v = Inr v"

text \<open>All pages of the query; reading them always ends, see \<open>read_pages_all\<close>.\<close>

definition recordsForSubject :: "subject_scope \<Rightarrow> string \<Rightarrow> gdpr_state \<Rightarrow> obj list" where
  "recordsForSubject sc subjectRef st =
     (case read_pages (\<lambda>d. map_of d (subjectField sc) = Some (JStr subjectRef)) (Some 500) (gd_store st (sc_collection sc)) None [] of
        None \<Rightarrow> [] | Some ds \<Rightarrow> ds)"

fun export_loop ::
  "gdpr_env \<Rightarrow> string \<Rightarrow> gdpr_state \<Rightarrow> subject_scope list \<Rightarrow> (string \<times> json list) list \<Rightarrow> (string \<times> json list) list result" where
  "export_loop env subjectRef st [] records = Inr records"
| "export_loop env subjectRef st (sc # scs) records =
     (case collect_results (map (\<lambda>d. revealDeep env (gd_secrets st) (JObj d)) (recordsForSubject sc subjectRef st)) of
        Inl e \<Rightarrow> Inl e
      | Inr found \<Rightarrow> export_loop env subjectRef st scs (obj_set (sc_collection sc) found records))"

record gdpr_export =
  ex_subjectRef :: string
  ex_exportedAt :: string
  ex_records :: "(string \<times> json list) list"

definition export :: "gdpr_env \<Rightarrow> string list \<Rightarrow> string \<Rightarrow> int \<Rightarrow> gdpr_state \<Rightarrow> gdpr_export result" where
  "export env caps subjectRef now st =
     (case gate_assert caps ''gdpr.manage'' of Inl e \<Rightarrow> Inl e
      | Inr _ \<Rightarrow>
        (case export_loop env subjectRef st (allScopes env) [] of Inl e \<Rightarrow> Inl e
         | Inr records \<Rightarrow> Inr \<lparr>ex_subjectRef = subjectRef, ex_exportedAt = iso_string now, ex_records = records\<rparr>))"

section \<open>Erasure\<close>

fun delete_records :: "string \<Rightarrow> obj list \<Rightarrow> nat \<Rightarrow> gdpr_state \<Rightarrow> nat \<times> gdpr_state" where
  "delete_records c [] n st = (n, st)"
| "delete_records c (d # ds) n st = delete_records c ds (n + 1) (delete_doc c (record_id d) st)"

fun erase_loop :: "string \<Rightarrow> subject_scope list \<Rightarrow> nat \<Rightarrow> gdpr_state \<Rightarrow> nat \<times> gdpr_state" where
  "erase_loop subjectRef [] n st = (n, st)"
| "erase_loop subjectRef (sc # scs) n st =
     (case delete_records (sc_collection sc) (recordsForSubject sc subjectRef st) n st of (n, st) \<Rightarrow> erase_loop subjectRef scs n st)"

definition secret_prefix :: "gdpr_env \<Rightarrow> string \<Rightarrow> string" where
  "secret_prefix env subjectRef = ''gdpr:'' @ subjectHash env subjectRef @ '':''"

definition shred :: "string \<Rightarrow> secrets_backend \<Rightarrow> secrets_backend" where
  "shred prefix b = foldl (\<lambda>b name. if js_prefix prefix name then deleteSecret name b else b) b (listNames b)"

definition erase ::
  "gdpr_env \<Rightarrow> string list \<Rightarrow> string \<Rightarrow> string \<Rightarrow> int \<Rightarrow> (gdpr_state, string \<times> nat) action" where
  "erase env caps subjectRef uuid now st =
     (case gate_assert caps ''gdpr.manage'' of Inl e \<Rightarrow> (Inl e, st)
      | Inr _ \<Rightarrow>
        (case erase_loop subjectRef (allScopes env) 0 st of (n, st) \<Rightarrow>
          let st = st\<lparr>gd_secrets := map_option (shred (secret_prefix env subjectRef)) (gd_secrets st)\<rparr>;
              st = put_doc TOMBSTONE_COLLECTION
                [(''id'', JStr uuid), (''subject'', JStr (subjectHash env subjectRef)), (''erasedCount'', JNum (int n)),
                 (''erasedAt'', JStr (iso_string now))] st
          in (Inr (uuid, n), log_gdpr (event ''gdpr.erase'' None
               [(''subject'', DStr (subjectHash env subjectRef)), (''erasedCount'', DNum (int n))]) st)))"

section \<open>Consent, protection, retention\<close>

definition consent_doc :: "string \<Rightarrow> string \<Rightarrow> bool \<Rightarrow> string \<Rightarrow> int \<Rightarrow> obj" where
  "consent_doc subjectRef scope granted uuid now =
     [(''id'', JStr uuid), (''subjectRef'', JStr subjectRef), (''scope'', JStr scope), (''granted'', JBool granted),
      (''at'', JStr (iso_string now))]"

definition consent_event :: "gdpr_env \<Rightarrow> string \<Rightarrow> string \<Rightarrow> bool \<Rightarrow> audit_event" where
  "consent_event env subjectRef scope granted = event ''gdpr.consent'' None
     [(''subject'', DStr (subjectHash env subjectRef)), (''scope'', DStr scope), (''granted'', DBool granted)]"

definition recordConsent :: "gdpr_env \<Rightarrow> string \<Rightarrow> string \<Rightarrow> bool \<Rightarrow> string \<Rightarrow> int \<Rightarrow> gdpr_state \<Rightarrow> gdpr_state" where
  "recordConsent env subjectRef scope granted uuid now st =
     log_gdpr (consent_event env subjectRef scope granted)
       (put_doc CONSENT_COLLECTION (consent_doc subjectRef scope granted uuid now) st)"

text \<open>\<open>localeCompare\<close> on the ISO times of the records is the order of their characters.\<close>

definition at_text :: "obj \<Rightarrow> string" where
  "at_text d = (case map_of d ''at'' of Some (JStr s) \<Rightarrow> s | _ \<Rightarrow> [])"

definition getConsent :: "gdpr_env \<Rightarrow> string list \<Rightarrow> string \<Rightarrow> string \<Rightarrow> gdpr_state \<Rightarrow> json option result" where
  "getConsent env caps subjectRef scope st =
     (case gate_assert caps ''gdpr.manage'' of Inl e \<Rightarrow> Inl e
      | Inr _ \<Rightarrow>
        (let all = recordsForSubject \<lparr>sc_collection = CONSENT_COLLECTION, subjectField = ''subjectRef'', timestampField = None, retentionMs = None\<rparr>
               subjectRef st;
             found = js_sort (\<lambda>a b. if at_text b < at_text a then -1 else if at_text a < at_text b then 1 else 0)
               (filter (\<lambda>d. map_of d ''scope'' = Some (JStr scope)) all)
         in Inr (case found of [] \<Rightarrow> None | d # _ \<Rightarrow> (case map_of d ''granted'' of Some JNull \<Rightarrow> None | v \<Rightarrow> v))))"

definition protect :: "gdpr_env \<Rightarrow> string \<Rightarrow> string \<Rightarrow> string \<Rightarrow> string \<Rightarrow> (gdpr_state, json) action" where
  "protect env subjectRef value uuid iv st =
     (case gd_secrets st of None \<Rightarrow> (Inl (PressError Internal ''Secrets backend not configured''), st)
      | Some b \<Rightarrow>
        (let name = secret_prefix env subjectRef @ uuid
         in (Inr (enc_ref name), st\<lparr>gd_secrets := Some (setSecret (gd_crypto env) iv name value None b)\<rparr>)))"

definition expired :: "gdpr_env \<Rightarrow> string \<Rightarrow> int \<Rightarrow> int \<Rightarrow> obj \<Rightarrow> bool" where
  "expired env tsField ret t d =
     (case map_of d tsField of
        Some (JStr raw) \<Rightarrow> (case parse_date env raw of None \<Rightarrow> False | Some then' \<Rightarrow> t - then' > ret)
      | _ \<Rightarrow> False)"

text \<open>The loop over the pages of one collection: the expired records of a page are deleted before the next is read.\<close>

partial_function (option) retention_loop :: "(obj \<Rightarrow> bool) \<Rightarrow> string option \<Rightarrow> obj coll \<Rightarrow> nat \<Rightarrow> (nat \<times> obj coll) option" where
  "retention_loop old after t n =
     (case tab_query (\<lambda>_. True) after (Some 500) t of (items, next) \<Rightarrow>
        let gone = filter old items; t = del_all (map record_id gone) t; n = n + length gone in
        case next of None \<Rightarrow> Some (n, t) | Some a \<Rightarrow> retention_loop old (Some a) t n)"

fun retention_scopes :: "gdpr_env \<Rightarrow> int \<Rightarrow> subject_scope list \<Rightarrow> nat \<Rightarrow> gdpr_state \<Rightarrow> (nat \<times> gdpr_state) option" where
  "retention_scopes env t [] n st = Some (n, st)"
| "retention_scopes env t (sc # scs) n st =
     (case (retentionMs sc, timestampField sc) of
        (Some ret, Some ts) \<Rightarrow>
          (case retention_loop (expired env ts ret t) None (gd_store st (sc_collection sc)) n of None \<Rightarrow> None
           | Some (n, c) \<Rightarrow> retention_scopes env t scs n (st\<lparr>gd_store := (gd_store st)(sc_collection sc := c)\<rparr>))
      | _ \<Rightarrow> retention_scopes env t scs n st)"

definition applyRetention :: "gdpr_env \<Rightarrow> int \<Rightarrow> gdpr_state \<Rightarrow> (nat \<times> gdpr_state) option" where
  "applyRetention env t st =
     (case retention_scopes env t (allScopes env) 0 st of None \<Rightarrow> None
      | Some (n, st) \<Rightarrow> Some (n, if 0 < n then log_gdpr (event ''gdpr.retention'' None [(''purged'', DNum (int n))]) st else st))"

section \<open>What the loops do\<close>

definition store_ok :: "gdpr_state \<Rightarrow> bool" where
  "store_ok st \<longleftrightarrow> (\<forall>c. keyed record_id (gd_store st c))"

definition of_subject :: "string \<Rightarrow> subject_scope \<Rightarrow> obj \<Rightarrow> bool" where
  "of_subject s sc d \<longleftrightarrow> map_of d (subjectField sc) = Some (JStr s)"

lemma recordsForSubject_all:
  assumes "store_ok st"
  shows "recordsForSubject sc s st = filter (of_subject s sc) (map snd (gd_store st (sc_collection sc)))"
proof -
  have "tab_ok (gd_store st (sc_collection sc))" using assms keyed_ok unfolding store_ok_def by blast
  then show ?thesis
    by (simp add: recordsForSubject_def read_pages_all matching_None filter_map comp_def case_prod_beta' of_subject_def)
qed

lemma set_records: "store_ok st \<Longrightarrow> set (recordsForSubject sc s st) = {d \<in> vals (gd_store st (sc_collection sc)). of_subject s sc d}"
  by (auto simp: recordsForSubject_all vals_def)

lemma delete_records_eq:
  "delete_records c ds n st = (n + length ds, st\<lparr>gd_store := (gd_store st)(c := del_all (map record_id ds) (gd_store st c))\<rparr>)"
proof (induction c ds n st rule: delete_records.induct)
  case (2 c d ds n st)
  let ?st = "delete_doc c (record_id d) st"
  have "delete_records c (d # ds) n st = delete_records c ds (n + 1) ?st" by simp
  also have "\<dots> = (n + 1 + length ds, ?st\<lparr>gd_store := (gd_store ?st)(c := del_all (map record_id ds) (gd_store ?st c))\<rparr>)"
    by (rule 2)
  also have "?st\<lparr>gd_store := (gd_store ?st)(c := del_all (map record_id ds) (gd_store ?st c))\<rparr> =
      st\<lparr>gd_store := (gd_store st)(c := del_all (map record_id (d # ds)) (gd_store st c))\<rparr>"
    by (simp add: delete_doc_def del_all_def)
  finally show ?case by (simp del: fun_upd_apply)
qed (simp add: del_all_def)

lemma del_all_records:
  assumes "keyed record_id t"
  shows "vals (del_all (map record_id (filter P (map snd t))) t) = {d \<in> vals t. \<not> P d}"
proof -
  have "d = d'" if d: "d \<in> vals t" "d' \<in> vals t" and e: "record_id d = record_id d'" for d d'
  proof -
    have a: "map_of t (record_id d) = Some d" by (rule iffD1 [OF keyed_value [OF assms] d(1)])
    have b: "map_of t (record_id d') = Some d'" by (rule iffD1 [OF keyed_value [OF assms] d(2)])
    have "Some d = Some d'" by (rule trans [OF sym [OF a [unfolded e]] b])
    then show ?thesis by (rule option.inject [THEN iffD1])
  qed
  note same = this
  have v: "set (map snd t) = vals t" by (auto simp: vals_def)
  have e: "record_id d \<in> record_id ` {w \<in> vals t. P w} \<longleftrightarrow> P d" if "d \<in> vals t" for d
    using same that by blast
  have "vals (del_all (map record_id (filter P (map snd t))) t) = {d \<in> vals t. record_id d \<notin> record_id ` {w \<in> vals t. P w}}"
    unfolding values_del_all [OF assms] set_map set_filter v [unfolded set_map] by (rule refl)
  also have "\<dots> = {d \<in> vals t. \<not> P d}" by (rule Collect_cong, rule conj_cong, rule refl) (simp only: e)
  finally show ?thesis .
qed

lemma erase_loop_eq:
  assumes "store_ok st"
  shows "\<exists>n' f. erase_loop s scs n st = (n', st\<lparr>gd_store := f\<rparr>) \<and> store_ok (st\<lparr>gd_store := f\<rparr>) \<and>
    (\<forall>c. vals (f c) = {d \<in> vals (gd_store st c). \<not> (\<exists>sc \<in> set scs. sc_collection sc = c \<and> of_subject s sc d)})"
  using assms
proof (induction scs arbitrary: n st)
  case Nil
  then show ?case by (intro exI [of _ n] exI [of _ "gd_store st"]) simp
next
  case (Cons sc scs)
  let ?c = "sc_collection sc" and ?ds = "recordsForSubject sc s st"
  let ?g = "(gd_store st)(?c := del_all (map record_id ?ds) (gd_store st ?c))"
  have k: "keyed record_id (gd_store st ?c)" using Cons.prems by (simp add: store_ok_def)
  have ok: "store_ok (st\<lparr>gd_store := ?g\<rparr>)" using Cons.prems by (auto simp: store_ok_def)
  have v: "vals (?g c) = {d \<in> vals (gd_store st c). \<not> (?c = c \<and> of_subject s sc d)}" for c
    using del_all_records [OF k, of "of_subject s sc"] recordsForSubject_all [OF Cons.prems] by auto
  obtain n' f where f: "erase_loop s scs (n + length ?ds) (st\<lparr>gd_store := ?g\<rparr>) = (n', st\<lparr>gd_store := f\<rparr>)"
    "store_ok (st\<lparr>gd_store := f\<rparr>)"
    "\<forall>c. vals (f c) = {d \<in> vals (?g c). \<not> (\<exists>sc \<in> set scs. sc_collection sc = c \<and> of_subject s sc d)}"
    using Cons.IH [OF ok, of "n + length ?ds"] by auto
  have "erase_loop s (sc # scs) n st = (n', st\<lparr>gd_store := f\<rparr>)" using f(1) by (simp add: delete_records_eq)
  moreover have "vals (f c) = {d \<in> vals (gd_store st c). \<not> (\<exists>sc \<in> set (sc # scs). sc_collection sc = c \<and> of_subject s sc d)}" for c
    unfolding f(3) [rule_format] v by auto
  ultimately show ?case using f(2) by blast
qed

lemma getSecret_delete:
  "getSecret env m (deleteSecret n b) = (if m = n then Inl (PressError Not_found (''Secret not found: '' @ m)) else getSecret env m b)"
proof -
  have "map_of (filter (\<lambda>(k, _). k \<noteq> n) kvs) = (map_of kvs)(n := None)" for kvs :: "(string \<times> secret_record) list"
    by (induction kvs) (auto simp: fun_eq_iff)
  then show ?thesis by (auto simp: getSecret_def deleteSecret_def persistVault_def split: option.split)
qed

lemma shred_reads:
  "getSecret env m (shred p b) =
     (if js_prefix p m then Inl (PressError Not_found (''Secret not found: '' @ m)) else getSecret env m b)"
proof -
  let ?step = "\<lambda>b name. if js_prefix p name then deleteSecret name b else b"
  have a: "getSecret env m (foldl ?step b ns) =
      (if m \<in> set ns \<and> js_prefix p m then Inl (PressError Not_found (''Secret not found: '' @ m)) else getSecret env m b)" for ns
    by (induction ns arbitrary: b) (auto simp: getSecret_delete)
  have "getSecret env m b = Inl (PressError Not_found (''Secret not found: '' @ m))" if "m \<notin> set (listNames b)"
  proof -
    have "map_of (vault_secrets (sb_vault b)) m = None" using that by (simp add: listNames_def map_of_eq_None_iff)
    then show ?thesis by (simp add: getSecret_def)
  qed
  then show ?thesis unfolding shred_def a by auto
qed

section \<open>Retention\<close>

lemma page_ids_below:
  assumes ok: "tab_ok t" and n: "0 < n" "n < length (matching P after t)" and k: "k \<in> fst ` set (take n (matching P after t))"
  shows "\<not> fst (matching P after t ! (n - 1)) < k"
proof -
  let ?ks = "map fst (matching P after t)"
  obtain i where i: "i < n" "k = ?ks ! i" using k n(2) by (auto simp: in_set_conv_nth)
  have s: "sorted_wrt (<) ?ks" by (rule matching_ok [OF ok])
  have "k \<le> ?ks ! (n - 1)"
  proof (cases "i = n - 1")
    case False
    then have "?ks ! i < ?ks ! (n - 1)" using i(1) n(2) by (intro sorted_wrt_nth_less [OF s]) auto
    then show ?thesis using i(2) by simp
  qed (use i(2) in simp)
  then show ?thesis using n by simp
qed

lemma matching_del_below:
  assumes "\<And>i. i \<in> set ids \<Longrightarrow> \<not> a < i"
  shows "matching P (Some a) (del_all ids t) = matching P (Some a) t"
  unfolding matching_def del_all_filter filter_filter using assms by (intro filter_cong) auto

lemma del_all_append: "del_all (xs @ ys) t = del_all ys (del_all xs t)"
  by (simp add: del_all_def)

lemma keyed_ids: "keyed idf t \<Longrightarrow> set xs \<subseteq> set t \<Longrightarrow> map (\<lambda>x. idf (snd x)) xs = map fst xs"
  by (fastforce simp: keyed_def)

text \<open>The loop ends and has visited every record exactly once, although it deletes while it reads.\<close>

lemma retention_loop_all:
  assumes "keyed record_id t"
  shows "retention_loop old after t n =
    (let gone = filter old (map snd (matching (\<lambda>_. True) after t)) in Some (n + length gone, del_all (map record_id gone) t))"
  using assms
proof (induction "length (matching (\<lambda>_. True) after t)" arbitrary: after t n rule: less_induct)
  case less
  let ?m = "matching (\<lambda>_. True) after t" and ?n = "page_limit (Some 500)"
  obtain items nxt where q: "tab_query (\<lambda>_. True) after (Some 500) t = (items, nxt)" by force
  have it: "items = map snd (take ?n ?m)" using tab_query_items [of "\<lambda>_. True" after "Some 500" t] q by simp
  show ?case
  proof (cases nxt)
    case None
    then have "length ?m \<le> ?n" using tab_query_done [of "\<lambda>_. True" after "Some 500" t] q by simp
    then show ?thesis by (subst retention_loop.simps) (simp add: q None it Let_def)
  next
    case (Some a)
    then have a: "snd (tab_query (\<lambda>_. True) after (Some 500) t) = Some a" using q by simp
    note ok = keyed_ok [OF less.prems] and c = tab_query_cursor [OF a]
    have n: "0 < ?n" using page_limit_bounds [of "Some 500"] by simp
    let ?ids = "map record_id (filter old items)" and ?t = "del_all (map record_id (filter old items)) t"
    have "set (take ?n ?m) \<subseteq> set t" by (auto simp: matching_def dest: in_set_takeD)
    from keyed_ids [OF less.prems this] have ids: "map record_id items = map fst (take ?n ?m)" by (simp add: it comp_def)
    have "set ?ids \<subseteq> set (map record_id items)" by auto
    then have below: "\<not> a < i" if "i \<in> set ?ids" for i
      using page_ids_below [OF ok n c(2), of i] that unfolding ids c(1) by auto
    have m: "matching (\<lambda>_. True) (Some a) ?t = drop ?n ?m"
      by (rule trans [OF matching_del_below matching_after_cursor [OF ok a]]) (rule below)
    have "length (matching (\<lambda>_. True) (Some a) ?t) < length ?m" unfolding m using c(2) n by simp
    from less.hyps [OF this keyed_del_all [OF less.prems]]
    have IH: "retention_loop old (Some a) ?t k = (let gone = filter old (map snd (drop ?n ?m)) in
        Some (k + length gone, del_all (map record_id gone) ?t))" for k unfolding m .
    have sp: "filter old (map snd ?m) = filter old items @ filter old (map snd (drop ?n ?m))"
      by (simp add: it flip: filter_append map_append)
    show ?thesis by (subst retention_loop.simps) (simp add: q Some IH sp Let_def del_all_append)
  qed
qed

definition overdue :: "gdpr_env \<Rightarrow> int \<Rightarrow> string \<Rightarrow> subject_scope \<Rightarrow> obj \<Rightarrow> bool" where
  "overdue env t c sc d \<longleftrightarrow> sc_collection sc = c \<and>
     (case (retentionMs sc, timestampField sc) of (Some ret, Some ts) \<Rightarrow> expired env ts ret t d | _ \<Rightarrow> False)"

lemma retention_scopes_eq:
  assumes "store_ok st"
  shows "\<exists>n' f. retention_scopes env t scs n st = Some (n', st\<lparr>gd_store := f\<rparr>) \<and> store_ok (st\<lparr>gd_store := f\<rparr>) \<and>
    (\<forall>c. vals (f c) = {d \<in> vals (gd_store st c). \<not> (\<exists>sc \<in> set scs. overdue env t c sc d)})"
  using assms
proof (induction scs arbitrary: n st)
  case Nil
  then show ?case by (intro exI [of _ n] exI [of _ "gd_store st"]) simp
next
  case (Cons sc scs)
  let ?c = "sc_collection sc"
  show ?case
  proof (cases "retentionMs sc = None \<or> timestampField sc = None")
    case True
    then have "retention_scopes env t (sc # scs) n st = retention_scopes env t scs n st" "\<not> overdue env t c sc d" for c d
      by (auto simp: overdue_def split: option.split)
    then show ?thesis using Cons.IH [OF Cons.prems, of n] by simp
  next
    case False
    then obtain ret ts where r: "retentionMs sc = Some ret" "timestampField sc = Some ts" by auto
    define gone where "gone = filter (expired env ts ret t) (map snd (gd_store st ?c))"
    define g where "g = (gd_store st)(?c := del_all (map record_id gone) (gd_store st ?c))"
    have k: "keyed record_id (gd_store st ?c)" using Cons.prems by (simp add: store_ok_def)
    have ok: "store_ok (st\<lparr>gd_store := g\<rparr>)" using Cons.prems by (auto simp: store_ok_def g_def)
    have v: "vals (g c) = {d \<in> vals (gd_store st c). \<not> overdue env t c sc d}" for c
      using del_all_records [OF k, of "expired env ts ret t"] by (auto simp: g_def gone_def overdue_def r)
    have l: "retention_loop (expired env ts ret t) None (gd_store st ?c) n =
        Some (n + length gone, del_all (map record_id gone) (gd_store st ?c))"
      unfolding retention_loop_all [OF k] by (simp add: matching_None Let_def gone_def)
    obtain n' f where f: "retention_scopes env t scs (n + length gone) (st\<lparr>gd_store := g\<rparr>) = Some (n', st\<lparr>gd_store := f\<rparr>)"
      "store_ok (st\<lparr>gd_store := f\<rparr>)"
      "\<forall>c. vals (f c) = {d \<in> vals (g c). \<not> (\<exists>sc \<in> set scs. overdue env t c sc d)}"
      using Cons.IH [OF ok, of "n + length gone"] by auto
    have "retention_scopes env t (sc # scs) n st = Some (n', st\<lparr>gd_store := f\<rparr>)"
      using f(1) by (simp add: r l g_def del: fun_upd_apply)
    moreover have "vals (f c) = {d \<in> vals (gd_store st c). \<not> (\<exists>sc \<in> set (sc # scs). overdue env t c sc d)}" for c
      unfolding f(3) [rule_format] v by auto
    ultimately show ?thesis using f(2) by blast
  qed
qed

section \<open>Properties\<close>

text \<open>C10: Erasure is complete and exact. With the capability it succeeds; afterwards no scope has a record of the subject,
  every other record is still there, every secret protected for the subject is gone from the vault and every other secret
  reads as before, and what is written down about the erasure has the hash of the subject only. Without the capability
  nothing changes.\<close>

theorem erasure_complete:
  assumes "store_ok st" "\<forall>sc \<in> set (scopes env). sc_collection sc \<noteq> TOMBSTONE_COLLECTION"
  shows "case erase env caps s uuid now st of
      (Inl e, st') \<Rightarrow> \<not> gate_check caps ''gdpr.manage'' \<and> st' = st
    | (Inr (i, n), st') \<Rightarrow> gate_check caps ''gdpr.manage'' \<and>
        (\<forall>sc \<in> set (allScopes env). recordsForSubject sc s st' = []) \<and>
        (\<forall>c \<noteq> TOMBSTONE_COLLECTION. \<forall>d \<in> vals (gd_store st c).
           d \<in> vals (gd_store st' c) \<or> (\<exists>sc \<in> set (allScopes env). sc_collection sc = c \<and> of_subject s sc d)) \<and>
        (\<forall>name. reveal env (gd_secrets st') (secret_prefix env s @ name) \<in> range Inl) \<and>
        (\<forall>name. js_prefix (secret_prefix env s) name \<or> reveal env (gd_secrets st') name = reveal env (gd_secrets st) name) \<and>
        gd_audit st' = gd_audit st @ [event ''gdpr.erase'' None [(''subject'', DStr (sha256 env s)), (''erasedCount'', DNum (int n))]]"
proof (cases "gate_check caps ''gdpr.manage''")
  case False
  then show ?thesis by (simp add: erase_def gate_assert_def)
next
  case True
  obtain n f where f: "erase_loop s (allScopes env) 0 st = (n, st\<lparr>gd_store := f\<rparr>)" "store_ok (st\<lparr>gd_store := f\<rparr>)"
    "\<forall>c. vals (f c) = {d \<in> vals (gd_store st c). \<not> (\<exists>sc \<in> set (allScopes env). sc_collection sc = c \<and> of_subject s sc d)}"
    using erase_loop_eq [OF assms(1)] by blast
  define tomb where "tomb = [(''id'', JStr uuid), (''subject'', JStr (subjectHash env s)), (''erasedCount'', JNum (int n)),
    (''erasedAt'', JStr (iso_string now))]"
  let ?sec = "map_option (shred (secret_prefix env s)) (gd_secrets st)"
  let ?st = "put_doc TOMBSTONE_COLLECTION tomb (st\<lparr>gd_store := f, gd_secrets := ?sec\<rparr>)"
  let ?e = "event ''gdpr.erase'' None [(''subject'', DStr (subjectHash env s)), (''erasedCount'', DNum (int n))]"
  have er: "erase env caps s uuid now st = (Inr (uuid, n), log_gdpr ?e ?st)"
    using True f(1) by (simp add: erase_def gate_assert_def Let_def tomb_def)
  have ok: "store_ok (log_gdpr ?e ?st)"
    using f(2) by (auto simp: store_ok_def log_gdpr_def put_doc_def)
  have store: "gd_store (log_gdpr ?e ?st) c = f c" if "c \<noteq> TOMBSTONE_COLLECTION" for c
    using that by (simp add: log_gdpr_def put_doc_def)
  have "sc_collection sc \<noteq> TOMBSTONE_COLLECTION" if "sc \<in> set (allScopes env)" for sc
    using that assms(2) by (auto simp: allScopes_def CONSENT_COLLECTION_def TOMBSTONE_COLLECTION_def)
  then have "set (recordsForSubject sc s (log_gdpr ?e ?st)) = {}" if "sc \<in> set (allScopes env)" for sc
    unfolding set_records [OF ok] using that store f(3) by auto
  then have 1: "\<forall>sc \<in> set (allScopes env). recordsForSubject sc s (log_gdpr ?e ?st) = []" by simp
  have 2: "\<forall>c \<noteq> TOMBSTONE_COLLECTION. \<forall>d \<in> vals (gd_store st c).
      d \<in> vals (gd_store (log_gdpr ?e ?st) c) \<or> (\<exists>sc \<in> set (allScopes env). sc_collection sc = c \<and> of_subject s sc d)"
  proof (intro allI impI ballI)
    fix c d assume c: "c \<noteq> TOMBSTONE_COLLECTION" and d: "d \<in> vals (gd_store st c)"
    then have "d \<in> vals (f c) \<or> (\<exists>sc \<in> set (allScopes env). sc_collection sc = c \<and> of_subject s sc d)" using f(3) by blast
    then show "d \<in> vals (gd_store (log_gdpr ?e ?st) c) \<or> (\<exists>sc \<in> set (allScopes env). sc_collection sc = c \<and> of_subject s sc d)"
      using store [OF c] by simp
  qed
  have sec: "gd_secrets (log_gdpr ?e ?st) = ?sec" by (simp add: log_gdpr_def put_doc_def)
  have pre: "js_prefix (secret_prefix env s) (secret_prefix env s @ name)" for name by (auto simp: js_prefix_iff)
  have 3: "\<forall>name. reveal env (gd_secrets (log_gdpr ?e ?st)) (secret_prefix env s @ name) \<in> range Inl"
    unfolding sec by (cases "gd_secrets st") (auto simp: reveal_def shred_reads pre)
  have 4: "\<forall>name. js_prefix (secret_prefix env s) name \<or>
      reveal env (gd_secrets (log_gdpr ?e ?st)) name = reveal env (gd_secrets st) name"
    unfolding sec by (cases "gd_secrets st") (auto simp: reveal_def shred_reads)
  have 5: "gd_audit (log_gdpr ?e ?st) = gd_audit st @ [event ''gdpr.erase'' None [(''subject'', DStr (sha256 env s)), (''erasedCount'', DNum (int n))]]"
    by (simp add: log_gdpr_def put_doc_def subjectHash_def)
  show ?thesis unfolding er prod.case sum.case using True 1 2 3 4 5 by blast
qed

definition toy_gdpr :: gdpr_env where
  "toy_gdpr = \<lparr>gd_crypto = toy_crypto, sha256 = (\<lambda>s. s), parse_date = (\<lambda>s. Some (int (length s))),
     scopes = [\<lparr>sc_collection = ''contacts'', subjectField = ''email'', timestampField = Some ''note'', retentionMs = Some 3\<rparr>]\<rparr>"

definition toy_doc :: "string \<Rightarrow> string \<Rightarrow> string \<Rightarrow> obj" where
  "toy_doc i e n = [(''id'', JStr i), (''email'', JStr e), (''note'', JStr n)]"

definition toy_store :: gdpr_state where
  "toy_store = \<lparr>gd_store = (\<lambda>c. if c = ''contacts'' then [(''1'', toy_doc ''1'' ''ann'' ''xx''), (''2'', toy_doc ''2'' ''bob'' ''xxxxxxxx'')] else []),
     gd_secrets = Some (setSecret toy_crypto [] ''gdpr:ann:7'' ''phone'' None (fresh_backend (toy_key CHR ''k''))), gd_audit = []\<rparr>"

lemma toy_store_ok: "store_ok toy_store"
  by (auto simp: store_ok_def toy_store_def keyed_def tab_ok_def toy_doc_def record_id_def)

lemma erasure_complete_witness:
  "case erase toy_gdpr [''gdpr.manage''] ''ann'' ''t'' 0 toy_store of
     (Inl e, st') \<Rightarrow> False
   | (Inr (i, n), st') \<Rightarrow> toy_doc ''2'' ''bob'' ''xxxxxxxx'' \<in> vals (gd_store st' ''contacts'') \<and>
       recordsForSubject (hd (scopes toy_gdpr)) ''ann'' st' = [] \<and> reveal toy_gdpr (gd_secrets st') ''gdpr:ann:7'' \<in> range Inl"
proof -
  have c: "\<forall>sc \<in> set (scopes toy_gdpr). sc_collection sc \<noteq> TOMBSTONE_COLLECTION"
    by (simp add: toy_gdpr_def TOMBSTONE_COLLECTION_def)
  have g: "gate_check [''gdpr.manage''] ''gdpr.manage''" by code_simp
  have ne: "''contacts'' \<noteq> TOMBSTONE_COLLECTION" by (simp add: TOMBSTONE_COLLECTION_def)
  have b: "toy_doc ''2'' ''bob'' ''xxxxxxxx'' \<in> vals (gd_store toy_store ''contacts'')" by (simp add: toy_store_def vals_def)
  have keep: "\<not> (\<exists>sc \<in> set (allScopes toy_gdpr). sc_collection sc = ''contacts'' \<and> of_subject ''ann'' sc (toy_doc ''2'' ''bob'' ''xxxxxxxx''))"
    by (auto simp: allScopes_def toy_gdpr_def of_subject_def toy_doc_def CONSENT_COLLECTION_def)
  have sc: "hd (scopes toy_gdpr) \<in> set (allScopes toy_gdpr)" by (simp add: allScopes_def toy_gdpr_def)
  have name: "secret_prefix toy_gdpr ''ann'' @ ''7'' = ''gdpr:ann:7''" by (simp add: secret_prefix_def subjectHash_def toy_gdpr_def)
  obtain r st' where e: "erase toy_gdpr [''gdpr.manage''] ''ann'' ''t'' 0 toy_store = (r, st')" by force
  note p = erasure_complete [OF toy_store_ok c, of "[''gdpr.manage'']" "''ann''" "''t''" 0, unfolded e prod.case]
  show ?thesis unfolding e prod.case
  proof (cases r)
    case (Inr x)
    obtain i n where x: "x = (i, n)" by force
    note q = p [unfolded Inr x sum.case prod.case]
    have "recordsForSubject (hd (scopes toy_gdpr)) ''ann'' st' = []" using q sc by blast
    moreover have "reveal toy_gdpr (gd_secrets st') ''gdpr:ann:7'' \<in> range Inl"
      unfolding name [symmetric] using q by blast
    moreover have "toy_doc ''2'' ''bob'' ''xxxxxxxx'' \<in> vals (gd_store st' ''contacts'')" using q ne b keep by blast
    ultimately show "case r of Inl e \<Rightarrow> False
      | Inr (i, n) \<Rightarrow> toy_doc ''2'' ''bob'' ''xxxxxxxx'' \<in> vals (gd_store st' ''contacts'') \<and>
          recordsForSubject (hd (scopes toy_gdpr)) ''ann'' st' = [] \<and> reveal toy_gdpr (gd_secrets st') ''gdpr:ann:7'' \<in> range Inl"
      unfolding Inr x sum.case prod.case by blast
  qed (use p g in simp)
qed

text \<open>C27: Retention ends and is exact. The paging loop, a partial function, ends although it deletes records while it pages;
  exactly the records of each collection whose time stamp is older than the period of a scope with a period are gone, so a
  collection that no such scope names is untouched; and the audit log gets an entry just when something was deleted.\<close>

theorem retention_exact:
  assumes "store_ok st"
  shows "\<exists>n st'. applyRetention env t st = Some (n, st') \<and> store_ok st' \<and>
    (\<forall>c. vals (gd_store st' c) = {d \<in> vals (gd_store st c). \<not> (\<exists>sc \<in> set (allScopes env). overdue env t c sc d)}) \<and>
    gd_secrets st' = gd_secrets st \<and>
    gd_audit st' = gd_audit st @ (if n = 0 then [] else [event ''gdpr.retention'' None [(''purged'', DNum (int n))]])"
proof -
  obtain n f where f: "retention_scopes env t (allScopes env) 0 st = Some (n, st\<lparr>gd_store := f\<rparr>)" "store_ok (st\<lparr>gd_store := f\<rparr>)"
    "\<forall>c. vals (f c) = {d \<in> vals (gd_store st c). \<not> (\<exists>sc \<in> set (allScopes env). overdue env t c sc d)}"
    using retention_scopes_eq [OF assms] by blast
  show ?thesis
    by (rule exI [of _ n], cases "n = 0")
      (use f in \<open>simp_all add: applyRetention_def log_gdpr_def store_ok_def\<close>)
qed

lemma retention_exact_witness:
  "\<exists>n st'. applyRetention toy_gdpr 6 toy_store = Some (n, st') \<and> toy_doc ''1'' ''ann'' ''xx'' \<notin> vals (gd_store st' ''contacts'') \<and>
     toy_doc ''2'' ''bob'' ''xxxxxxxx'' \<in> vals (gd_store st' ''contacts'')"
proof -
  obtain n st' where r: "applyRetention toy_gdpr 6 toy_store = Some (n, st')"
    "\<forall>c. vals (gd_store st' c) = {d \<in> vals (gd_store toy_store c). \<not> (\<exists>sc \<in> set (allScopes toy_gdpr). overdue toy_gdpr 6 c sc d)}"
    using retention_exact [OF toy_store_ok, of toy_gdpr 6] by blast
  have "toy_doc ''2'' ''bob'' ''xxxxxxxx'' \<in> vals (gd_store st' ''contacts'')" "toy_doc ''1'' ''ann'' ''xx'' \<notin> vals (gd_store st' ''contacts'')"
    unfolding r(2) [rule_format]
    by (auto simp: toy_store_def vals_def allScopes_def overdue_def toy_gdpr_def expired_def toy_doc_def)
  then show ?thesis using r(1) by blast
qed

end
