(* ===== verification/Plugin_Host.thy ===== *)
theory Plugin_Host
  imports Plugin_Sign Gdpr Transaction
begin

text \<open>
  The host side of plugins (\<open>packages/runtime/src/host.ts\<close>): manifests and paths, designer presets,
  the checks before a plugin is loaded, the registry, and the broker that answers the service calls of
  a worker.  The running workers are in \<open>Plugin_Life\<close>.  The types are those of \<open>packages/sdk/src/index.ts\<close>.
\<close>

section \<open>Manifests\<close>

record endpoint_def =
  ep_method :: string
  ep_path :: string
  ep_handler :: string

record plugin_panel =
  panel_title :: string
  panel_entry :: string

record plugin_manifest =
  m_name :: string
  m_version :: string
  m_main :: string
  m_capabilities :: "string list"
  m_endpoints :: "endpoint_def list option"
  m_panel :: "plugin_panel option"
  m_panelActions :: "string list option"
  m_designerPresets :: "string option"

text \<open>The check of \<open>readManifest\<close>; the members then have the types that \<open>PluginManifest\<close> says.\<close>

definition truthy_prop :: "obj \<Rightarrow> string \<Rightarrow> bool" where
  "truthy_prop o' k = (case map_of o' k of None \<Rightarrow> False | Some v \<Rightarrow> js_truthy v)"

definition manifest_ok :: "obj \<Rightarrow> bool" where
  "manifest_ok p \<longleftrightarrow> truthy_prop p ''name'' \<and> truthy_prop p ''version'' \<and> truthy_prop p ''main'' \<and>
     (case map_of p ''capabilities'' of Some (JArr _) \<Rightarrow> True | _ \<Rightarrow> False)"

definition str_prop :: "obj \<Rightarrow> string \<Rightarrow> string option" where
  "str_prop o' k = (case map_of o' k of Some (JStr s) \<Rightarrow> Some s | _ \<Rightarrow> None)"

definition strs :: "json option \<Rightarrow> string list option" where
  "strs v = (case v of Some (JArr vs) \<Rightarrow> Some [s. JStr s \<leftarrow> vs] | _ \<Rightarrow> None)"

definition objs :: "json option \<Rightarrow> obj list option" where
  "objs v = (case v of Some (JArr vs) \<Rightarrow> Some [kvs. JObj kvs \<leftarrow> vs] | _ \<Rightarrow> None)"

definition manifest_of :: "obj \<Rightarrow> plugin_manifest" where
  "manifest_of p =
     (let str = (\<lambda>o' k. case str_prop o' k of None \<Rightarrow> [] | Some s \<Rightarrow> s)
      in \<lparr>m_name = str p ''name'', m_version = str p ''version'', m_main = str p ''main'',
          m_capabilities = (case strs (map_of p ''capabilities'') of None \<Rightarrow> [] | Some cs \<Rightarrow> cs),
          m_endpoints = map_option (map (\<lambda>e. \<lparr>ep_method = str e ''method'', ep_path = str e ''path'', ep_handler = str e ''handler''\<rparr>))
            (objs (map_of p ''endpoints'')),
          m_panel = (case map_of p ''panel'' of Some (JObj o') \<Rightarrow> Some \<lparr>panel_title = str o' ''title'', panel_entry = str o' ''entry''\<rparr> | _ \<Rightarrow> None),
          m_panelActions = strs (map_of p ''panelActions''), m_designerPresets = str_prop p ''designerPresets''\<rparr>)"

text \<open>\<open>file\<close> is the text of the manifest file, if it can be read.\<close>

definition readManifest :: "string \<Rightarrow> string option \<Rightarrow> plugin_manifest result" where
  "readManifest dir file =
     (case (case file of None \<Rightarrow> None | Some s \<Rightarrow> json_parse s) of
        None \<Rightarrow> Inl (PressError Not_found (''Plugin manifest not found in '' @ dir))
      | Some JNull \<Rightarrow> Inl (js_error ''Cannot read properties of null'')
      | Some (JObj p) \<Rightarrow> if manifest_ok p then Inr (manifest_of p) else Inl (PressError Validation ''Invalid plugin manifest'')
      | Some _ \<Rightarrow> Inl (PressError Validation ''Invalid plugin manifest''))"

section \<open>Paths\<close>

text \<open>\<open>path.resolve\<close> of a base and a path, with \<open>/\<close> as the separator.\<close>

fun norm_segs :: "string list \<Rightarrow> string list \<Rightarrow> string list" where
  "norm_segs acc [] = acc"
| "norm_segs acc (s # ss) =
     (if s = [] \<or> s = ''.'' then norm_segs acc ss else if s = ''..'' then norm_segs (butlast acc) ss else norm_segs (acc @ [s]) ss)"

definition path_text :: "string list \<Rightarrow> string" where
  "path_text segs = ''/'' @ js_join ''/'' segs"

definition resolve_segs :: "string \<Rightarrow> string \<Rightarrow> string list" where
  "resolve_segs base p = norm_segs [] (js_split (CHR ''/'') (if js_prefix ''/'' p then p else base @ ''/'' @ p))"

definition path_resolve :: "string \<Rightarrow> string \<Rightarrow> string" where
  "path_resolve base p = path_text (resolve_segs base p)"

definition resolveWithin :: "string \<Rightarrow> string \<Rightarrow> string \<Rightarrow> string result" where
  "resolveWithin cwd baseDir relative =
     (let base = path_resolve cwd baseDir; target = path_resolve base relative
      in if target \<noteq> base \<and> \<not> js_prefix (base @ ''/'') target
         then Inl (PressError Forbidden (''Plugin path escapes its directory: '' @ relative)) else Inr target)"

section \<open>Designer presets\<close>

record designer_preset =
  dp_id :: string
  dp_name :: string
  dp_icon :: string
  dp_category :: string
  dp_description :: string
  dp_template :: "json list"

text \<open>\<open>puzzle\<close> is the default icon, a character outside Latin-1.\<close>

definition sanitize_preset :: "string \<Rightarrow> string \<Rightarrow> json \<Rightarrow> designer_preset option" where
  "sanitize_preset puzzle plugin p =
     (case p of
        JObj r \<Rightarrow>
          (case (str_prop r ''id'', str_prop r ''name'', map_of r ''template'') of
             (Some (c # cs), Some (d # ds), Some (JArr template)) \<Rightarrow>
               Some \<lparr>dp_id = plugin @ '':'' @ c # cs, dp_name = take 80 (d # ds),
                 dp_icon = (case str_prop r ''icon'' of None \<Rightarrow> puzzle | Some s \<Rightarrow> take 8 s),
                 dp_category = (case str_prop r ''category'' of Some (e # es) \<Rightarrow> take 40 (e # es) | _ \<Rightarrow> ''Plugin''),
                 dp_description = (case str_prop r ''description'' of None \<Rightarrow> [] | Some s \<Rightarrow> take 200 s), dp_template = template\<rparr>
           | _ \<Rightarrow> None)
      | _ \<Rightarrow> None)"

definition sanitizePresets :: "string \<Rightarrow> string \<Rightarrow> json \<Rightarrow> designer_preset list" where
  "sanitizePresets puzzle plugin parsed =
     (case parsed of JArr ps \<Rightarrow> List.map_filter (sanitize_preset puzzle plugin) (take 100 ps) | _ \<Rightarrow> [])"

definition loadPresets :: "string \<Rightarrow> string \<Rightarrow> string \<Rightarrow> (string \<Rightarrow> string option) \<Rightarrow> plugin_manifest \<Rightarrow> designer_preset list" where
  "loadPresets puzzle cwd dir readFile m =
     (case m_designerPresets m of None \<Rightarrow> [] | Some [] \<Rightarrow> []
      | Some rel \<Rightarrow>
          (case resolveWithin cwd dir rel of Inl _ \<Rightarrow> []
           | Inr path \<Rightarrow> (case (case readFile path of None \<Rightarrow> None | Some s \<Rightarrow> json_parse s) of
               None \<Rightarrow> [] | Some j \<Rightarrow> sanitizePresets puzzle (m_name m) j)))"

section \<open>Checks before loading\<close>

definition SIGNATURE_PATH :: "string \<Rightarrow> string" where
  "SIGNATURE_PATH dir = dir @ ''/'' @ SIGNATURE_FILE"

datatype file_read = Absent | Unreadable | Text string

record host_env =
  he_sign :: sign_env
  allowUnsigned :: bool
  signingKey :: "string option"
  read_file :: "string \<Rightarrow> file_read"
  read_dir :: "string \<Rightarrow> (string \<times> fs_node) list"
  cwd :: string
  puzzle :: string

definition unsigned_in_production :: press_error where
  "unsigned_in_production = PressError Forbidden ''allowUnsigned must not be enabled in production - unsigned plugins are refused.''"

definition new_PluginHost :: "bool \<Rightarrow> string option \<Rightarrow> bool \<Rightarrow> host_env \<Rightarrow> host_env result" where
  "new_PluginHost unsigned signingSecret production env =
     (if unsigned \<and> production then Inl unsigned_in_production
      else Inr (env\<lparr>allowUnsigned := unsigned,
        signingKey := (case signingSecret of None \<Rightarrow> None | Some [] \<Rightarrow> None | Some s \<Rightarrow> Some (derivePluginSigningKey (he_sign env) s))\<rparr>))"

text \<open>The signature that was parsed, if it has files at all.\<close>

definition readSignature :: "host_env \<Rightarrow> string \<Rightarrow> string \<Rightarrow> plugin_signature option result" where
  "readSignature env dir name =
     (case read_file env (SIGNATURE_PATH dir) of
        Absent \<Rightarrow> Inr None
      | Unreadable \<Rightarrow> Inl (PressError Forbidden (''Unreadable signature for \"'' @ name @ ''\"''))
      | Text s \<Rightarrow>
          (case json_parse s of
             None \<Rightarrow> Inl (PressError Forbidden (''Unreadable signature for \"'' @ name @ ''\"''))
           | Some (JObj kvs) \<Rightarrow>
               Inr (if truthy_prop kvs ''files'' then Some \<lparr>sig_algorithm = map_of kvs ''algorithm'', sig_files = map_of kvs ''files''\<rparr> else None)
           | Some _ \<Rightarrow> Inr None))"

definition verifySignature :: "host_env \<Rightarrow> string \<Rightarrow> plugin_manifest \<Rightarrow> unit result" where
  "verifySignature env dir m =
     (case readSignature env dir (m_name m) of
        Inl e \<Rightarrow> Inl e
      | Inr None \<Rightarrow> if allowUnsigned env then Inr () else Inl (PressError Forbidden (''Plugin \"'' @ m_name m @ ''\" is unsigned''))
      | Inr (Some sig) \<Rightarrow>
          (case signingKey env of
             None \<Rightarrow> if allowUnsigned env then Inr ()
               else Inl (PressError Forbidden (''Cannot verify \"'' @ m_name m @ ''\": no plugin-signing key configured''))
           | Some key \<Rightarrow>
               (case verifyPluginSignature (he_sign env) (read_dir env dir) sig key of
                  Inl e \<Rightarrow> Inl e
                | Inr Verified \<Rightarrow> Inr ()
                | Inr (Rejected reason) \<Rightarrow>
                    Inl (PressError Forbidden (''Plugin \"'' @ m_name m @ ''\" failed signature verification: '' @ reason)))))"

definition validate :: "host_env \<Rightarrow> cve_state option \<Rightarrow> string \<Rightarrow> plugin_manifest \<Rightarrow> unit result" where
  "validate env cve dir m =
     (case verifySignature env dir m of Inl e \<Rightarrow> Inl e
      | Inr _ \<Rightarrow>
        (if (case cve of None \<Rightarrow> False | Some c \<Rightarrow> isFlagged (m_name m) (m_version m) c)
         then Inl (PressError Forbidden (''Plugin \"'' @ m_name m @ ''@'' @ m_version m @ ''\" has a known vulnerability and was refused''))
         else Inr ()))"

section \<open>The registry\<close>

record plugin_entry =
  pe_dir :: string
  pe_manifest :: plugin_manifest
  pe_builtin :: bool
  pe_enabled :: bool
  pe_presets :: "designer_preset list"

record host_state =
  registry :: "(string \<times> plugin_entry) list"
  enabled_store :: "plugin_state_coll option"
  host_cve :: "cve_state option"

definition file_text :: "host_env \<Rightarrow> string \<Rightarrow> string option" where
  "file_text env path = (case read_file env path of Text s \<Rightarrow> Some s | _ \<Rightarrow> None)"

definition register_plugin :: "host_env \<Rightarrow> string \<Rightarrow> bool \<Rightarrow> (host_state, plugin_manifest) action" where
  "register_plugin env dir builtin st =
     (case readManifest dir (file_text env (dir @ ''/pressh.plugin.json'')) of Inl e \<Rightarrow> (Inl e, st)
      | Inr m \<Rightarrow>
        (case validate env (host_cve st) dir m of Inl e \<Rightarrow> (Inl e, st)
         | Inr _ \<Rightarrow>
           (let entry = \<lparr>pe_dir = dir, pe_manifest = m, pe_builtin = builtin,
                  pe_enabled = (case enabled_store st of None \<Rightarrow> False | Some t \<Rightarrow> isEnabled (m_name m) t),
                  pe_presets = loadPresets (puzzle env) (cwd env) dir (file_text env) m\<rparr>
            in (Inr m, st\<lparr>registry := obj_set (m_name m) entry (registry st)\<rparr>))))"

definition persist_enabled :: "string \<Rightarrow> bool \<Rightarrow> int \<Rightarrow> (host_state, unit) action" where
  "persist_enabled name b now st =
     (case enabled_store st of None \<Rightarrow> (Inr (), st)
      | Some t \<Rightarrow> (case setEnabled name b now t of (r, t) \<Rightarrow> (r, st\<lparr>enabled_store := Some t\<rparr>)))"

definition enable_plugin :: "host_env \<Rightarrow> string \<Rightarrow> int \<Rightarrow> (host_state, unit) action" where
  "enable_plugin env name now st =
     (case map_of (registry st) name of
        None \<Rightarrow> (Inl (PressError Not_found (''Plugin not registered: '' @ name)), st)
      | Some r \<Rightarrow>
          (case validate env (host_cve st) (pe_dir r) (pe_manifest r) of Inl e \<Rightarrow> (Inl e, st)
           | Inr _ \<Rightarrow> persist_enabled name True now (st\<lparr>registry := obj_set name (r\<lparr>pe_enabled := True\<rparr>) (registry st)\<rparr>)))"

definition load_plugin :: "host_env \<Rightarrow> string \<Rightarrow> bool \<Rightarrow> int \<Rightarrow> (host_state, plugin_manifest) action" where
  "load_plugin env dir builtin now st =
     (case register_plugin env dir builtin st of (Inl e, st) \<Rightarrow> (Inl e, st)
      | (Inr m, st) \<Rightarrow> (case enable_plugin env (m_name m) now st of (Inl e, st) \<Rightarrow> (Inl e, st) | (Inr _, st) \<Rightarrow> (Inr m, st)))"

definition disable_plugin :: "string \<Rightarrow> int \<Rightarrow> (host_state, unit) action" where
  "disable_plugin name now st =
     (case map_of (registry st) name of None \<Rightarrow> (Inr (), st)
      | Some r \<Rightarrow> persist_enabled name False now (st\<lparr>registry := obj_set name (r\<lparr>pe_enabled := False\<rparr>) (registry st)\<rparr>))"

definition stop_plugin :: "string \<Rightarrow> host_state \<Rightarrow> host_state" where
  "stop_plugin name st = st\<lparr>registry := filter (\<lambda>(n, _). n \<noteq> name) (registry st)\<rparr>"

definition has_plugin :: "string \<Rightarrow> host_state \<Rightarrow> bool" where
  "has_plugin name st = (case map_of (registry st) name of None \<Rightarrow> False | Some r \<Rightarrow> pe_enabled r)"

definition isRegistered :: "string \<Rightarrow> host_state \<Rightarrow> bool" where
  "isRegistered name st = (map_of (registry st) name \<noteq> None)"

definition panelActions :: "string \<Rightarrow> host_state \<Rightarrow> string list" where
  "panelActions name st =
     (case map_of (registry st) name of None \<Rightarrow> []
      | Some r \<Rightarrow> (case m_panelActions (pe_manifest r) of None \<Rightarrow> [] | Some as \<Rightarrow> as))"

definition enabled_entries :: "host_state \<Rightarrow> plugin_entry list" where
  "enabled_entries st = filter pe_enabled (map snd (registry st))"

definition endpoints :: "host_state \<Rightarrow> (string \<times> endpoint_def) list" where
  "endpoints st =
     concat (map (\<lambda>r. map (Pair (m_name (pe_manifest r))) (case m_endpoints (pe_manifest r) of None \<Rightarrow> [] | Some es \<Rightarrow> es)) (enabled_entries st))"

record plugin_info =
  pi_name :: string
  pi_version :: string
  pi_capabilities :: "string list"
  pi_endpoints :: nat
  pi_hasPanel :: bool
  pi_enabled :: bool
  pi_builtin :: bool

definition plugins :: "host_state \<Rightarrow> plugin_info list" where
  "plugins st = map (\<lambda>r. let m = pe_manifest r in
      \<lparr>pi_name = m_name m, pi_version = m_version m, pi_capabilities = m_capabilities m,
       pi_endpoints = (case m_endpoints m of None \<Rightarrow> 0 | Some es \<Rightarrow> length es), pi_hasPanel = (m_panel m \<noteq> None),
       pi_enabled = pe_enabled r, pi_builtin = pe_builtin r\<rparr>) (map snd (registry st))"

definition designerPresets :: "host_state \<Rightarrow> (string \<times> designer_preset list) list" where
  "designerPresets st = map (\<lambda>r. (m_name (pe_manifest r), pe_presets r)) (filter (\<lambda>r. pe_presets r \<noteq> []) (enabled_entries st))"

definition panels :: "host_state \<Rightarrow> (string \<times> string) list" where
  "panels st = List.map_filter (\<lambda>r. map_option (\<lambda>p. (m_name (pe_manifest r), panel_title p)) (m_panel (pe_manifest r))) (enabled_entries st)"

definition panel :: "host_env \<Rightarrow> string \<Rightarrow> host_state \<Rightarrow> (string \<times> string) option result" where
  "panel env name st =
     (case map_of (registry st) name of None \<Rightarrow> Inr None
      | Some r \<Rightarrow>
        (case m_panel (pe_manifest r) of None \<Rightarrow> Inr None
         | Some p \<Rightarrow>
           (if \<not> pe_enabled r then Inr None
            else case resolveWithin (cwd env) (pe_dir r) (panel_entry p) of Inl e \<Rightarrow> Inl e
              | Inr path \<Rightarrow> (case file_text env path of None \<Rightarrow> Inl (js_error ''ENOENT'') | Some script \<Rightarrow> Inr (Some (panel_title p, script))))))"

section \<open>The service broker\<close>

definition RESERVED_COLLECTIONS :: "string list" where
  "RESERVED_COLLECTIONS = [''users'', ''sessions'', ''invites'']"

definition reserved :: "string \<Rightarrow> bool" where
  "reserved c = (js_lower (js_trim c) \<in> set RESERVED_COLLECTIONS)"

text \<open>What the host may use: \<open>storage\<close>, \<open>secrets\<close>, \<open>pii\<close> and \<open>audit\<close> of \<open>PluginHostOptions\<close>, over one state.\<close>

record 's host_opts =
  h_get :: "string \<Rightarrow> string \<Rightarrow> 's \<Rightarrow> json option result"
  h_put :: "string \<Rightarrow> json option \<Rightarrow> ('s, unit) action"
  h_delete :: "string \<Rightarrow> string \<Rightarrow> ('s, unit) action"
  h_query :: "string \<Rightarrow> json option \<Rightarrow> json option \<Rightarrow> 's \<Rightarrow> (json list \<times> string option) result"
  h_list :: "'s \<Rightarrow> string list result"
  h_secret :: "(string \<Rightarrow> 's \<Rightarrow> string result) option"
  h_protect :: "(string \<Rightarrow> string \<Rightarrow> ('s, json) action) option"
  h_consent :: "(string \<Rightarrow> string \<Rightarrow> bool \<Rightarrow> ('s, unit) action) option"
  h_audit :: "audit_event \<Rightarrow> 's \<Rightarrow> 's"

record service_call =
  service :: string
  call_method :: string
  call_args :: "json list"

definition arg :: "json list \<Rightarrow> nat \<Rightarrow> json option" where
  "arg args n = (if n < length args then Some (args ! n) else None)"

text \<open>\<open>String(v)\<close>\<close>

fun js_String :: "json \<Rightarrow> string" where
  "js_String (JStr s) = s"
| "js_String (JBool b) = (if b then ''true'' else ''false'')"
| "js_String (JNum n) = int_string n"
| "js_String JNull = ''null''"
| "js_String (JObj kvs) = ''[object Object]''"
| "js_String (JArr vs) = js_join '','' (map (\<lambda>v. case v of JNull \<Rightarrow> [] | _ \<Rightarrow> js_String v) vs)"

definition arg_string :: "json list \<Rightarrow> nat \<Rightarrow> string" where
  "arg_string args n = (case arg args n of None \<Rightarrow> ''undefined'' | Some v \<Rightarrow> js_String v)"

definition not_configured :: "string \<Rightarrow> press_error" where
  "not_configured what = PressError Internal (what @ '' not configured'')"

fun str_or_null :: "string option \<Rightarrow> json" where
  "str_or_null None = JNull"
| "str_or_null (Some s) = JStr s"

text \<open>The value of a call that returns nothing is \<^const>\<open>None\<close>.\<close>

definition dispatch_storage :: "'s host_opts \<Rightarrow> string list \<Rightarrow> string \<Rightarrow> json list \<Rightarrow> 's \<Rightarrow> (json option result \<times> 's) option" where
  "dispatch_storage H caps meth args s =
     (if meth = ''list'' then
        Some (case gate_assert caps ''storage.read:*'' of Inl e \<Rightarrow> (Inl e, s)
          | Inr _ \<Rightarrow> (case h_list H s of Inl e \<Rightarrow> (Inl e, s)
             | Inr all \<Rightarrow> (Inr (Some (JArr (map JStr (filter (\<lambda>c. c \<notin> set RESERVED_COLLECTIONS) all)))), s)))
      else case arg args 0 of
        Some (JStr c) \<Rightarrow>
          if reserved c then Some (Inl (PressError Capability_denied (''Capability denied: '' @ c @ '' is reserved'')), s)
          else if meth = ''get'' then
            Some (case gate_assert caps (''storage.read:'' @ c) of Inl e \<Rightarrow> (Inl e, s)
              | Inr _ \<Rightarrow> (case h_get H c (arg_string args 1) s of Inl e \<Rightarrow> (Inl e, s)
                 | Inr d \<Rightarrow> (Inr (Some (case d of None \<Rightarrow> JNull | Some d \<Rightarrow> d)), s)))
          else if meth = ''put'' then
            Some (case gate_assert caps (''storage.write:'' @ c) of Inl e \<Rightarrow> (Inl e, s)
              | Inr _ \<Rightarrow> (case h_put H c (arg args 1) s of (r, s) \<Rightarrow> (map_sum id (\<lambda>_. None) r, s)))
          else if meth = ''delete'' then
            Some (case gate_assert caps (''storage.write:'' @ c) of Inl e \<Rightarrow> (Inl e, s)
              | Inr _ \<Rightarrow> (case h_delete H c (arg_string args 1) s of (r, s) \<Rightarrow> (map_sum id (\<lambda>_. None) r, s)))
          else if meth = ''query'' then
            Some (case gate_assert caps (''storage.read:'' @ c) of Inl e \<Rightarrow> (Inl e, s)
              | Inr _ \<Rightarrow> (case h_query H c (arg args 1) (arg args 2) s of Inl e \<Rightarrow> (Inl e, s)
                 | Inr (items, next) \<Rightarrow> (Inr (Some (JObj [(''items'', JArr items), (''nextCursor'', str_or_null next)])), s)))
          else None
      | _ \<Rightarrow> Some (Inl (PressError Validation ''Collection name must be a string''), s))"

definition dispatchService :: "'s host_opts \<Rightarrow> string list \<Rightarrow> service_call \<Rightarrow> ('s, json option) action" where
  "dispatchService H caps msg s =
     (let args = call_args msg; meth = call_method msg;
          unknown = (Inl (PressError Validation (''Unknown service: '' @ service msg @ ''.'' @ meth)), s)
      in if service msg = ''storage'' then (case dispatch_storage H caps meth args s of None \<Rightarrow> unknown | Some r \<Rightarrow> r)
         else if service msg = ''secrets'' \<and> meth = ''get'' then
           (case gate_assert caps (''secrets.read:'' @ arg_string args 0) of Inl e \<Rightarrow> (Inl e, s)
            | Inr _ \<Rightarrow> (case h_secret H of None \<Rightarrow> (Inl (not_configured ''Secrets backend''), s)
               | Some f \<Rightarrow> (map_sum id (Some \<circ> JStr) (f (arg_string args 0) s), s)))
         else if service msg = ''pii'' \<and> meth = ''protect'' then
           (case gate_assert caps ''pii.protect'' of Inl e \<Rightarrow> (Inl e, s)
            | Inr _ \<Rightarrow> (case h_protect H of None \<Rightarrow> (Inl (not_configured ''PII service''), s)
               | Some f \<Rightarrow> (case f (arg_string args 0) (arg_string args 1) s of (r, s) \<Rightarrow> (map_sum id Some r, s))))
         else if service msg = ''pii'' \<and> meth = ''recordConsent'' then
           (case gate_assert caps ''pii.consent'' of Inl e \<Rightarrow> (Inl e, s)
            | Inr _ \<Rightarrow> (case h_consent H of None \<Rightarrow> (Inl (not_configured ''PII service''), s)
               | Some f \<Rightarrow> (case f (arg_string args 0) (arg_string args 1) (arg args 2 = Some (JBool True)) s of
                    (r, s) \<Rightarrow> (map_sum id (\<lambda>_. None) r, s))))
         else unknown)"

definition handleServiceCall :: "'s host_opts \<Rightarrow> plugin_manifest \<Rightarrow> service_call \<Rightarrow> ('s, json option) action" where
  "handleServiceCall H m msg s =
     (case dispatchService H (m_capabilities m) msg s of
        (Inr v, s) \<Rightarrow> (Inr v, s)
      | (Inl e, s) \<Rightarrow>
          (Inl e, if code e = Capability_denied
                  then h_audit H (event ''plugin.capability_denied'' (Some (m_name m))
                    [(''service'', DStr (service msg)), (''method'', DStr (call_method msg)), (''error'', DStr (message e))]) s
                  else s))"

section \<open>The services of the two servers\<close>

text \<open>
  The host of the Studio (and of the Site) runs on the filesystem adapter, the vault and the GDPR
  service, without \<open>secrets\<close>.  A document is kept whole, its id included.  An id that is no string is
  refused by the adapter; \<open>readCursor\<close> is what it makes of the third argument of a query.
\<close>

record press_state =
  ps_fs :: "obj fs_state"
  ps_vault :: "secrets_backend option"
  ps_log :: "audit_event list"

definition doc_arg :: "json option \<Rightarrow> obj doc result" where
  "doc_arg v =
     (case v of
        Some (JObj kvs) \<Rightarrow> (case map_of kvs ''id'' of Some (JStr i) \<Rightarrow> Inr \<lparr>doc_id = i, doc_body = kvs\<rparr> | _ \<Rightarrow> Inl (js_error ''id is no string''))
      | _ \<Rightarrow> Inl (js_error ''Cannot read properties of undefined''))"

text \<open>\<open>Object.entries\<close>, and the values SQLite compares: booleans as numbers, objects and arrays as their text.\<close>

fun js_entries :: "json \<Rightarrow> (string \<times> json) list" where
  "js_entries (JObj kvs) = kvs"
| "js_entries (JArr vs) = zip (map nat_digits [0..<length vs]) vs"
| "js_entries (JStr s) = zip (map nat_digits [0..<length s]) (map (\<lambda>c. JStr [c]) s)"
| "js_entries _ = []"

fun sql_param :: "json \<Rightarrow> json option" where
  "sql_param (JBool b) = Some (JNum (if b then 1 else 0))"
| "sql_param (JArr vs) = None"
| "sql_param (JObj kvs) = None"
| "sql_param v = Some v"

fun sql_extract :: "json \<Rightarrow> json option" where
  "sql_extract JNull = None"
| "sql_extract (JBool b) = Some (JNum (if b then 1 else 0))"
| "sql_extract (JArr vs) = Some (JStr (json_text (JArr vs)))"
| "sql_extract (JObj kvs) = Some (JStr (json_text (JObj kvs)))"
| "sql_extract v = Some v"

definition extract_field :: "obj doc \<Rightarrow> string \<Rightarrow> json option" where
  "extract_field d f = Option.bind (map_of (doc_body d) f) sql_extract"

definition where_arg :: "json option \<Rightarrow> (string \<times> json) list" where
  "where_arg v = (case v of None \<Rightarrow> [] | Some w \<Rightarrow> if js_truthy w then js_entries w else [])"

definition fs_plugin_query ::
  "(json option \<Rightarrow> string option \<times> int option) \<Rightarrow> string \<Rightarrow> json option \<Rightarrow> json option \<Rightarrow> obj fs_state \<Rightarrow> (json list \<times> string option) result" where
  "fs_plugin_query readCursor c w cur fs =
     (let wh = where_arg w
      in if list_ex (\<lambda>(_, v). sql_param v = None) wh \<and> list_all (\<lambda>(f, _). SAFE_FIELD f) wh \<and> is_ok (assertSegment c ''collection'')
         then Inl (js_error ''SQLite3 can only bind numbers, strings, bigints, buffers, and null'')
         else (case readCursor cur of (after, lm) \<Rightarrow>
           (case fs_query extract_field c (map (\<lambda>(f, v). (f, the (sql_param v))) wh) after lm fs of Inl e \<Rightarrow> Inl e
            | Inr (ds, next) \<Rightarrow> Inr (map (JObj \<circ> doc_body) ds, next))))"

definition gdpr_of :: "press_state \<Rightarrow> gdpr_state" where
  "gdpr_of st = \<lparr>gd_store = (\<lambda>c. map (\<lambda>(i, d). (i, doc_body d)) (coll_of c (fs_docs (ps_fs st)))),
     gd_secrets = ps_vault st, gd_audit = ps_log st\<rparr>"

definition studio_services ::
  "gdpr_env \<Rightarrow> (json option \<Rightarrow> string option \<times> int option) \<Rightarrow> string \<Rightarrow> string \<Rightarrow> int \<Rightarrow> press_state host_opts" where
  "studio_services env readCursor uuid iv now =
     \<lparr>h_get = (\<lambda>c i st. map_sum id (map_option (JObj \<circ> doc_body)) (fs_get c i (ps_fs st))),
      h_put = (\<lambda>c v st. case doc_arg v of Inl e \<Rightarrow> (Inl e, st)
         | Inr d \<Rightarrow> (case fs_put c d (ps_fs st) of (r, fs) \<Rightarrow> (r, st\<lparr>ps_fs := fs\<rparr>))),
      h_delete = (\<lambda>c i st. case fs_delete c i (ps_fs st) of (r, fs) \<Rightarrow> (r, st\<lparr>ps_fs := fs\<rparr>)),
      h_query = (\<lambda>c w cur st. fs_plugin_query readCursor c w cur (ps_fs st)),
      h_list = (\<lambda>st. Inr (fs_listCollections (ps_fs st))),
      h_secret = None,
      h_protect = Some (\<lambda>subject value st. case protect env subject value uuid iv (gdpr_of st) of
         (r, g) \<Rightarrow> (r, st\<lparr>ps_vault := gd_secrets g\<rparr>)),
      h_consent = Some (\<lambda>subject scope granted st.
         case fs_put CONSENT_COLLECTION \<lparr>doc_id = uuid, doc_body = consent_doc subject scope granted uuid now\<rparr> (ps_fs st) of
           (Inl e, fs) \<Rightarrow> (Inl e, st)
         | (Inr _, fs) \<Rightarrow> (Inr (), st\<lparr>ps_fs := fs, ps_log := ps_log st @ [consent_event env subject scope granted]\<rparr>)),
      h_audit = (\<lambda>e st. st\<lparr>ps_log := ps_log st @ [e]\<rparr>)\<rparr>"

section \<open>The contract of the services\<close>

locale plugin_services =
  fixes H :: "'s host_opts"
    and view :: "'s \<Rightarrow> string \<times> string \<Rightarrow> json option"
    and good :: "'s \<Rightarrow> bool"
  assumes get_view: "h_get H c i s = Inr v \<Longrightarrow> v = view s (c, i)"
    and query_view: "good s \<Longrightarrow> h_query H c w cur s = Inr (items, next) \<Longrightarrow> d \<in> set items \<Longrightarrow> \<exists>i. view s (c, i) = Some d"
    and put_view: "view (snd (h_put H c v s)) (c', i) \<noteq> view s (c', i) \<Longrightarrow> c' = c"
    and delete_view: "view (snd (h_delete H c j s)) (c', i) \<noteq> view s (c', i) \<Longrightarrow> c' = c"
    and protect_view: "h_protect H = Some f \<Longrightarrow> view (snd (f a b s)) = view s"
    and consent_view: "h_consent H = Some g \<Longrightarrow> view (snd (g a b x s)) (c', i) \<noteq> view s (c', i) \<Longrightarrow> c' = CONSENT_COLLECTION"
    and audit_view: "view (h_audit H e s) = view s"
begin

lemma storage_writes:
  assumes "dispatch_storage H caps meth args s = Some (r, s')" "view s' (c, i) \<noteq> view s (c, i)"
  shows "\<not> reserved c \<and> gate_check caps (''storage.write:'' @ c)"
proof (cases "meth = ''list''")
  case False
  then obtain c0 where a: "arg args 0 = Some (JStr c0)" "\<not> reserved c0"
    using assms by (auto simp: dispatch_storage_def split: option.splits json.splits if_splits)
  show ?thesis
  proof (cases "meth = ''get'' \<or> meth = ''query''")
    case True
    then show ?thesis using False a assms by (auto simp: dispatch_storage_def split: sum.splits prod.splits)
  next
    case g: False
    then have m: "meth = ''put'' \<or> meth = ''delete''"
      using False a assms by (auto simp: dispatch_storage_def split: if_splits)
    have gate: "gate_check caps (''storage.write:'' @ c0)"
      using m a assms by (auto simp: dispatch_storage_def gate_assert_def split: if_splits)
    then have "s' = (if meth = ''put'' then snd (h_put H c0 (arg args 1) s) else snd (h_delete H c0 (arg_string args 1) s))"
      using m a assms(1) by (auto simp: dispatch_storage_def gate_assert_def split: prod.splits)
    then have "c = c0" using assms(2) put_view delete_view by (auto split: if_splits)
    then show ?thesis using a gate by simp
  qed
qed (use assms in \<open>auto simp: dispatch_storage_def split: sum.splits\<close>)

lemma dispatch_writes:
  assumes "dispatchService H caps msg s = (r, s')" "view s' (c, i) \<noteq> view s (c, i)"
  shows "\<not> reserved c \<and> gate_check caps (''storage.write:'' @ c) \<or> c = CONSENT_COLLECTION \<and> gate_check caps ''pii.consent''"
proof (cases "service msg = ''storage''")
  case True
  then have "dispatch_storage H caps (call_method msg) (call_args msg) s = Some (r, s')"
    using assms by (auto simp: dispatchService_def Let_def split: option.splits)
  from storage_writes [OF this assms(2)] show ?thesis by blast
next
  case False
  then show ?thesis
    using assms protect_view consent_view
    by (auto simp: dispatchService_def Let_def gate_assert_def split: if_splits sum.splits option.splits prod.splits)
      (metis snd_conv)+
qed

lemma call_writes:
  assumes "handleServiceCall H m msg s = (r, s')" "view s' (c, i) \<noteq> view s (c, i)"
  shows "\<not> reserved c \<and> gate_check (m_capabilities m) (''storage.write:'' @ c) \<or>
    c = CONSENT_COLLECTION \<and> gate_check (m_capabilities m) ''pii.consent''"
proof -
  obtain r' s1 where d: "dispatchService H (m_capabilities m) msg s = (r', s1)" by force
  have "view s' = view s1" using assms(1) d audit_view by (auto simp: handleServiceCall_def split: sum.splits if_splits)
  then show ?thesis using dispatch_writes [OF d] assms(2) by simp
qed

lemma call_reads:
  assumes "handleServiceCall H m msg s = (Inr v, s')" "service msg = ''storage''" "call_method msg = ''get''"
    "arg (call_args msg) 0 = Some (JStr c)"
  shows "\<not> reserved c \<and> gate_check (m_capabilities m) (''storage.read:'' @ c) \<and>
    v = Some (case view s (c, arg_string (call_args msg) 1) of None \<Rightarrow> JNull | Some d \<Rightarrow> d)"
  using assms get_view
  by (fastforce simp: handleServiceCall_def dispatchService_def dispatch_storage_def Let_def gate_assert_def
      split: if_splits sum.splits prod.splits)

lemma call_query:
  assumes "handleServiceCall H m msg s = (Inr (Some (JObj [(''items'', JArr items), next])), s')" "service msg = ''storage''"
    "call_method msg = ''query''" "arg (call_args msg) 0 = Some (JStr c)" "good s"
  shows "\<not> reserved c \<and> gate_check (m_capabilities m) (''storage.read:'' @ c) \<and> (\<forall>d \<in> set items. \<exists>i. view s (c, i) = Some d)"
  using assms query_view
  by (fastforce simp: handleServiceCall_def dispatchService_def dispatch_storage_def Let_def gate_assert_def
      split: if_splits sum.splits prod.splits)

lemma call_reserved:
  assumes "service msg = ''storage''" "call_method msg \<noteq> ''list''" "arg (call_args msg) 0 = Some (JStr c)" "reserved c"
  shows "\<exists>e. code e = Capability_denied \<and> handleServiceCall H m msg s =
    (Inl e, h_audit H (event ''plugin.capability_denied'' (Some (m_name m))
      [(''service'', DStr (service msg)), (''method'', DStr (call_method msg)), (''error'', DStr (message e))]) s)"
  using assms by (simp add: handleServiceCall_def dispatchService_def dispatch_storage_def Let_def)

end

definition ps_view :: "press_state \<Rightarrow> string \<times> string \<Rightarrow> json option" where
  "ps_view st k = map_option (JObj \<circ> doc_body) (map_of (fs_docs (ps_fs st)) k)"

lemma ps_view_upd [simp]: "ps_view (st\<lparr>ps_vault := v\<rparr>) = ps_view st" "ps_view (st\<lparr>ps_log := l\<rparr>) = ps_view st"
  by (rule ext, simp add: ps_view_def)+

lemma coll_row: "tab_ok t \<Longrightarrow> (i, d) \<in> set (coll_of c t) \<Longrightarrow> map_of t (c, i) = Some d"
  using map_of_in_set [of "coll_of c t" i d] tab_ok_coll_of [of t c] by (simp add: map_of_coll_of)

interpretation studio: plugin_services "studio_services env readCursor uuid iv now" ps_view "\<lambda>st. tab_ok (fs_docs (ps_fs st))"
  for env readCursor uuid iv now
proof
  fix s :: press_state and c c' i j :: string and v w cur :: "json option" and items nxt d e and x :: "json option"
  let ?H = "studio_services env readCursor uuid iv now"
  show "h_get ?H c i s = Inr v \<Longrightarrow> v = ps_view s (c, i)"
    by (auto simp: studio_services_def fs_get_def ps_view_def split: sum.splits)
  show "\<exists>i. ps_view s (c, i) = Some d" if q0: "tab_ok (fs_docs (ps_fs s))" "h_query ?H c w cur s = Inr (items, nxt)" "d \<in> set items"
  proof -
    obtain after lm wh ds where q: "fs_query extract_field c wh after lm (ps_fs s) = Inr (ds, nxt)" "items = map (JObj \<circ> doc_body) ds"
      using q0(2) by (auto simp: studio_services_def fs_plugin_query_def Let_def split: if_splits prod.splits sum.splits)
    let ?P = "\<lambda>d. list_all (\<lambda>(f, q). extract_field d f = Some q) wh" and ?t = "coll_of c (fs_docs (ps_fs s))"
    have "ds = fst (tab_query ?P after lm ?t)"
      using q(1) by (auto simp: fs_query_def split: sum.splits option.splits)
    then have "set ds \<subseteq> snd ` set ?t"
      unfolding tab_query_items by (auto simp: matching_def dest!: in_set_takeD)
    then obtain i d' where "(i, d') \<in> set ?t" "d = JObj (doc_body d')" using q0(3) q(2) by force
    then show ?thesis using coll_row [OF q0(1)] by (force simp: ps_view_def)
  qed
  show "ps_view (snd (h_put ?H c v s)) (c', i) \<noteq> ps_view s (c', i) \<Longrightarrow> c' = c"
    by (auto simp: studio_services_def fs_put_def ps_view_def split: sum.splits if_splits)
  show "ps_view (snd (h_delete ?H c j s)) (c', i) \<noteq> ps_view s (c', i) \<Longrightarrow> c' = c"
    by (auto simp: studio_services_def fs_delete_def ps_view_def split: sum.splits if_splits)
  show "h_protect ?H = Some f \<Longrightarrow> ps_view (snd (f a b s)) = ps_view s" for f a b
    by (auto simp: studio_services_def split: prod.split)
  show "h_consent ?H = Some g \<Longrightarrow> ps_view (snd (g a b y s)) (c', i) \<noteq> ps_view s (c', i) \<Longrightarrow> c' = CONSENT_COLLECTION" for g a b y
    by (auto simp: studio_services_def fs_put_def ps_view_def split: sum.splits if_splits)
  show "ps_view (h_audit ?H e s) = ps_view s" for e
    by (simp add: studio_services_def)
qed

section \<open>Properties\<close>



text \<open>C24: The reserved collections are those of the Studio accounts only. A plugin that declares \<open>storage.read:*\<close>, as the
  built-in data browser does, reads the accounts of the site's members with their password hashes, and their sessions and
  tokens, as stored.\<close>

theorem member_data_exposed:
  assumes "c \<in> set [''member_accounts'', ''member_sessions'', ''member_tokens'']" "is_ok (checkKey c i)"
    and "''storage.read:*'' \<in> set (m_capabilities m)"
  shows "handleServiceCall (studio_services env readCursor uuid iv now) m
      \<lparr>service = ''storage'', call_method = ''get'', call_args = [JStr c, JStr i]\<rparr> st =
    (Inr (Some (case ps_view st (c, i) of None \<Rightarrow> JNull | Some d \<Rightarrow> d)), st)"
proof -
  have "capabilityMatches ''storage.read:*'' (''storage.read:'' @ c)" "\<not> reserved c"
    using assms(1) by (auto simp: capabilityMatches_def parseCapability_def Let_def scopeMatches_def reserved_def RESERVED_COLLECTIONS_def
        js_lower_def js_trim_def char_lower_def is_js_space_def)
  then have "gate_check (m_capabilities m) (''storage.read:'' @ c)" "\<not> reserved c"
    using assms(3) by (auto simp: gate_check_def list_ex_iff)
  then show ?thesis using assms(2)
    by (auto simp: handleServiceCall_def dispatchService_def dispatch_storage_def Let_def arg_def arg_string_def gate_assert_def
        studio_services_def fs_get_def ps_view_def is_ok_iff split: option.split)
qed

lemma member_data_exposed_witness:
  "fst (handleServiceCall (studio_services toy_gdpr (\<lambda>_. (None, None)) ''u'' ''iv'' 0)
      \<lparr>m_name = ''db'', m_version = ''1'', m_main = ''i'', m_capabilities = [''storage.read:*''], m_endpoints = None, m_panel = None,
       m_panelActions = None, m_designerPresets = None\<rparr>
      \<lparr>service = ''storage'', call_method = ''get'', call_args = [JStr ''member_accounts'', JStr ''m1'']\<rparr>
      \<lparr>ps_fs = \<lparr>fs_files = [], fs_docs = [((''member_accounts'', ''m1''), \<lparr>doc_id = ''m1'', doc_body = [(''passwordHash'', JStr ''h'')]\<rparr>)]\<rparr>,
       ps_vault = None, ps_log = []\<rparr>) = Inr (Some (JObj [(''passwordHash'', JStr ''h'')]))"
proof -
  let ?st = "\<lparr>ps_fs = \<lparr>fs_files = [], fs_docs = [((''member_accounts'', ''m1''), \<lparr>doc_id = ''m1'', doc_body = [(''passwordHash'', JStr ''h'')]\<rparr>)]\<rparr>,
       ps_vault = None, ps_log = []\<rparr>"
  have "is_ok (checkKey ''member_accounts'' ''m1'')" by code_simp
  then show ?thesis
    by (subst member_data_exposed) (simp_all add: ps_view_def)
qed

section \<open>Paths stay inside\<close>

definition plain_seg :: "string \<Rightarrow> bool" where
  "plain_seg s \<longleftrightarrow> s \<noteq> [] \<and> s \<noteq> ''.'' \<and> s \<noteq> ''..'' \<and> CHR ''/'' \<notin> set s"

lemma norm_segs_plain:
  "list_all plain_seg acc \<Longrightarrow> (\<And>s. s \<in> set ss \<Longrightarrow> CHR ''/'' \<notin> set s) \<Longrightarrow> list_all plain_seg (norm_segs acc ss)"
proof (induction acc ss rule: norm_segs.induct)
  case (2 acc s ss)
  have "list_all plain_seg (butlast acc)" using "2.prems"(1) by (auto simp: list_all_iff dest: in_set_butlastD)
  moreover have "list_all plain_seg (acc @ [s])" if "s \<noteq> []" "s \<noteq> ''.''" "s \<noteq> ''..''"
  proof -
    have "plain_seg s" using "2.prems"(2) [of s] that by (simp add: plain_seg_def)
    then show ?thesis using "2.prems"(1) by simp
  qed
  ultimately show ?case using 2 by simp
qed simp

lemma resolve_plain: "list_all plain_seg (resolve_segs base p)"
  unfolding resolve_segs_def by (rule norm_segs_plain) (auto dest: js_split_no_sep)

lemma js_split_join_more:
  "xs \<noteq> [] \<Longrightarrow> (\<And>w. w \<in> set xs \<Longrightarrow> d \<notin> set w) \<Longrightarrow> js_split d (js_join [d] xs @ d # y) = xs @ js_split d y"
  by (induction xs rule: induct_list012) (auto simp: js_split_append)

text \<open>C26: A path of a manifest (its main file, panel or presets) that is accepted lies inside the directory of the plugin:
  the directory followed by plain segments, whatever dots and slashes the manifest has.\<close>

theorem plugin_paths_confined:
  assumes "resolveWithin wd dir relative = Inr target"
  shows "\<exists>rest. target = path_text (resolve_segs wd dir @ rest) \<and> list_all plain_seg rest"
proof -
  let ?b = "resolve_segs wd dir" and ?t = "resolve_segs (path_resolve wd dir) relative"
  have target: "target = path_text ?t" and "target = path_text ?b \<or> js_prefix (path_text ?b @ ''/'') target"
    using assms by (auto simp: resolveWithin_def path_resolve_def Let_def split: if_splits)
  note cases = this(2)
  have sep: "CHR ''/'' \<notin> set w" if "w \<in> set ?b \<or> w \<in> set ?t" for w
    using that resolve_plain [of wd dir] resolve_plain [of "path_resolve wd dir" relative] by (auto simp: list_all_iff plain_seg_def)
  show ?thesis
  proof (cases "target = path_text ?b")
    case True
    then show ?thesis by (intro exI [of _ "[]"]) simp
  next
    case False
    then obtain y where "target = path_text ?b @ ''/'' @ y" using cases by (auto simp: js_prefix_iff)
    then have j: "js_join ''/'' ?t = js_join ''/'' ?b @ CHR ''/'' # y" by (simp add: target path_text_def)
    have t: "?t \<noteq> []" using j by auto
    have split: "js_split (CHR ''/'') (js_join ''/'' ?t) = ?t" by (rule js_split_join [OF t]) (use sep in blast)
    have "?b \<noteq> []"
    proof
      assume "?b = []"
      then have "?t = [] # js_split (CHR ''/'') y" using split unfolding j by simp
      then show False using resolve_plain [of "path_resolve wd dir" relative] by (simp add: plain_seg_def)
    qed
    then have "?t = ?b @ js_split (CHR ''/'') y"
      using split unfolding j using js_split_join_more [of ?b "CHR ''/''" y] sep by simp
    moreover from this have "list_all plain_seg (js_split (CHR ''/'') y)"
      using resolve_plain [of "path_resolve wd dir" relative] by simp
    ultimately show ?thesis using target by metis
  qed
qed

lemma plugin_paths_confined_witness:
  "\<exists>rest. resolveWithin ''/srv'' ''plugins/a'' ''x/../lib//./m.js'' = Inr (path_text (resolve_segs ''/srv'' ''plugins/a'' @ rest))"
proof -
  have "resolveWithin ''/srv'' ''plugins/a'' ''x/../lib//./m.js'' = Inr ''/srv/plugins/a/lib/m.js''" by code_simp
  from plugin_paths_confined [OF this] this show ?thesis by metis
qed

text \<open>Enabling is refused unless the plugin verifies at that moment. With unsigned plugins disallowed, a plugin that is
  registered or enabled has a signature over exactly its files under the signing key and is not flagged; a refusal leaves
  the registry and the stored set as they were.\<close>

theorem enable_verified:
  assumes "\<not> allowUnsigned env" "enable_plugin env name now st = (r, st')" "map_of (registry st) name = Some p"
  shows "(r = Inr () \<longrightarrow>
      (\<exists>key sig. signingKey env = Some key \<and> readSignature env (pe_dir p) (m_name (pe_manifest p)) = Inr (Some sig) \<and>
         verifyPluginSignature (he_sign env) (read_dir env (pe_dir p)) sig key = Inr Verified) \<and>
      (\<forall>c. host_cve st = Some c \<longrightarrow> \<not> isFlagged (m_name (pe_manifest p)) (m_version (pe_manifest p)) c) \<and>
      has_plugin name st') \<and>
    (\<not> is_ok (validate env (host_cve st) (pe_dir p) (pe_manifest p)) \<longrightarrow> st' = st \<and> r \<noteq> Inr ())"
proof (cases "validate env (host_cve st) (pe_dir p) (pe_manifest p)")
  case (Inl e)
  then show ?thesis using assms by (auto simp: enable_plugin_def is_ok_iff)
next
  case (Inr u)
  then have v: "verifySignature env (pe_dir p) (pe_manifest p) = Inr ()"
    and f: "\<forall>c. host_cve st = Some c \<longrightarrow> \<not> isFlagged (m_name (pe_manifest p)) (m_version (pe_manifest p)) c"
    by (auto simp: validate_def split: sum.splits if_splits option.splits)
  have k: "\<exists>key sig. signingKey env = Some key \<and> readSignature env (pe_dir p) (m_name (pe_manifest p)) = Inr (Some sig) \<and>
      verifyPluginSignature (he_sign env) (read_dir env (pe_dir p)) sig key = Inr Verified"
    using v assms(1) by (auto simp: verifySignature_def split: sum.splits option.splits verify_result.splits)
  have "has_plugin name st'"
    using assms(2,3) Inr by (auto simp: enable_plugin_def persist_enabled_def has_plugin_def map_of_obj_set split: option.splits prod.splits)
  then show ?thesis using k f Inr by (simp add: is_ok_iff)
qed

lemma enable_verified_witness:
  "snd (enable_plugin \<lparr>he_sign = toy_sign, allowUnsigned = False, signingKey = None, read_file = (\<lambda>_. Absent), read_dir = (\<lambda>_. []), cwd = ''/'', puzzle = []\<rparr>
     ''a'' 0 \<lparr>registry = [(''a'', \<lparr>pe_dir = ''p'', pe_manifest = \<lparr>m_name = ''a'', m_version = ''1'', m_main = ''i'', m_capabilities = [],
       m_endpoints = None, m_panel = None, m_panelActions = None, m_designerPresets = None\<rparr>, pe_builtin = False, pe_enabled = False, pe_presets = []\<rparr>)],
       enabled_store = None, host_cve = None\<rparr>) =
   \<lparr>registry = [(''a'', \<lparr>pe_dir = ''p'', pe_manifest = \<lparr>m_name = ''a'', m_version = ''1'', m_main = ''i'', m_capabilities = [],
       m_endpoints = None, m_panel = None, m_panelActions = None, m_designerPresets = None\<rparr>, pe_builtin = False, pe_enabled = False, pe_presets = []\<rparr>)],
       enabled_store = None, host_cve = None\<rparr>"
proof -
  let ?env = "\<lparr>he_sign = toy_sign, allowUnsigned = False, signingKey = None, read_file = (\<lambda>_. Absent), read_dir = (\<lambda>_. []), cwd = ''/'', puzzle = []\<rparr>"
  let ?p = "\<lparr>pe_dir = ''p'', pe_manifest = \<lparr>m_name = ''a'', m_version = ''1'', m_main = ''i'', m_capabilities = [],
       m_endpoints = None, m_panel = None, m_panelActions = None, m_designerPresets = None\<rparr>, pe_builtin = False, pe_enabled = False, pe_presets = []\<rparr>"
  let ?st = "\<lparr>registry = [(''a'', ?p)], enabled_store = None, host_cve = None\<rparr>"
  obtain r st' where e: "enable_plugin ?env ''a'' 0 ?st = (r, st')" by force
  have "\<not> is_ok (validate ?env (host_cve ?st) (pe_dir ?p) (pe_manifest ?p))"
    by (simp add: validate_def verifySignature_def readSignature_def is_ok_def)
  then have "st' = ?st" using enable_verified [OF _ e, of ?p] by simp
  then show ?thesis by (simp add: e)
qed

end
