(* ===== verification/Plugin_Life.thy ===== *)
theory Plugin_Life
  imports Json Prelude
begin

text \<open>
  The life of one plugin's worker: \<open>invoke\<close>, the shared lazy spawn, the timeout of a call, the idle
  teardown, \<open>enable\<close>, \<open>disable\<close> and \<open>stop\<close> of \<open>PluginHost\<close> with the pending calls of \<open>PluginInstance\<close>
  (\<open>packages/runtime/src/host.ts\<close>).  One step is what the code does between two waits; the order of the
  steps is arbitrary.  A worker that \<open>terminate\<close> was called on is dying: it answers nothing more and
  exits later, and what waits for that is in its list of continuations.
\<close>

section \<open>State\<close>

text \<open>A call waits for the spawn, runs on a worker, or has timed out and waits for its worker to stop.\<close>

datatype call_status = Waiting | Running nat | Stopping nat | Settled "json option result"

datatype continuation = After_timeout nat | After_disable | After_stop

record plugin_worker =
  w_live :: bool
  w_dying :: bool
  w_pending :: "nat list"
  w_after :: "continuation list"

record plugin_life =
  known :: bool
  enabled :: bool
  instance_of :: "nat option"
  spawning :: bool
  waiting :: "nat list"
  inflight :: int
  idle_armed :: bool
  workers :: "nat \<Rightarrow> plugin_worker"
  next_worker :: nat
  calls :: "nat \<Rightarrow> call_status option"

definition no_worker :: plugin_worker where
  "no_worker = \<lparr>w_live = False, w_dying = False, w_pending = [], w_after = []\<rparr>"

text \<open>A plugin as \<open>register\<close> leaves it.\<close>

definition registered :: "bool \<Rightarrow> plugin_life" where
  "registered b = \<lparr>known = True, enabled = b, instance_of = None, spawning = False, waiting = [], inflight = 0, idle_armed = False,
     workers = (\<lambda>_. no_worker), next_worker = 0, calls = (\<lambda>_. None)\<rparr>"

definition set_worker :: "nat \<Rightarrow> plugin_worker \<Rightarrow> plugin_life \<Rightarrow> plugin_life" where
  "set_worker w x st = st\<lparr>workers := (workers st)(w := x)\<rparr>"

definition set_call :: "nat \<Rightarrow> call_status \<Rightarrow> plugin_life \<Rightarrow> plugin_life" where
  "set_call k c st = st\<lparr>calls := (calls st)(k \<mapsto> c)\<rparr>"

section \<open>Steps\<close>

definition not_enabled :: press_error where
  "not_enabled = PressError Not_found ''Plugin not enabled''"

definition worker_exited :: press_error where
  "worker_exited = PressError Internal ''Worker exited''"

definition timed_out :: press_error where
  "timed_out = PressError Internal ''Plugin timed out''"

text \<open>\<open>armIdle\<close>; \<open>idleMs\<close> 0 keeps workers resident.\<close>

definition armIdle :: "int \<Rightarrow> plugin_life \<Rightarrow> plugin_life" where
  "armIdle idleMs st = (if idleMs \<le> 0 then st else st\<lparr>idle_armed := True\<rparr>)"

text \<open>\<open>invoke\<close> on a worker: counted, the idle timer cleared, pending with a timer.\<close>

definition begin_call :: "nat \<Rightarrow> nat \<Rightarrow> plugin_life \<Rightarrow> plugin_life" where
  "begin_call w k st =
     set_call k (Running w) (set_worker w ((workers st w)\<lparr>w_pending := w_pending (workers st w) @ [k]\<rparr>)
       (st\<lparr>inflight := inflight st + 1, idle_armed := False\<rparr>))"

text \<open>The call settles and its \<open>finally\<close> block runs.\<close>

definition finish_call :: "int \<Rightarrow> json option result \<Rightarrow> nat \<Rightarrow> plugin_life \<Rightarrow> plugin_life" where
  "finish_call idleMs r k st =
     (let st = set_call k (Settled r) (st\<lparr>inflight := inflight st - 1\<rparr>)
      in if inflight st = 0 \<and> instance_of st \<noteq> None then armIdle idleMs st else st)"

definition invoke_call :: "nat \<Rightarrow> plugin_life \<Rightarrow> plugin_life" where
  "invoke_call k st =
     (if \<not> known st \<or> \<not> enabled st then set_call k (Settled (Inl not_enabled)) st
      else case instance_of st of
        Some w \<Rightarrow> begin_call w k st
      | None \<Rightarrow> set_call k Waiting (st\<lparr>spawning := True, waiting := waiting st @ [k]\<rparr>))"

text \<open>The spawn that is under way succeeds, or validation or the start of the worker fails.\<close>

definition spawned :: "plugin_life \<Rightarrow> plugin_life" where
  "spawned st =
     (let n = next_worker st;
          st' = set_worker n \<lparr>w_live = True, w_dying = False, w_pending = [], w_after = []\<rparr>
            (st\<lparr>spawning := False, waiting := [], instance_of := Some n, next_worker := n + 1\<rparr>)
      in foldl (\<lambda>st k. begin_call n k st) st' (waiting st))"

definition spawn_failed :: "press_error \<Rightarrow> plugin_life \<Rightarrow> plugin_life" where
  "spawn_failed e st = foldl (\<lambda>st k. set_call k (Settled (Inl e)) st) (st\<lparr>spawning := False, waiting := []\<rparr>) (waiting st)"

text \<open>\<open>terminate\<close> of an instance forgets its pending calls; a worker that is gone already needs no waiting.\<close>

definition terminate :: "nat \<Rightarrow> continuation list \<Rightarrow> plugin_life \<Rightarrow> plugin_life" where
  "terminate w ks st =
     (let x = workers st w in set_worker w (x\<lparr>w_pending := [], w_dying := True, w_after := (if w_live x then w_after x @ ks else [])\<rparr>) st)"

definition continue :: "int \<Rightarrow> continuation \<Rightarrow> plugin_life \<Rightarrow> plugin_life" where
  "continue idleMs c st =
     (case c of
        After_timeout k \<Rightarrow> finish_call idleMs (Inl timed_out) k (st\<lparr>instance_of := None\<rparr>)
      | After_disable \<Rightarrow> st\<lparr>instance_of := None\<rparr>
      | After_stop \<Rightarrow> st\<lparr>known := False\<rparr>)"

definition terminate_then :: "int \<Rightarrow> nat \<Rightarrow> continuation \<Rightarrow> plugin_life \<Rightarrow> plugin_life" where
  "terminate_then idleMs w c st =
     (if w_live (workers st w) then terminate w [c] st else continue idleMs c (terminate w [] st))"

definition answer :: "int \<Rightarrow> nat \<Rightarrow> json option result \<Rightarrow> nat \<Rightarrow> plugin_life \<Rightarrow> plugin_life" where
  "answer idleMs k r w st =
     (let x = workers st w
      in if w_live x \<and> \<not> w_dying x \<and> k \<in> set (w_pending x)
         then finish_call idleMs r k (set_worker w (x\<lparr>w_pending := removeAll k (w_pending x)\<rparr>) st) else st)"

definition time_out :: "int \<Rightarrow> nat \<Rightarrow> nat \<Rightarrow> plugin_life \<Rightarrow> plugin_life" where
  "time_out idleMs k w st =
     (if k \<in> set (w_pending (workers st w)) then terminate_then idleMs w (After_timeout k) (set_call k (Stopping w) st) else st)"

definition worker_exit :: "int \<Rightarrow> nat \<Rightarrow> plugin_life \<Rightarrow> plugin_life" where
  "worker_exit idleMs w st =
     (let x = workers st w
      in if \<not> w_live x then st
         else foldl (\<lambda>st c. continue idleMs c st)
           (foldl (\<lambda>st k. finish_call idleMs (Inl worker_exited) k st)
             (set_worker w (x\<lparr>w_live := False, w_pending := [], w_after := []\<rparr>) st) (w_pending x)) (w_after x))"

definition idle_fires :: "plugin_life \<Rightarrow> plugin_life" where
  "idle_fires st =
     (if \<not> idle_armed st then st
      else let st = st\<lparr>idle_armed := False\<rparr>
        in if inflight st > 0 then st
           else case instance_of st of None \<Rightarrow> st | Some w \<Rightarrow> terminate w [] (st\<lparr>instance_of := None\<rparr>))"

definition enable_life :: "bool \<Rightarrow> plugin_life \<Rightarrow> plugin_life" where
  "enable_life valid st = (if known st \<and> valid then st\<lparr>enabled := True\<rparr> else st)"

definition disable_life :: "int \<Rightarrow> plugin_life \<Rightarrow> plugin_life" where
  "disable_life idleMs st =
     (if \<not> known st then st
      else let st = st\<lparr>enabled := False, idle_armed := False\<rparr>
        in case instance_of st of None \<Rightarrow> st | Some w \<Rightarrow> terminate_then idleMs w After_disable st)"

definition stop_life :: "int \<Rightarrow> plugin_life \<Rightarrow> plugin_life" where
  "stop_life idleMs st =
     (if \<not> known st then st
      else let st = st\<lparr>idle_armed := False\<rparr>
        in case instance_of st of None \<Rightarrow> st\<lparr>known := False\<rparr> | Some w \<Rightarrow> terminate_then idleMs w After_stop st)"

datatype life_event = Call nat | Spawned | Spawn_failed press_error | Answer nat "json option result" | Timeout nat | Exit nat
  | Idle | Enable bool | Disable | Stop

definition running_on :: "nat \<Rightarrow> plugin_life \<Rightarrow> nat option" where
  "running_on k st = (case calls st k of Some (Running w) \<Rightarrow> Some w | _ \<Rightarrow> None)"

fun life_step :: "int \<Rightarrow> life_event \<Rightarrow> plugin_life \<Rightarrow> plugin_life" where
  "life_step idleMs (Call k) st = (if calls st k = None then invoke_call k st else st)"
| "life_step idleMs Spawned st = (if spawning st then spawned st else st)"
| "life_step idleMs (Spawn_failed e) st = (if spawning st then spawn_failed e st else st)"
| "life_step idleMs (Answer k r) st = (case running_on k st of None \<Rightarrow> st | Some w \<Rightarrow> answer idleMs k r w st)"
| "life_step idleMs (Timeout k) st = (case running_on k st of None \<Rightarrow> st | Some w \<Rightarrow> time_out idleMs k w st)"
| "life_step idleMs (Exit w) st = worker_exit idleMs w st"
| "life_step idleMs Idle st = idle_fires st"
| "life_step idleMs (Enable valid) st = enable_life valid st"
| "life_step idleMs Disable st = disable_life idleMs st"
| "life_step idleMs Stop st = stop_life idleMs st"

definition life_run :: "int \<Rightarrow> life_event list \<Rightarrow> plugin_life \<Rightarrow> plugin_life" where
  "life_run idleMs es st = foldl (\<lambda>st e. life_step idleMs e st) st es"

section \<open>What always holds\<close>

definition active :: "plugin_life \<Rightarrow> nat set" where
  "active st = {k. \<exists>w. calls st k = Some (Running w) \<or> calls st k = Some (Stopping w)}"

fun timeouts :: "continuation list \<Rightarrow> nat list" where
  "timeouts [] = []"
| "timeouts (After_timeout k # cs) = k # timeouts cs"
| "timeouts (c # cs) = timeouts cs"

lemma timeouts_append [simp]: "timeouts (cs @ ds) = timeouts cs @ timeouts ds"
  by (induction cs rule: timeouts.induct) auto

definition worker_ok :: "plugin_life \<Rightarrow> nat \<Rightarrow> bool" where
  "worker_ok st w \<longleftrightarrow> (let x = workers st w in
     (w_live x \<longrightarrow> w < next_worker st) \<and>
     (w_live x \<and> \<not> w_dying x \<longrightarrow> instance_of st = Some w) \<and>
     (w_pending x \<noteq> [] \<longrightarrow> instance_of st = Some w) \<and>
     (w_after x \<noteq> [] \<longrightarrow> w_live x \<and> w_dying x \<and> instance_of st = Some w \<and> \<not> idle_armed st) \<and>
     distinct (w_pending x) \<and> (\<forall>k \<in> set (w_pending x). calls st k = Some (Running w)) \<and>
     distinct (timeouts (w_after x)) \<and> (\<forall>k \<in> set (timeouts (w_after x)). calls st k = Some (Stopping w)))"

definition calls_ok :: "plugin_life \<Rightarrow> bool" where
  "calls_ok st \<longleftrightarrow> (spawning st \<longrightarrow> instance_of st = None) \<and> (\<not> spawning st \<longrightarrow> waiting st = []) \<and>
     (\<forall>k. calls st k = Some Waiting \<longleftrightarrow> k \<in> set (waiting st)) \<and> distinct (waiting st) \<and>
     finite (active st) \<and> inflight st = int (card (active st)) \<and> (idle_armed st \<longrightarrow> active st = {})"

definition life_ok :: "plugin_life \<Rightarrow> bool" where
  "life_ok st \<longleftrightarrow> (\<forall>w. worker_ok st w) \<and> calls_ok st"

definition quiet :: "plugin_life \<Rightarrow> bool" where
  "quiet st \<longleftrightarrow> (\<forall>w. let x = workers st w in w_pending x = [] \<and> w_after x = [] \<and> (w_live x \<longrightarrow> w_dying x \<and> w < next_worker st))"

lemma quiet_workers: "quiet st \<Longrightarrow> worker_ok st w"
  by (auto simp: quiet_def worker_ok_def Let_def)

lemma active_set_call [simp]:
  "active (set_call k (Running w) st) = insert k (active st)"
  "active (set_call k (Stopping w) st) = insert k (active st)"
  "active (set_call k (Settled r) st) = active st - {k}"
  "active (set_call k Waiting st) = active st - {k}"
  by (auto simp: active_def set_call_def)

lemma set_simps [simp]:
  "instance_of (set_call k c st) = instance_of st" "spawning (set_call k c st) = spawning st" "waiting (set_call k c st) = waiting st"
  "inflight (set_call k c st) = inflight st" "idle_armed (set_call k c st) = idle_armed st" "workers (set_call k c st) = workers st"
  "next_worker (set_call k c st) = next_worker st" "calls (set_call k c st) = (calls st)(k \<mapsto> c)" "known (set_call k c st) = known st"
  "enabled (set_call k c st) = enabled st"
  "instance_of (set_worker w x st) = instance_of st" "spawning (set_worker w x st) = spawning st" "waiting (set_worker w x st) = waiting st"
  "inflight (set_worker w x st) = inflight st" "idle_armed (set_worker w x st) = idle_armed st" "workers (set_worker w x st) = (workers st)(w := x)"
  "next_worker (set_worker w x st) = next_worker st" "calls (set_worker w x st) = calls st" "known (set_worker w x st) = known st"
  "enabled (set_worker w x st) = enabled st"
  by (simp_all add: set_call_def set_worker_def)

lemma active_upd [simp]:
  "active (set_worker w x st) = active st" "active (st\<lparr>inflight := i\<rparr>) = active st" "active (st\<lparr>idle_armed := b\<rparr>) = active st"
  "active (st\<lparr>instance_of := i'\<rparr>) = active st" "active (st\<lparr>known := b\<rparr>) = active st" "active (st\<lparr>enabled := b\<rparr>) = active st"
  "active (st\<lparr>spawning := b\<rparr>) = active st" "active (st\<lparr>waiting := ks\<rparr>) = active st" "active (st\<lparr>next_worker := n\<rparr>) = active st"
  by (simp_all add: active_def set_worker_def)

lemma finish_active: "active (finish_call idleMs r k st) = active st - {k}"
  by (simp add: finish_call_def Let_def armIdle_def)

lemma finish_frame [simp]:
  "workers (finish_call idleMs r k st) = workers st" "instance_of (finish_call idleMs r k st) = instance_of st"
  "spawning (finish_call idleMs r k st) = spawning st" "waiting (finish_call idleMs r k st) = waiting st"
  "next_worker (finish_call idleMs r k st) = next_worker st" "calls (finish_call idleMs r k st) = (calls st)(k \<mapsto> Settled r)"
  "inflight (finish_call idleMs r k st) = inflight st - 1" "known (finish_call idleMs r k st) = known st"
  "enabled (finish_call idleMs r k st) = enabled st"
  by (simp_all add: finish_call_def Let_def armIdle_def)

lemma finish_armed: "idle_armed (finish_call idleMs r k st) \<Longrightarrow> idle_armed st \<or> inflight st = 1"
  by (auto simp: finish_call_def Let_def armIdle_def split: if_splits)

lemma active_not_waiting: "k \<in> active st \<Longrightarrow> calls st k \<noteq> Some Waiting"
  by (auto simp: active_def)

lemma finish_calls_ok:
  assumes "calls_ok st" "k \<in> active st"
  shows "calls_ok (finish_call idleMs r k st)"
proof -
  have c: "finite (active st)" "inflight st = int (card (active st))" "idle_armed st \<longrightarrow> active st = {}" using assms(1) by (auto simp: calls_ok_def)
  have n: "int (card (active st)) - 1 = int (card (active st - {k}))"
    using card_Diff_singleton [OF assms(2)] card_gt_0_iff [of "active st"] c(1) assms(2) by force
  have "active st - {k} = {}" if "idle_armed (finish_call idleMs r k st)"
    using finish_armed [OF that] c n by force
  then show ?thesis
    using assms(1) c n active_not_waiting [OF assms(2)] by (auto simp: calls_ok_def finish_active)
qed

lemma finish_quiet: "quiet st \<Longrightarrow> quiet (finish_call idleMs r k st)"
  by (simp add: quiet_def Let_def)

lemma fold_finish:
  assumes "quiet st" "calls_ok st" "distinct ks" "set ks \<subseteq> active st"
  shows "let st' = foldl (\<lambda>st k. finish_call idleMs r k st) st ks in quiet st' \<and> calls_ok st' \<and> active st' = active st - set ks"
  using assms
proof (induction ks arbitrary: st)
  case (Cons k ks)
  let ?st = "finish_call idleMs r k st"
  have "quiet ?st" "calls_ok ?st" "set ks \<subseteq> active ?st"
    using Cons.prems finish_quiet finish_calls_ok by (auto simp: finish_active)
  from Cons.IH [OF this(1,2) _ this(3)] Cons.prems(3) show ?case
    by (auto simp: Let_def finish_active)
qed simp

lemma continue_ok:
  assumes "quiet st" "calls_ok st" "set (timeouts [c]) \<subseteq> active st"
  shows "let st' = continue idleMs c st in quiet st' \<and> calls_ok st' \<and> active st' = active st - set (timeouts [c])"
proof (cases c)
  case (After_timeout k)
  let ?st = "st\<lparr>instance_of := None\<rparr>"
  have "calls_ok ?st" "quiet ?st" "k \<in> active ?st" using assms After_timeout by (auto simp: calls_ok_def quiet_def)
  then show ?thesis
    using finish_calls_ok [of ?st k] finish_quiet [of ?st] by (simp add: continue_def After_timeout Let_def finish_active)
qed (use assms in \<open>auto simp: continue_def calls_ok_def quiet_def Let_def\<close>)

lemma fold_continue:
  assumes "quiet st" "calls_ok st" "distinct (timeouts cs)" "set (timeouts cs) \<subseteq> active st"
  shows "let st' = foldl (\<lambda>st c. continue idleMs c st) st cs in quiet st' \<and> calls_ok st'"
  using assms
proof (induction cs arbitrary: st)
  case (Cons c cs)
  let ?st = "continue idleMs c st"
  have d: "timeouts (c # cs) = timeouts [c] @ timeouts cs" using timeouts_append [of "[c]" cs] by simp
  have "set (timeouts [c]) \<subseteq> active st" using Cons.prems(4) unfolding d by simp
  from continue_ok [OF Cons.prems(1,2) this, of idleMs]
  have "quiet ?st" "calls_ok ?st" "active ?st = active st - set (timeouts [c])" by (simp_all add: Let_def)
  moreover have "distinct (timeouts cs)" "set (timeouts cs) \<subseteq> active st - set (timeouts [c])"
    using Cons.prems(3,4) unfolding d by auto
  ultimately show ?case using Cons.IH [of ?st] by simp
qed simp

lemma quiet_ok: "quiet st \<Longrightarrow> calls_ok st \<Longrightarrow> life_ok st"
  by (simp add: life_ok_def quiet_workers)

section \<open>Every step keeps it\<close>

lemma others_idle:
  assumes "life_ok st" "instance_of st = Some w" "w' \<noteq> w"
  shows "w_pending (workers st w') = [] \<and> w_after (workers st w') = [] \<and> (w_live (workers st w') \<longrightarrow> w_dying (workers st w') \<and> w' < next_worker st)"
  using assms by (auto simp: life_ok_def worker_ok_def Let_def)

lemma idle_worker_ok:
  "w_pending (workers st w) = [] \<Longrightarrow> w_after (workers st w) = [] \<Longrightarrow>
    (w_live (workers st w) \<longrightarrow> w_dying (workers st w) \<and> w < next_worker st) \<Longrightarrow> worker_ok st w"
  by (auto simp: worker_ok_def Let_def)

text \<open>The worker of the record, spelt out.\<close>

lemma current_worker_ok:
  "instance_of st = Some w \<Longrightarrow> worker_ok st w \<longleftrightarrow>
    (w_live (workers st w) \<longrightarrow> w < next_worker st) \<and>
    (w_after (workers st w) = [] \<or> w_live (workers st w) \<and> w_dying (workers st w) \<and> \<not> idle_armed st) \<and>
    distinct (w_pending (workers st w)) \<and> (\<forall>k \<in> set (w_pending (workers st w)). calls st k = Some (Running w)) \<and>
    distinct (timeouts (w_after (workers st w))) \<and> (\<forall>k \<in> set (timeouts (w_after (workers st w))). calls st k = Some (Stopping w))"
  by (auto simp: worker_ok_def Let_def)

lemma no_instance_quiet: "life_ok st \<Longrightarrow> instance_of st = None \<Longrightarrow> quiet st"
  by (auto simp: life_ok_def worker_ok_def quiet_def Let_def)

lemma quiet_replace:
  assumes "life_ok st" "instance_of st = Some w" "w_pending x = []" "w_after x = []" "w_live x \<longrightarrow> w_dying x \<and> w < next_worker st"
  shows "quiet (set_worker w x st)"
  using others_idle [OF assms(1,2)] assms(3-5) by (auto simp: quiet_def Let_def)

lemma calls_ok_worker [simp]: "calls_ok (set_worker w x st) = calls_ok st"
  by (simp add: calls_ok_def)

lemma worker_of: "life_ok st \<Longrightarrow> worker_ok st w" and calls_of: "life_ok st \<Longrightarrow> calls_ok st"
  by (simp_all add: life_ok_def)

lemma pending_active: "life_ok st \<Longrightarrow> k \<in> set (w_pending (workers st w)) \<Longrightarrow> k \<in> active st \<and> instance_of st = Some w"
  using worker_of [of st w] by (auto simp: worker_ok_def Let_def active_def)

lemma worker_exit_ok:
  assumes "life_ok st" shows "life_ok (worker_exit idleMs w st)"
proof (cases "w_live (workers st w)")
  case True
  let ?x = "workers st w" and ?s = "set_worker w ((workers st w)\<lparr>w_live := False, w_pending := [], w_after := []\<rparr>) st"
  note x = worker_of [OF assms, of w, unfolded worker_ok_def Let_def]
  show ?thesis
  proof (cases "instance_of st = Some w")
    case False
    then have "w_pending ?x = []" "w_after ?x = []" using x by auto
    moreover have "worker_ok ?s w'" for w'
      using worker_of [OF assms, of w'] by (auto simp: worker_ok_def Let_def)
    ultimately show ?thesis using True calls_of [OF assms] by (simp add: worker_exit_def Let_def life_ok_def)
  next
    case i: True
    have q: "quiet ?s" by (rule quiet_replace [OF assms i]) simp_all
    have a: "set (w_pending ?x) \<subseteq> active ?s" using pending_active [OF assms] by auto
    have t: "set (timeouts (w_after ?x)) \<subseteq> active ?s - set (w_pending ?x)"
      using x by (force simp: active_def)
    let ?s1 = "foldl (\<lambda>st k. finish_call idleMs (Inl worker_exited) k st) ?s (w_pending ?x)"
    have s1: "quiet ?s1" "calls_ok ?s1" "active ?s1 = active ?s - set (w_pending ?x)"
      using fold_finish [OF q _ _ a, of idleMs "Inl worker_exited"] x calls_of [OF assms] by (simp_all add: Let_def)
    have "life_ok (foldl (\<lambda>st c. continue idleMs c st) ?s1 (w_after ?x))"
      using fold_continue [OF s1(1,2), of "w_after ?x" idleMs] x t s1(3) quiet_ok by (auto simp: Let_def)
    then show ?thesis using True by (simp add: worker_exit_def Let_def)
  qed
qed (use assms in \<open>simp add: worker_exit_def Let_def\<close>)

lemma terminate_then_ok:
  assumes "life_ok st" "instance_of st = Some w" "\<not> idle_armed st" "set (timeouts [c]) \<subseteq> {k. calls st k = Some (Stopping w)}"
    and "set (timeouts [c]) \<inter> set (timeouts (w_after (workers st w))) = {}"
  shows "life_ok (terminate_then idleMs w c st)"
proof (cases "w_live (workers st w)")
  case True
  let ?x = "workers st w"
  let ?s = "terminate w [c] st"
  note x = worker_of [OF assms(1), of w, unfolded worker_ok_def Let_def]
  have d: "distinct (timeouts [c])" by (cases c) auto
  have "worker_ok ?s w'" for w'
  proof (cases "w' = w")
    case w: True
    have "distinct (timeouts (w_after ?x @ [c]))" using d x assms(5) by (simp only: timeouts_append distinct_append) blast
    moreover have "\<forall>k \<in> set (timeouts (w_after ?x @ [c])). calls st k = Some (Stopping w)"
      using x assms(4) by (simp only: timeouts_append set_append) blast
    ultimately show ?thesis using True x assms(2,3) w by (simp add: worker_ok_def Let_def terminate_def)
  next
    case False
    then show ?thesis using worker_of [OF assms(1), of w'] by (simp add: worker_ok_def Let_def terminate_def)
  qed
  then show ?thesis using True calls_of [OF assms(1)] by (simp add: terminate_then_def life_ok_def terminate_def Let_def)
next
  case False
  let ?s = "terminate w [] st"
  have q: "quiet ?s" unfolding terminate_def Let_def by (rule quiet_replace [OF assms(1,2)]) (use False in simp_all)
  have c: "calls_ok ?s" using calls_of [OF assms(1)] by (simp add: terminate_def Let_def)
  have "set (timeouts [c]) \<subseteq> active ?s" using assms(4) by (auto simp: active_def terminate_def Let_def)
  from continue_ok [OF q c this, of idleMs] show ?thesis using False quiet_ok by (simp add: terminate_then_def Let_def)
qed

lemma time_out_ok:
  assumes "life_ok st" shows "life_ok (time_out idleMs k w st)"
proof (cases "k \<in> set (w_pending (workers st w))")
  case True
  let ?x = "workers st w" and ?s = "set_call k (Stopping w) st"
  let ?t = "set_worker w (?x\<lparr>w_pending := removeAll k (w_pending ?x)\<rparr>) ?s"
  note x = worker_of [OF assms, of w, unfolded worker_ok_def Let_def]
  have k: "k \<in> active st" "instance_of st = Some w" "calls st k = Some (Running w)" using pending_active [OF assms True] x True by auto
  then have armed: "\<not> idle_armed st" using calls_of [OF assms] by (auto simp: calls_ok_def)
  have eq: "terminate_then idleMs w (After_timeout k) ?s = terminate_then idleMs w (After_timeout k) ?t"
    by (simp add: terminate_then_def terminate_def Let_def set_worker_def set_call_def)
  have other: "worker_ok st w' \<and> k \<notin> set (timeouts (w_after (workers st w'))) \<and> (w' \<noteq> w \<longrightarrow> w_pending (workers st w') = [])" for w'
    using worker_of [OF assms, of w'] k by (auto simp: worker_ok_def Let_def)
  have "worker_ok ?t w'" for w'
  proof (cases "w' = w")
    case True
    have i: "instance_of ?t = Some w" using k(2) by simp
    show ?thesis using other [of w] unfolding True current_worker_ok [OF i] current_worker_ok [OF k(2)]
      by (auto simp: distinct_removeAll)
  next
    case False
    then have "k \<notin> set (w_pending (workers st w'))" using other [of w'] by simp
    then show ?thesis using others_idle [OF assms k(2) False] False by (intro idle_worker_ok) simp_all
  qed
  moreover have "calls_ok ?t" using calls_of [OF assms] k by (auto simp: calls_ok_def insert_absorb)
  ultimately have t: "life_ok ?t" by (simp add: life_ok_def)
  have "life_ok (terminate_then idleMs w (After_timeout k) ?t)"
    by (rule terminate_then_ok [OF t]) (use k armed other [of w] in auto)
  then show ?thesis using True eq by (simp add: time_out_def)
qed (use assms in \<open>simp add: time_out_def\<close>)

lemma answer_ok:
  assumes "life_ok st" shows "life_ok (answer idleMs k r w st)"
proof (cases "w_live (workers st w) \<and> \<not> w_dying (workers st w) \<and> k \<in> set (w_pending (workers st w))")
  case True
  let ?x = "workers st w"
  let ?t = "set_worker w (?x\<lparr>w_pending := removeAll k (w_pending ?x)\<rparr>) st"
  note x = worker_of [OF assms, of w, unfolded worker_ok_def Let_def]
  have p: "k \<in> set (w_pending ?x)" using True by blast
  have k: "k \<in> active st" "instance_of st = Some w" using pending_active [OF assms p] by simp_all
  have none: "w_after (workers st w') = []" for w'
    using others_idle [OF assms k(2), of w'] x True by (cases "w' = w") blast+
  have "worker_ok (finish_call idleMs r k ?t) w'" for w'
  proof (cases "w' = w")
    case True
    have i: "instance_of (finish_call idleMs r k ?t) = Some w" using k(2) by simp
    show ?thesis using worker_of [OF assms, of w] none [of w] unfolding True current_worker_ok [OF i] current_worker_ok [OF k(2)]
      by (auto simp: distinct_removeAll)
  next
    case False
    then show ?thesis using others_idle [OF assms k(2) False] by (intro idle_worker_ok) simp_all
  qed
  moreover have "calls_ok (finish_call idleMs r k ?t)" using finish_calls_ok [of ?t k] calls_of [OF assms] k by simp
  ultimately show ?thesis using True by (simp add: answer_def Let_def life_ok_def)
qed (use assms in \<open>auto simp: answer_def Let_def\<close>)

lemma begin_call_ok:
  assumes "life_ok st" "instance_of st = Some w" "k \<notin> active st" "k \<notin> set (waiting st)" "k \<notin> set (w_pending (workers st w))"
  shows "life_ok (begin_call w k st)"
proof -
  have free: "calls st k \<noteq> Some (Running w')" "calls st k \<noteq> Some (Stopping w')" for w' using assms(3) by (auto simp: active_def)
  have "worker_ok (begin_call w k st) w'" for w'
  proof (cases "w' = w")
    case True
    have i: "instance_of (begin_call w k st) = Some w" using assms(2) by (simp add: begin_call_def)
    have "k \<notin> set (timeouts (w_after (workers st w)))"
      using worker_of [OF assms(1), of w, unfolded current_worker_ok [OF assms(2)]] free by blast
    then show ?thesis
      using worker_of [OF assms(1), of w] assms(5) unfolding True current_worker_ok [OF i] current_worker_ok [OF assms(2)]
      by (auto simp: begin_call_def)
  next
    case False
    then show ?thesis using others_idle [OF assms(1,2) False] by (intro idle_worker_ok) (simp_all add: begin_call_def)
  qed
  moreover have "calls_ok (begin_call w k st)"
    using calls_of [OF assms(1)] assms(3,4) by (auto simp: begin_call_def calls_ok_def)
  ultimately show ?thesis by (simp add: life_ok_def)
qed

lemma same_workers:
  "workers st' = workers st \<Longrightarrow> next_worker st' = next_worker st \<Longrightarrow> instance_of st' = instance_of st \<Longrightarrow>
   calls st' = calls st \<Longrightarrow> (idle_armed st' \<longrightarrow> idle_armed st) \<Longrightarrow> worker_ok st w \<Longrightarrow> worker_ok st' w"
  by (auto simp: worker_ok_def Let_def)

lemma settle_ok:
  assumes "life_ok st" "k \<notin> active st" "k \<notin> set (waiting st)"
  shows "life_ok (set_call k (Settled r) st)"
proof -
  have "calls st k \<noteq> Some (Running w)" "calls st k \<noteq> Some (Stopping w)" for w using assms(2) by (auto simp: active_def)
  then have "worker_ok (set_call k (Settled r) st) w" for w
    using worker_of [OF assms(1), of w] by (auto simp: worker_ok_def Let_def)
  moreover have "calls_ok (set_call k (Settled r) st)" using calls_of [OF assms(1)] assms(2,3) by (auto simp: calls_ok_def)
  ultimately show ?thesis by (simp add: life_ok_def)
qed

lemma fresh_call:
  assumes "life_ok st" "calls st k = None"
  shows "k \<notin> active st \<and> k \<notin> set (waiting st) \<and> (\<forall>w. k \<notin> set (w_pending (workers st w)))"
proof -
  have a: "k \<notin> active st" using assms(2) by (simp add: active_def)
  moreover have "calls st k = Some Waiting \<longleftrightarrow> k \<in> set (waiting st)" using calls_of [OF assms(1)] unfolding calls_ok_def by blast
  ultimately show ?thesis using pending_active [OF assms(1)] assms(2) by auto
qed

lemma invoke_call_ok:
  assumes "life_ok st" "calls st k = None" shows "life_ok (invoke_call k st)"
proof (cases "known st \<and> enabled st")
  case True
  note f = fresh_call [OF assms]
  show ?thesis
  proof (cases "instance_of st")
    case None
    let ?st = "set_call k Waiting (st\<lparr>spawning := True, waiting := waiting st @ [k]\<rparr>)"
    have "quiet ?st" using no_instance_quiet [OF assms(1) None] by (simp add: quiet_def)
    moreover have "calls_ok ?st" using calls_of [OF assms(1)] f None by (auto simp: calls_ok_def)
    ultimately show ?thesis using True None by (simp add: invoke_call_def quiet_ok)
  next
    case (Some w)
    then show ?thesis using begin_call_ok [OF assms(1) Some] f True by (auto simp: invoke_call_def)
  qed
qed (use settle_ok [OF assms(1)] fresh_call [OF assms] in \<open>auto simp: invoke_call_def\<close>)

lemma spawned_ok:
  assumes "life_ok st" "spawning st" shows "life_ok (spawned st)"
proof -
  let ?n = "next_worker st"
  let ?x = "\<lparr>w_live = True, w_dying = False, w_pending = [], w_after = []\<rparr>"
  let ?s = "set_worker ?n ?x (st\<lparr>spawning := False, waiting := [], instance_of := Some ?n, next_worker := ?n + 1\<rparr>)"
  note c = calls_of [OF assms(1), unfolded calls_ok_def]
  have "instance_of st = None" using c assms(2) by simp
  then have q: "quiet st" by (rule no_instance_quiet [OF assms(1)])
  have step: "life_ok (foldl (\<lambda>st k. begin_call ?n k st) s ks)"
    if "\<forall>w. worker_ok s w" "instance_of s = Some ?n" "\<not> spawning s" "waiting s = []"
      "\<forall>k. calls s k = Some Waiting \<longleftrightarrow> k \<in> set ks" "distinct ks" "finite (active s)" "inflight s = int (card (active s))"
      "idle_armed s \<longrightarrow> active s = {}" "\<forall>k \<in> set ks. k \<notin> set (w_pending (workers s ?n))" for s ks
    using that
  proof (induction ks arbitrary: s)
    case Nil
    then show ?case by (simp add: life_ok_def calls_ok_def)
  next
    case (Cons k ks)
    have k: "calls s k = Some Waiting" using Cons.prems(5) by simp
    have na: "k \<notin> active s" using k by (simp add: active_def)
    let ?b = "begin_call ?n k s"
    have w: "worker_ok ?b w" for w
    proof (cases "w = ?n")
      case True
      have i: "instance_of ?b = Some ?n" using Cons.prems(2) by (simp add: begin_call_def)
      have "worker_ok s ?n" using Cons.prems(1) by blast
      then show ?thesis using Cons.prems(10) k unfolding True current_worker_ok [OF i] current_worker_ok [OF Cons.prems(2)]
        by (auto simp: begin_call_def)
    next
      case False
      have "worker_ok s w" using Cons.prems(1) by blast
      then show ?thesis using False Cons.prems(2) by (auto simp: worker_ok_def Let_def begin_call_def)
    qed
    have "life_ok (foldl (\<lambda>st k. begin_call ?n k st) ?b ks)"
      by (rule Cons.IH) (use Cons.prems w na in \<open>auto simp: begin_call_def\<close>)
    then show ?case by simp
  qed
  have "worker_ok ?s w" for w
    using q by (cases "w = ?n") (auto simp: quiet_def worker_ok_def Let_def less_Suc_eq)
  moreover have "active st = {}" if "idle_armed st" using that c by blast
  ultimately have "life_ok (foldl (\<lambda>st k. begin_call ?n k st) ?s (waiting st))"
    by (intro step) (use c in \<open>auto\<close>)
  then show ?thesis by (simp add: spawned_def Let_def)
qed

lemma fold_settle:
  assumes "distinct ks" "\<forall>k \<in> set ks. calls s k = Some Waiting"
  shows "let s' = foldl (\<lambda>st k. set_call k (Settled r) st) s ks in
    active s' = active s \<and> calls s' = (\<lambda>k. if k \<in> set ks then Some (Settled r) else calls s k) \<and> workers s' = workers s \<and>
    next_worker s' = next_worker s \<and> instance_of s' = instance_of s \<and> spawning s' = spawning s \<and> waiting s' = waiting s \<and>
    inflight s' = inflight s \<and> idle_armed s' = idle_armed s"
  using assms
proof (induction ks arbitrary: s)
  case (Cons k ks)
  have "k \<notin> active s" using Cons.prems(2) by (simp add: active_def)
  moreover have "distinct ks" "\<forall>j \<in> set ks. calls (set_call k (Settled r) s) j = Some Waiting" using Cons.prems by auto
  note Cons.IH [OF this, unfolded Let_def]
  ultimately show ?case by (simp add: Let_def fun_eq_iff)
qed simp

lemma spawn_failed_ok:
  assumes "life_ok st" "spawning st" shows "life_ok (spawn_failed e st)"
proof -
  note c = calls_of [OF assms(1), unfolded calls_ok_def]
  have "instance_of st = None" using c assms(2) by simp
  then have q: "quiet st" by (rule no_instance_quiet [OF assms(1)])
  let ?s = "st\<lparr>spawning := False, waiting := []\<rparr>"
  have f: "let s' = foldl (\<lambda>st k. set_call k (Settled (Inl e)) st) ?s (waiting st) in
      active s' = active st \<and> calls s' = (\<lambda>k. if k \<in> set (waiting st) then Some (Settled (Inl e)) else calls st k) \<and> workers s' = workers st \<and>
      next_worker s' = next_worker st \<and> instance_of s' = instance_of st \<and> \<not> spawning s' \<and> waiting s' = [] \<and>
      inflight s' = inflight st \<and> idle_armed s' = idle_armed st"
    using fold_settle [of "waiting st" ?s "Inl e"] c by (simp add: Let_def cong: if_cong)
  then have "quiet (spawn_failed e st)" using q by (simp add: quiet_def spawn_failed_def Let_def)
  moreover have "calls_ok (spawn_failed e st)" using f c by (simp add: calls_ok_def spawn_failed_def Let_def)
  ultimately show ?thesis by (rule quiet_ok)
qed

lemma idle_fires_ok:
  assumes "life_ok st" shows "life_ok (idle_fires st)"
proof (cases "idle_armed st")
  case True
  note c = calls_of [OF assms, unfolded calls_ok_def]
  have zero: "inflight st = 0" using c True by simp
  let ?s = "st\<lparr>idle_armed := False\<rparr>"
  show ?thesis
  proof (cases "instance_of st")
    case None
    then have "quiet ?s" using no_instance_quiet [OF assms None] by (simp add: quiet_def)
    then show ?thesis using quiet_ok [of ?s] c True None zero by (simp add: idle_fires_def calls_ok_def)
  next
    case (Some w)
    have "w_after (workers st w) = []" using worker_of [OF assms, of w] True unfolding current_worker_ok [OF Some] by blast
    moreover have "w_live (workers st w) \<longrightarrow> w < next_worker st" using worker_of [OF assms, of w] unfolding current_worker_ok [OF Some] by blast
    ultimately have "quiet (terminate w [] (?s\<lparr>instance_of := None\<rparr>))"
      using others_idle [OF assms Some] by (auto simp: terminate_def quiet_def Let_def)
    then show ?thesis using quiet_ok [of "terminate w [] (?s\<lparr>instance_of := None\<rparr>)"] c True Some zero
      by (simp add: idle_fires_def calls_ok_def terminate_def Let_def)
  qed
qed (use assms in \<open>simp add: idle_fires_def\<close>)

lemma flags_ok:
  assumes "life_ok st" "workers st' = workers st" "next_worker st' = next_worker st" "instance_of st' = instance_of st"
    "calls st' = calls st" "\<not> idle_armed st'" "spawning st' = spawning st" "waiting st' = waiting st" "inflight st' = inflight st"
  shows "life_ok st'"
proof -
  have "worker_ok st' w" for w by (rule same_workers [OF assms(2-5) _ worker_of [OF assms(1)]]) (use assms(6) in simp)
  moreover have "active st' = active st" using assms(5) by (simp add: active_def)
  ultimately show ?thesis using calls_of [OF assms(1)] assms by (simp add: life_ok_def calls_ok_def)
qed

lemma disable_stop_ok: assumes "life_ok st" shows "life_ok (disable_life idleMs st)" "life_ok (stop_life idleMs st)"
proof -
  let ?d = "st\<lparr>enabled := False, idle_armed := False\<rparr>" and ?s = "st\<lparr>idle_armed := False\<rparr>"
  have d: "life_ok ?d" by (rule flags_ok [OF assms]) simp_all
  have s: "life_ok ?s" by (rule flags_ok [OF assms]) simp_all
  have k: "life_ok (?s\<lparr>known := False\<rparr>)" by (rule flags_ok [OF s]) simp_all
  have "life_ok (terminate_then idleMs w After_disable ?d)" if "instance_of st = Some w" for w
    by (rule terminate_then_ok [OF d]) (use that in simp_all)
  then show "life_ok (disable_life idleMs st)" using assms d by (auto simp: disable_life_def Let_def split: option.split)
  have "life_ok (terminate_then idleMs w After_stop ?s)" if "instance_of st = Some w" for w
    by (rule terminate_then_ok [OF s]) (use that in simp_all)
  then show "life_ok (stop_life idleMs st)" using assms k by (auto simp: stop_life_def Let_def split: option.split)
qed

lemma enable_ok: assumes "life_ok st" shows "life_ok (enable_life v st)"
proof -
  have "worker_ok (st\<lparr>enabled := True\<rparr>) w" for w by (rule same_workers [OF _ _ _ _ _ worker_of [OF assms]]) simp_all
  then have "life_ok (st\<lparr>enabled := True\<rparr>)" using calls_of [OF assms] by (simp add: life_ok_def calls_ok_def)
  then show ?thesis using assms by (simp add: enable_life_def)
qed

lemma life_step_ok: "life_ok st \<Longrightarrow> life_ok (life_step idleMs e st)"
  by (cases e) (auto simp: invoke_call_ok spawned_ok spawn_failed_ok answer_ok time_out_ok worker_exit_ok idle_fires_ok
      disable_stop_ok enable_ok split: option.split)

lemma registered_ok: "life_ok (registered b)"
  by (rule quiet_ok) (simp_all add: registered_def quiet_def no_worker_def calls_ok_def active_def)

lemma life_run_append: "life_run idleMs (es @ fs) st = life_run idleMs fs (life_run idleMs es st)"
  by (simp add: life_run_def)

lemma life_run_ok: "life_ok st \<Longrightarrow> life_ok (life_run idleMs es st)"
  unfolding life_run_def by (induction es arbitrary: st) (simp_all add: life_step_ok)

section \<open>Stranded calls\<close>

text \<open>A call that runs on a worker without being pending there: no event can settle it.\<close>

definition stranded :: "nat \<Rightarrow> nat \<Rightarrow> plugin_life \<Rightarrow> bool" where
  "stranded k w st \<longleftrightarrow> calls st k = Some (Running w) \<and> k \<notin> set (w_pending (workers st w))"

lemma begin_other: "k' \<noteq> k \<Longrightarrow> stranded k w st \<Longrightarrow> stranded k w (begin_call v k' st)"
  by (auto simp: stranded_def begin_call_def)

lemma finish_other: "k' \<noteq> k \<Longrightarrow> stranded k w st \<Longrightarrow> stranded k w (finish_call idleMs r k' st)"
  by (simp add: stranded_def)

lemma terminate_stranded: "stranded k w st \<Longrightarrow> stranded k w (terminate v cs st)"
  by (auto simp: stranded_def terminate_def Let_def)

lemma continue_stranded: "k \<notin> set (timeouts [c]) \<Longrightarrow> stranded k w st \<Longrightarrow> stranded k w (continue idleMs c st)"
  by (cases c) (auto simp: stranded_def continue_def)

lemma fold_stranded:
  assumes "\<And>s x. x \<in> set xs \<Longrightarrow> stranded k w s \<Longrightarrow> stranded k w (f s x)" "stranded k w st"
  shows "stranded k w (foldl f st xs)"
  using assms by (induction xs arbitrary: st) auto

lemma timeouts_In: "c \<in> set cs \<Longrightarrow> set (timeouts [c]) \<subseteq> set (timeouts cs)"
  by (induction cs rule: timeouts.induct) auto

lemma stranded_step:
  assumes "life_ok st" "stranded k w st" shows "stranded k w (life_step idleMs e st)"
proof (cases e)
  case (Call k')
  then show ?thesis using assms(2) begin_other [of k' k w st]
    by (cases "k' = k") (auto simp: stranded_def invoke_call_def split: option.split)
next
  case Spawned
  note c = calls_of [OF assms(1), unfolded calls_ok_def]
  have "calls st k \<noteq> Some Waiting" using assms(2) by (simp add: stranded_def)
  then have k: "k \<notin> set (waiting st)" using c by blast
  let ?n = "next_worker st"
  let ?x = "\<lparr>w_live = True, w_dying = False, w_pending = [], w_after = []\<rparr>"
  have "stranded k w (set_worker ?n ?x (st\<lparr>spawning := False, waiting := [], instance_of := Some ?n, next_worker := ?n + 1\<rparr>))"
    using assms(2) by (auto simp: stranded_def)
  then show ?thesis using Spawned assms(2) k by (auto simp: spawned_def Let_def intro!: fold_stranded begin_other)
next
  case (Spawn_failed e')
  note c = calls_of [OF assms(1), unfolded calls_ok_def]
  have "calls st k \<noteq> Some Waiting" using assms(2) by (simp add: stranded_def)
  then have k: "k \<notin> set (waiting st)" using c by blast
  have "stranded k w (foldl (\<lambda>st k. set_call k (Settled (Inl e')) st) (st\<lparr>spawning := False, waiting := []\<rparr>) (waiting st))"
    by (rule fold_stranded) (use assms(2) k in \<open>auto simp: stranded_def\<close>)
  then show ?thesis using Spawn_failed assms(2) by (simp add: spawn_failed_def)
next
  case (Answer k' r)
  then show ?thesis using assms(2)
    by (cases "k' = k") (auto simp: running_on_def answer_def stranded_def Let_def split: option.split call_status.split)
next
  case (Timeout k')
  show ?thesis
  proof (cases "running_on k' st")
    case (Some v)
    show ?thesis
    proof (cases "k' \<in> set (w_pending (workers st v))")
      case True
      then have ne: "k' \<noteq> k" using assms(2) Some by (auto simp: stranded_def running_on_def)
      then have "stranded k w (set_call k' (Stopping v) st)" using assms(2) by (simp add: stranded_def)
      then show ?thesis using Timeout Some True ne
        by (simp add: time_out_def terminate_then_def terminate_stranded continue_stranded)
    qed (use Timeout Some assms(2) in \<open>simp add: time_out_def\<close>)
  qed (use Timeout assms(2) in simp)
next
  case (Exit v)
  let ?s = "set_worker v ((workers st v)\<lparr>w_live := False, w_pending := [], w_after := []\<rparr>) st"
  have s: "stranded k w ?s" using assms(2) by (auto simp: stranded_def)
  have p: "k \<notin> set (w_pending (workers st v))" using assms worker_of [OF assms(1), of v] by (auto simp: stranded_def worker_ok_def Let_def)
  have t: "k \<notin> set (timeouts (w_after (workers st v)))" using assms worker_of [OF assms(1), of v] by (auto simp: stranded_def worker_ok_def Let_def)
  have f: "stranded k w (foldl (\<lambda>st k. finish_call idleMs (Inl worker_exited) k st) ?s (w_pending (workers st v)))"
    by (rule fold_stranded [OF finish_other s]) (use p in auto)
  have "stranded k w (foldl (\<lambda>st c. continue idleMs c st) (foldl (\<lambda>st k. finish_call idleMs (Inl worker_exited) k st) ?s
      (w_pending (workers st v))) (w_after (workers st v)))"
  proof (rule fold_stranded [OF _ f])
    fix s c assume "c \<in> set (w_after (workers st v))" and "stranded k w s"
    then show "stranded k w (continue idleMs c s)" using timeouts_In [of c] t by (intro continue_stranded) blast+
  qed
  then show ?thesis using Exit assms(2) by (simp add: worker_exit_def Let_def)
next
  case Idle
  have "stranded k w (st\<lparr>idle_armed := False\<rparr>)" "stranded k w (st\<lparr>idle_armed := False, instance_of := None\<rparr>)"
    using assms(2) by (simp_all add: stranded_def)
  then show ?thesis using Idle assms(2) by (auto simp: idle_fires_def Let_def terminate_stranded split: option.split)
next
  case (Enable b)
  then show ?thesis using assms(2) by (simp add: enable_life_def stranded_def)
next
  case Disable
  have "stranded k w (st\<lparr>enabled := False, idle_armed := False\<rparr>)" using assms(2) by (simp add: stranded_def)
  then show ?thesis using Disable assms(2)
    by (auto simp: disable_life_def Let_def terminate_then_def terminate_stranded continue_stranded split: option.split)
next
  case Stop
  have "stranded k w (st\<lparr>idle_armed := False\<rparr>)" "stranded k w (st\<lparr>idle_armed := False, known := False\<rparr>)"
    using assms(2) by (simp_all add: stranded_def)
  then show ?thesis using Stop assms(2)
    by (auto simp: stop_life_def Let_def terminate_then_def terminate_stranded continue_stranded split: option.split)
qed

lemma stranded_run: "life_ok st \<Longrightarrow> stranded k w st \<Longrightarrow> stranded k w (life_run idleMs es st)"
  unfolding life_run_def by (induction es arbitrary: st) (simp_all add: life_step_ok stranded_step)

section \<open>Properties\<close>

text \<open>C23: In every order of events at most one worker of a plugin can take calls, and it is the one of the record; calls share
  one spawn; the count of running calls is exact, so the idle timer is set only while no call runs; a call is pending on the
  current worker only.\<close>

theorem one_worker:
  assumes "st = life_run idleMs es (registered b)"
  shows "(\<forall>w. w_live (workers st w) \<and> \<not> w_dying (workers st w) \<longrightarrow> instance_of st = Some w \<and> \<not> spawning st) \<and>
    inflight st = int (card {k. \<exists>w. calls st k = Some (Running w) \<or> calls st k = Some (Stopping w)}) \<and>
    (idle_armed st \<longrightarrow> inflight st = 0) \<and>
    (\<forall>w k. k \<in> set (w_pending (workers st w)) \<longrightarrow> instance_of st = Some w \<and> calls st k = Some (Running w))"
proof -
  have ok: "life_ok st" unfolding assms by (rule life_run_ok [OF registered_ok])
  note c = calls_of [OF ok, unfolded calls_ok_def]
  have w: "instance_of st = Some w \<and> \<not> spawning st" if "w_live (workers st w)" "\<not> w_dying (workers st w)" for w
    using worker_of [OF ok, of w] that c by (auto simp: worker_ok_def Let_def)
  have p: "instance_of st = Some w \<and> calls st k = Some (Running w)" if "k \<in> set (w_pending (workers st w))" for w k
    using worker_of [OF ok, of w] that pending_active [OF ok that] by (simp add: worker_ok_def Let_def)
  have n: "inflight st = int (card {k. \<exists>w. calls st k = Some (Running w) \<or> calls st k = Some (Stopping w)})"
    using c by (simp add: active_def)
  have "idle_armed st \<longrightarrow> inflight st = 0" using c by auto
  then show ?thesis using w n p by blast
qed

lemma one_worker_witness:
  "inflight (life_run 9 [Call 0, Call 1, Spawned, Answer 1 (Inr None)] (registered True)) = 1 \<and>
   instance_of (life_run 9 [Call 0, Call 1, Spawned, Answer 1 (Inr None)] (registered True)) = Some 0"
proof -
  let ?st = "life_run 9 [Call 0, Call 1, Spawned, Answer 1 (Inr None)] (registered True)"
  have s: "w_live (workers ?st 0)" "\<not> w_dying (workers ?st 0)" "calls ?st 0 = Some (Running 0)" "calls ?st 1 = Some (Settled (Inr None))"
    "calls ?st k = None" if "1 < k" for k
    using that by (auto simp: life_run_def registered_def invoke_call_def set_call_def spawned_def set_worker_def begin_call_def
        answer_def running_on_def finish_call_def armIdle_def Let_def no_worker_def)
  have "{k. \<exists>w. calls ?st k = Some (Running w) \<or> calls ?st k = Some (Stopping w)} = {0}"
  proof -
    have "(\<exists>w. calls ?st k = Some (Running w) \<or> calls ?st k = Some (Stopping w)) \<longleftrightarrow> k = 0" for k
      using s(3-5) [of 2] s(5) [of k] by (cases "k = 0"; cases "k = 1") auto
    then show ?thesis by auto
  qed
  then show ?thesis using one_worker [OF refl, of 9 "[Call 0, Call 1, Spawned, Answer 1 (Inr None)]" True] s(1,2) [of 2] by simp
qed

text \<open>C22: One timeout strands the other calls. When a call times out, \<open>terminate\<close> clears the timers of the other calls on
  that worker and forgets them without an answer: whatever happens later, such a call is never settled, it is counted as
  running for ever, and so the idle timer of the plugin is never set again.\<close>

theorem timeout_strands_calls:
  assumes "st = life_run idleMs es (registered b)" "calls st k = Some (Running w)" "calls st k' = Some (Running w)" "k \<noteq> k'"
    and "k \<in> set (w_pending (workers st w))" "w_live (workers st w)"
  shows "calls (life_run idleMs fs (life_step idleMs (Timeout k) st)) k' = Some (Running w) \<and>
    0 < inflight (life_run idleMs fs (life_step idleMs (Timeout k) st)) \<and>
    \<not> idle_armed (life_run idleMs fs (life_step idleMs (Timeout k) st))"
proof -
  let ?st = "life_step idleMs (Timeout k) st"
  have ok: "life_ok st" unfolding assms(1) by (rule life_run_ok [OF registered_ok])
  have "stranded k' w ?st"
    using assms(2-6) by (simp add: running_on_def time_out_def terminate_then_def terminate_def stranded_def Let_def)
  from stranded_run [OF life_step_ok [OF ok] this, of idleMs fs]
  have s: "calls (life_run idleMs fs ?st) k' = Some (Running w)" by (simp add: stranded_def)
  have "life_ok (life_run idleMs fs ?st)" by (rule life_run_ok [OF life_step_ok [OF ok]])
  note c = calls_of [OF this, unfolded calls_ok_def]
  have "k' \<in> active (life_run idleMs fs ?st)" using s by (auto simp: active_def)
  then show ?thesis using s c card_gt_0_iff [of "active (life_run idleMs fs ?st)"] by auto
qed

lemma timeout_strands_calls_witness:
  "calls (life_run 9 [Exit 0, Call 2, Spawned, Answer 2 (Inr None), Idle]
     (life_step 9 (Timeout 0) (life_run 9 [Call 0, Call 1, Spawned] (registered True)))) 1 = Some (Running 0)"
proof -
  let ?st = "life_run 9 [Call 0, Call 1, Spawned] (registered True)"
  have "calls ?st 0 = Some (Running 0)" "calls ?st 1 = Some (Running 0)" "0 \<in> set (w_pending (workers ?st 0))" "w_live (workers ?st 0)"
    by (simp_all add: life_run_def registered_def invoke_call_def set_call_def spawned_def set_worker_def begin_call_def Let_def no_worker_def)
  then show ?thesis using timeout_strands_calls [OF refl, of 9 "[Call 0, Call 1, Spawned]" True 0 0 1] by simp
qed

text \<open>A call that no other call runs beside is always settled: by its answer, or by its timeout and the exit of the worker.\<close>

theorem lone_call_settles:
  assumes "st = life_run idleMs es (registered b)" "k \<in> set (w_pending (workers st w))"
  shows "\<exists>r. calls (life_run idleMs (if w_live (workers st w) then [Timeout k, Exit w] else [Timeout k]) st) k = Some (Settled r)"
proof -
  have ok: "life_ok st" unfolding assms(1) by (rule life_run_ok [OF registered_ok])
  have r: "calls st k = Some (Running w)" using worker_of [OF ok, of w] assms(2) by (simp add: worker_ok_def Let_def)
  have fin: "calls (continue idleMs (After_timeout k) s) k = Some (Settled (Inl timed_out))" for s by (simp add: continue_def)
  show ?thesis
  proof (cases "w_live (workers st w)")
    case True
    then show ?thesis using assms(2) r fin
      by (auto simp: life_run_def running_on_def time_out_def terminate_then_def terminate_def worker_exit_def Let_def)
  next
    case False
    then show ?thesis using assms(2) r
      by (simp add: life_run_def running_on_def time_out_def terminate_then_def continue_def)
  qed
qed

text \<open>A plugin that is disabled while its first worker is starting: the worker runs all the same.\<close>

theorem disable_misses_spawn:
  assumes "spawning st" "known st" "instance_of st = None"
  shows "let st' = life_run idleMs [Disable, Spawned] st in \<not> enabled st' \<and>
    (\<exists>w. instance_of st' = Some w \<and> w_live (workers st' w) \<and> \<not> w_dying (workers st' w))"
proof -
  have f: "enabled (foldl (\<lambda>st k. begin_call n k st) s ks) = enabled s \<and> instance_of (foldl (\<lambda>st k. begin_call n k st) s ks) = instance_of s \<and>
      w_live (workers (foldl (\<lambda>st k. begin_call n k st) s ks) n) = w_live (workers s n) \<and>
      w_dying (workers (foldl (\<lambda>st k. begin_call n k st) s ks) n) = w_dying (workers s n)" for n ks s
    by (induction ks arbitrary: s) (simp_all add: begin_call_def)
  show ?thesis using assms f by (simp add: life_run_def disable_life_def spawned_def Let_def)
qed

end
